(* ===== verification/Ext4_Prelude.thy ===== *)
theory Ext4_Prelude
  imports Main "HOL-Library.Word"
begin

text \<open>
  The vocabulary every theory of the library shares: the machine-integer types
  of the Rust sources as words, the error numbers the file system returns, the
  result type \<open>errno + 'a\<close> of fallible operations with its sequencing operator,
  and the generic facts on lists and results that the component proofs use.
\<close>

unbundle bit_operations_syntax

section \<open>Machine integers\<close>

type_synonym u8 = "8 word"
type_synonym u16 = "16 word"
type_synonym u32 = "32 word"
type_synonym u64 = "64 word"
type_synonym bytes = "u8 list"

text \<open>One ext4 block, the unit of every device access of the file system.\<close>

definition BLOCK_SIZE :: nat where
  "BLOCK_SIZE = 4096"

section \<open>Errors and results\<close>

text \<open>\<open>PANIC\<close> is not an error number: it stands for a Rust panic, an index out of range, which
  ends an operation the way an early return does.\<close>

datatype errno =
    EIO | EINVAL | ENOSPC | EUCLEAN | EFBIG | EROFS | EBUSY | EDEADLK | EEXIST
  | ENOENT | ENOTDIR | EISDIR | ENAMETOOLONG | ENOTEMPTY | EMLINK | EOPNOTSUPP
  | EPERM | EOVERFLOW | ESTALE | PANIC

type_synonym 'a result = "errno + 'a"

abbreviation Ok :: "'a \<Rightarrow> 'a result" where
  "Ok v \<equiv> Inr v"

abbreviation Err :: "errno \<Rightarrow> 'a result" where
  "Err e \<equiv> Inl e"

text \<open>Sequencing with the early return of Rust's \<open>?\<close> operator.\<close>

definition and_then :: "'a result \<Rightarrow> ('a \<Rightarrow> 'b result) \<Rightarrow> 'b result" where
  "and_then r f = (case r of Inl e \<Rightarrow> Inl e | Inr v \<Rightarrow> f v)"

text \<open>A guard clause: \<open>if c { return Err(e); }\<close>.\<close>

definition err_if :: "bool \<Rightarrow> errno \<Rightarrow> unit result" where
  "err_if c e = (if c then Inl e else Inr ())"

named_theorems result_simps \<open>evaluation rules of the result combinators\<close>

lemma and_then_Inl [simp, result_simps]: "and_then (Inl e) f = Inl e"
  by (simp add: and_then_def)

lemma and_then_Inr [simp, result_simps]: "and_then (Inr v) f = f v"
  by (simp add: and_then_def)

lemma and_then_eq_Inr [simp, result_simps]:
  "and_then r f = Inr y \<longleftrightarrow> (\<exists>v. r = Inr v \<and> f v = Inr y)"
  by (cases r) simp_all

lemma and_then_eq_Inl [result_simps]:
  "and_then r f = Inl e \<longleftrightarrow> r = Inl e \<or> (\<exists>v. r = Inr v \<and> f v = Inl e)"
  by (cases r) simp_all

lemma and_then_assoc: "and_then (and_then r f) g = and_then r (\<lambda>v. and_then (f v) g)"
  by (cases r) simp_all

lemma and_then_cong [fundef_cong]:
  "r = r' \<Longrightarrow> (\<And>v. r' = Inr v \<Longrightarrow> f v = g v) \<Longrightarrow> and_then r f = and_then r' g"
  by (cases r') (auto simp: and_then_def)

lemma err_if_eq_Inr [simp, result_simps]: "err_if c e = Inr u \<longleftrightarrow> \<not> c"
  by (simp add: err_if_def)

lemma err_if_eq_Inl [simp, result_simps]: "err_if c e = Inl e' \<longleftrightarrow> c \<and> e' = e"
  by (auto simp: err_if_def)

lemma err_if_False [simp, result_simps]: "err_if False e = Inr ()"
  by (simp add: err_if_def)

lemma err_if_True [simp, result_simps]: "err_if True e = Inl e"
  by (simp add: err_if_def)

section \<open>Lists\<close>

lemma foldl_append_step: "foldl f s (xs @ [x]) = f (foldl f s xs) x"
  by simp

lemma list_all_nth_iff: "list_all P xs \<longleftrightarrow> (\<forall>i<length xs. P (xs ! i))"
  by (simp add: list_all_length)

section \<open>Words\<close>

lemma unat_bound: "unat (w :: 'a::len word) < 2 ^ LENGTH('a)"
  by (rule unsigned_less)

lemma unat_ucast_up:
  "LENGTH('a::len) \<le> LENGTH('b::len) \<Longrightarrow> unat (ucast (w :: 'a word) :: 'b word) = unat w"
  by (simp add: unsigned_ucast_eq take_bit_nat_eq_self_iff) (meson less_le_trans one_le_numeral power_increasing unsigned_less)

lemma unat_ucast_small:
  "unat w < 2 ^ LENGTH('b) \<Longrightarrow> unat (ucast (w :: 'a::len word) :: 'b::len word) = unat w"
  by (simp add: unsigned_ucast_eq take_bit_nat_eq_self_iff)

lemma unat_add_small:
  "unat a + unat b < 2 ^ LENGTH('a) \<Longrightarrow> unat (a + b) = unat a + unat b" for a b :: "'a::len word"
  by (simp add: unat_word_ariths)

lemma ucast_word_of_nat: "ucast w = (word_of_nat (unat w) :: 'b::len word)" for w :: "'a::len word"
  by (simp add: word_unat_eq_iff unsigned_of_nat unsigned_ucast_eq)

lemma ucast_diff:
  fixes v w :: "'a::len word"
  assumes "unat v = i" "unat w = j" "j \<le> i" "i - j < 2 ^ LENGTH('b)"
  shows "unat (ucast (v - w) :: 'b::len word) = i - j" "ucast (v - w) = (word_of_nat (i - j) :: 'b word)"
proof -
  have d: "unat (v - w) = i - j" using assms(1-3) by (simp add: unat_sub word_le_nat_alt)
  then show "unat (ucast (v - w) :: 'b word) = i - j" using assms(4) by (subst unat_ucast_small) simp_all
  show "ucast (v - w) = (word_of_nat (i - j) :: 'b word)" unfolding ucast_word_of_nat[of "v - w"] d ..
qed

lemma unat_mult_small:
  "unat a * unat b < 2 ^ LENGTH('a) \<Longrightarrow> unat (a * b) = unat a * unat b" for a b :: "'a::len word"
  by (simp add: unat_word_ariths)

lemma unat_sub_small: "b \<le> a \<Longrightarrow> unat (a - b) = unat a - unat b" for a b :: "'a::len word"
  by (simp add: unat_sub)

lemma unat_word_of_nat_small: "n < 2 ^ LENGTH('a) \<Longrightarrow> unat (word_of_nat n :: 'a::len word) = n"
  by (simp add: unsigned_of_nat take_bit_nat_eq_self_iff)

end
