(* ===== verification/Tid.thy ===== *)
theory Tid
  imports Ext4_Prelude
begin

text \<open>
  Journal transaction identifiers: the wrapping \<open>u32\<close> sequence numbers of
  \<open>journal/mod.rs\<close> (struct \<open>Tid\<close>), their successor and predecessor, and the
  sign-reinterpreting comparison \<open>geq\<close>.  The comparison is characterised by the
  wrapped distance, and shown to agree with the order of the unwrapped sequence
  inside any window shorter than half of the identifier space.
\<close>

type_synonym tid = u32

definition tid_next :: "tid \<Rightarrow> tid" where
  "tid_next t = t + 1"

definition tid_prev :: "tid \<Rightarrow> tid" where
  "tid_prev t = t - 1"

text \<open>\<open>(a.wrapping_sub(b) as i32) >= 0\<close>.\<close>

definition tid_geq :: "tid \<Rightarrow> tid \<Rightarrow> bool" where
  "tid_geq a b \<longleftrightarrow> 0 \<le> sint (a - b)"

named_theorems tid_simps \<open>arithmetic of transaction identifiers\<close>

lemma tid_prev_next [simp, tid_simps]: "tid_prev (tid_next t) = t" "tid_next (tid_prev t) = t"
  by (simp_all add: tid_next_def tid_prev_def)

lemma even_below_two_iff: "0 \<le> q \<Longrightarrow> q < 2 \<Longrightarrow> even q \<longleftrightarrow> q = 0" for q :: int
  by presburger

lemma sint_nonneg_iff: "0 \<le> sint (w :: u32) \<longleftrightarrow> unat w < 2 ^ 31"
proof -
  have "0 \<le> sint w \<longleftrightarrow> even (uint w div 2 ^ 31)"
    by (simp add: sint_uint bit_iff_odd)
  also have "\<dots> \<longleftrightarrow> uint w div 2 ^ 31 = 0"
    using uint_lt2p[of w] by (intro even_below_two_iff) (simp_all add: pos_imp_zdiv_nonneg_iff)
  also have "\<dots> \<longleftrightarrow> uint w < 2 ^ 31"
    using uint_ge_0[of w] by (auto simp: zdiv_eq_0_iff)
  also have "\<dots> \<longleftrightarrow> unat w < 2 ^ 31"
    unfolding unat_eq_nat_uint using uint_ge_0[of w] by (simp only: nat_less_iff) simp
  finally show ?thesis .
qed

lemma tid_geq_iff: "tid_geq a b \<longleftrightarrow> unat (a - b) < 2 ^ 31"
  by (simp add: tid_geq_def sint_nonneg_iff)

lemma tid_geq_refl [simp, tid_simps]: "tid_geq a a"
  by (simp add: tid_geq_iff)

lemma unat_word_of_nat_u32: "n < 2 ^ 32 \<Longrightarrow> unat (word_of_nat n :: u32) = n"
  by (simp add: unat_of_nat)

lemma unat_uminus_u32: "w \<noteq> 0 \<Longrightarrow> unat (- w :: u32) = 2 ^ 32 - unat w"
proof -
  assume "w \<noteq> 0"
  then have "0 < unat w" by (simp add: unat_gt_0)
  moreover have "(unat w + unat (- w)) mod 2 ^ 32 = 0"
    using unat_word_ariths(1)[of w "- w"] by simp
  moreover have "unat w < 2 ^ 32" "unat (- w) < 2 ^ 32"
    using unsigned_less[of w, where 'a = nat] unsigned_less[of "- w", where 'a = nat] by simp_all
  ultimately show ?thesis
    using mod_if[of "unat w + unat (- w)" "2 ^ 32"] by (simp split: if_splits)
qed

text \<open>Two distinct identifiers compare in at least one direction, except when they are
  exactly half of the identifier space apart: then both comparisons are false.\<close>

lemma tid_geq_total: "a - b \<noteq> 2 ^ 31 \<Longrightarrow> tid_geq a b \<or> tid_geq b a"
proof (cases "a = b")
  case False
  assume half: "a - b \<noteq> 2 ^ 31"
  have "unat (b - a) = 2 ^ 32 - unat (a - b)"
    using unat_uminus_u32[of "a - b"] False by simp
  moreover have "unat (a - b) \<noteq> 2 ^ 31"
    using half by (metis unat_word_of_nat_u32 of_nat_numeral of_nat_power word_unat_eq_iff
        numeral_less_iff power_strict_increasing_iff one_less_numeral_iff semiring_norm(76-81))
  ultimately show ?thesis
    unfolding tid_geq_iff using unsigned_less[of "a - b", where 'a = nat] by (simp, arith)
qed simp

lemma tid_geq_add_iff:
  assumes "i < 2 ^ 31" "j < 2 ^ 31"
  shows "tid_geq (t + word_of_nat i) (t + word_of_nat j) \<longleftrightarrow> j \<le> i"
proof (cases "j \<le> i")
  case True
  then have "t + word_of_nat i - (t + word_of_nat j) = (word_of_nat (i - j) :: u32)"
    by (simp add: of_nat_diff)
  then show ?thesis
    using True assms by (simp add: tid_geq_iff unat_word_of_nat_u32 del: of_nat_diff)
next
  case False
  then have "t + word_of_nat i - (t + word_of_nat j) = - (word_of_nat (j - i) :: u32)"
    by (simp add: of_nat_diff)
  moreover have "(word_of_nat (j - i) :: u32) \<noteq> 0"
  proof
    assume "(word_of_nat (j - i) :: u32) = 0"
    then have "unat (word_of_nat (j - i) :: u32) = 0" by (simp only: unat_0)
    then show False using False assms by (simp add: unat_word_of_nat_u32 del: of_nat_diff)
  qed
  ultimately show ?thesis
    using False assms by (simp add: tid_geq_iff unat_uminus_u32 unat_word_of_nat_u32 del: of_nat_diff)
qed

end
