(* ===== verification/Btree_Map.thy ===== *)
theory Btree_Map
  imports Ext4_Prelude
begin

text \<open>
  The ordered containers of the Rust standard library that the journal keeps its
  captures, revokes and pins in: \<open>BTreeMap\<close> as an association list in strictly
  ascending key order and \<open>BTreeSet\<close> as a strictly ascending list.  Iteration
  order is key order, which the commit path relies on.  The locale \<open>ordered_map\<close>
  states the contract its clients use; the association lists satisfy it.
\<close>

section \<open>Operations\<close>

fun bt_get :: "('k \<times> 'v) list \<Rightarrow> 'k \<Rightarrow> 'v option" where
  "bt_get [] k = None"
| "bt_get ((a, v) # m) k = (if k = a then Some v else bt_get m k)"

fun bt_insert :: "'k::linorder \<Rightarrow> 'v \<Rightarrow> ('k \<times> 'v) list \<Rightarrow> ('k \<times> 'v) list" where
  "bt_insert k v [] = [(k, v)]"
| "bt_insert k v ((a, w) # m) =
     (if k = a then (k, v) # m
      else if k < a then (k, v) # (a, w) # m
      else (a, w) # bt_insert k v m)"

definition bt_remove :: "'k \<Rightarrow> ('k \<times> 'v) list \<Rightarrow> ('k \<times> 'v) list" where
  "bt_remove k m = filter (\<lambda>(a, _). a \<noteq> k) m"

definition bt_retain :: "('k \<Rightarrow> 'v \<Rightarrow> bool) \<Rightarrow> ('k \<times> 'v) list \<Rightarrow> ('k \<times> 'v) list" where
  "bt_retain p m = filter (\<lambda>(a, v). p a v) m"

fun bs_insert :: "'k::linorder \<Rightarrow> 'k list \<Rightarrow> 'k list" where
  "bs_insert k [] = [k]"
| "bs_insert k (a # s) = (if k = a then a # s else if k < a then k # a # s else a # bs_insert k s)"

definition bs_remove :: "'k \<Rightarrow> 'k list \<Rightarrow> 'k list" where
  "bs_remove k s = filter (\<lambda>a. a \<noteq> k) s"

definition bt_ok :: "('k::linorder \<times> 'v) list \<Rightarrow> bool" where
  "bt_ok m \<longleftrightarrow> sorted_wrt (<) (map fst m)"

definition bs_ok :: "'k::linorder list \<Rightarrow> bool" where
  "bs_ok s \<longleftrightarrow> sorted_wrt (<) s"

section \<open>The ordered-map contract\<close>

locale ordered_map =
  fixes get :: "'m \<Rightarrow> 'k::linorder \<Rightarrow> 'v option"
    and insert :: "'k \<Rightarrow> 'v \<Rightarrow> 'm \<Rightarrow> 'm"
    and remove :: "'k \<Rightarrow> 'm \<Rightarrow> 'm"
    and entries :: "'m \<Rightarrow> ('k \<times> 'v) list"
    and invar :: "'m \<Rightarrow> bool"
  assumes get_insert: "get (insert k v m) j = (if j = k then Some v else get m j)"
    and get_remove: "get (remove k m) j = (if j = k then None else get m j)"
    and invar_insert: "invar m \<Longrightarrow> invar (insert k v m)"
    and invar_remove: "invar m \<Longrightarrow> invar (remove k m)"
    and entries_sorted: "invar m \<Longrightarrow> sorted_wrt (<) (map fst (entries m))"
    and entries_get: "invar m \<Longrightarrow> (k, v) \<in> set (entries m) \<longleftrightarrow> get m k = Some v"
begin

lemma keys_get: "invar m \<Longrightarrow> k \<in> fst ` set (entries m) \<longleftrightarrow> get m k \<noteq> None"
  by (auto simp: image_iff Bex_def entries_get)

lemma entries_distinct: "invar m \<Longrightarrow> distinct (map fst (entries m))"
  using entries_sorted[of m] by (simp add: strict_sorted_iff)

lemma insert_then_remove: "get (remove k (insert k v m)) = get (remove k m)"
  by (auto simp: get_remove get_insert)

lemma remove_length:
  assumes "invar m"
  shows "length (entries (remove k m)) = length (entries m) - (if get m k = None then 0 else 1)"
proof -
  have inv: "invar (remove k m)" using invar_remove[OF assms] .
  have card_len: "card (fst ` set (entries x)) = length (entries x)" if "invar x" for x
    using entries_distinct[OF that] by (metis distinct_card length_map list.set_map)
  have "fst ` set (entries (remove k m)) = fst ` set (entries m) - {k}"
    by (rule set_eqI) (simp add: keys_get[OF inv] keys_get[OF assms] get_remove)
  then have "length (entries (remove k m)) = card (fst ` set (entries m) - {k})"
    using card_len[OF inv] by simp
  then show ?thesis
    using card_len[OF assms] keys_get[OF assms, of k] by (simp add: card_Diff_singleton_if)
qed

lemma insert_length:
  assumes "invar m"
  shows "length (entries (insert k v m)) = length (entries m) + (if get m k = None then 1 else 0)"
proof -
  have inv: "invar (insert k v m)" using invar_insert[OF assms] .
  have card_len: "card (fst ` set (entries x)) = length (entries x)" if "invar x" for x
    using entries_distinct[OF that] by (metis distinct_card length_map list.set_map)
  have "fst ` set (entries (insert k v m)) = Set.insert k (fst ` set (entries m))"
    by (rule set_eqI) (simp add: keys_get[OF inv] keys_get[OF assms] get_insert)
  then have "length (entries (insert k v m)) = card (Set.insert k (fst ` set (entries m)))"
    using card_len[OF inv] by simp
  then show ?thesis
    using card_len[OF assms] keys_get[OF assms, of k] by (simp add: card_insert_if)
qed

end

section \<open>The association lists satisfy the contract\<close>

named_theorems btree_simps \<open>lookup, invariant and membership laws of the ordered containers\<close>

lemma bt_get_insert [simp, btree_simps]:
  "bt_get (bt_insert k v m) j = (if j = k then Some v else bt_get m j)"
  by (induction k v m rule: bt_insert.induct) auto

lemma bt_get_remove [simp, btree_simps]:
  "bt_get (bt_remove k m) j = (if j = k then None else bt_get m j)"
  by (induction m) (auto simp: bt_remove_def)

lemma bt_insert_keys: "fst ` set (bt_insert k v m) = insert k (fst ` set m)"
  by (induction k v m rule: bt_insert.induct) auto

lemma bt_ok_Nil [simp, btree_simps]: "bt_ok []"
  by (simp add: bt_ok_def)

lemma bt_ok_insert [simp, btree_simps]: "bt_ok m \<Longrightarrow> bt_ok (bt_insert k v m)"
proof (induction k v m rule: bt_insert.induct)
  case (2 k v a w m)
  then show ?case using bt_insert_keys[of k v m] by (auto simp: bt_ok_def)
qed (simp add: bt_ok_def)

lemma bt_ok_filter: "bt_ok m \<Longrightarrow> bt_ok (filter p m)"
  by (auto simp: bt_ok_def sorted_wrt_map sorted_wrt_filter)

lemma bt_ok_remove [simp, btree_simps]: "bt_ok m \<Longrightarrow> bt_ok (bt_remove k m)"
  by (simp add: bt_remove_def bt_ok_filter)

lemma bt_ok_retain [simp, btree_simps]: "bt_ok m \<Longrightarrow> bt_ok (bt_retain p m)"
  by (simp add: bt_retain_def bt_ok_filter)

lemma bt_get_in: "bt_ok m \<Longrightarrow> (k, v) \<in> set m \<longleftrightarrow> bt_get m k = Some v"
proof (induction m)
  case (Cons x m)
  then show ?case by (cases x) (force simp: bt_ok_def)
qed simp

lemma bt_ball: "bt_ok m \<Longrightarrow> (\<forall>(k, v)\<in>set m. P k v) \<longleftrightarrow> (\<forall>k v. bt_get m k = Some v \<longrightarrow> P k v)"
  by (simp add: Ball_def bt_get_in)

interpretation bt: ordered_map bt_get bt_insert bt_remove "\<lambda>m. m" bt_ok
  by unfold_locales (auto simp: bt_get_in simp flip: bt_ok_def)

lemma bt_get_retain:
  assumes "bt_ok m"
  shows "bt_get (bt_retain p m) k =
    (case bt_get m k of None \<Rightarrow> None | Some v \<Rightarrow> if p k v then Some v else None)"
proof (cases "bt_get m k")
  case None
  then have "k \<notin> fst ` set (bt_retain p m)"
    using bt.keys_get[OF assms, of k] by (auto simp: bt_retain_def)
  then show ?thesis
    using None bt.keys_get[of "bt_retain p m" k] assms by auto
next
  case (Some v)
  then have mem: "(k, v) \<in> set m" using bt_get_in[OF assms] by simp
  have "bt_get (bt_retain p m) k = Some w \<longleftrightarrow> w = v \<and> p k v" for w
    using bt_get_in[OF bt_ok_retain[OF assms, of p], of k w] bt_get_in[OF assms, of k w] Some
    by (auto simp: bt_retain_def)
  then show ?thesis using Some by (cases "bt_get (bt_retain p m) k") auto
qed

lemma set_bs_insert [simp, btree_simps]: "set (bs_insert k s) = insert k (set s)"
  by (induction k s rule: bs_insert.induct) auto

lemma set_bs_remove [simp, btree_simps]: "set (bs_remove k s) = set s - {k}"
  by (auto simp: bs_remove_def)

lemma bs_ok_Nil [simp, btree_simps]: "bs_ok []"
  by (simp add: bs_ok_def)

lemma bs_ok_insert [simp, btree_simps]: "bs_ok s \<Longrightarrow> bs_ok (bs_insert k s)"
  by (induction k s rule: bs_insert.induct) (auto simp: bs_ok_def)

lemma bs_ok_remove [simp, btree_simps]: "bs_ok s \<Longrightarrow> bs_ok (bs_remove k s)"
  by (simp add: bs_ok_def bs_remove_def sorted_wrt_filter)

end
