(* ===== verification/Bytes.thy ===== *)
theory Bytes
  imports Ext4_Prelude
begin

text \<open>
  Byte buffers.  Integers cross the disk boundary as little-endian (ext4) or
  big-endian (JBD2) byte runs; blocks are updated in place by copying a run of
  bytes to an offset.  The encoders are generic in the word width, so one round
  trip serves \<open>u16\<close>, \<open>u32\<close> and \<open>u64\<close>; the slice laws say which bytes a copy
  touches and which it leaves alone.
\<close>

unbundle bit_operations_syntax

section \<open>Integers as byte runs\<close>

fun word_to_le :: "nat \<Rightarrow> 'a::len word \<Rightarrow> bytes" where
  "word_to_le 0 w = []"
| "word_to_le (Suc n) w = ucast w # word_to_le n (drop_bit 8 w)"

fun word_of_le :: "bytes \<Rightarrow> 'a::len word" where
  "word_of_le [] = 0"
| "word_of_le (b # bs) = ucast b OR push_bit 8 (word_of_le bs)"

definition word_to_be :: "nat \<Rightarrow> 'a::len word \<Rightarrow> bytes" where
  "word_to_be n w = rev (word_to_le n w)"

definition word_of_be :: "bytes \<Rightarrow> 'a::len word" where
  "word_of_be bs = word_of_le (rev bs)"

abbreviation le16 :: "u16 \<Rightarrow> bytes" where "le16 \<equiv> word_to_le 2"
abbreviation le32 :: "u32 \<Rightarrow> bytes" where "le32 \<equiv> word_to_le 4"
abbreviation le64 :: "u64 \<Rightarrow> bytes" where "le64 \<equiv> word_to_le 8"
abbreviation be16 :: "u16 \<Rightarrow> bytes" where "be16 \<equiv> word_to_be 2"
abbreviation be32 :: "u32 \<Rightarrow> bytes" where "be32 \<equiv> word_to_be 4"
abbreviation be64 :: "u64 \<Rightarrow> bytes" where "be64 \<equiv> word_to_be 8"

named_theorems bytes_simps \<open>lengths, round trips and slice laws of byte buffers\<close>

lemma length_word_to_le [simp, bytes_simps]: "length (word_to_le n w) = n"
  by (induction n arbitrary: w) simp_all

lemma length_word_to_be [simp, bytes_simps]: "length (word_to_be n w) = n"
  by (simp add: word_to_be_def)

lemma bit_word_of_le:
  "bit (word_of_le bs :: 'a::len word) k \<longleftrightarrow>
     k < LENGTH('a) \<and> k < 8 * length bs \<and> bit (bs ! (k div 8)) (k mod 8)"
proof (induction bs arbitrary: k)
  case Nil
  then show ?case by simp
next
  case (Cons b bs)
  show ?case
  proof (cases "k < 8")
    case True
    then show ?thesis
      by (auto simp: bit_or_iff bit_ucast_iff bit_push_bit_iff)
  next
    case False
    then have "k div 8 = Suc ((k - 8) div 8)" "k mod 8 = (k - 8) mod 8"
      by (simp_all add: le_div_geq le_mod_geq)
    moreover have "\<not> bit b k"
      using False bit_imp_le_length[of b k] by auto
    ultimately show ?thesis
      using False Cons.IH[of "k - 8"]
      by (auto simp: bit_or_iff bit_ucast_iff bit_push_bit_iff)
  qed
qed

lemma nth_word_to_le:
  "i < n \<Longrightarrow> word_to_le n w ! i = ucast (drop_bit (8 * i) w)"
proof (induction n arbitrary: w i)
  case (Suc n)
  then show ?case
    by (cases i) (simp_all add: add.commute)
qed simp

lemma word_of_le_to_le:
  "word_of_le (word_to_le n w) = (take_bit (8 * n) w :: 'a::len word)"
proof (rule bit_word_eqI)
  fix k assume "k < LENGTH('a)"
  moreover have "k < 8 * n \<longleftrightarrow> k div 8 < n" by auto
  ultimately show "bit (word_of_le (word_to_le n w) :: 'a word) k = bit (take_bit (8 * n) w) k"
    by (auto simp: bit_word_of_le nth_word_to_le bit_ucast_iff bit_drop_bit_eq bit_take_bit_iff)
qed

lemma word_to_le_of_le:
  assumes "length bs = n" "8 * n \<le> LENGTH('a)"
  shows "word_to_le n (word_of_le bs :: 'a::len word) = bs"
proof (rule nth_equalityI)
  fix i assume "i < length (word_to_le n (word_of_le bs :: 'a word))"
  then have i: "i < n" by simp
  show "word_to_le n (word_of_le bs :: 'a word) ! i = bs ! i"
  proof (rule bit_word_eqI)
    fix k assume k: "k < LENGTH(8)"
    have "8 * i + k < 8 * n" using i k by simp
    then show "bit (word_to_le n (word_of_le bs :: 'a word) ! i) k = bit (bs ! i) k"
      using assms i k
      by (auto simp: nth_word_to_le bit_ucast_iff bit_drop_bit_eq bit_word_of_le)
  qed
qed (simp add: assms)

lemma word_of_le_inj:
  assumes "(word_of_le xs :: 'a::len word) = word_of_le ys"
    and "length xs = length ys" "8 * length xs \<le> LENGTH('a)"
  shows "xs = ys"
  using assms by (metis word_to_le_of_le)

lemma word_of_be_to_be: "word_of_be (word_to_be n w) = (take_bit (8 * n) w :: 'a::len word)"
  by (simp add: word_of_be_def word_to_be_def word_of_le_to_le)

lemma word_to_be_of_be:
  "length bs = n \<Longrightarrow> 8 * n \<le> LENGTH('a) \<Longrightarrow> word_to_be n (word_of_be bs :: 'a::len word) = bs"
  by (simp add: word_of_be_def word_to_be_def word_to_le_of_le)

lemma take_bit_full [simp]: "LENGTH('a) \<le> n \<Longrightarrow> take_bit n (w :: 'a::len word) = w"
  by (rule bit_word_eqI) (simp add: bit_take_bit_iff)

lemma word_of_le_le [simp, bytes_simps]:
  "LENGTH('a) \<le> 8 * n \<Longrightarrow> word_of_le (word_to_le n w) = (w :: 'a::len word)"
  by (simp add: word_of_le_to_le)

lemma word_of_be_be [simp, bytes_simps]:
  "LENGTH('a) \<le> 8 * n \<Longrightarrow> word_of_be (word_to_be n w) = (w :: 'a::len word)"
  by (simp add: word_of_be_to_be)

section \<open>Slices and in-place copies\<close>

text \<open>\<open>&xs[s..s + n]\<close>.\<close>

definition slice :: "nat \<Rightarrow> nat \<Rightarrow> 'a list \<Rightarrow> 'a list" where
  "slice s n xs = take n (drop s xs)"

text \<open>\<open>xs[s..s + ys.len()].copy_from_slice(ys)\<close>.\<close>

definition splice :: "nat \<Rightarrow> 'a list \<Rightarrow> 'a list \<Rightarrow> 'a list" where
  "splice s ys xs = take s xs @ ys @ drop (s + length ys) xs"

lemma length_slice [simp, bytes_simps]: "length (slice s n xs) = min n (length xs - s)"
  by (simp add: slice_def min.commute)

lemma length_splice [simp, bytes_simps]:
  "s + length ys \<le> length xs \<Longrightarrow> length (splice s ys xs) = length xs"
  by (simp add: splice_def)

lemma slice_splice_same [simp, bytes_simps]:
  "s \<le> length xs \<Longrightarrow> length ys = n \<Longrightarrow> slice s n (splice s ys xs) = ys"
  by (simp add: slice_def splice_def)

lemma slice_splice_before [bytes_simps]:
  "t + n \<le> s \<Longrightarrow> s \<le> length xs \<Longrightarrow> slice t n (splice s ys xs) = slice t n xs"
  by (simp add: slice_def splice_def drop_take)

lemma slice_splice_after [bytes_simps]:
  assumes "s + length ys \<le> t" "s + length ys \<le> length xs"
  shows "slice t n (splice s ys xs) = slice t n xs"
proof -
  have "drop t (splice s ys xs) = drop t xs"
    using assms by (simp add: splice_def min_def)
  then show ?thesis by (simp add: slice_def)
qed

lemma slice_splice_inner [bytes_simps]:
  assumes "s \<le> t" "t + n \<le> s + length ys" "s \<le> length xs"
  shows "slice t n (splice s ys xs) = slice (t - s) n ys"
  using assms by (simp add: slice_def splice_def)

lemma slice_0 [simp]: "slice 0 n xs = take n xs"
  by (simp add: slice_def)

lemma slice_all [simp]: "length xs \<le> n \<Longrightarrow> slice 0 n xs = xs"
  by simp

lemma take_splice [bytes_simps]:
  "n \<le> s \<Longrightarrow> s \<le> length xs \<Longrightarrow> take n (splice s ys xs) = take n xs"
  by (simp add: splice_def min_def)

lemma drop_splice [bytes_simps]:
  "s + length ys \<le> n \<Longrightarrow> s + length ys \<le> length xs \<Longrightarrow> drop n (splice s ys xs) = drop n xs"
  by (simp add: splice_def min_def)

lemma slice_append_left [simp]: "s + n \<le> length xs \<Longrightarrow> slice s n (xs @ ys) = slice s n xs"
  by (simp add: slice_def)

lemma slice_append_right [simp]:
  "length xs \<le> s \<Longrightarrow> slice s n (xs @ ys) = slice (s - length xs) n ys"
  by (simp add: slice_def)

lemma slice_Cons_numeral [simp]: "slice (numeral k) n (x # xs) = slice (pred_numeral k) n xs"
  by (simp add: slice_def numeral_eq_Suc)

lemma slice_Cons_Suc [simp]: "slice (Suc k) n (x # xs) = slice k n xs"
  by (simp add: slice_def)

lemma slice_slice: "s + n \<le> m \<Longrightarrow> slice s n (slice t m xs) = slice (t + s) n xs"
  by (simp add: slice_def drop_take min_def add.commute)

lemma slice_take: "s + n \<le> m \<Longrightarrow> slice s n (take m xs) = slice s n xs"
  by (simp add: slice_def drop_take)

lemma slice_cong_take:
  "take m xs = take m ys \<Longrightarrow> s + n \<le> m \<Longrightarrow> slice s n xs = slice s n ys"
  using slice_take[of s n m xs] slice_take[of s n m ys] by simp

lemma splice_idem: "splice s ys (splice s ys xs) = splice s ys xs"
  if "s + length ys \<le> length xs"
  using that by (simp add: splice_def)

lemma splice_slice [simp]: "s + n \<le> length xs \<Longrightarrow> splice s (slice s n xs) xs = xs"
  by (simp add: splice_def slice_def min_def)
     (metis add.commute append_take_drop_id drop_drop)

end
