(* ===== verification/Checksum.thy ===== *)
theory Checksum
  imports Bytes
begin

text \<open>
  The crc32c kernel of \<open>checksum.rs\<close>: the compile-time lookup table, the
  byte-at-a-time fold and the seed derivations.  The table-driven fold is shown
  equal to the bitwise shift register it tabulates, and the register step is
  shown injective, from which it follows that corruption confined to four
  consecutive bytes never goes unnoticed.
\<close>

unbundle bit_operations_syntax

section \<open>The lookup table and the fold\<close>

definition POLY :: u32 where
  "POLY = 0x82F63B78"

definition crc32c_bit :: "u32 \<Rightarrow> u32" where
  "crc32c_bit crc = (if crc AND 1 \<noteq> 0 then drop_bit 1 crc XOR POLY else drop_bit 1 crc)"

definition CRC32C_TABLE :: "u32 list" where
  "CRC32C_TABLE = map (\<lambda>i. (crc32c_bit ^^ 8) (word_of_nat i)) [0..<256]"

definition crc32c_byte :: "u32 \<Rightarrow> u8 \<Rightarrow> u32" where
  "crc32c_byte crc byte =
     drop_bit 8 crc XOR CRC32C_TABLE ! unat ((crc XOR ucast byte) AND 0xFF)"

definition crc32c :: "u32 \<Rightarrow> bytes \<Rightarrow> u32" where
  "crc32c seed data = foldl crc32c_byte seed data"

section \<open>Seeds\<close>

datatype FsCsumSeed = FsCsumSeed u32

datatype InodeCsumSeed = InodeCsumSeed u32

fun FsCsumSeed_get :: "FsCsumSeed \<Rightarrow> u32" where
  "FsCsumSeed_get (FsCsumSeed s) = s"

fun InodeCsumSeed_get :: "InodeCsumSeed \<Rightarrow> u32" where
  "InodeCsumSeed_get (InodeCsumSeed s) = s"

definition derive_inode :: "FsCsumSeed \<Rightarrow> u32 \<Rightarrow> u32 \<Rightarrow> InodeCsumSeed" where
  "derive_inode seed ino gen =
     (let s = crc32c (FsCsumSeed_get seed) (le32 ino)
      in InodeCsumSeed (crc32c s (le32 gen)))"

section \<open>The shift register\<close>

lemma crc32c_Nil [simp]: "crc32c s [] = s"
  by (simp add: crc32c_def)

lemma crc32c_Cons: "crc32c s (b # bs) = crc32c (crc32c_byte s b) bs"
  by (simp add: crc32c_def)

lemma crc32c_append: "crc32c s (xs @ ys) = crc32c (crc32c s xs) ys"
  by (simp add: crc32c_def)

lemma and_one_neq_zero: "(w AND 1 \<noteq> 0) \<longleftrightarrow> bit w 0" for w :: "'a::len word"
  by (metis and_one_eq even_iff_mod_2_eq_zero bit_0 mod_2_eq_odd of_bool_eq_0_iff)

lemma crc32c_bit_eq: "crc32c_bit c = drop_bit 1 c XOR (if bit c 0 then POLY else 0)"
  unfolding crc32c_bit_def and_one_neq_zero by simp

lemma xor_right_cancel: "a XOR c = b XOR c \<longleftrightarrow> a = b" for a b c :: "'a::len word"
  by (metis xor.assoc xor.right_neutral xor_self_eq)

lemma crc32c_bit_xor: "crc32c_bit (a XOR b) = crc32c_bit a XOR crc32c_bit b"
  by (rule bit_word_eqI) (auto simp: crc32c_bit_eq bit_simps)

lemma crc32c_bits_xor:
  "(crc32c_bit ^^ n) (a XOR b) = (crc32c_bit ^^ n) a XOR (crc32c_bit ^^ n) b"
  by (induction n) (simp_all add: crc32c_bit_xor)

lemma crc32c_bit_top: "bit (crc32c_bit c) 31 \<longleftrightarrow> bit c 0"
proof -
  have "\<not> bit c 32" using bit_imp_le_length[of c 32] by auto
  then show ?thesis
    by (simp add: crc32c_bit_eq bit_xor_iff bit_drop_bit_eq POLY_def)
qed

lemma crc32c_bit_inj: "inj crc32c_bit"
proof (rule injI)
  fix a b assume eq: "crc32c_bit a = crc32c_bit b"
  then have low: "bit a 0 = bit b 0" using crc32c_bit_top by metis
  with eq have "drop_bit 1 a = drop_bit 1 b"
    by (simp add: crc32c_bit_eq xor_right_cancel)
  then have high: "bit a (Suc k) = bit b (Suc k)" for k
    by (metis bit_drop_bit_eq comp_apply plus_1_eq_Suc)
  show "a = b"
  proof (rule bit_word_eqI)
    fix k show "bit a k = bit b k" using low high by (cases k) simp_all
  qed
qed

lemma crc32c_bits_inj: "inj (crc32c_bit ^^ n)"
  by (rule inj_fn) (rule crc32c_bit_inj)

lemma crc32c_bits_shift:
  "n \<le> m \<Longrightarrow> (\<And>k. k < n \<Longrightarrow> \<not> bit x k) \<Longrightarrow> (crc32c_bit ^^ n) x = drop_bit n x"
proof (induction n arbitrary: x)
  case (Suc n)
  have "crc32c_bit x = drop_bit 1 x" using Suc.prems(2)[of 0] by (simp add: crc32c_bit_eq)
  moreover have "(crc32c_bit ^^ n) (drop_bit 1 x) = drop_bit n (drop_bit 1 x)"
    using Suc by (intro Suc.IH) (auto simp: bit_drop_bit_eq)
  ultimately show ?case by (simp add: funpow_swap1)
qed simp

lemma table_nth: "i < 256 \<Longrightarrow> CRC32C_TABLE ! i = (crc32c_bit ^^ 8) (word_of_nat i)"
  by (simp add: CRC32C_TABLE_def)

lemma and_0xFF: "w AND 0xFF = take_bit 8 w" for w :: u32
proof -
  have "(0xFF :: u32) = mask 8" by (simp add: mask_eq_exp_minus_1)
  then show ?thesis by (simp only: take_bit_eq_mask)
qed

lemma crc32c_byte_bitwise: "crc32c_byte c b = (crc32c_bit ^^ 8) (c XOR ucast b)"
proof -
  let ?x = "c XOR ucast b"
  let ?lo = "take_bit 8 ?x" and ?hi = "push_bit 8 (drop_bit 8 ?x)"
  have lo: "unat ?lo < 256"
    using take_bit_nat_less_exp[of 8 "unat ?x"] by (simp only: unsigned_take_bit_eq) simp
  have split: "?x = ?hi XOR ?lo"
    by (rule bit_word_eqI) (auto simp: bit_simps)
  have "(crc32c_bit ^^ 8) ?hi = drop_bit 8 ?hi"
    by (rule crc32c_bits_shift[of _ 8]) (auto simp: bit_simps)
  also have "\<dots> = drop_bit 8 c"
    by (rule bit_word_eqI) (auto simp: bit_simps dest: bit_imp_le_length)
  finally have hi: "(crc32c_bit ^^ 8) ?hi = drop_bit 8 c" .
  have "(crc32c_bit ^^ 8) ?x = (crc32c_bit ^^ 8) ?hi XOR (crc32c_bit ^^ 8) ?lo"
    by (subst split) (rule crc32c_bits_xor)
  then show ?thesis
    using lo by (simp only: crc32c_byte_def and_0xFF table_nth hi of_nat_unat ucast_id)
qed

lemma crc32c_byte_inj_state: "crc32c_byte c b = crc32c_byte c' b \<longleftrightarrow> c = c'"
  unfolding crc32c_byte_bitwise inj_eq[OF crc32c_bits_inj] xor_right_cancel ..

lemma crc32c_inj_state: "crc32c c bs = crc32c c' bs \<longleftrightarrow> c = c'"
  by (induction bs arbitrary: c c') (simp_all add: crc32c_Cons crc32c_byte_inj_state)

text \<open>The bitwise reference: the register after a run of bits, low bit first.\<close>

fun crc32c_spec :: "u32 \<Rightarrow> bytes \<Rightarrow> u32" where
  "crc32c_spec c [] = c"
| "crc32c_spec c (b # bs) = crc32c_spec ((crc32c_bit ^^ 8) (c XOR ucast b)) bs"

lemma crc32c_short_run:
  assumes "length bs \<le> 4"
  shows "crc32c s bs = (crc32c_bit ^^ (8 * length bs)) (s XOR word_of_le bs)"
  using assms
proof (induction bs arbitrary: s)
  case (Cons b bs)
  let ?w = "word_of_le bs :: u32"
  have fits: "k + 8 < 32" if "bit ?w k" for k
    using that Cons.prems by (auto simp: bit_word_of_le)
  have up: "(crc32c_bit ^^ 8) (push_bit 8 ?w) = ?w"
    by (subst crc32c_bits_shift[of _ 8])
       (auto simp: bit_simps intro!: bit_word_eqI, use fits in fastforce)
  have disj: "(ucast b :: u32) OR push_bit 8 ?w = ucast b XOR push_bit 8 ?w"
    by (rule bit_word_eqI) (auto simp: bit_simps dest: bit_imp_le_length)
  have "crc32c s (b # bs) = (crc32c_bit ^^ (8 * length bs)) ((crc32c_bit ^^ 8) (s XOR ucast b) XOR ?w)"
    using Cons by (simp add: crc32c_Cons crc32c_byte_bitwise)
  also have "(crc32c_bit ^^ 8) (s XOR ucast b) XOR ?w
           = (crc32c_bit ^^ 8) (s XOR (ucast b OR push_bit 8 ?w))"
    by (simp add: disj crc32c_bits_xor up xor.assoc)
  finally show ?case
    unfolding word_of_le.simps list.size mult_Suc_right add_0_right add_Suc_right
      add.commute[of 8] funpow_add comp_apply .
qed simp

lemma crc32c_short_inj:
  assumes "length xs = length ys" "length xs \<le> 4" "crc32c s xs = crc32c s ys"
  shows "xs = ys"
proof -
  have "s XOR word_of_le xs = s XOR (word_of_le ys :: u32)"
    using assms by (simp add: crc32c_short_run inj_eq[OF crc32c_bits_inj])
  then have "(word_of_le xs :: u32) = word_of_le ys"
    by (simp only: xor.commute[of s] xor_right_cancel)
  then show ?thesis
    using assms by (intro word_of_le_inj[where 'a = 32]) auto
qed

section \<open>Properties\<close>

text \<open>C32: the table-driven fold computes the bitwise reflected CRC-32C register.\<close>

theorem crc32c_refines_bitwise: "crc32c s bs = crc32c_spec s bs"
  by (induction bs arbitrary: s) (simp_all add: crc32c_Cons crc32c_byte_bitwise)

text \<open>A corruption confined to at most four consecutive bytes always changes the checksum,
  whatever precedes and follows it.\<close>

theorem crc32c_detects_burst:
  assumes "length xs = length ys" "length xs \<le> 4" "xs \<noteq> ys"
  shows "crc32c s (pre @ xs @ post) \<noteq> crc32c s (pre @ ys @ post)"
  using assms crc32c_short_inj[OF assms(1,2)] by (simp add: crc32c_append crc32c_inj_state) blast

theorem crc32c_detects_burst_witness:
  "crc32c 7 ([1, 2] @ [3, 4] @ [5]) \<noteq> crc32c 7 ([1, 2] @ [3, 9] @ [5])"
  by (rule crc32c_detects_burst) simp_all

end
