(* ===== verification/Journal_Format.thy ===== *)
theory Journal_Format
  imports Checksum Tid
begin

text \<open>
  The on-disk JBD2 format of \<open>journal/format.rs\<close>: block headers, the checksum
  seed and the block checksums, the descriptor-tag layout selected by the
  feature bits, the tag writer and walker, and the revoke-block writer and
  walker.  The lemmas show that what the writers emit is what the walkers read
  back, in every layout, and that the capacity figures the commit path plans
  with are exact.
\<close>

unbundle bit_operations_syntax

section \<open>Constants and headers\<close>

type_synonym Ext4Bid = u64

definition JBD2_MAGIC :: u32 where "JBD2_MAGIC = 0xC03B3998"
definition BLOCKTYPE_DESCRIPTOR :: u32 where "BLOCKTYPE_DESCRIPTOR = 1"
definition BLOCKTYPE_COMMIT :: u32 where "BLOCKTYPE_COMMIT = 2"
definition BLOCKTYPE_SUPERBLOCK_V1 :: u32 where "BLOCKTYPE_SUPERBLOCK_V1 = 3"
definition BLOCKTYPE_SUPERBLOCK_V2 :: u32 where "BLOCKTYPE_SUPERBLOCK_V2 = 4"
definition BLOCKTYPE_REVOKE :: u32 where "BLOCKTYPE_REVOKE = 5"

definition TAG_FLAG_ESCAPE :: u16 where "TAG_FLAG_ESCAPE = 1"
definition TAG_FLAG_SAME_UUID :: u16 where "TAG_FLAG_SAME_UUID = 2"
definition TAG_FLAG_LAST_TAG :: u16 where "TAG_FLAG_LAST_TAG = 8"

definition COMPAT_CHECKSUM :: u32 where "COMPAT_CHECKSUM = 0x1"
definition INCOMPAT_REVOKE :: u32 where "INCOMPAT_REVOKE = 0x1"
definition INCOMPAT_64BIT :: u32 where "INCOMPAT_64BIT = 0x2"
definition INCOMPAT_CSUM_V2 :: u32 where "INCOMPAT_CSUM_V2 = 0x8"
definition INCOMPAT_CSUM_V3 :: u32 where "INCOMPAT_CSUM_V3 = 0x10"

definition INCOMPAT_SUPP :: u32 where
  "INCOMPAT_SUPP = INCOMPAT_REVOKE OR INCOMPAT_64BIT OR INCOMPAT_CSUM_V2 OR INCOMPAT_CSUM_V3"

definition JBD2_CRC32C_CHKSUM :: u8 where "JBD2_CRC32C_CHKSUM = 4"

definition JOURNAL_HEADER_SIZE :: nat where "JOURNAL_HEADER_SIZE = 12"
definition BLOCK_TAG_SIZE :: nat where "BLOCK_TAG_SIZE = 8"
definition BLOCK_TAG3_SIZE :: nat where "BLOCK_TAG3_SIZE = 16"
definition TAG_UUID_BYTES :: nat where "TAG_UUID_BYTES = 16"
definition DESCRIPTOR_TAIL_BYTES :: nat where "DESCRIPTOR_TAIL_BYTES = 4"
definition REVOKE_HEADER_SIZE :: nat where "REVOKE_HEADER_SIZE = 16"
definition COMMIT_CHKSUM_OFFSET :: nat where "COMMIT_CHKSUM_OFFSET = 16"

named_theorems format_consts \<open>the numeric constants of the on-disk format\<close>

lemmas format_const_defs [format_consts] =
  BLOCK_SIZE_def JBD2_MAGIC_def BLOCKTYPE_DESCRIPTOR_def BLOCKTYPE_COMMIT_def
  BLOCKTYPE_SUPERBLOCK_V1_def BLOCKTYPE_SUPERBLOCK_V2_def BLOCKTYPE_REVOKE_def
  TAG_FLAG_ESCAPE_def TAG_FLAG_SAME_UUID_def TAG_FLAG_LAST_TAG_def
  JOURNAL_HEADER_SIZE_def BLOCK_TAG_SIZE_def BLOCK_TAG3_SIZE_def TAG_UUID_BYTES_def
  DESCRIPTOR_TAIL_BYTES_def REVOKE_HEADER_SIZE_def COMMIT_CHKSUM_OFFSET_def
  INCOMPAT_64BIT_def INCOMPAT_CSUM_V2_def INCOMPAT_CSUM_V3_def INCOMPAT_REVOKE_def
  COMPAT_CHECKSUM_def JBD2_CRC32C_CHKSUM_def

record RawJournalHeader =
  h_magic :: u32
  h_blocktype :: u32
  h_sequence :: u32

definition RawJournalHeader_as_bytes :: "RawJournalHeader \<Rightarrow> bytes" where
  "RawJournalHeader_as_bytes h = be32 (h_magic h) @ be32 (h_blocktype h) @ be32 (h_sequence h)"

definition RawJournalHeader_parse :: "bytes \<Rightarrow> RawJournalHeader" where
  "RawJournalHeader_parse block =
     \<lparr> h_magic = word_of_be (slice 0 4 block),
       h_blocktype = word_of_be (slice 4 4 block),
       h_sequence = word_of_be (slice 8 4 block) \<rparr>"

record RawRevokeHeader =
  rh_header :: RawJournalHeader
  r_count :: u32

definition RawRevokeHeader_parse :: "bytes \<Rightarrow> RawRevokeHeader" where
  "RawRevokeHeader_parse block =
     \<lparr> rh_header = RawJournalHeader_parse block, r_count = word_of_be (slice 12 4 block) \<rparr>"

section \<open>Block checksums\<close>

datatype JournalCsumSeed = JournalCsumSeed u32

fun csum_seed_get :: "JournalCsumSeed \<Rightarrow> u32" where
  "csum_seed_get (JournalCsumSeed s) = s"

definition JournalCsumSeed_derive :: "bytes \<Rightarrow> JournalCsumSeed" where
  "JournalCsumSeed_derive uuid = JournalCsumSeed (crc32c (NOT 0) uuid)"

definition block_tail_csum :: "JournalCsumSeed \<Rightarrow> bytes \<Rightarrow> u32" where
  "block_tail_csum seed block =
     (let body = crc32c (csum_seed_get seed) (take (BLOCK_SIZE - DESCRIPTOR_TAIL_BYTES) block)
      in crc32c body (replicate DESCRIPTOR_TAIL_BYTES 0))"

definition verify_block_tail :: "JournalCsumSeed \<Rightarrow> bytes \<Rightarrow> bool" where
  "verify_block_tail seed block =
     (let stored = word_of_be (drop (BLOCK_SIZE - DESCRIPTOR_TAIL_BYTES) block)
      in stored = block_tail_csum seed block)"

definition stamp_block_tail :: "JournalCsumSeed \<Rightarrow> bytes \<Rightarrow> bytes" where
  "stamp_block_tail seed block =
     splice (BLOCK_SIZE - DESCRIPTOR_TAIL_BYTES) (be32 (block_tail_csum seed block)) block"

definition commit_block_csum :: "JournalCsumSeed \<Rightarrow> bytes \<Rightarrow> u32" where
  "commit_block_csum seed block =
     (let head = crc32c (csum_seed_get seed) (take COMMIT_CHKSUM_OFFSET block);
          hole = crc32c head (replicate 4 0)
      in crc32c hole (drop (COMMIT_CHKSUM_OFFSET + 4) block))"

definition stamp_commit_block :: "JournalCsumSeed \<Rightarrow> bytes \<Rightarrow> bytes" where
  "stamp_commit_block seed block =
     splice COMMIT_CHKSUM_OFFSET (be32 (commit_block_csum seed block)) block"

definition verify_commit_block :: "JournalCsumSeed \<Rightarrow> bytes \<Rightarrow> bool" where
  "verify_commit_block seed block =
     (let stored = word_of_be (slice COMMIT_CHKSUM_OFFSET 4 block)
      in stored = commit_block_csum seed block)"

definition data_block_csum :: "JournalCsumSeed \<Rightarrow> tid \<Rightarrow> bytes \<Rightarrow> u32" where
  "data_block_csum seed t logged_block =
     (let seq = crc32c (csum_seed_get seed) (be32 t) in crc32c seq logged_block)"

section \<open>Tag layouts\<close>

datatype RevokeEntryWidth = Narrow | Wide

fun RevokeEntryWidth_bytes :: "RevokeEntryWidth \<Rightarrow> nat" where
  "RevokeEntryWidth_bytes Narrow = 4"
| "RevokeEntryWidth_bytes Wide = 8"

record TagLayout =
  tag_bytes :: nat
  has_blocknr_high :: bool
  csum_v3 :: bool
  descriptor_tail_bytes :: nat

definition from_features :: "u32 \<Rightarrow> TagLayout result" where
  "from_features feature_incompat =
     (let v2 = feature_incompat AND INCOMPAT_CSUM_V2 \<noteq> 0;
          v3 = feature_incompat AND INCOMPAT_CSUM_V3 \<noteq> 0
      in if v2 \<and> v3 then Err EINVAL
         else let high = feature_incompat AND INCOMPAT_64BIT \<noteq> 0 in
           Ok \<lparr> tag_bytes = (if v3 then BLOCK_TAG3_SIZE
                             else BLOCK_TAG_SIZE + (if high then 4 else 0) + (if v2 then 2 else 0)),
                has_blocknr_high = high,
                csum_v3 = v3,
                descriptor_tail_bytes = (if v2 \<or> v3 then DESCRIPTOR_TAIL_BYTES else 0) \<rparr>)"

definition first_tag_offset :: "TagLayout \<Rightarrow> nat" where
  "first_tag_offset L = JOURNAL_HEADER_SIZE"

definition tag_area_end :: "TagLayout \<Rightarrow> nat" where
  "tag_area_end L = BLOCK_SIZE - descriptor_tail_bytes L"

definition tags_per_descriptor :: "TagLayout \<Rightarrow> nat" where
  "tags_per_descriptor L =
     (tag_area_end L - first_tag_offset L - TAG_UUID_BYTES) div tag_bytes L"

definition revoke_entry_width :: "TagLayout \<Rightarrow> RevokeEntryWidth" where
  "revoke_entry_width L = (if has_blocknr_high L then Wide else Narrow)"

definition revoke_entries_per_block :: "TagLayout \<Rightarrow> nat" where
  "revoke_entries_per_block L =
     (tag_area_end L - REVOKE_HEADER_SIZE) div RevokeEntryWidth_bytes (revoke_entry_width L)"

definition has_csum :: "TagLayout \<Rightarrow> bool" where
  "has_csum L \<longleftrightarrow> descriptor_tail_bytes L \<noteq> 0"

definition split_blocknr :: "Ext4Bid \<Rightarrow> u32 \<times> u32" where
  "split_blocknr blocknr =
     (let bs = be64 blocknr in (word_of_be (slice 4 4 bs), word_of_be (slice 0 4 bs)))"

definition join_blocknr :: "u32 \<Rightarrow> u32 \<Rightarrow> Ext4Bid" where
  "join_blocknr low high = ucast low OR push_bit 32 (ucast high)"

section \<open>Descriptor tags\<close>

datatype TagChecksum = TagChecksum_V2 u16 | TagChecksum_V3 u32

record DescriptorTag =
  dt_blocknr :: Ext4Bid
  dt_flags :: u16
  dt_checksum :: "TagChecksum option"

definition is_escaped :: "DescriptorTag \<Rightarrow> bool" where
  "is_escaped t \<longleftrightarrow> dt_flags t AND TAG_FLAG_ESCAPE \<noteq> 0"

definition is_last :: "DescriptorTag \<Rightarrow> bool" where
  "is_last t \<longleftrightarrow> dt_flags t AND TAG_FLAG_LAST_TAG \<noteq> 0"

definition reuses_uuid :: "DescriptorTag \<Rightarrow> bool" where
  "reuses_uuid t \<longleftrightarrow> dt_flags t AND TAG_FLAG_SAME_UUID \<noteq> 0"

definition verify_data_csum :: "DescriptorTag \<Rightarrow> JournalCsumSeed \<Rightarrow> tid \<Rightarrow> bytes \<Rightarrow> bool" where
  "verify_data_csum t seed tid logged_block =
     (case dt_checksum t of
        None \<Rightarrow> True
      | Some stored \<Rightarrow>
          let csum32 = data_block_csum seed tid logged_block in
          (case stored of
             TagChecksum_V2 low16 \<Rightarrow> ucast low16 = csum32 AND 0xFFFF
           | TagChecksum_V3 full \<Rightarrow> full = csum32))"

text \<open>\<open>decode_tag\<close>: the 16-byte v3 record, or the 8-byte prefix record with the optional
  high word behind it.\<close>

definition decode_tag :: "TagLayout \<Rightarrow> bytes \<Rightarrow> nat \<Rightarrow> DescriptorTag result" where
  "decode_tag L descriptor offset =
     (if csum_v3 L then
        let raw_flags = (word_of_be (slice (offset + 4) 4 descriptor) :: u32) in
        if unat raw_flags \<ge> 2 ^ 16 then Err EUCLEAN
        else
          let high = (if has_blocknr_high L then word_of_be (slice (offset + 8) 4 descriptor) else 0)
          in Ok \<lparr> dt_blocknr = join_blocknr (word_of_be (slice offset 4 descriptor)) high,
                  dt_flags = ucast raw_flags,
                  dt_checksum = Some (TagChecksum_V3 (word_of_be (slice (offset + 12) 4 descriptor))) \<rparr>
      else
        let high = (if has_blocknr_high L
                    then word_of_be (slice (offset + BLOCK_TAG_SIZE) 4 descriptor) else 0)
        in Ok \<lparr> dt_blocknr = join_blocknr (word_of_be (slice offset 4 descriptor)) high,
                dt_flags = word_of_be (slice (offset + 6) 2 descriptor),
                dt_checksum = (if has_csum L
                               then Some (TagChecksum_V2 (word_of_be (slice (offset + 4) 2 descriptor)))
                               else None) \<rparr>)"

section \<open>The tag writer\<close>

datatype TagCsumMode = Plain | ModeV2 JournalCsumSeed | ModeV3 JournalCsumSeed

record TagWriter =
  tw_layout :: TagLayout
  tw_block :: bytes
  tw_offset :: nat
  tw_tid :: tid
  tw_mode :: TagCsumMode

definition TagLayout_writer ::
    "TagLayout \<Rightarrow> bytes \<Rightarrow> tid \<Rightarrow> JournalCsumSeed option \<Rightarrow> TagWriter result" where
  "TagLayout_writer L block t seed =
     and_then
       (case seed of
          None \<Rightarrow> if \<not> has_csum L then Ok Plain else Err EINVAL
        | Some s \<Rightarrow> if csum_v3 L then Ok (ModeV3 s)
                     else if has_csum L then Ok (ModeV2 s)
                     else Err EINVAL)
       (\<lambda>mode. Ok \<lparr> tw_layout = L, tw_block = block, tw_offset = first_tag_offset L,
                      tw_tid = t, tw_mode = mode \<rparr>)"

definition put_prefix_tag ::
    "TagLayout \<Rightarrow> bytes \<Rightarrow> nat \<Rightarrow> u32 \<Rightarrow> u32 \<Rightarrow> bytes \<Rightarrow> u16 \<Rightarrow> bytes" where
  "put_prefix_tag L block offset low high t_checksum flags =
     (let block1 = splice offset (be32 low @ t_checksum @ be16 flags) block
      in if has_blocknr_high L then splice (offset + BLOCK_TAG_SIZE) (be32 high) block1
         else block1)"

text \<open>The \<open>match self.mode\<close> of \<open>put\<close>: the block with the tag record copied in.\<close>

definition put_tag_record :: "TagWriter \<Rightarrow> u32 \<Rightarrow> u32 \<Rightarrow> u16 \<Rightarrow> bytes \<Rightarrow> bytes" where
  "put_tag_record w low high flags logged_block =
     (case tw_mode w of
        ModeV3 seed \<Rightarrow>
          splice (tw_offset w)
            (be32 low @ be32 (ucast flags) @ be32 high
             @ be32 (data_block_csum seed (tw_tid w) logged_block))
            (tw_block w)
      | ModeV2 seed \<Rightarrow>
          let be = be32 (data_block_csum seed (tw_tid w) logged_block)
          in put_prefix_tag (tw_layout w) (tw_block w) (tw_offset w) low high (slice 2 2 be) flags
      | Plain \<Rightarrow>
          put_prefix_tag (tw_layout w) (tw_block w) (tw_offset w) low high (be16 0) flags)"

definition TagWriter_put :: "TagWriter \<Rightarrow> Ext4Bid \<Rightarrow> u16 \<Rightarrow> bytes \<Rightarrow> TagWriter result" where
  "TagWriter_put w blocknr flags logged_block =
     (let L = tw_layout w; (low, high) = split_blocknr blocknr in
      if high \<noteq> 0 \<and> \<not> has_blocknr_high L then Err EFBIG
      else
        let offset = tw_offset w;
            end0 = offset + tag_bytes L;
            end1 = (if flags AND TAG_FLAG_SAME_UUID = 0 then end0 + TAG_UUID_BYTES else end0)
        in if end1 > tag_area_end L then Err ENOSPC
           else
             Ok (w\<lparr> tw_block := put_tag_record w low high flags logged_block,
                     tw_offset := end1 \<rparr>))"

definition TagWriter_finish :: "TagWriter \<Rightarrow> bytes" where
  "TagWriter_finish w =
     (case tw_mode w of
        Plain \<Rightarrow> tw_block w
      | ModeV2 seed \<Rightarrow> stamp_block_tail seed (tw_block w)
      | ModeV3 seed \<Rightarrow> stamp_block_tail seed (tw_block w))"

section \<open>The tag walk\<close>

record TagWalk =
  wk_layout :: TagLayout
  wk_descriptor :: bytes
  wk_offset :: nat
  wk_done :: bool

definition TagLayout_walk :: "TagLayout \<Rightarrow> bytes \<Rightarrow> TagWalk" where
  "TagLayout_walk L descriptor =
     \<lparr> wk_layout = L, wk_descriptor = descriptor, wk_offset = first_tag_offset L,
       wk_done = False \<rparr>"

definition TagWalk_next :: "TagWalk \<Rightarrow> DescriptorTag result option \<times> TagWalk" where
  "TagWalk_next k =
     (if wk_done k then (None, k)
      else if wk_offset k + tag_bytes (wk_layout k) > tag_area_end (wk_layout k)
      then (Some (Err EUCLEAN), k\<lparr> wk_done := True \<rparr>)
      else case decode_tag (wk_layout k) (wk_descriptor k) (wk_offset k) of
             Inl e \<Rightarrow> (Some (Err e), k\<lparr> wk_done := True \<rparr>)
           | Inr tag \<Rightarrow>
               let offset1 = wk_offset k + tag_bytes (wk_layout k);
                   offset2 = (if \<not> reuses_uuid tag then offset1 + TAG_UUID_BYTES else offset1)
               in (Some (Ok tag), k\<lparr> wk_offset := offset2, wk_done := is_last tag \<rparr>))"

text \<open>What a \<open>for\<close> loop over the iterator sees.  A walk of one block takes at most one step per
  byte of the block, as each step moves the offset or ends the walk, so \<open>BLOCK_SIZE\<close> steps exhaust it.\<close>

fun walk_items :: "nat \<Rightarrow> TagWalk \<Rightarrow> DescriptorTag result list" where
  "walk_items 0 k = []"
| "walk_items (Suc n) k =
     (case TagWalk_next k of
        (None, k') \<Rightarrow> []
      | (Some r, k') \<Rightarrow> r # walk_items n k')"

definition walk_tags :: "TagLayout \<Rightarrow> bytes \<Rightarrow> DescriptorTag result list" where
  "walk_tags L descriptor = walk_items BLOCK_SIZE (TagLayout_walk L descriptor)"

section \<open>Revoke blocks\<close>

record RevokeBlockWriter =
  rw_layout :: TagLayout
  rw_width :: RevokeEntryWidth
  rw_block :: bytes
  rw_offset :: nat
  rw_seed :: "JournalCsumSeed option"

definition revoke_writer ::
    "TagLayout \<Rightarrow> tid \<Rightarrow> JournalCsumSeed option \<Rightarrow> RevokeBlockWriter result" where
  "revoke_writer L t seed =
     (if (seed \<noteq> None) \<noteq> has_csum L then Err EINVAL
      else
        let block = replicate BLOCK_SIZE 0;
            header = \<lparr> h_magic = JBD2_MAGIC, h_blocktype = BLOCKTYPE_REVOKE, h_sequence = t \<rparr>
        in Ok \<lparr> rw_layout = L, rw_width = revoke_entry_width L,
                rw_block = splice 0 (RawJournalHeader_as_bytes header) block,
                rw_offset = REVOKE_HEADER_SIZE, rw_seed = seed \<rparr>)"

definition RevokeBlockWriter_put :: "RevokeBlockWriter \<Rightarrow> Ext4Bid \<Rightarrow> RevokeBlockWriter result" where
  "RevokeBlockWriter_put w blocknr =
     (let end' = rw_offset w + RevokeEntryWidth_bytes (rw_width w) in
      if end' > tag_area_end (rw_layout w) then Err ENOSPC
      else case rw_width w of
             Wide \<Rightarrow> Ok (w\<lparr> rw_block := splice (rw_offset w) (be64 blocknr) (rw_block w),
                              rw_offset := end' \<rparr>)
           | Narrow \<Rightarrow>
               if unat blocknr \<ge> 2 ^ 32 then Err EFBIG
               else Ok (w\<lparr> rw_block := splice (rw_offset w) (be32 (ucast blocknr)) (rw_block w),
                            rw_offset := end' \<rparr>))"

definition RevokeBlockWriter_finish :: "RevokeBlockWriter \<Rightarrow> bytes" where
  "RevokeBlockWriter_finish w =
     (let block = splice 12 (be32 (word_of_nat (rw_offset w))) (rw_block w) in
      case rw_seed w of None \<Rightarrow> block | Some seed \<Rightarrow> stamp_block_tail seed block)"

record RevokeEntryWalk =
  rk_width :: RevokeEntryWidth
  rk_block :: bytes
  rk_offset :: nat
  rk_end :: nat

definition walk_revoke :: "TagLayout \<Rightarrow> bytes \<Rightarrow> RevokeEntryWalk result" where
  "walk_revoke L block =
     (let end' = unat (r_count (RawRevokeHeader_parse block)) in
      if end' > tag_area_end L then Err EUCLEAN
      else Ok \<lparr> rk_width = revoke_entry_width L, rk_block = block,
                rk_offset = REVOKE_HEADER_SIZE, rk_end = end' \<rparr>)"

definition RevokeEntryWalk_next :: "RevokeEntryWalk \<Rightarrow> (Ext4Bid \<times> RevokeEntryWalk) option" where
  "RevokeEntryWalk_next k =
     (let end' = rk_offset k + RevokeEntryWidth_bytes (rk_width k) in
      if end' > rk_end k then None
      else
        let bs = slice (rk_offset k) (RevokeEntryWidth_bytes (rk_width k)) (rk_block k);
            bid = (case rk_width k of
                     Narrow \<Rightarrow> ucast (word_of_be bs :: u32)
                   | Wide \<Rightarrow> word_of_be bs)
        in Some (bid, k\<lparr> rk_offset := end' \<rparr>))"

function revoke_entries :: "RevokeEntryWalk \<Rightarrow> Ext4Bid list" where
  "revoke_entries k =
     (case RevokeEntryWalk_next k of
        None \<Rightarrow> []
      | Some (bid, k') \<Rightarrow> bid # revoke_entries k')"
  by pat_completeness auto
termination
proof (relation "measure (\<lambda>k. rk_end k - rk_offset k)")
  fix k p bid k'
  assume "RevokeEntryWalk_next k = Some p" "(bid, k') = p"
  moreover have "0 < RevokeEntryWidth_bytes (rk_width k)" by (cases "rk_width k") simp_all
  ultimately show "(k', k) \<in> measure (\<lambda>k. rk_end k - rk_offset k)"
    by (auto simp: RevokeEntryWalk_next_def Let_def split: if_splits)
qed simp

declare revoke_entries.simps [simp del]

section \<open>Stamping and verifying\<close>

lemma length_stamp_block_tail [simp]:
  "length block = BLOCK_SIZE \<Longrightarrow> length (stamp_block_tail seed block) = BLOCK_SIZE"
  by (simp add: stamp_block_tail_def BLOCK_SIZE_def DESCRIPTOR_TAIL_BYTES_def)

lemma take_stamp_block_tail:
  assumes "length block = BLOCK_SIZE" "n \<le> BLOCK_SIZE - DESCRIPTOR_TAIL_BYTES"
  shows "take n (stamp_block_tail seed block) = take n block"
  using assms unfolding stamp_block_tail_def by (intro take_splice) simp_all

lemma verify_stamp_block_tail:
  "length block = BLOCK_SIZE \<Longrightarrow> verify_block_tail seed (stamp_block_tail seed block)"
  by (simp add: verify_block_tail_def block_tail_csum_def Let_def take_stamp_block_tail)
     (simp add: stamp_block_tail_def splice_def block_tail_csum_def Let_def format_consts)

lemma length_stamp_commit_block [simp]:
  "length block = BLOCK_SIZE \<Longrightarrow> length (stamp_commit_block seed block) = BLOCK_SIZE"
  by (simp add: stamp_commit_block_def BLOCK_SIZE_def COMMIT_CHKSUM_OFFSET_def)

lemma verify_stamp_commit_block:
  assumes "length block = BLOCK_SIZE"
  shows "verify_commit_block seed (stamp_commit_block seed block)"
proof -
  have "take COMMIT_CHKSUM_OFFSET (stamp_commit_block seed block) = take COMMIT_CHKSUM_OFFSET block"
    "drop (COMMIT_CHKSUM_OFFSET + 4) (stamp_commit_block seed block) = drop (COMMIT_CHKSUM_OFFSET + 4) block"
    using assms unfolding stamp_commit_block_def
    by (simp_all add: take_splice drop_splice format_consts)
  then have "commit_block_csum seed (stamp_commit_block seed block) = commit_block_csum seed block"
    by (simp add: commit_block_csum_def)
  then show ?thesis
    using assms by (simp add: verify_commit_block_def stamp_commit_block_def Let_def format_consts)
qed

section \<open>Well-formed layouts\<close>

definition layout_ok :: "TagLayout \<Rightarrow> bool" where
  "layout_ok L \<longleftrightarrow>
     (descriptor_tail_bytes L = 0 \<or> descriptor_tail_bytes L = 4) \<and>
     (if csum_v3 L then tag_bytes L = 16 \<and> descriptor_tail_bytes L = 4
      else tag_bytes L = 8 + (if has_blocknr_high L then 4 else 0)
                           + (if descriptor_tail_bytes L = 4 then 2 else 0))"

lemma from_features_layout_ok: "from_features f = Ok L \<Longrightarrow> layout_ok L"
  by (auto simp: from_features_def layout_ok_def Let_def format_consts split: if_splits)

lemma layout_ok_bounds:
  assumes "layout_ok L"
  shows "8 \<le> tag_bytes L" "tag_bytes L \<le> 16" "4092 \<le> tag_area_end L" "tag_area_end L \<le> BLOCK_SIZE"
    "csum_v3 L \<Longrightarrow> tag_bytes L = 16" "csum_v3 L \<Longrightarrow> has_csum L"
  using assms
  by (auto simp: layout_ok_def tag_area_end_def has_csum_def BLOCK_SIZE_def split: if_splits)

section \<open>Tag encoding\<close>

lemma split_blocknr_eq: "split_blocknr b = (ucast b, ucast (drop_bit 32 b))"
proof -
  have low: "word_of_le (word_to_le 4 b) = (ucast b :: u32)"
    by (rule bit_word_eqI)
       (auto simp: bit_word_of_le nth_word_to_le bit_simps)
  have high: "word_of_le (slice 4 4 (word_to_le 8 b)) = (ucast (drop_bit 32 b) :: u32)"
    by (rule bit_word_eqI)
       (auto simp: bit_word_of_le nth_word_to_le bit_simps slice_def algebra_simps)
  have "word_to_le 4 b = take 4 (word_to_le 8 b)"
    by (simp add: numeral_eq_Suc)
  then show ?thesis
    using low high
    by (simp add: split_blocknr_def word_of_be_def word_to_be_def slice_def rev_take rev_drop Let_def)
qed

lemma join_split_blocknr: "join_blocknr (ucast b) (ucast (drop_bit 32 b)) = b"
  unfolding join_blocknr_def by (rule bit_word_eqI) (auto simp: bit_simps)

lemma join_of_split:
  assumes "split_blocknr b = (lo, hi)" "hi \<noteq> 0 \<longrightarrow> wide"
  shows "join_blocknr lo (if wide then hi else 0) = b"
    "wide \<Longrightarrow> join_blocknr lo hi = b" "\<not> wide \<Longrightarrow> join_blocknr lo 0 = b"
  using assms join_split_blocknr[of b] by (auto simp: split_blocknr_eq)

text \<open>A tag is decoded from the \<open>tag_bytes\<close> bytes at its offset and nothing else.\<close>

lemma decode_tag_cong:
  assumes "layout_ok L" "take m d = take m d'" "offset + tag_bytes L \<le> m"
  shows "decode_tag L d offset = decode_tag L d' offset"
proof -
  have eq: "slice (offset + k) n d = slice (offset + k) n d'" if "k + n \<le> tag_bytes L" for k n
    using assms that by (intro slice_cong_take[of m]) auto
  show ?thesis
  proof (cases "csum_v3 L")
    case True
    then have "tag_bytes L = 16" using assms layout_ok_bounds by blast
    then show ?thesis
      using True eq[of 0 4] eq[of 4 4] eq[of 8 4] eq[of 12 4] by (simp add: decode_tag_def Let_def)
  next
    case False
    have "slice (offset + 8) 4 d = slice (offset + 8) 4 d'" if "has_blocknr_high L"
      using eq[of 8 4] that False assms(1) by (simp add: layout_ok_def)
    then show ?thesis
      using False eq[of 0 4] eq[of 4 2] eq[of 6 2] layout_ok_bounds(1)[OF assms(1)]
      by (simp add: decode_tag_def BLOCK_TAG_SIZE_def Let_def)
  qed
qed

text \<open>The checksum mode a writer for layout \<open>L\<close> runs in, and the tag a \<open>put\<close> records.\<close>

definition writer_ok :: "TagLayout \<Rightarrow> TagWriter \<Rightarrow> bool" where
  "writer_ok L w \<longleftrightarrow>
     tw_layout w = L \<and> length (tw_block w) = BLOCK_SIZE \<and> tw_offset w \<le> tag_area_end L \<and>
     (case tw_mode w of
        Plain \<Rightarrow> \<not> has_csum L
      | ModeV2 s \<Rightarrow> has_csum L \<and> \<not> csum_v3 L
      | ModeV3 s \<Rightarrow> csum_v3 L)"

lemma writer_okD:
  "writer_ok L w \<Longrightarrow> tw_layout w = L \<and> length (tw_block w) = BLOCK_SIZE \<and> tw_offset w \<le> tag_area_end L"
  by (simp add: writer_ok_def)

definition written_tag :: "TagWriter \<Rightarrow> Ext4Bid \<Rightarrow> u16 \<Rightarrow> bytes \<Rightarrow> DescriptorTag" where
  "written_tag w b f d =
     \<lparr> dt_blocknr = b, dt_flags = f,
       dt_checksum = (case tw_mode w of
          Plain \<Rightarrow> None
        | ModeV2 s \<Rightarrow> Some (TagChecksum_V2 (ucast (data_block_csum s (tw_tid w) d)))
        | ModeV3 s \<Rightarrow> Some (TagChecksum_V3 (data_block_csum s (tw_tid w) d))) \<rparr>"

definition next_tag_offset :: "TagLayout \<Rightarrow> u16 \<Rightarrow> nat \<Rightarrow> nat" where
  "next_tag_offset L f o' =
     (if f AND TAG_FLAG_SAME_UUID = 0 then o' + tag_bytes L + TAG_UUID_BYTES else o' + tag_bytes L)"

lemma writer_ok_initial:
  "layout_ok L \<Longrightarrow> length block = BLOCK_SIZE \<Longrightarrow> TagLayout_writer L block t seed = Ok w \<Longrightarrow>
   writer_ok L w \<and> tw_block w = block \<and> tw_offset w = first_tag_offset L \<and> tw_tid w = t"
  using layout_ok_bounds(3)[of L]
  by (auto simp: TagLayout_writer_def writer_ok_def first_tag_offset_def JOURNAL_HEADER_SIZE_def
      split: option.splits if_splits)

lemma slice_be32_low: "word_of_be (slice 2 2 (be32 w)) = (ucast w :: u16)"
proof -
  have "word_to_le 2 w = take 2 (word_to_le 4 w)" by (simp add: numeral_eq_Suc)
  moreover have "word_of_le (word_to_le 2 w) = (ucast w :: u16)"
    by (rule bit_word_eqI) (auto simp: bit_word_of_le nth_word_to_le bit_simps)
  ultimately show ?thesis
    by (simp add: word_of_be_def word_to_be_def slice_def rev_take rev_drop)
qed

lemma ucast_u16_u32_less: "unat (ucast (f :: u16) :: u32) < 2 ^ 16"
  using unsigned_less[of f, where 'a = nat]
  by (simp add: unsigned_ucast_eq) (metis le_less_trans take_bit_nat_less_eq_self)

lemma ucast_ucast_u16: "ucast (ucast (f :: u16) :: u32) = f"
  by (rule bit_word_eqI) (auto simp: bit_simps)

lemma decode_put_v3:
  assumes "csum_v3 L" "offset + 16 \<le> length block"
    and "split_blocknr b = (lo, hi)" "hi \<noteq> 0 \<longrightarrow> has_blocknr_high L"
  shows "decode_tag L (splice offset (be32 lo @ be32 (ucast (f :: u16)) @ be32 hi @ be32 c) block)
           offset
       = Ok \<lparr> dt_blocknr = b, dt_flags = f, dt_checksum = Some (TagChecksum_V3 c) \<rparr>"
  using assms(1,2) ucast_u16_u32_less[of f] join_of_split[OF assms(3,4)]
  by (auto simp: decode_tag_def Let_def slice_splice_inner not_le ucast_ucast_u16)

lemma decode_put_prefix:
  assumes "\<not> csum_v3 L" "offset + tag_bytes L \<le> length block" "layout_ok L" "length cs = 2"
    and "split_blocknr b = (lo, hi)" "hi \<noteq> 0 \<longrightarrow> has_blocknr_high L"
  shows "decode_tag L (put_prefix_tag L block offset lo hi cs f) offset
       = Ok \<lparr> dt_blocknr = b, dt_flags = f,
              dt_checksum = (if has_csum L then Some (TagChecksum_V2 (word_of_be cs)) else None) \<rparr>"
proof (cases "has_blocknr_high L")
  case True
  then show ?thesis
    using assms(1-4) layout_ok_bounds(1)[OF assms(3)] join_of_split[OF assms(5,6)]
    by (auto simp: decode_tag_def put_prefix_tag_def Let_def slice_splice_inner slice_splice_before
        layout_ok_def BLOCK_TAG_SIZE_def)
next
  case False
  then show ?thesis
    using assms(1-4) layout_ok_bounds(1)[OF assms(3)] join_of_split[OF assms(5,6)]
    by (auto simp: decode_tag_def put_prefix_tag_def Let_def slice_splice_inner)
qed

lemma put_prefix_tag_frame:
  assumes "layout_ok L" "\<not> csum_v3 L" "offset + tag_bytes L \<le> length block" "length cs = 2"
  shows "take offset (put_prefix_tag L block offset low high cs f) = take offset block"
    "length (put_prefix_tag L block offset low high cs f) = length block"
  using assms
  by (auto simp: put_prefix_tag_def Let_def take_splice layout_ok_def BLOCK_TAG_SIZE_def
      split: if_splits)

lemma put_tag_record_correct:
  assumes "layout_ok L" "writer_ok L w" "tw_offset w + tag_bytes L \<le> BLOCK_SIZE"
    and "split_blocknr b = (lo, hi)" "hi \<noteq> 0 \<longrightarrow> has_blocknr_high L"
  shows "decode_tag L (put_tag_record w lo hi f d) (tw_offset w) = Ok (written_tag w b f d) \<and>
         take (tw_offset w) (put_tag_record w lo hi f d) = take (tw_offset w) (tw_block w) \<and>
         length (put_tag_record w lo hi f d) = BLOCK_SIZE"
proof (cases "tw_mode w")
  case (ModeV3 s)
  then have "csum_v3 L" "tw_offset w + 16 \<le> length (tw_block w)"
    using assms layout_ok_bounds(5)[of L] by (auto simp: writer_ok_def)
  then show ?thesis
    using ModeV3 assms(2) decode_put_v3[OF _ _ assms(4,5)]
    by (simp add: put_tag_record_def written_tag_def take_splice writer_ok_def)
next
  case (ModeV2 s)
  then show ?thesis
    using assms(1-3) decode_put_prefix[OF _ _ _ _ assms(4,5)]
    by (simp add: put_tag_record_def written_tag_def put_prefix_tag_frame writer_ok_def
        slice_be32_low Let_def)
next
  case Plain
  then have "\<not> csum_v3 L"
    using assms(2) layout_ok_bounds(6)[OF assms(1)] by (auto simp: writer_ok_def)
  then show ?thesis
    using Plain assms(1-3) decode_put_prefix[OF _ _ _ _ assms(4,5)]
    by (simp add: put_tag_record_def written_tag_def put_prefix_tag_frame writer_ok_def)
qed

lemma TagWriter_put_correct:
  assumes "layout_ok L" "writer_ok L w" "TagWriter_put w b f d = Ok w'"
  shows "decode_tag L (tw_block w') (tw_offset w) = Ok (written_tag w b f d)"
    "take (tw_offset w) (tw_block w') = take (tw_offset w) (tw_block w)"
    "tw_offset w' = next_tag_offset L f (tw_offset w)"
    "writer_ok L w'" "tw_mode w' = tw_mode w" "tw_tid w' = tw_tid w"
proof -
  have w: "tw_layout w = L" using assms(2) by (simp add: writer_ok_def)
  obtain lo hi where sp: "split_blocknr b = (lo, hi)" by (cases "split_blocknr b")
  have put: "hi \<noteq> 0 \<longrightarrow> has_blocknr_high L" "next_tag_offset L f (tw_offset w) \<le> tag_area_end L"
    "w' = w\<lparr> tw_block := put_tag_record w lo hi f d, tw_offset := next_tag_offset L f (tw_offset w) \<rparr>"
    using assms(3) w by (auto simp: TagWriter_put_def sp Let_def next_tag_offset_def split: if_splits)
  have "tw_offset w + tag_bytes L \<le> BLOCK_SIZE"
    using put(2) layout_ok_bounds(4)[OF assms(1)] by (simp add: next_tag_offset_def split: if_splits)
  note rec = put_tag_record_correct[OF assms(1,2) this sp put(1), of f d]
  show "decode_tag L (tw_block w') (tw_offset w) = Ok (written_tag w b f d)"
    "take (tw_offset w) (tw_block w') = take (tw_offset w) (tw_block w)"
    "tw_offset w' = next_tag_offset L f (tw_offset w)"
    "tw_mode w' = tw_mode w" "tw_tid w' = tw_tid w"
    using rec by (simp_all add: put(3))
  show "writer_ok L w'"
    using rec put(2) assms(2) by (simp add: put(3) writer_ok_def)
qed

section \<open>Walking what was written\<close>

text \<open>\<open>tags_in L d o ts e\<close>: the descriptor \<open>d\<close> holds exactly the tags \<open>ts\<close> from offset
  \<open>o\<close> up to offset \<open>e\<close>.\<close>

fun tags_in :: "TagLayout \<Rightarrow> bytes \<Rightarrow> nat \<Rightarrow> DescriptorTag list \<Rightarrow> nat \<Rightarrow> bool" where
  "tags_in L d o' [] e \<longleftrightarrow> o' = e"
| "tags_in L d o' (t # ts) e \<longleftrightarrow>
     o' + tag_bytes L \<le> tag_area_end L \<and> decode_tag L d o' = Ok t \<and>
     tags_in L d (next_tag_offset L (dt_flags t) o') ts e"

lemma next_tag_offset_ge: "o' + tag_bytes L \<le> next_tag_offset L f o'"
  by (simp add: next_tag_offset_def)

lemma tags_in_length: "tags_in L d o' ts e \<Longrightarrow> o' + length ts * tag_bytes L \<le> e"
proof (induction ts arbitrary: o')
  case (Cons t ts)
  then show ?case using next_tag_offset_ge[of o' L "dt_flags t"] by fastforce
qed simp

lemma tags_in_snoc:
  "tags_in L d o' (ts @ [t]) e \<longleftrightarrow>
     (\<exists>m. tags_in L d o' ts m \<and> m + tag_bytes L \<le> tag_area_end L \<and> decode_tag L d m = Ok t \<and>
          e = next_tag_offset L (dt_flags t) m)"
  by (induction ts arbitrary: o') auto

lemma tags_in_cong:
  assumes "layout_ok L" "take e d = take e d'"
  shows "tags_in L d o' ts e \<Longrightarrow> tags_in L d' o' ts e"
proof (induction ts arbitrary: o')
  case (Cons t ts)
  then have rest: "tags_in L d (next_tag_offset L (dt_flags t) o') ts e" by simp
  have "o' + tag_bytes L \<le> e"
    using tags_in_length[OF rest] next_tag_offset_ge[of o' L "dt_flags t"] by linarith
  then have "decode_tag L d' o' = decode_tag L d o'"
    using decode_tag_cong[OF assms] by simp
  then show ?case using Cons by simp
qed simp

lemma walk_items_tags_in:
  assumes "tags_in L d o' ts e" "ts \<noteq> []" "length ts < n"
    and "is_last (last ts)" "\<forall>t\<in>set (butlast ts). \<not> is_last t"
  shows "walk_items n \<lparr> wk_layout = L, wk_descriptor = d, wk_offset = o', wk_done = False \<rparr> = map Ok ts"
  using assms
proof (induction ts arbitrary: o' n)
  case (Cons t ts)
  from Cons.prems(3) obtain m where n: "n = Suc (Suc m)" "length ts < Suc m"
    by (cases n; cases "n - 1") auto
  have step: "TagWalk_next \<lparr> wk_layout = L, wk_descriptor = d, wk_offset = o', wk_done = False \<rparr>
     = (Some (Ok t), \<lparr> wk_layout = L, wk_descriptor = d,
          wk_offset = next_tag_offset L (dt_flags t) o', wk_done = is_last t \<rparr>)"
    using Cons.prems(1) by (simp add: TagWalk_next_def next_tag_offset_def reuses_uuid_def Let_def)
  show ?case
  proof (cases "ts = []")
    case True
    then show ?thesis
      using Cons.prems n step by (simp add: TagWalk_next_def)
  next
    case False
    then have "\<not> is_last t" "is_last (last ts)" "\<forall>t\<in>set (butlast ts). \<not> is_last t"
      using Cons.prems by auto
    then show ?thesis
      using Cons.IH[of "next_tag_offset L (dt_flags t) o'" "Suc m"] Cons.prems(1) False n step
      by simp
  qed
qed simp

text \<open>Writing a list of tags, and reading it back.\<close>

fun put_all :: "TagWriter \<Rightarrow> (Ext4Bid \<times> u16 \<times> bytes) list \<Rightarrow> TagWriter result" where
  "put_all w [] = Ok w"
| "put_all w ((b, f, d) # rest) = and_then (TagWriter_put w b f d) (\<lambda>w'. put_all w' rest)"

lemma put_all_snoc:
  "put_all w (xs @ [(b, f, d)]) = and_then (put_all w xs) (\<lambda>w'. TagWriter_put w' b f d)"
  by (induction w xs rule: put_all.induct) (auto simp: and_then_assoc and_then_def split: sum.splits)

definition written_tags :: "TagWriter \<Rightarrow> (Ext4Bid \<times> u16 \<times> bytes) list \<Rightarrow> DescriptorTag list" where
  "written_tags w xs = map (\<lambda>(b, f, d). written_tag w b f d) xs"

lemma put_all_tags_in:
  assumes "layout_ok L" "writer_ok L w"
  shows "put_all w xs = Ok w' \<Longrightarrow>
    writer_ok L w' \<and> tw_mode w' = tw_mode w \<and> tw_tid w' = tw_tid w \<and>
    take (tw_offset w) (tw_block w') = take (tw_offset w) (tw_block w) \<and>
    tw_offset w \<le> tw_offset w' \<and>
    tags_in L (tw_block w') (tw_offset w) (written_tags w xs) (tw_offset w')"
proof (induction xs arbitrary: w' rule: rev_induct)
  case Nil
  then show ?case using assms by (simp add: written_tags_def)
next
  case (snoc x xs)
  obtain b f d where x: "x = (b, f, d)" by (cases x)
  from snoc.prems obtain w1 where w1: "put_all w xs = Ok w1" "TagWriter_put w1 b f d = Ok w'"
    by (auto simp: x put_all_snoc)
  note IH = snoc.IH[OF w1(1)]
  note put = TagWriter_put_correct[OF assms(1) _ w1(2)]
  have same: "written_tag w1 b f d = written_tag w b f d"
    using IH by (auto simp: written_tag_def split: TagCsumMode.splits)
  have old: "tags_in L (tw_block w') (tw_offset w) (written_tags w xs) (tw_offset w1)"
    using IH put(2) by (auto intro: tags_in_cong[OF assms(1)])
  have "take (tw_offset w) (tw_block w') = take (tw_offset w) (tw_block w)"
    using IH put(2) by (metis (no_types, lifting) min.absorb1 take_take)
  moreover have "tw_offset w1 + tag_bytes L \<le> tw_offset w'"
    using put(3) IH next_tag_offset_ge by simp
  moreover have "tw_offset w' \<le> tag_area_end L"
    using put(4) IH writer_okD by blast
  ultimately show ?case
    using old IH put same
    by (auto simp: x written_tags_def tags_in_snoc written_tag_def)
qed

lemma take_TagWriter_finish:
  assumes "layout_ok L" "writer_ok L w" "n \<le> tag_area_end L"
  shows "take n (TagWriter_finish w) = take n (tw_block w)"
proof -
  have "tag_area_end L = BLOCK_SIZE - DESCRIPTOR_TAIL_BYTES" if "has_csum L"
    using that assms(1) by (auto simp: layout_ok_def has_csum_def tag_area_end_def format_consts)
  then show ?thesis
    using assms layout_ok_bounds(6)[OF assms(1)]
    by (auto simp: TagWriter_finish_def writer_ok_def intro!: take_stamp_block_tail
        split: TagCsumMode.splits)
qed

lemma length_TagWriter_finish [simp]:
  "length (tw_block w) = BLOCK_SIZE \<Longrightarrow> length (TagWriter_finish w) = BLOCK_SIZE"
  by (simp add: TagWriter_finish_def split: TagCsumMode.splits)

lemma walk_tags_written:
  assumes "layout_ok L" "writer_ok L w" "tw_offset w = first_tag_offset L"
    and "put_all w xs = Ok w'" "xs \<noteq> []"
    and "is_last (last (written_tags w xs))"
    and "\<forall>t\<in>set (butlast (written_tags w xs)). \<not> is_last t"
  shows "walk_tags L (TagWriter_finish w') = map Ok (written_tags w xs)"
proof -
  note res = put_all_tags_in[OF assms(1,2,4)]
  then have "writer_ok L w'" "tw_offset w' \<le> tag_area_end L" using writer_okD by blast+
  then have fin: "take (tw_offset w') (TagWriter_finish w') = take (tw_offset w') (tw_block w')"
    by (rule take_TagWriter_finish[OF assms(1)])
  have tin: "tags_in L (TagWriter_finish w') (first_tag_offset L) (written_tags w xs) (tw_offset w')"
    using res assms(3) fin by (auto intro: tags_in_cong[OF assms(1)])
  have "length (written_tags w xs) * tag_bytes L \<le> tw_offset w'"
    using tags_in_length[OF tin] by simp
  also have "\<dots> \<le> BLOCK_SIZE"
    using res writer_okD[of L w'] layout_ok_bounds(4)[OF assms(1)] by simp
  finally have "length (written_tags w xs) * 8 \<le> BLOCK_SIZE"
    using layout_ok_bounds(1)[OF assms(1)] by (meson le_trans mult_le_mono2)
  then have "length (written_tags w xs) < BLOCK_SIZE"
    using assms(5) by (simp add: BLOCK_SIZE_def)
  then show ?thesis
    using walk_items_tags_in[OF tin] assms(5-7)
    by (simp add: walk_tags_def TagLayout_walk_def written_tags_def)
qed

section \<open>Descriptor capacity\<close>

text \<open>A block number fits the layout's tags.\<close>

definition blocknr_fits :: "TagLayout \<Rightarrow> Ext4Bid \<Rightarrow> bool" where
  "blocknr_fits L b \<longleftrightarrow> has_blocknr_high L \<or> unat b < 2 ^ 32"

lemma drop_bit_32_eq_0_iff: "(ucast (drop_bit 32 b) :: u32) = 0 \<longleftrightarrow> unat b < 2 ^ 32" for b :: u64
proof -
  have "(ucast (drop_bit 32 b) :: u32) = 0 \<longleftrightarrow> drop_bit 32 b = 0"
  proof
    assume "(ucast (drop_bit 32 b) :: u32) = 0"
    then have "\<not> bit (ucast (drop_bit 32 b) :: u32) k" for k by simp
    then have "\<not> bit b (32 + k)" for k
      using bit_imp_le_length[of b "32 + k"] by (cases "k < 32") (auto simp: bit_simps)
    then show "drop_bit 32 b = 0"
      by (intro bit_word_eqI) (simp add: bit_simps)
  qed simp
  also have "\<dots> \<longleftrightarrow> unat (drop_bit 32 b) = 0" by (simp add: unat_eq_0)
  also have "\<dots> \<longleftrightarrow> unat b div 2 ^ 32 = 0" by (simp add: unat_div_distrib drop_bit_eq_div)
  finally show ?thesis by (simp add: div_eq_0_iff)
qed

lemma ucast_u64_u32_id: "unat (b :: u64) < 2 ^ 32 \<Longrightarrow> ucast (ucast b :: u32) = b"
  by (metis drop_bit_32_eq_0_iff join_blocknr_def join_split_blocknr or.right_neutral
      push_bit_of_0 ucast_0)

lemma put_succeeds_iff:
  "tw_layout w = L \<Longrightarrow>
   (\<exists>w'. TagWriter_put w b f d = Ok w') \<longleftrightarrow>
     blocknr_fits L b \<and> next_tag_offset L f (tw_offset w) \<le> tag_area_end L"
  by (auto simp: TagWriter_put_def split_blocknr_eq Let_def next_tag_offset_def blocknr_fits_def
      drop_bit_32_eq_0_iff)

text \<open>The flag discipline of a descriptor run: the first tag carries the UUID, all others
  reuse it.\<close>

definition run_flags :: "(Ext4Bid \<times> u16 \<times> bytes) list \<Rightarrow> bool" where
  "run_flags xs \<longleftrightarrow>
     (\<forall>i < length xs. (fst (snd (xs ! i)) AND TAG_FLAG_SAME_UUID = 0) \<longleftrightarrow> i = 0)"

lemma run_flags_snoc:
  "run_flags (xs @ [(b, f, d)]) \<longleftrightarrow>
     run_flags xs \<and> ((f AND TAG_FLAG_SAME_UUID = 0) \<longleftrightarrow> xs = [])"
  by (auto simp: run_flags_def nth_append less_Suc_eq)

definition run_end :: "TagLayout \<Rightarrow> nat \<Rightarrow> nat" where
  "run_end L n = (if n = 0 then first_tag_offset L
                  else first_tag_offset L + TAG_UUID_BYTES + n * tag_bytes L)"

lemma next_tag_offset_run:
  "((f AND TAG_FLAG_SAME_UUID = 0) \<longleftrightarrow> n = 0) \<Longrightarrow> next_tag_offset L f (run_end L n) = run_end L (Suc n)"
  by (auto simp: next_tag_offset_def run_end_def)

lemma put_all_offset:
  assumes "layout_ok L" "writer_ok L w" "tw_offset w = first_tag_offset L"
  shows "run_flags xs \<Longrightarrow> put_all w xs = Ok w' \<Longrightarrow> tw_offset w' = run_end L (length xs)"
proof (induction xs arbitrary: w' rule: rev_induct)
  case Nil
  then show ?case using assms(3) by (simp add: run_end_def)
next
  case (snoc x xs)
  obtain b f d where x: "x = (b, f, d)" by (cases x)
  then have fl: "run_flags xs" "(f AND TAG_FLAG_SAME_UUID = 0) \<longleftrightarrow> length xs = 0"
    using snoc.prems(1) by (auto simp: run_flags_snoc)
  from snoc.prems(2) obtain w1 where w1: "put_all w xs = Ok w1" "TagWriter_put w1 b f d = Ok w'"
    by (auto simp: x put_all_snoc)
  have "writer_ok L w1" using put_all_tags_in[OF assms(1,2) w1(1)] by blast
  then show ?case
    using TagWriter_put_correct(3)[OF assms(1) _ w1(2)] snoc.IH[OF fl(1) w1(1)]
      next_tag_offset_run[OF fl(2)] by simp
qed

lemma put_all_fits_iff:
  assumes "layout_ok L" "writer_ok L w" "tw_offset w = first_tag_offset L"
  shows "run_flags xs \<Longrightarrow> \<forall>x\<in>set xs. blocknr_fits L (fst x) \<Longrightarrow>
    (\<exists>w'. put_all w xs = Ok w') \<longleftrightarrow> run_end L (length xs) \<le> tag_area_end L"
proof (induction xs rule: rev_induct)
  case Nil
  then show ?case using writer_okD[OF assms(2)] assms(3) by (simp add: run_end_def)
next
  case (snoc x xs)
  obtain b f d where x: "x = (b, f, d)" by (cases x)
  then have fl: "run_flags xs" "(f AND TAG_FLAG_SAME_UUID = 0) \<longleftrightarrow> length xs = 0"
    and fits: "\<forall>x\<in>set xs. blocknr_fits L (fst x)" "blocknr_fits L b"
    using snoc.prems by (auto simp: run_flags_snoc)
  have put: "(\<exists>w2. TagWriter_put w1 b f d = Ok w2) \<longleftrightarrow> run_end L (Suc (length xs)) \<le> tag_area_end L"
    if "put_all w xs = Ok w1" for w1
  proof -
    have "tw_layout w1 = L"
      using put_all_tags_in[OF assms(1,2) that] writer_okD by blast
    then show ?thesis
      using put_succeeds_iff[of w1 L b f d] put_all_offset[OF assms fl(1) that] fits(2)
        next_tag_offset_run[OF fl(2)] by simp
  qed
  have mono: "run_end L (length xs) \<le> run_end L (Suc (length xs))" by (simp add: run_end_def)
  show ?case
  proof (cases "put_all w xs")
    case (Inl e)
    then have "\<not> run_end L (length xs) \<le> tag_area_end L" using snoc.IH[OF fl(1) fits(1)] by simp
    then show ?thesis using mono Inl by (simp add: x put_all_snoc)
  next
    case (Inr w1)
    then show ?thesis using put[OF Inr] by (simp add: x put_all_snoc)
  qed
qed

lemma tags_per_descriptor_exact:
  assumes "layout_ok L"
  shows "run_end L n \<le> tag_area_end L \<longleftrightarrow> n \<le> tags_per_descriptor L"
proof -
  have "0 < tag_bytes L" using layout_ok_bounds(1)[OF assms] by simp
  moreover have "first_tag_offset L + TAG_UUID_BYTES \<le> tag_area_end L"
    using layout_ok_bounds(3)[OF assms] by (simp add: first_tag_offset_def format_consts)
  ultimately show ?thesis
    by (auto simp: run_end_def tags_per_descriptor_def less_eq_div_iff_mult_less_eq)
qed

section \<open>Revoke blocks read back\<close>

definition revoke_entry_bytes :: "RevokeEntryWidth \<Rightarrow> Ext4Bid \<Rightarrow> bytes" where
  "revoke_entry_bytes W b = (case W of Wide \<Rightarrow> be64 b | Narrow \<Rightarrow> be32 (ucast b))"

fun revoke_put_all :: "RevokeBlockWriter \<Rightarrow> Ext4Bid list \<Rightarrow> RevokeBlockWriter result" where
  "revoke_put_all w [] = Ok w"
| "revoke_put_all w (b # bs) = and_then (RevokeBlockWriter_put w b) (\<lambda>w'. revoke_put_all w' bs)"

definition revoke_writer_ok :: "TagLayout \<Rightarrow> RevokeBlockWriter \<Rightarrow> bool" where
  "revoke_writer_ok L w \<longleftrightarrow>
     rw_layout w = L \<and> rw_width w = revoke_entry_width L \<and> length (rw_block w) = BLOCK_SIZE \<and>
     REVOKE_HEADER_SIZE \<le> rw_offset w \<and> rw_offset w \<le> tag_area_end L \<and>
     (rw_seed w \<noteq> None) = has_csum L"

lemma length_revoke_entry_bytes [simp]:
  "length (revoke_entry_bytes W b) = RevokeEntryWidth_bytes W"
  by (cases W) (simp_all add: revoke_entry_bytes_def)

lemma length_concat_entries:
  "length (concat (map (revoke_entry_bytes W) bs)) = length bs * RevokeEntryWidth_bytes W"
  by (induction bs) simp_all

lemma revoke_put_eq:
  assumes "revoke_writer_ok L w"
  shows "RevokeBlockWriter_put w b =
    (let e = rw_offset w + RevokeEntryWidth_bytes (revoke_entry_width L) in
     if e > tag_area_end L then Err ENOSPC
     else if \<not> blocknr_fits L b then Err EFBIG
     else Ok (w\<lparr> rw_block := splice (rw_offset w) (revoke_entry_bytes (revoke_entry_width L) b) (rw_block w),
                  rw_offset := e \<rparr>))"
  using assms
  by (auto simp: RevokeBlockWriter_put_def revoke_writer_ok_def revoke_entry_width_def Let_def
      revoke_entry_bytes_def blocknr_fits_def not_less)

lemma revoke_put_all_correct:
  assumes "layout_ok L"
  shows "revoke_writer_ok L w \<Longrightarrow> revoke_put_all w bs = Ok w' \<Longrightarrow>
    revoke_writer_ok L w' \<and> rw_seed w' = rw_seed w \<and>
    rw_offset w' = rw_offset w + length bs * RevokeEntryWidth_bytes (revoke_entry_width L) \<and>
    take (rw_offset w) (rw_block w') = take (rw_offset w) (rw_block w) \<and>
    slice (rw_offset w) (length bs * RevokeEntryWidth_bytes (revoke_entry_width L)) (rw_block w')
      = concat (map (revoke_entry_bytes (revoke_entry_width L)) bs) \<and>
    (\<forall>b\<in>set bs. blocknr_fits L b)"
proof (induction bs arbitrary: w)
  case Nil
  then show ?case by (simp add: slice_def)
next
  case (Cons b bs)
  let ?W = "revoke_entry_width L"
  let ?n = "RevokeEntryWidth_bytes ?W"
  let ?blk = "splice (rw_offset w) (revoke_entry_bytes ?W b) (rw_block w)"
  let ?w1 = "w\<lparr> rw_block := ?blk, rw_offset := rw_offset w + ?n \<rparr>"
  have fit: "rw_offset w + ?n \<le> tag_area_end L" "blocknr_fits L b" and rest: "revoke_put_all ?w1 bs = Ok w'"
    using Cons.prems by (auto simp: revoke_put_eq Let_def split: if_splits)
  have len: "length (rw_block w) = BLOCK_SIZE" "rw_offset w + ?n \<le> BLOCK_SIZE"
    using Cons.prems(1) fit(1) layout_ok_bounds(4)[OF assms] by (auto simp: revoke_writer_ok_def)
  have ok1: "revoke_writer_ok L ?w1"
    using Cons.prems(1) fit(1) len by (auto simp: revoke_writer_ok_def)
  note IH = Cons.IH[OF ok1 rest]
  have keep: "take (rw_offset w + ?n) (rw_block w') = take (rw_offset w + ?n) ?blk" using IH by simp
  have first: "slice (rw_offset w) ?n (rw_block w') = revoke_entry_bytes ?W b"
    using slice_cong_take[OF keep, of "rw_offset w" ?n] len by simp
  have "take (rw_offset w) (rw_block w') = take (rw_offset w) ?blk"
    using keep by (metis le_add1 min.absorb1 take_take)
  moreover have "slice (rw_offset w) (length (b # bs) * ?n) (rw_block w')
      = slice (rw_offset w) ?n (rw_block w') @ slice (rw_offset w + ?n) (length bs * ?n) (rw_block w')"
    by (simp add: slice_def take_add add.commute)
  ultimately show ?case
    using IH first fit(2) len by (simp add: take_splice)
qed

lemma revoke_entries_slice:
  assumes "\<forall>b\<in>set bs. W = Wide \<or> unat b < 2 ^ 32"
    and "slice o' (length bs * RevokeEntryWidth_bytes W) d = concat (map (revoke_entry_bytes W) bs)"
  shows "revoke_entries \<lparr> rk_width = W, rk_block = d, rk_offset = o',
           rk_end = o' + length bs * RevokeEntryWidth_bytes W \<rparr> = bs"
  using assms
proof (induction bs arbitrary: o')
  case Nil
  have "0 < RevokeEntryWidth_bytes W" by (cases W) simp_all
  then show ?case by (subst revoke_entries.simps) (simp add: RevokeEntryWalk_next_def Let_def)
next
  case (Cons b bs)
  let ?n = "RevokeEntryWidth_bytes W"
  have pos: "0 < ?n" by (cases W) simp_all
  have split: "slice o' (length (b # bs) * ?n) d = slice o' ?n d @ slice (o' + ?n) (length bs * ?n) d"
    by (simp add: slice_def take_add add.commute)
  have "length (slice o' (length (b # bs) * ?n) d) = length (b # bs) * ?n"
    using Cons.prems(2) by (simp only: length_concat_entries)
  then have l: "length (slice o' ?n d) = ?n" by simp
  then have first: "slice o' ?n d = revoke_entry_bytes W b"
    and rest: "slice (o' + ?n) (length bs * ?n) d = concat (map (revoke_entry_bytes W) bs)"
    using Cons.prems(2) split by simp_all
  have dec: "(case W of Narrow \<Rightarrow> ucast (word_of_be (revoke_entry_bytes W b) :: u32)
               | Wide \<Rightarrow> word_of_be (revoke_entry_bytes W b)) = b"
    using Cons.prems(1) by (cases W) (auto simp: revoke_entry_bytes_def ucast_u64_u32_id)
  have IH: "revoke_entries \<lparr> rk_width = W, rk_block = d, rk_offset = o' + ?n,
           rk_end = o' + ?n + length bs * ?n \<rparr> = bs"
    using Cons.prems(1) rest by (intro Cons.IH) auto
  show ?case
    using IH by (subst revoke_entries.simps)
      (simp add: RevokeEntryWalk_next_def Let_def first dec add.assoc)
qed

lemma revoke_writer_ok_initial:
  assumes "layout_ok L" "revoke_writer L t seed = Ok w"
  shows "revoke_writer_ok L w" "rw_offset w = REVOKE_HEADER_SIZE" "rw_seed w = seed"
    "take 12 (rw_block w) = be32 JBD2_MAGIC @ be32 BLOCKTYPE_REVOKE @ be32 t"
  using assms layout_ok_bounds(3,4)[OF assms(1)]
  by (auto simp: revoke_writer_def revoke_writer_ok_def Let_def splice_def
      RawJournalHeader_as_bytes_def format_consts split: if_splits)

lemma revoke_area_end:
  "layout_ok L \<Longrightarrow> seed \<noteq> None \<longleftrightarrow> has_csum L \<Longrightarrow>
   tag_area_end L = (if seed = None then BLOCK_SIZE else BLOCK_SIZE - DESCRIPTOR_TAIL_BYTES)"
  by (auto simp: layout_ok_def has_csum_def tag_area_end_def format_consts)

lemma revoke_finish_frame:
  assumes "layout_ok L" "revoke_writer_ok L w"
  shows "length (RevokeBlockWriter_finish w) = BLOCK_SIZE"
    "12 + 4 \<le> s \<Longrightarrow> s + n \<le> tag_area_end L \<Longrightarrow>
       slice s n (RevokeBlockWriter_finish w) = slice s n (rw_block w)"
    "take 12 (RevokeBlockWriter_finish w) = take 12 (rw_block w)"
    "slice 12 4 (RevokeBlockWriter_finish w) = be32 (word_of_nat (rw_offset w))"
proof -
  let ?b1 = "splice 12 (be32 (word_of_nat (rw_offset w))) (rw_block w)"
  have len: "length (rw_block w) = BLOCK_SIZE" and sd: "rw_seed w \<noteq> None \<longleftrightarrow> has_csum L"
    using assms(2) by (simp_all add: revoke_writer_ok_def)
  have l1: "length ?b1 = BLOCK_SIZE" using len by (simp add: BLOCK_SIZE_def)
  have tk: "take n (RevokeBlockWriter_finish w) = take n ?b1" if "n \<le> tag_area_end L" for n
    using that revoke_area_end[OF assms(1) sd] l1
    by (auto simp: RevokeBlockWriter_finish_def Let_def take_stamp_block_tail split: option.splits)
  have big: "4092 \<le> tag_area_end L" by (rule layout_ok_bounds(3)[OF assms(1)])
  show "length (RevokeBlockWriter_finish w) = BLOCK_SIZE"
    using l1 by (simp add: RevokeBlockWriter_finish_def Let_def split: option.splits)
  show "take 12 (RevokeBlockWriter_finish w) = take 12 (rw_block w)"
    using tk[of 12] big len by (simp add: take_splice BLOCK_SIZE_def)
  show "slice 12 4 (RevokeBlockWriter_finish w) = be32 (word_of_nat (rw_offset w))"
    using slice_cong_take[OF tk[of 16], of 12 4] big len by (simp add: BLOCK_SIZE_def)
  show "slice s n (RevokeBlockWriter_finish w) = slice s n (rw_block w)"
    if "12 + 4 \<le> s" "s + n \<le> tag_area_end L"
    using slice_cong_take[OF tk[OF that(2)], of s n] that(1) len
    by (simp add: slice_splice_after BLOCK_SIZE_def)
qed

lemma revoke_finish_walk:
  assumes "layout_ok L" "revoke_writer_ok L w" "rw_offset w = REVOKE_HEADER_SIZE"
    and "revoke_put_all w bs = Ok w'"
  shows "\<exists>k. walk_revoke L (RevokeBlockWriter_finish w') = Ok k \<and> revoke_entries k = bs"
proof -
  let ?W = "revoke_entry_width L"
  note put = revoke_put_all_correct[OF assms(1,2,4)]
  have ok: "revoke_writer_ok L w'" using put by blast
  note frame = revoke_finish_frame[OF assms(1) ok]
  have off: "rw_offset w' = REVOKE_HEADER_SIZE + length bs * RevokeEntryWidth_bytes ?W"
    using put assms(3) by simp
  have lim: "rw_offset w' \<le> tag_area_end L" using ok by (simp add: revoke_writer_ok_def)
  then have cnt: "unat (r_count (RawRevokeHeader_parse (RevokeBlockWriter_finish w'))) = rw_offset w'"
    using frame(4) layout_ok_bounds(4)[OF assms(1)]
    by (simp add: RawRevokeHeader_parse_def unat_of_nat BLOCK_SIZE_def)
  have ent: "slice REVOKE_HEADER_SIZE (length bs * RevokeEntryWidth_bytes ?W)
      (RevokeBlockWriter_finish w') = concat (map (revoke_entry_bytes ?W) bs)"
    using frame(2)[of REVOKE_HEADER_SIZE "length bs * RevokeEntryWidth_bytes ?W"] off lim put assms(3)
    by (simp add: REVOKE_HEADER_SIZE_def)
  have "\<forall>b\<in>set bs. ?W = Wide \<or> unat b < 2 ^ 32"
    using put by (auto simp: blocknr_fits_def revoke_entry_width_def)
  then show ?thesis
    using revoke_entries_slice[OF _ ent] cnt off lim by (simp add: walk_revoke_def Let_def)
qed

section \<open>Properties of the format\<close>

text \<open>C28: descriptor tags round trip.  In every layout the feature bits select, the tags a
  writer puts into a descriptor block are exactly the tags the walk yields from the finished
  block, in order, with their block numbers, flags and checksums, provided only the last one
  carries the last-tag flag.\<close>

theorem tag_round_trip:
  assumes "from_features feat = Ok L" "length block = BLOCK_SIZE"
    and "TagLayout_writer L block t seed = Ok w" "put_all w xs = Ok w'" "xs \<noteq> []"
    and "fst (snd (last xs)) AND TAG_FLAG_LAST_TAG \<noteq> 0"
    and "\<forall>x\<in>set (butlast xs). fst (snd x) AND TAG_FLAG_LAST_TAG = 0"
  shows "walk_tags L (TagWriter_finish w') = map (\<lambda>(b, f, d). Ok (written_tag w b f d)) xs"
proof -
  have ok: "layout_ok L" by (rule from_features_layout_ok[OF assms(1)])
  have w: "writer_ok L w" "tw_offset w = first_tag_offset L"
    using writer_ok_initial[OF ok assms(2,3)] by simp_all
  have last: "is_last (last (written_tags w xs))"
    using assms(5,6)
    by (auto simp: written_tags_def last_map is_last_def written_tag_def split: prod.splits)
  have "\<forall>t\<in>set (butlast (written_tags w xs)). \<not> is_last t"
    using assms(7) by (auto simp: written_tags_def is_last_def written_tag_def simp flip: map_butlast)
  then have "walk_tags L (TagWriter_finish w') = map Ok (written_tags w xs)"
    using walk_tags_written[OF ok w assms(4,5) last] by blast
  then show ?thesis by (simp add: written_tags_def case_prod_unfold)
qed

text \<open>A plain layout, a zeroed block and one tag for block 7.\<close>

definition plain_layout :: TagLayout where
  "plain_layout = \<lparr> tag_bytes = 8, has_blocknr_high = False, csum_v3 = False, descriptor_tail_bytes = 0 \<rparr>"

definition plain_writer :: TagWriter where
  "plain_writer = \<lparr> tw_layout = plain_layout, tw_block = replicate BLOCK_SIZE 0,
     tw_offset = first_tag_offset plain_layout, tw_tid = 1, tw_mode = Plain \<rparr>"

lemma plain_layout_facts:
  "from_features 0 = Ok plain_layout" "TagLayout_writer plain_layout (replicate BLOCK_SIZE 0) 1 None = Ok plain_writer"
  "layout_ok plain_layout"
  by (simp_all add: from_features_def plain_layout_def format_consts TagLayout_writer_def has_csum_def plain_writer_def
      layout_ok_def)

lemma plain_put: "\<exists>w'. put_all plain_writer [(7, TAG_FLAG_LAST_TAG, [])] = Ok w'"
proof -
  have w: "writer_ok plain_layout plain_writer" "tw_offset plain_writer = first_tag_offset plain_layout"
    using writer_ok_initial[OF plain_layout_facts(3) _ plain_layout_facts(2)] by simp_all
  have "run_flags [(7, TAG_FLAG_LAST_TAG, [])]" by (simp add: run_flags_def format_consts)
  moreover have "run_end plain_layout 1 \<le> tag_area_end plain_layout"
    by (simp add: run_end_def tag_area_end_def first_tag_offset_def plain_layout_def format_consts BLOCK_SIZE_def)
  ultimately show ?thesis
    using put_all_fits_iff[OF plain_layout_facts(3) w, of "[(7, TAG_FLAG_LAST_TAG, [])]"] by (simp add: blocknr_fits_def)
qed

theorem tag_round_trip_witness:
  "\<exists>w'. put_all plain_writer [(7, TAG_FLAG_LAST_TAG, [])] = Ok w' \<and>
     walk_tags plain_layout (TagWriter_finish w') = [Ok (written_tag plain_writer 7 TAG_FLAG_LAST_TAG [])]"
proof -
  obtain w' where w': "put_all plain_writer [(7, TAG_FLAG_LAST_TAG, [])] = Ok w'" using plain_put by blast
  from tag_round_trip[OF plain_layout_facts(1) _ plain_layout_facts(2) w'] w' show ?thesis
    by (simp add: format_consts)
qed

text \<open>C29: the capacity figure the commit path plans its descriptor runs with is exact: a run of
  fitting block numbers, whose first tag alone carries the UUID, can be written into one descriptor
  block if and only if it is no longer than \<open>tags_per_descriptor\<close>.\<close>

theorem descriptor_capacity_exact:
  assumes "from_features feat = Ok L" "length block = BLOCK_SIZE"
    and "TagLayout_writer L block t seed = Ok w"
    and "run_flags xs" "\<forall>x\<in>set xs. blocknr_fits L (fst x)"
  shows "(\<exists>w'. put_all w xs = Ok w') \<longleftrightarrow> length xs \<le> tags_per_descriptor L"
proof -
  have ok: "layout_ok L" by (rule from_features_layout_ok[OF assms(1)])
  have w: "writer_ok L w" "tw_offset w = first_tag_offset L"
    using writer_ok_initial[OF ok assms(2,3)] by simp_all
  show ?thesis
    using put_all_fits_iff[OF ok w assms(4,5)] tags_per_descriptor_exact[OF ok] by simp
qed

theorem descriptor_capacity_exact_witness:
  "(\<exists>w'. put_all plain_writer [(7, TAG_FLAG_LAST_TAG, [])] = Ok w') \<longleftrightarrow> 1 \<le> tags_per_descriptor plain_layout"
  using descriptor_capacity_exact[OF plain_layout_facts(1) _ plain_layout_facts(2), of "[(7, TAG_FLAG_LAST_TAG, [])]"]
  by (simp add: run_flags_def format_consts blocknr_fits_def)

text \<open>C30: revoke blocks round trip.  The entries a revoke writer puts are exactly those the
  walk of the finished block yields, the header names a revoke block of the writer's
  transaction, and under a checksum layout the tail verifies.\<close>

theorem revoke_block_round_trip:
  assumes "from_features feat = Ok L" "revoke_writer L t seed = Ok w" "revoke_put_all w bs = Ok w'"
  shows "(\<exists>k. walk_revoke L (RevokeBlockWriter_finish w') = Ok k \<and> revoke_entries k = bs) \<and>
         RawJournalHeader_parse (RevokeBlockWriter_finish w')
           = \<lparr> h_magic = JBD2_MAGIC, h_blocktype = BLOCKTYPE_REVOKE, h_sequence = t \<rparr> \<and>
         (case seed of None \<Rightarrow> True | Some s \<Rightarrow> verify_block_tail s (RevokeBlockWriter_finish w'))"
proof (intro conjI)
  have ok: "layout_ok L" by (rule from_features_layout_ok[OF assms(1)])
  note init = revoke_writer_ok_initial[OF ok assms(2)]
  note put = revoke_put_all_correct[OF ok init(1) assms(3)]
  have ok': "revoke_writer_ok L w'" using put by blast
  show "\<exists>k. walk_revoke L (RevokeBlockWriter_finish w') = Ok k \<and> revoke_entries k = bs"
    by (rule revoke_finish_walk[OF ok init(1,2) assms(3)])
  have "take REVOKE_HEADER_SIZE (rw_block w') = take REVOKE_HEADER_SIZE (rw_block w)"
    using put init(2) by simp
  then have "take 12 (take REVOKE_HEADER_SIZE (rw_block w')) = take 12 (take REVOKE_HEADER_SIZE (rw_block w))"
    by (rule arg_cong)
  then have tk: "take 12 (RevokeBlockWriter_finish w')
      = take 12 (be32 JBD2_MAGIC @ be32 BLOCKTYPE_REVOKE @ be32 t)"
    using revoke_finish_frame(3)[OF ok ok'] init(4) by (simp add: REVOKE_HEADER_SIZE_def)
  show "RawJournalHeader_parse (RevokeBlockWriter_finish w')
         = \<lparr> h_magic = JBD2_MAGIC, h_blocktype = BLOCKTYPE_REVOKE, h_sequence = t \<rparr>"
    using slice_cong_take[OF tk, of 0 4] slice_cong_take[OF tk, of 4 4] slice_cong_take[OF tk, of 8 4]
    by (simp add: RawJournalHeader_parse_def)
  show "case seed of None \<Rightarrow> True | Some s \<Rightarrow> verify_block_tail s (RevokeBlockWriter_finish w')"
    using put init(3) ok'
    by (auto simp: RevokeBlockWriter_finish_def Let_def revoke_writer_ok_def BLOCK_SIZE_def
        intro!: verify_stamp_block_tail split: option.splits)
qed

theorem revoke_block_round_trip_witness:
  "\<exists>w w' k. revoke_writer plain_layout 1 None = Ok w \<and> revoke_put_all w [7] = Ok w' \<and>
     walk_revoke plain_layout (RevokeBlockWriter_finish w') = Ok k \<and> revoke_entries k = [7]"
proof -
  obtain w where w: "revoke_writer plain_layout 1 None = Ok w"
    by (simp add: revoke_writer_def has_csum_def plain_layout_def Let_def)
  note init = revoke_writer_ok_initial[OF plain_layout_facts(3) w]
  have "rw_offset w + RevokeEntryWidth_bytes (revoke_entry_width plain_layout) \<le> tag_area_end plain_layout"
    using init(2) by (simp add: revoke_entry_width_def plain_layout_def tag_area_end_def format_consts BLOCK_SIZE_def)
  then obtain w' where w': "revoke_put_all w [7] = Ok w'"
    using revoke_put_eq[OF init(1), of 7] by (auto simp: Let_def blocknr_fits_def)
  from revoke_block_round_trip[OF plain_layout_facts(1) w w'] w w' show ?thesis by blast
qed

text \<open>C31: the block tail detects corruption.  A stamped block in which at most four consecutive
  bytes of the covered area are altered no longer verifies.\<close>

theorem block_tail_detects_burst:
  assumes "length block = BLOCK_SIZE" "stamp_block_tail seed block = pre @ xs @ post"
    and "length xs = length ys" "length xs \<le> 4" "xs \<noteq> ys"
    and "length pre + length xs \<le> BLOCK_SIZE - DESCRIPTOR_TAIL_BYTES"
  shows "\<not> verify_block_tail seed (pre @ ys @ post)"
proof -
  let ?n = "BLOCK_SIZE - DESCRIPTOR_TAIL_BYTES"
  have tk: "take ?n (pre @ zs @ post) = pre @ zs @ take (?n - length pre - length zs) post"
    if "length zs = length xs" for zs
    using assms(6) that by simp
  have "crc32c s ys \<noteq> crc32c s xs" for s
    using crc32c_short_inj[OF assms(3,4)] assms(5) by metis
  then have "block_tail_csum seed (pre @ ys @ post) \<noteq> block_tail_csum seed (pre @ xs @ post)"
    using assms(3)
    by (simp add: block_tail_csum_def Let_def tk crc32c_append crc32c_inj_state del: take_append)
  moreover have "drop ?n (pre @ ys @ post) = drop ?n (pre @ xs @ post)"
    using assms(3,6) by simp
  moreover have "verify_block_tail seed (pre @ xs @ post)"
    using verify_stamp_block_tail[OF assms(1), of seed] assms(2) by simp
  ultimately show ?thesis by (simp add: verify_block_tail_def)
qed

theorem block_tail_detects_burst_witness:
  "\<not> verify_block_tail (JournalCsumSeed 5)
     ([0, 0, 1] @ drop 3 (stamp_block_tail (JournalCsumSeed 5) (replicate BLOCK_SIZE 0)))"
proof -
  let ?b = "stamp_block_tail (JournalCsumSeed 5) (replicate BLOCK_SIZE 0)"
  have "take 3 ?b = [0, 0, 0]"
    by (simp add: stamp_block_tail_def splice_def BLOCK_SIZE_def format_consts Let_def numeral_eq_Suc)
  then have "?b = [0, 0] @ [0] @ drop 3 ?b"
    by (metis append_Cons append_Nil append_take_drop_id)
  from block_tail_detects_burst[OF _ this, of "[1]"] show ?thesis
    by (simp add: format_consts BLOCK_SIZE_def)
qed

end
