(* ===== verification/Revoke.thy ===== *)
theory Revoke
  imports Tid Btree_Map Journal_Format
begin

text \<open>
  Revoke records of \<open>journal/revoke.rs\<close>: the committed-revoke table with its
  newest-wins recording, the suppression test the appliers consult and the
  retirement at checkpoint, and the block-free authorizations.  The locale
  \<open>revoke_memory\<close> states what the checkpoint and the recovery passes rely on.
\<close>

section \<open>The table\<close>

type_synonym RevokeTable = "(Ext4Bid \<times> tid) list"

definition RevokeTable_new :: RevokeTable where
  "RevokeTable_new = []"

definition record_revoke :: "RevokeTable \<Rightarrow> Ext4Bid \<Rightarrow> tid \<Rightarrow> RevokeTable" where
  "record_revoke table bid t =
     (if (case bt_get table bid of None \<Rightarrow> False | Some existing \<Rightarrow> tid_geq existing t)
      then table
      else bt_insert bid t table)"

definition suppresses :: "RevokeTable \<Rightarrow> Ext4Bid \<Rightarrow> tid \<Rightarrow> bool" where
  "suppresses table bid txn_tid =
     (case bt_get table bid of None \<Rightarrow> False | Some r \<Rightarrow> tid_geq r txn_tid)"

definition retire_through :: "RevokeTable \<Rightarrow> tid \<Rightarrow> RevokeTable" where
  "retire_through table committed = bt_retain (\<lambda>_ tid_r. \<not> tid_geq committed tid_r) table"

section \<open>Free authorizations\<close>

text \<open>\<open>RevokeDuty\<close> carries no data: the duty is that the record exists.\<close>

record BlockFreeAuth =
  auth_start :: Ext4Bid
  auth_count :: u32
  auth_duty :: "unit option"

definition without_revoke_duty :: "Ext4Bid \<Rightarrow> u32 \<Rightarrow> BlockFreeAuth" where
  "without_revoke_duty start count = \<lparr> auth_start = start, auth_count = count, auth_duty = None \<rparr>"

definition forget :: "Ext4Bid \<Rightarrow> u32 \<Rightarrow> BlockFreeAuth" where
  "forget start count = \<lparr> auth_start = start, auth_count = count, auth_duty = Some () \<rparr>"

definition BlockFreeAuth_into_parts :: "BlockFreeAuth \<Rightarrow> Ext4Bid \<times> u32 \<times> unit option" where
  "BlockFreeAuth_into_parts a = (auth_start a, auth_count a, auth_duty a)"

datatype DataForgetPolicy = Forget | PlainData

fun authorize :: "DataForgetPolicy \<Rightarrow> Ext4Bid \<Rightarrow> u32 \<Rightarrow> BlockFreeAuth" where
  "authorize Forget start count = forget start count"
| "authorize PlainData start count = without_revoke_duty start count"

section \<open>The suppression contract\<close>

text \<open>Within a window of transaction ids shorter than half of the id space, written as offsets from
  a base, the table remembers for every block the newest transaction that revoked it.\<close>

locale revoke_memory =
  fixes rec :: "'t \<Rightarrow> Ext4Bid \<Rightarrow> tid \<Rightarrow> 't"
    and suppr :: "'t \<Rightarrow> Ext4Bid \<Rightarrow> tid \<Rightarrow> bool"
    and inwin :: "tid \<Rightarrow> nat \<Rightarrow> 't \<Rightarrow> bool"
  assumes rec_suppr: "inwin base n tb \<Longrightarrow> i < n \<Longrightarrow> j < n \<Longrightarrow> n \<le> 2 ^ 31 \<Longrightarrow>
      suppr (rec tb b (base + word_of_nat i)) c (base + word_of_nat j) \<longleftrightarrow>
      suppr tb c (base + word_of_nat j) \<or> (c = b \<and> j \<le> i)"
    and rec_inwin: "inwin base n tb \<Longrightarrow> i < n \<Longrightarrow> n \<le> 2 ^ 31 \<Longrightarrow> inwin base n (rec tb b (base + word_of_nat i))"
begin

lemma rec_all_inwin:
  "inwin base n tb \<Longrightarrow> i < n \<Longrightarrow> n \<le> 2 ^ 31 \<Longrightarrow>
   inwin base n (foldl (\<lambda>tb b. rec tb b (base + word_of_nat i)) tb bs)"
  by (induction bs arbitrary: tb) (simp_all add: rec_inwin)

lemma rec_all_suppr:
  "inwin base n tb \<Longrightarrow> i < n \<Longrightarrow> j < n \<Longrightarrow> n \<le> 2 ^ 31 \<Longrightarrow>
   suppr (foldl (\<lambda>tb b. rec tb b (base + word_of_nat i)) tb bs) c (base + word_of_nat j) \<longleftrightarrow>
   suppr tb c (base + word_of_nat j) \<or> (c \<in> set bs \<and> j \<le> i)"
proof (induction bs arbitrary: tb)
  case (Cons b bs)
  then show ?case using rec_inwin[of base n tb i b] rec_suppr[of base n tb i j b c] by auto
qed simp

end

definition table_in_window :: "tid \<Rightarrow> nat \<Rightarrow> RevokeTable \<Rightarrow> bool" where
  "table_in_window base n tb \<longleftrightarrow>
     bt_ok tb \<and> (\<forall>(b, t)\<in>set tb. \<exists>i<n. t = base + word_of_nat i)"

lemma table_in_window_get:
  "table_in_window base n tb \<Longrightarrow> bt_get tb b = Some t \<Longrightarrow> \<exists>i<n. t = base + word_of_nat i"
  using bt_get_in by (fastforce simp: table_in_window_def)

lemma table_in_window_new: "table_in_window base n RevokeTable_new"
  by (simp add: table_in_window_def RevokeTable_new_def)

interpretation revokes: revoke_memory record_revoke suppresses table_in_window
proof unfold_locales
  fix base :: tid and n i j and tb and b c :: Ext4Bid
  assume win: "table_in_window base n tb" and n: "n \<le> 2 ^ 31" and i: "i < n"
  have geq: "tid_geq (base + word_of_nat x) (base + word_of_nat y) \<longleftrightarrow> y \<le> x" if "x < n" "y < n" for x y
    using that n by (intro tid_geq_add_iff) simp_all
  { assume j: "j < n"
    show "suppresses (record_revoke tb b (base + word_of_nat i)) c (base + word_of_nat j) \<longleftrightarrow>
        suppresses tb c (base + word_of_nat j) \<or> (c = b \<and> j \<le> i)"
    proof (cases "bt_get tb b")
      case None
      then show ?thesis using geq i j by (auto simp: record_revoke_def suppresses_def)
    next
      case (Some r)
      then obtain k where "k < n" "r = base + word_of_nat k" using table_in_window_get[OF win] by blast
      then show ?thesis
        using Some geq i j by (auto simp: record_revoke_def suppresses_def split: option.splits)
    qed }
  have "\<exists>k<n. t = base + word_of_nat k" if "(x, t) \<in> set (bt_insert b (base + word_of_nat i) tb)" for x t
  proof -
    have "bt_get (bt_insert b (base + word_of_nat i) tb) x = Some t"
      using that win bt_get_in[of "bt_insert b (base + word_of_nat i) tb" x t]
      by (simp add: table_in_window_def)
    then show ?thesis using i table_in_window_get[OF win] by (auto split: if_splits)
  qed
  then show "table_in_window base n (record_revoke tb b (base + word_of_nat i))"
    using win by (auto simp: record_revoke_def table_in_window_def)
qed

lemma retire_through_suppresses:
  assumes "table_in_window base n tb" "i < n" "j < n" "n \<le> 2 ^ 31"
  shows "suppresses (retire_through tb (base + word_of_nat i)) c (base + word_of_nat j) \<longleftrightarrow>
    (\<exists>k<n. bt_get tb c = Some (base + word_of_nat k) \<and> i < k \<and> j \<le> k)"
proof -
  have ok: "bt_ok tb" using assms(1) by (simp add: table_in_window_def)
  have geq: "tid_geq (base + word_of_nat x) (base + word_of_nat y) \<longleftrightarrow> y \<le> x" if "x < n" "y < n" for x y
    using that assms(4) by (intro tid_geq_add_iff) simp_all
  have inj: "x = y" if "base + word_of_nat x = base + word_of_nat y" "x < n" "y < n" for x y
    using geq[of x y] geq[of y x] that by (metis dual_order.antisym tid_geq_refl)
  show ?thesis
  proof (cases "bt_get tb c")
    case None
    then show ?thesis
      by (simp add: suppresses_def retire_through_def bt_get_retain[OF ok])
  next
    case (Some r)
    then obtain k where k: "k < n" "r = base + word_of_nat k"
      using table_in_window_get[OF assms(1)] by blast
    have "suppresses (retire_through tb (base + word_of_nat i)) c (base + word_of_nat j) \<longleftrightarrow> i < k \<and> j \<le> k"
      using Some k(2) geq[OF assms(2) k(1)] geq[OF k(1) assms(3)]
      by (simp add: suppresses_def retire_through_def bt_get_retain[OF ok] not_le)
    moreover have "(\<exists>k'<n. bt_get tb c = Some (base + word_of_nat k') \<and> i < k' \<and> j \<le> k') \<longleftrightarrow> i < k \<and> j \<le> k"
      using Some k inj[OF _ k(1)] by (metis option.inject)
    ultimately show ?thesis by simp
  qed
qed

end
