(* ===== verification/Block_Device.thy ===== *)
theory Block_Device
  imports Bytes
begin

text \<open>
  The block device underneath the file system, as its callers see it: whole-block
  reads and writes and a flush.  A write lands in the device's volatile cache and
  becomes durable with the next completed flush; a crash keeps the durable blocks
  and an arbitrary subset of the cached writes.  Media errors are part of the
  state: reads and writes of bad blocks fail, and a device may stop completing
  flushes.  The device driver is not part of the file system, so this theory
  states the documented behaviour the journal relies on.
\<close>

section \<open>State and operations\<close>

record device =
  durable :: "u64 \<Rightarrow> bytes"
  pending :: "(u64 \<times> bytes) list"
  bad_read :: "u64 \<Rightarrow> bool"
  bad_write :: "u64 \<Rightarrow> bool"
  syncs_left :: "nat option"

text \<open>The content a read returns: the newest cached write of the block, else the durable one.\<close>

definition apply_writes :: "(u64 \<times> bytes) list \<Rightarrow> (u64 \<Rightarrow> bytes) \<Rightarrow> u64 \<Rightarrow> bytes" where
  "apply_writes ws m = foldl (\<lambda>f (b, v). f(b := v)) m ws"

definition visible :: "device \<Rightarrow> u64 \<Rightarrow> bytes" where
  "visible d = apply_writes (pending d) (durable d)"

definition read_block :: "device \<Rightarrow> u64 \<Rightarrow> bytes result" where
  "read_block d b = (if bad_read d b then Err EIO else Ok (visible d b))"

text \<open>\<open>write_bytes\<close> at the start of block \<open>b\<close>: the written bytes replace a prefix of the block.\<close>

definition write_block :: "device \<Rightarrow> u64 \<Rightarrow> bytes \<Rightarrow> unit result \<times> device" where
  "write_block d b bs =
     (if bad_write d b then (Err EIO, d)
      else (Ok (), d\<lparr> pending := pending d @ [(b, splice 0 bs (visible d b))] \<rparr>))"

definition sync :: "device \<Rightarrow> unit result \<times> device" where
  "sync d =
     (case syncs_left d of
        Some 0 \<Rightarrow> (Err EIO, d)
      | Some (Suc n) \<Rightarrow> (Ok (), d\<lparr> durable := visible d, pending := [], syncs_left := Some n \<rparr>)
      | None \<Rightarrow> (Ok (), d\<lparr> durable := visible d, pending := [] \<rparr>))"

text \<open>Sequencing of device operations with early return.\<close>

definition dev_bind ::
    "'a result \<times> device \<Rightarrow> ('a \<Rightarrow> device \<Rightarrow> 'b result \<times> device) \<Rightarrow> 'b result \<times> device" where
  "dev_bind m f = (case m of (Inl e, d) \<Rightarrow> (Inl e, d) | (Inr v, d) \<Rightarrow> f v d)"

text \<open>The device images a crash may leave: durable blocks overlaid with any sub-sequence of the
  cached writes, the cache gone.\<close>

inductive crash :: "device \<Rightarrow> device \<Rightarrow> bool" where
  crashI: "ws \<in> set (subseqs (pending d)) \<Longrightarrow>
    crash d (d\<lparr> durable := apply_writes ws (durable d), pending := [] \<rparr>)"

inductive_simps crash_simps: "crash d d'"

section \<open>Laws\<close>

named_theorems device_simps \<open>evaluation of device operations\<close>

lemma apply_writes_Nil [simp, device_simps]: "apply_writes [] m = m"
  by (simp add: apply_writes_def)

lemma apply_writes_Cons [device_simps]: "apply_writes ((b, v) # ws) m = apply_writes ws (m(b := v))"
  by (simp add: apply_writes_def)

lemma apply_writes_append [simp, device_simps]:
  "apply_writes (xs @ ys) m = apply_writes ys (apply_writes xs m)"
  by (simp add: apply_writes_def)

lemma apply_writes_single [simp, device_simps]: "apply_writes [(b, v)] m = m(b := v)"
  by (simp add: apply_writes_def)

lemma apply_writes_other: "b \<notin> fst ` set ws \<Longrightarrow> apply_writes ws m b = m b"
proof (induction ws arbitrary: m)
  case (Cons w ws)
  then show ?case by (cases w) (simp add: apply_writes_Cons)
qed simp

lemma apply_writes_in: "b \<in> fst ` set ws \<Longrightarrow> (b, apply_writes ws m b) \<in> set ws"
proof (induction ws arbitrary: m)
  case (Cons w ws)
  then show ?case
    by (cases w; cases "b \<in> fst ` set ws") (auto simp: apply_writes_Cons apply_writes_other)
qed simp

lemma visible_write:
  "write_block d b bs = (Ok (), d') \<Longrightarrow> visible d' = (visible d)(b := splice 0 bs (visible d b))"
  by (auto simp: write_block_def visible_def split: if_splits)

lemma sync_ok:
  "sync d = (Ok (), d') \<Longrightarrow> durable d' = visible d \<and> pending d' = [] \<and> visible d' = visible d"
  by (auto simp: sync_def visible_def split: option.splits nat.splits)

lemma write_faults:
  "write_block d b bs = (r, d') \<Longrightarrow>
   bad_read d' = bad_read d \<and> bad_write d' = bad_write d \<and> syncs_left d' = syncs_left d \<and>
   durable d' = durable d"
  by (auto simp: write_block_def split: if_splits)

lemma sync_faults:
  "sync d = (r, d') \<Longrightarrow> bad_read d' = bad_read d \<and> bad_write d' = bad_write d"
  by (auto simp: sync_def split: option.splits nat.splits)

lemma dev_bind_Ok [simp, device_simps]: "dev_bind (Inr v, d) f = f v d"
  by (simp add: dev_bind_def)

lemma dev_bind_Err [simp, device_simps]: "dev_bind (Inl e, d) f = (Inl e, d)"
  by (simp add: dev_bind_def)

lemma dev_bind_eq_Ok [device_simps]:
  "dev_bind m f = (Inr v, d') \<longleftrightarrow> (\<exists>u d1. m = (Inr u, d1) \<and> f u d1 = (Inr v, d'))"
  by (cases m; cases "fst m") (auto simp: dev_bind_def)

lemma dev_bind_cong [fundef_cong]:
  "m = m' \<Longrightarrow> (\<And>v d. m' = (Inr v, d) \<Longrightarrow> f v d = g v d) \<Longrightarrow> dev_bind m f = dev_bind m' g"
  by (auto simp: dev_bind_def split: prod.splits sum.splits)

text \<open>A crash never changes a block that has no cached write.\<close>

lemma crash_untouched:
  assumes "crash d d'" "b \<notin> fst ` set (pending d)"
  shows "visible d' b = visible d b"
proof -
  obtain ws where ws: "ws \<in> set (subseqs (pending d))"
    "d' = d\<lparr> durable := apply_writes ws (durable d), pending := [] \<rparr>"
    using assms(1) by (auto simp: crash_simps)
  then have "set ws \<subseteq> set (pending d)"
    using subseqs_powset[of "pending d"] by blast
  then have "b \<notin> fst ` set ws" using assms(2) by auto
  then show ?thesis
    using assms(2) ws(2) by (simp add: visible_def apply_writes_other)
qed

lemma crash_none_pending: "pending d = [] \<Longrightarrow> crash d d' \<Longrightarrow> d' = d"
  by (auto simp: crash_simps)

end
