(* ===== verification/Transaction.thy ===== *)
theory Transaction
  imports Revoke Block_Device
begin

text \<open>
  The transaction object of \<open>journal/transaction.rs\<close>: captured after-images with
  their capture generations, the revoke set, ordered data, credit counters, and
  the commit phases.  The invariant \<open>transaction_ok\<close> says in particular that no
  block is both captured and revoked, and that capture generations are never
  reused, so a credential minted before a block was forgotten stays dead.
\<close>

section \<open>Data\<close>

record Capture =
  generation :: nat
  buffer :: bytes

record UncheckpointedImage =
  ui_tid :: tid
  ui_image :: bytes

definition is_checkpointed_by :: "UncheckpointedImage \<Rightarrow> tid \<Rightarrow> bool" where
  "is_checkpointed_by img committed_tid = tid_geq committed_tid (ui_tid img)"

datatype CommitPhase = Locked | Flush | Commit | CommitRecord | Finished

fun next_in_pipeline :: "CommitPhase \<Rightarrow> CommitPhase option" where
  "next_in_pipeline Locked = Some Flush"
| "next_in_pipeline Flush = Some Commit"
| "next_in_pipeline Commit = Some CommitRecord"
| "next_in_pipeline CommitRecord = Some Finished"
| "next_in_pipeline Finished = None"

text \<open>An inode's dirty page-cache data registered for ordered mode.  \<open>od_live\<close> says the weak inode
  reference still upgrades; \<open>od_writes\<close> are the block writes \<open>flush_range\<close> issues.\<close>

record OrderedData =
  od_live :: bool
  od_writes :: "(u64 \<times> bytes) list"

record Transaction =
  t_tid :: tid
  expires_at :: nat
  t_updates :: nat
  outstanding_credits :: nat
  metadata :: "(Ext4Bid \<times> Capture) list"
  next_capture_generation :: nat
  t_revoked :: "Ext4Bid list"
  t_ordered :: "(u32 \<times> OrderedData) list"

section \<open>Operations\<close>

definition COMMIT_INTERVAL_JIFFIES :: "nat \<Rightarrow> nat" where
  "COMMIT_INTERVAL_JIFFIES timer_freq = 5 * timer_freq"

definition Transaction_new :: "nat \<Rightarrow> nat \<Rightarrow> tid \<Rightarrow> Transaction" where
  "Transaction_new now timer_freq t =
     \<lparr> t_tid = t, expires_at = now + COMMIT_INTERVAL_JIFFIES timer_freq, t_updates = 0,
       outstanding_credits = 0, metadata = [], next_capture_generation = 0, t_revoked = [],
       t_ordered = [] \<rparr>"

definition is_expired_at :: "Transaction \<Rightarrow> nat \<Rightarrow> bool" where
  "is_expired_at txn now \<longleftrightarrow> now \<ge> expires_at txn"

definition until_expiry :: "Transaction \<Rightarrow> nat \<Rightarrow> nat" where
  "until_expiry txn now = expires_at txn - now"

definition nr_metadata_blocks :: "Transaction \<Rightarrow> nat" where
  "nr_metadata_blocks txn = length (metadata txn)"

definition div_ceil :: "nat \<Rightarrow> nat \<Rightarrow> nat" where
  "div_ceil a b = (a + b - 1) div b"

definition nr_revoke_blocks :: "Transaction \<Rightarrow> TagLayout \<Rightarrow> nat" where
  "nr_revoke_blocks txn L = div_ceil (length (t_revoked txn)) (revoke_entries_per_block L)"

definition batch_footprint :: "Transaction \<Rightarrow> TagLayout \<Rightarrow> nat" where
  "batch_footprint txn L = nr_metadata_blocks txn + nr_revoke_blocks txn L"

definition mint_capture_generation :: "Transaction \<Rightarrow> nat \<times> Transaction" where
  "mint_capture_generation txn =
     (next_capture_generation txn,
      txn\<lparr> next_capture_generation := next_capture_generation txn + 1 \<rparr>)"

definition reserved_metadata_blocks :: "Transaction \<Rightarrow> nat \<Rightarrow> nat" where
  "reserved_metadata_blocks txn extra = nr_metadata_blocks txn + outstanding_credits txn + extra"

definition is_captured :: "Transaction \<Rightarrow> Ext4Bid \<Rightarrow> bool" where
  "is_captured txn bid \<longleftrightarrow> bt_get (metadata txn) bid \<noteq> None"

definition consume_reserved_credit :: "Transaction \<Rightarrow> Transaction" where
  "consume_reserved_credit txn = txn\<lparr> outstanding_credits := outstanding_credits txn - 1 \<rparr>"

definition has_recorded_work :: "Transaction \<Rightarrow> bool" where
  "has_recorded_work txn \<longleftrightarrow> nr_metadata_blocks txn > 0 \<or> t_revoked txn \<noteq> []"

definition capture_create :: "Transaction \<Rightarrow> Ext4Bid \<Rightarrow> nat \<times> Transaction" where
  "capture_create txn0 bid =
     (let txn = txn0\<lparr> t_revoked := bs_remove bid (t_revoked txn0) \<rparr> in
      case bt_get (metadata txn) bid of
        Some capture \<Rightarrow> (generation capture, txn)
      | None \<Rightarrow>
          let (gen, txn1) = mint_capture_generation txn in
          (gen, txn1\<lparr> metadata := bt_insert bid \<lparr> generation = gen, buffer = replicate BLOCK_SIZE 0 \<rparr>
                        (metadata txn1) \<rparr>))"

definition capture_write ::
    "Transaction \<Rightarrow> Ext4Bid \<Rightarrow> bytes option \<Rightarrow> device \<Rightarrow> nat result \<times> Transaction" where
  "capture_write txn0 bid seed d =
     (let txn = txn0\<lparr> t_revoked := bs_remove bid (t_revoked txn0) \<rparr> in
      case bt_get (metadata txn) bid of
        Some capture \<Rightarrow> (Ok (generation capture), txn)
      | None \<Rightarrow>
          (case (case seed of Some s \<Rightarrow> Ok s | None \<Rightarrow> read_block d bid) of
             Inl e \<Rightarrow> (Err EIO, txn)
           | Inr buf \<Rightarrow>
               let (gen, txn1) = mint_capture_generation txn in
               (Ok gen, txn1\<lparr> metadata := bt_insert bid \<lparr> generation = gen, buffer = buf \<rparr>
                                 (metadata txn1) \<rparr>)))"

definition stash_uncheckpointed ::
    "Transaction \<Rightarrow> (Ext4Bid \<times> UncheckpointedImage) list \<Rightarrow> (Ext4Bid \<times> UncheckpointedImage) list" where
  "stash_uncheckpointed txn retained =
     foldl (\<lambda>r (bid, capture). bt_insert bid \<lparr> ui_tid = t_tid txn, ui_image = buffer capture \<rparr> r)
       retained (metadata txn)"

definition forget_block :: "Transaction \<Rightarrow> Ext4Bid \<Rightarrow> Transaction" where
  "forget_block txn bid =
     txn\<lparr> metadata := bt_remove bid (metadata txn), t_revoked := bs_insert bid (t_revoked txn) \<rparr>"

definition collect_unpublished_revokes :: "Transaction \<Rightarrow> Ext4Bid list \<Rightarrow> Ext4Bid list" where
  "collect_unpublished_revokes txn out = foldl (\<lambda>s b. bs_insert b s) out (t_revoked txn)"

definition stash_revokes :: "Transaction \<Rightarrow> RevokeTable \<Rightarrow> RevokeTable" where
  "stash_revokes txn table = foldl (\<lambda>tb bid. record_revoke tb bid (t_tid txn)) table (t_revoked txn)"

definition apply_patch :: "Transaction \<Rightarrow> Ext4Bid \<Rightarrow> nat \<Rightarrow> (bytes \<Rightarrow> bytes) \<Rightarrow> Transaction result" where
  "apply_patch txn bid gen patch =
     (case bt_get (metadata txn) bid of
        None \<Rightarrow> Err EIO
      | Some capture \<Rightarrow>
          if generation capture \<noteq> gen then Err EIO
          else Ok (txn\<lparr> metadata := bt_insert bid (capture\<lparr> buffer := patch (buffer capture) \<rparr>)
                                     (metadata txn) \<rparr>))"

definition buffer_bytes :: "Transaction \<Rightarrow> Ext4Bid \<Rightarrow> bytes option" where
  "buffer_bytes txn bid = map_option buffer (bt_get (metadata txn) bid)"

definition metadata_blocks :: "Transaction \<Rightarrow> (Ext4Bid \<times> bytes) list" where
  "metadata_blocks txn = map (\<lambda>(bid, capture). (bid, buffer capture)) (metadata txn)"

definition register_ordered_data :: "Transaction \<Rightarrow> u32 \<Rightarrow> OrderedData \<Rightarrow> Transaction" where
  "register_ordered_data txn ino od = txn\<lparr> t_ordered := bt_insert ino od (t_ordered txn) \<rparr>"

definition ordered_data :: "Transaction \<Rightarrow> OrderedData list" where
  "ordered_data txn = filter od_live (map snd (t_ordered txn))"

section \<open>Invariant\<close>

definition transaction_ok :: "Transaction \<Rightarrow> bool" where
  "transaction_ok txn \<longleftrightarrow>
     bt_ok (metadata txn) \<and> bs_ok (t_revoked txn) \<and> bt_ok (t_ordered txn) \<and>
     (\<forall>(bid, c)\<in>set (metadata txn).
        bid \<notin> set (t_revoked txn) \<and> length (buffer c) = BLOCK_SIZE \<and>
        generation c < next_capture_generation txn) \<and>
     (\<forall>(b1, c1)\<in>set (metadata txn). \<forall>(b2, c2)\<in>set (metadata txn).
        generation c1 = generation c2 \<longrightarrow> b1 = b2)"

lemma transaction_okD:
  assumes "transaction_ok txn" "bt_get (metadata txn) bid = Some c"
  shows "bid \<notin> set (t_revoked txn)" "length (buffer c) = BLOCK_SIZE"
    "generation c < next_capture_generation txn"
  using assms bt_get_in[of "metadata txn" bid c] by (auto simp: transaction_ok_def)

text \<open>The invariant, stated by lookups.\<close>

lemma transaction_ok_iff:
  "transaction_ok txn \<longleftrightarrow>
     bt_ok (metadata txn) \<and> bs_ok (t_revoked txn) \<and> bt_ok (t_ordered txn) \<and>
     (\<forall>bid c. bt_get (metadata txn) bid = Some c \<longrightarrow>
        bid \<notin> set (t_revoked txn) \<and> length (buffer c) = BLOCK_SIZE \<and>
        generation c < next_capture_generation txn) \<and>
     (\<forall>b1 c1 b2 c2. bt_get (metadata txn) b1 = Some c1 \<longrightarrow> bt_get (metadata txn) b2 = Some c2 \<longrightarrow>
        generation c1 = generation c2 \<longrightarrow> b1 = b2)"
  unfolding transaction_ok_def by (cases "bt_ok (metadata txn)") (simp_all add: bt_ball)

lemma transaction_ok_new: "transaction_ok (Transaction_new now f t)"
  by (simp add: transaction_ok_def Transaction_new_def)

lemma transaction_ok_insert:
  assumes "transaction_ok txn" "length buf = BLOCK_SIZE" "bt_get (metadata txn) bid = None"
  shows "transaction_ok (txn\<lparr> t_revoked := bs_remove bid (t_revoked txn),
           next_capture_generation := Suc (next_capture_generation txn),
           metadata := bt_insert bid \<lparr> generation = next_capture_generation txn, buffer = buf \<rparr>
                         (metadata txn) \<rparr>)"
  using assms unfolding transaction_ok_iff
  by (simp add: less_Suc_eq) (metis less_irrefl)

lemma transaction_ok_remove_revoked:
  "transaction_ok txn \<Longrightarrow> transaction_ok (txn\<lparr> t_revoked := bs_remove bid (t_revoked txn) \<rparr>)"
  by (simp add: transaction_ok_iff)

lemma capture_create_ok: "transaction_ok txn \<Longrightarrow> transaction_ok (snd (capture_create txn bid))"
  using transaction_ok_insert[of txn "replicate BLOCK_SIZE 0" bid]
  by (auto simp: capture_create_def mint_capture_generation_def Let_def transaction_ok_remove_revoked
      split: option.splits)

lemma capture_write_ok:
  assumes "transaction_ok txn" "\<And>s. seed = Some s \<Longrightarrow> length s = BLOCK_SIZE"
    "length (visible d bid) = BLOCK_SIZE"
  shows "transaction_ok (snd (capture_write txn bid seed d))"
  using assms transaction_ok_insert[of txn _ bid]
  by (auto simp: capture_write_def mint_capture_generation_def Let_def read_block_def
      transaction_ok_remove_revoked split: option.splits sum.splits)

lemma forget_block_ok: "transaction_ok txn \<Longrightarrow> transaction_ok (forget_block txn bid)"
  unfolding transaction_ok_iff forget_block_def by simp

lemma apply_patch_ok:
  assumes "transaction_ok txn" "apply_patch txn bid gen patch = Ok txn'"
    and "\<And>b. length b = BLOCK_SIZE \<Longrightarrow> length (patch b) = BLOCK_SIZE"
  shows "transaction_ok txn'"
proof -
  obtain c where c: "bt_get (metadata txn) bid = Some c"
    "txn' = txn\<lparr> metadata := bt_insert bid (c\<lparr> buffer := patch (buffer c) \<rparr>) (metadata txn) \<rparr>"
    using assms(2) by (auto simp: apply_patch_def split: option.splits if_splits)
  show ?thesis
    using assms(1,3) c(1) unfolding transaction_ok_iff c(2) by (simp split: if_splits) metis
qed

section \<open>Histories of one transaction\<close>

text \<open>What the handles of a transaction may do to it, one operation at a time.  Blocks read from the
  device and images seeding a capture are whole blocks; a patch keeps the length of the buffer.\<close>

inductive txn_step :: "Transaction \<Rightarrow> Transaction \<Rightarrow> bool" where
  step_create: "txn_step txn (snd (capture_create txn bid))"
| step_write: "(\<And>s. seed = Some s \<Longrightarrow> length s = BLOCK_SIZE) \<Longrightarrow> length (visible d bid) = BLOCK_SIZE \<Longrightarrow>
    txn_step txn (snd (capture_write txn bid seed d))"
| step_forget: "txn_step txn (forget_block txn bid)"
| step_patch: "apply_patch txn bid gen patch = Ok txn' \<Longrightarrow>
    (\<And>b. length b = BLOCK_SIZE \<Longrightarrow> length (patch b) = BLOCK_SIZE) \<Longrightarrow> txn_step txn txn'"
| step_consume: "txn_step txn (consume_reserved_credit txn)"
| step_ordered: "txn_step txn (register_ordered_data txn ino od)"

lemma txn_step_ok: "txn_step txn txn' \<Longrightarrow> transaction_ok txn \<Longrightarrow> transaction_ok txn'"
proof (induction rule: txn_step.induct)
  case (step_consume txn)
  then show ?case by (simp add: transaction_ok_def consume_reserved_credit_def)
next
  case (step_ordered txn ino od)
  then show ?case by (simp add: transaction_ok_def register_ordered_data_def)
qed (simp_all add: capture_create_ok capture_write_ok forget_block_ok apply_patch_ok)

lemma txn_steps_ok: "txn_step\<^sup>*\<^sup>* txn txn' \<Longrightarrow> transaction_ok txn \<Longrightarrow> transaction_ok txn'"
  by (induction rule: rtranclp_induct) (simp_all add: txn_step_ok)

text \<open>A generation is dead for a block when it was minted already and the block's present capture,
  if any, carries another one.\<close>

definition dead_generation :: "Transaction \<Rightarrow> Ext4Bid \<Rightarrow> nat \<Rightarrow> bool" where
  "dead_generation txn bid gen \<longleftrightarrow>
     gen < next_capture_generation txn \<and>
     (\<forall>c. bt_get (metadata txn) bid = Some c \<longrightarrow> generation c \<noteq> gen)"

lemma dead_generation_step:
  "txn_step txn txn' \<Longrightarrow> dead_generation txn bid gen \<Longrightarrow> dead_generation txn' bid gen"
  by (induction rule: txn_step.induct)
     (auto simp: dead_generation_def capture_create_def capture_write_def mint_capture_generation_def
        forget_block_def apply_patch_def consume_reserved_credit_def register_ordered_data_def Let_def
        split: option.splits sum.splits if_splits)

lemma dead_generation_steps:
  "txn_step\<^sup>*\<^sup>* txn txn' \<Longrightarrow> dead_generation txn bid gen \<Longrightarrow> dead_generation txn' bid gen"
  by (induction rule: rtranclp_induct) (auto dest: dead_generation_step)

lemma dead_generation_patch: "dead_generation txn bid gen \<Longrightarrow> apply_patch txn bid gen patch = Err EIO"
  by (auto simp: dead_generation_def apply_patch_def split: option.splits)

lemma dead_after_forget:
  "transaction_ok txn \<Longrightarrow> bt_get (metadata txn) bid = Some c \<Longrightarrow>
   dead_generation (forget_block txn bid) bid (generation c)"
  by (auto simp: dead_generation_def forget_block_def dest: transaction_okD(3))

section \<open>Properties of transactions\<close>

text \<open>C25: a block is never both captured and revoked.  Whatever sequence of captures, patches and
  forgets the handles perform on a fresh transaction, every block with a captured after-image is
  outside the revoke set, its image is a whole block, and no two captures share a generation; the
  commit therefore never writes an image that its own revoke records would suppress.\<close>

theorem captures_never_revoked:
  assumes "txn_step\<^sup>*\<^sup>* (Transaction_new now f t) txn" "(bid, c) \<in> set (metadata txn)"
  shows "bid \<notin> set (t_revoked txn) \<and> length (buffer c) = BLOCK_SIZE \<and>
         (\<forall>b' c'. (b', c') \<in> set (metadata txn) \<and> generation c' = generation c \<longrightarrow> b' = bid)"
proof -
  have "transaction_ok txn" using txn_steps_ok[OF assms(1) transaction_ok_new] .
  then show ?thesis using assms(2) by (auto simp: transaction_ok_def)
qed

text \<open>A fresh transaction that forgets block 7 and then re-captures it.\<close>

theorem captures_never_revoked_witness:
  "7 \<notin> set (t_revoked (snd (capture_create (forget_block (Transaction_new 0 1000 5) 7) 7))) \<and>
   length (replicate BLOCK_SIZE (0 :: u8)) = BLOCK_SIZE"
proof -
  let ?t0 = "Transaction_new 0 1000 5"
  have "txn_step\<^sup>*\<^sup>* ?t0 (snd (capture_create (forget_block ?t0 7) 7))"
    by (meson step_create step_forget rtranclp.rtrancl_refl rtranclp.rtrancl_into_rtrancl)
  from captures_never_revoked[OF this, of 7 "\<lparr> generation = 0, buffer = replicate BLOCK_SIZE 0 \<rparr>"]
  show ?thesis
    by (simp add: capture_create_def forget_block_def Transaction_new_def mint_capture_generation_def)
qed

text \<open>C26: stale write credentials are rejected.  Once a captured block is forgotten, the generation
  handed out for that capture can never patch it again, even if the block is captured anew later in
  the transaction.\<close>

theorem stale_write_access_rejected:
  assumes "transaction_ok txn" "bt_get (metadata txn) bid = Some c"
    and "txn_step\<^sup>*\<^sup>* (forget_block txn bid) txn'"
  shows "apply_patch txn' bid (generation c) patch = Err EIO"
  using dead_generation_patch[OF dead_generation_steps[OF assms(3) dead_after_forget[OF assms(1,2)]]] .

theorem stale_write_access_rejected_witness:
  "apply_patch (snd (capture_create (forget_block (snd (capture_create (Transaction_new 0 1000 5) 7)) 7) 7))
     7 0 (\<lambda>b. b) = Err EIO"
proof -
  let ?t1 = "snd (capture_create (Transaction_new 0 1000 5) 7)"
  have ok: "transaction_ok ?t1" by (simp add: capture_create_ok transaction_ok_new)
  have get: "bt_get (metadata ?t1) 7 = Some \<lparr> generation = 0, buffer = replicate BLOCK_SIZE 0 \<rparr>"
    by (simp add: capture_create_def Transaction_new_def mint_capture_generation_def)
  have "txn_step\<^sup>*\<^sup>* (forget_block ?t1 7) (snd (capture_create (forget_block ?t1 7) 7))"
    by (rule r_into_rtranclp) (rule step_create)
  from stale_write_access_rejected[OF ok get this, of "\<lambda>b. b"] show ?thesis by simp
qed

end
