(* ===== verification/Journal_Superblock.thy ===== *)
theory Journal_Superblock
  imports Journal_Format
begin

text \<open>
  The journal superblock of \<open>journal/format.rs\<close>: the raw 1024-byte structure with
  its byte image, the checksum around its own field, and the validating parse into
  the typed \<open>JournalSuperblock\<close>.
\<close>

unbundle bit_operations_syntax

section \<open>The raw structure\<close>

record RawJournalSuperblock =
  sb_header :: RawJournalHeader
  s_blocksize :: u32
  s_maxlen :: u32
  s_first :: u32
  s_sequence :: u32
  s_start :: u32
  s_errno :: u32
  s_feature_compat :: u32
  s_feature_incompat :: u32
  s_feature_ro_compat :: u32
  s_uuid :: bytes
  s_nr_users :: u32
  s_dynsuper :: u32
  s_max_transaction :: u32
  s_max_trans_data :: u32
  s_checksum_type :: u8
  s_padding2 :: bytes
  s_num_fc_blks :: u32
  s_head :: u32
  s_padding :: bytes
  s_checksum :: u32
  s_users :: bytes

definition JOURNAL_SUPERBLOCK_SIZE :: nat where "JOURNAL_SUPERBLOCK_SIZE = 1024"

text \<open>The fixed array lengths of the \<open>repr(C)\<close> structure.\<close>

definition raw_sb_ok :: "RawJournalSuperblock \<Rightarrow> bool" where
  "raw_sb_ok r \<longleftrightarrow> length (s_uuid r) = 16 \<and> length (s_padding2 r) = 3 \<and>
     length (s_padding r) = 160 \<and> length (s_users r) = 768"

definition raw_sb_head :: "RawJournalSuperblock \<Rightarrow> bytes" where
  "raw_sb_head r =
     RawJournalHeader_as_bytes (sb_header r) @ be32 (s_blocksize r) @ be32 (s_maxlen r) @
     be32 (s_first r) @ be32 (s_sequence r) @ be32 (s_start r) @ be32 (s_errno r) @
     be32 (s_feature_compat r) @ be32 (s_feature_incompat r) @ be32 (s_feature_ro_compat r) @
     s_uuid r @ be32 (s_nr_users r) @ be32 (s_dynsuper r) @ be32 (s_max_transaction r) @
     be32 (s_max_trans_data r) @ [s_checksum_type r] @ s_padding2 r @ be32 (s_num_fc_blks r) @
     be32 (s_head r) @ s_padding r"

definition RawJournalSuperblock_as_bytes :: "RawJournalSuperblock \<Rightarrow> bytes" where
  "RawJournalSuperblock_as_bytes r = raw_sb_head r @ be32 (s_checksum r) @ s_users r"

definition RawJournalSuperblock_from_bytes :: "bytes \<Rightarrow> RawJournalSuperblock" where
  "RawJournalSuperblock_from_bytes bs =
     \<lparr> sb_header = RawJournalHeader_parse bs,
       s_blocksize = word_of_be (slice 12 4 bs),
       s_maxlen = word_of_be (slice 16 4 bs),
       s_first = word_of_be (slice 20 4 bs),
       s_sequence = word_of_be (slice 24 4 bs),
       s_start = word_of_be (slice 28 4 bs),
       s_errno = word_of_be (slice 32 4 bs),
       s_feature_compat = word_of_be (slice 36 4 bs),
       s_feature_incompat = word_of_be (slice 40 4 bs),
       s_feature_ro_compat = word_of_be (slice 44 4 bs),
       s_uuid = slice 48 16 bs,
       s_nr_users = word_of_be (slice 64 4 bs),
       s_dynsuper = word_of_be (slice 68 4 bs),
       s_max_transaction = word_of_be (slice 72 4 bs),
       s_max_trans_data = word_of_be (slice 76 4 bs),
       s_checksum_type = word_of_be (slice 80 1 bs),
       s_padding2 = slice 81 3 bs,
       s_num_fc_blks = word_of_be (slice 84 4 bs),
       s_head = word_of_be (slice 88 4 bs),
       s_padding = slice 92 160 bs,
       s_checksum = word_of_be (slice 252 4 bs),
       s_users = slice 256 768 bs \<rparr>"

definition CHECKSUM_OFFSET :: nat where "CHECKSUM_OFFSET = 252"

definition RawJournalSuperblock_checksum :: "RawJournalSuperblock \<Rightarrow> u32" where
  "RawJournalSuperblock_checksum r =
     (let bs = RawJournalSuperblock_as_bytes r;
          head = crc32c (NOT 0) (take CHECKSUM_OFFSET bs);
          hole = crc32c head (replicate 4 0)
      in crc32c hole (drop (CHECKSUM_OFFSET + 4) bs))"

definition recovery_start :: "RawJournalSuperblock \<Rightarrow> u32 option" where
  "recovery_start r = (let start = s_start r in if start \<noteq> 0 then Some start else None)"

definition stamp_checksum :: "RawJournalSuperblock \<Rightarrow> RawJournalSuperblock" where
  "stamp_checksum r =
     (if s_feature_incompat r AND (INCOMPAT_CSUM_V2 OR INCOMPAT_CSUM_V3) \<noteq> 0
      then r\<lparr> s_checksum := RawJournalSuperblock_checksum r \<rparr>
      else r)"

section \<open>The validated superblock\<close>

record JournalSuperblock =
  js_maxlen :: u32
  js_first :: u32
  js_sequence :: tid
  js_start :: "u32 option"
  js_errno :: u32
  js_blocksize :: u32
  js_tag_layout :: TagLayout
  js_csum_seed :: "JournalCsumSeed option"

definition JournalSuperblock_try_from :: "RawJournalSuperblock \<Rightarrow> JournalSuperblock result" where
  "JournalSuperblock_try_from raw =
     (let blocktype = h_blocktype (sb_header raw);
          maxlen = s_maxlen raw;
          first = s_first raw
      in
      if h_magic (sb_header raw) \<noteq> JBD2_MAGIC then Err EINVAL
      else if blocktype \<noteq> BLOCKTYPE_SUPERBLOCK_V2 \<and> blocktype \<noteq> BLOCKTYPE_SUPERBLOCK_V1
      then Err EINVAL
      else if s_blocksize raw \<noteq> word_of_nat BLOCK_SIZE then Err EINVAL
      else if maxlen < 2 then Err EUCLEAN
      else if first = 0 \<or> first \<ge> maxlen then Err EUCLEAN
      else
        let feature_incompat =
              (if blocktype = BLOCKTYPE_SUPERBLOCK_V2 then s_feature_incompat raw else 0)
        in
        and_then (from_features feature_incompat) (\<lambda>layout.
          if has_csum layout \<and> s_feature_compat raw AND COMPAT_CHECKSUM \<noteq> 0 then Err EINVAL
          else
            and_then
              (if has_csum layout then
                 if s_checksum_type raw \<noteq> JBD2_CRC32C_CHKSUM then Err EINVAL
                 else if s_checksum raw \<noteq> RawJournalSuperblock_checksum raw then Err EUCLEAN
                 else Ok (Some (JournalCsumSeed_derive (s_uuid raw)))
               else Ok None)
              (\<lambda>seed. Ok \<lparr> js_maxlen = maxlen, js_first = first,
                            js_sequence = s_sequence raw, js_start = recovery_start raw,
                            js_errno = s_errno raw, js_blocksize = s_blocksize raw,
                            js_tag_layout = layout, js_csum_seed = seed \<rparr>)))"

section \<open>Byte image\<close>

lemma length_header_bytes [simp]: "length (RawJournalHeader_as_bytes h) = 12"
  by (simp add: RawJournalHeader_as_bytes_def)

lemma header_parse_as_bytes [simp]:
  "RawJournalHeader_parse (RawJournalHeader_as_bytes h @ rest) = h"
  by (simp add: RawJournalHeader_parse_def RawJournalHeader_as_bytes_def)

lemma length_raw_sb_head: "raw_sb_ok r \<Longrightarrow> length (raw_sb_head r) = 252"
  by (simp add: raw_sb_head_def raw_sb_ok_def)

lemma length_as_bytes [simp]:
  "raw_sb_ok r \<Longrightarrow> length (RawJournalSuperblock_as_bytes r) = JOURNAL_SUPERBLOCK_SIZE"
  by (simp add: RawJournalSuperblock_as_bytes_def length_raw_sb_head JOURNAL_SUPERBLOCK_SIZE_def)
     (simp add: raw_sb_ok_def)

lemma slice_full: "length xs = n \<Longrightarrow> slice 0 n xs = xs"
  by simp

lemma word_of_be_singleton [simp]: "word_of_be [b] = (b :: u8)"
  by (simp add: word_of_be_def)

text \<open>Reading the fields of the byte image gives the structure back, also when the image is the
  prefix of a whole block.\<close>

lemma from_bytes_as_bytes:
  assumes "raw_sb_ok r"
  shows "RawJournalSuperblock_from_bytes (RawJournalSuperblock_as_bytes r @ rest) = r"
proof (rule RawJournalSuperblock.equality)
  show "sb_header (RawJournalSuperblock_from_bytes (RawJournalSuperblock_as_bytes r @ rest)) = sb_header r"
    by (simp add: RawJournalSuperblock_from_bytes_def RawJournalSuperblock_as_bytes_def raw_sb_head_def)
qed (use assms in \<open>simp_all add: RawJournalSuperblock_from_bytes_def RawJournalSuperblock_as_bytes_def
       raw_sb_head_def raw_sb_ok_def\<close>)

lemma raw_sb_checksum_update:
  assumes "raw_sb_ok r"
  shows "RawJournalSuperblock_checksum (r\<lparr> s_checksum := c \<rparr>) = RawJournalSuperblock_checksum r"
proof -
  have h: "raw_sb_head (r\<lparr> s_checksum := c \<rparr>) = raw_sb_head r" by (simp add: raw_sb_head_def)
  show ?thesis
    using length_raw_sb_head[OF assms]
    by (simp add: RawJournalSuperblock_checksum_def RawJournalSuperblock_as_bytes_def h
        CHECKSUM_OFFSET_def Let_def)
qed

lemma stamp_checksum_simps [simp]:
  "sb_header (stamp_checksum r) = sb_header r" "s_blocksize (stamp_checksum r) = s_blocksize r"
  "s_maxlen (stamp_checksum r) = s_maxlen r" "s_first (stamp_checksum r) = s_first r"
  "s_sequence (stamp_checksum r) = s_sequence r" "s_start (stamp_checksum r) = s_start r"
  "s_errno (stamp_checksum r) = s_errno r"
  "s_feature_compat (stamp_checksum r) = s_feature_compat r"
  "s_feature_incompat (stamp_checksum r) = s_feature_incompat r"
  "s_feature_ro_compat (stamp_checksum r) = s_feature_ro_compat r"
  "s_uuid (stamp_checksum r) = s_uuid r" "s_checksum_type (stamp_checksum r) = s_checksum_type r"
  "s_head (stamp_checksum r) = s_head r"
  "raw_sb_ok (stamp_checksum r) = raw_sb_ok r"
  "recovery_start (stamp_checksum r) = recovery_start r"
  by (simp_all add: stamp_checksum_def raw_sb_ok_def recovery_start_def)

lemma stamp_checksum_valid:
  assumes "raw_sb_ok r" "s_feature_incompat r AND (INCOMPAT_CSUM_V2 OR INCOMPAT_CSUM_V3) \<noteq> 0"
  shows "s_checksum (stamp_checksum r) = RawJournalSuperblock_checksum (stamp_checksum r)"
  using assms by (simp add: stamp_checksum_def raw_sb_checksum_update)

lemma has_csum_iff_features:
  assumes "from_features f = Ok L"
  shows "has_csum L \<longleftrightarrow> f AND (INCOMPAT_CSUM_V2 OR INCOMPAT_CSUM_V3) \<noteq> 0"
proof -
  have "f AND (INCOMPAT_CSUM_V2 OR INCOMPAT_CSUM_V3) = 0 \<longleftrightarrow>
        f AND INCOMPAT_CSUM_V2 = 0 \<and> f AND INCOMPAT_CSUM_V3 = 0"
    by (simp add: bit.conj_disj_distrib or_eq_0_iff)
  then show ?thesis
    using assms by (auto simp: from_features_def has_csum_def Let_def format_consts split: if_splits)
qed

section \<open>Parsing\<close>

lemma parsed_superblock_fields:
  assumes "JournalSuperblock_try_from raw = Ok sb"
  shows "js_maxlen sb = s_maxlen raw" "js_first sb = s_first raw" "2 \<le> js_maxlen sb"
    "0 < js_first sb" "js_first sb < js_maxlen sb" "js_sequence sb = s_sequence raw"
    "js_start sb = recovery_start raw" "layout_ok (js_tag_layout sb)"
    "js_csum_seed sb \<noteq> None \<longleftrightarrow> has_csum (js_tag_layout sb)"
  using assms
  by (auto simp: JournalSuperblock_try_from_def Let_def not_le not_less word_neq_0_conv
      dest!: from_features_layout_ok split: if_splits)

end
