(* ===== verification/Journal_Geometry.thy ===== *)
theory Journal_Geometry
  imports Journal_Superblock Block_Device
begin

text \<open>
  The journal geometry of \<open>journal/mod.rs\<close>: the map from log block indices to
  device blocks, the ring arithmetic on log positions, the log readers and
  writers, the journal-superblock funnel and the mount-time upgrade.  Log
  positions are natural numbers here; the code keeps them in \<open>u32\<close>, below
  \<open>s_maxlen\<close>, where the increment cannot wrap.
\<close>

unbundle bit_operations_syntax

section \<open>Geometry and ring arithmetic\<close>

record JournalGeometry =
  block_map :: "Ext4Bid list"
  jsuper :: JournalSuperblock

definition maxlen :: "JournalGeometry \<Rightarrow> nat" where
  "maxlen g = unat (js_maxlen (jsuper g))"

definition first :: "JournalGeometry \<Rightarrow> nat" where
  "first g = unat (js_first (jsuper g))"

definition tag_layout :: "JournalGeometry \<Rightarrow> TagLayout" where
  "tag_layout g = js_tag_layout (jsuper g)"

definition csum_seed :: "JournalGeometry \<Rightarrow> JournalCsumSeed option" where
  "csum_seed g = js_csum_seed (jsuper g)"

definition log_block_to_physical :: "JournalGeometry \<Rightarrow> nat \<Rightarrow> Ext4Bid option" where
  "log_block_to_physical g log = (if log < length (block_map g) then Some (block_map g ! log) else None)"

definition next_log_block :: "JournalGeometry \<Rightarrow> nat \<Rightarrow> nat" where
  "next_log_block g cur = (let next = cur + 1 in if next \<ge> maxlen g then first g else next)"

definition advance :: "JournalGeometry \<Rightarrow> nat \<Rightarrow> nat \<Rightarrow> nat" where
  "advance g pos count = (next_log_block g ^^ count) pos"

definition free_log_blocks :: "JournalGeometry \<Rightarrow> nat \<Rightarrow> nat option \<Rightarrow> nat" where
  "free_log_blocks g head dirty_tail =
     (let ring = maxlen g - first g in
      case dirty_tail of
        None \<Rightarrow> ring
      | Some tail \<Rightarrow>
          let head_off = head - first g; tail_off = tail - first g in
          if tail_off \<ge> head_off then tail_off - head_off
          else ring - (head_off - tail_off))"

section \<open>Log blocks\<close>

definition read_log_block :: "JournalGeometry \<Rightarrow> device \<Rightarrow> nat \<Rightarrow> bytes result" where
  "read_log_block g d log =
     (case log_block_to_physical g log of None \<Rightarrow> Err EUCLEAN | Some p \<Rightarrow> read_block d p)"

definition write_log_block :: "JournalGeometry \<Rightarrow> device \<Rightarrow> nat \<Rightarrow> bytes \<Rightarrow> unit result \<times> device" where
  "write_log_block g d log block_buf =
     (case log_block_to_physical g log of
        None \<Rightarrow> (Err EUCLEAN, d)
      | Some p \<Rightarrow> write_block d p block_buf)"

definition barrier :: "device \<Rightarrow> unit result \<times> device" where
  "barrier d = sync d"

section \<open>The superblock funnel\<close>

definition superblock_block :: "JournalGeometry \<Rightarrow> Ext4Bid result" where
  "superblock_block g =
     (case log_block_to_physical g 0 of None \<Rightarrow> Err EUCLEAN | Some p \<Rightarrow> Ok p)"

definition read_raw_superblock :: "JournalGeometry \<Rightarrow> device \<Rightarrow> RawJournalSuperblock result" where
  "read_raw_superblock g d =
     and_then (superblock_block g) (\<lambda>p.
     and_then (read_block d p) (\<lambda>bs. Ok (RawJournalSuperblock_from_bytes (take JOURNAL_SUPERBLOCK_SIZE bs))))"

definition write_superblock ::
    "JournalGeometry \<Rightarrow> device \<Rightarrow> RawJournalSuperblock \<Rightarrow> unit result \<times> device" where
  "write_superblock g d raw =
     (case superblock_block g of
        Inl e \<Rightarrow> (Inl e, d)
      | Inr p \<Rightarrow>
          dev_bind (write_block d p (RawJournalSuperblock_as_bytes (stamp_checksum raw)))
            (\<lambda>_ d'. barrier d'))"

section \<open>Upgrade at mount\<close>

definition upgrade_journal_on_mount ::
    "JournalGeometry \<Rightarrow> device \<Rightarrow> bool \<Rightarrow> bool \<Rightarrow> bool result \<times> device" where
  "upgrade_journal_on_mount g d fs_has_metadata_csum fs_is_64bit =
     (if \<not> fs_has_metadata_csum then (Ok False, d)
      else case read_raw_superblock g d of
             Inl e \<Rightarrow> (Inl e, d)
           | Inr raw \<Rightarrow>
               if h_blocktype (sb_header raw) \<noteq> BLOCKTYPE_SUPERBLOCK_V2 then (Ok False, d)
               else if s_feature_incompat raw \<noteq> 0 then (Ok False, d)
               else if recovery_start raw \<noteq> None then (Ok False, d)
               else
                 let incompat = (if fs_is_64bit then INCOMPAT_CSUM_V3 OR INCOMPAT_64BIT
                                 else INCOMPAT_CSUM_V3);
                     raw' = raw\<lparr> s_feature_incompat := incompat,
                                 s_checksum_type := JBD2_CRC32C_CHKSUM,
                                 s_feature_compat := s_feature_compat raw AND NOT COMPAT_CHECKSUM \<rparr>
                 in dev_bind (write_superblock g d raw') (\<lambda>_ d'. (Ok True, d')))"

text \<open>The tail of \<open>load_geometry\<close>: from the mapped journal inode to a validated geometry.  The
  inode lookup in front of it belongs to the inode layer; \<open>bmap\<close> is its result.\<close>

definition load_geometry :: "device \<Rightarrow> Ext4Bid list \<Rightarrow> JournalGeometry result" where
  "load_geometry d bmap =
     (if length bmap < 2 then Err EUCLEAN
      else and_then (read_block d (bmap ! 0)) (\<lambda>bs.
        let raw = RawJournalSuperblock_from_bytes (take JOURNAL_SUPERBLOCK_SIZE bs) in
        if h_blocktype (sb_header raw) = BLOCKTYPE_SUPERBLOCK_V2 \<and>
           s_feature_incompat raw AND NOT INCOMPAT_SUPP \<noteq> 0 then Err EINVAL
        else if h_blocktype (sb_header raw) = BLOCKTYPE_SUPERBLOCK_V2 \<and>
           s_feature_ro_compat raw \<noteq> 0 then Err EINVAL
        else and_then (JournalSuperblock_try_from raw) (\<lambda>sb.
          if unat (js_maxlen sb) > length bmap then Err EUCLEAN
          else Ok \<lparr> block_map = bmap, jsuper = sb \<rparr>)))"

section \<open>Well-formed geometries and the ring\<close>

definition geometry_ok :: "JournalGeometry \<Rightarrow> bool" where
  "geometry_ok g \<longleftrightarrow>
     0 < first g \<and> first g < maxlen g \<and> maxlen g \<le> length (block_map g) \<and>
     layout_ok (tag_layout g) \<and> (csum_seed g \<noteq> None \<longleftrightarrow> has_csum (tag_layout g))"

lemma load_geometry_ok:
  assumes "load_geometry d bmap = Ok g"
  shows "geometry_ok g"
proof -
  from assms obtain raw sb where sb: "JournalSuperblock_try_from raw = Ok sb"
    "unat (js_maxlen sb) \<le> length bmap" "g = \<lparr> block_map = bmap, jsuper = sb \<rparr>"
    by (auto simp: load_geometry_def Let_def split: if_splits)
  then show ?thesis
    using parsed_superblock_fields[OF sb(1)]
    by (simp add: geometry_ok_def first_def maxlen_def tag_layout_def csum_seed_def word_less_nat_alt)
qed

definition ring_size :: "JournalGeometry \<Rightarrow> nat" where
  "ring_size g = maxlen g - first g"

definition in_ring :: "JournalGeometry \<Rightarrow> nat \<Rightarrow> bool" where
  "in_ring g p \<longleftrightarrow> first g \<le> p \<and> p < maxlen g"

text \<open>The \<open>i\<close>-th position after \<open>p\<close> in ring order.\<close>

definition ring_at :: "JournalGeometry \<Rightarrow> nat \<Rightarrow> nat \<Rightarrow> nat" where
  "ring_at g p i = first g + (p - first g + i) mod ring_size g"

named_theorems ring_simps \<open>arithmetic of ring positions\<close>

lemma ring_size_pos: "geometry_ok g \<Longrightarrow> 0 < ring_size g"
  by (simp add: geometry_ok_def ring_size_def)

lemma ring_at_in_ring: "geometry_ok g \<Longrightarrow> in_ring g (ring_at g p i)"
  using ring_size_pos[of g] mod_less_divisor[of "ring_size g" "p - first g + i"]
  unfolding in_ring_def ring_at_def ring_size_def by (simp add: less_diff_conv add.commute)

lemma ring_at_0: "in_ring g p \<Longrightarrow> ring_at g p 0 = p"
  by (auto simp: ring_at_def in_ring_def ring_size_def)

lemma next_log_block_in_ring:
  "geometry_ok g \<Longrightarrow> in_ring g p \<Longrightarrow> in_ring g (next_log_block g p)"
  by (auto simp: next_log_block_def in_ring_def geometry_ok_def Let_def)

lemma next_ring_at:
  assumes "geometry_ok g"
  shows "next_log_block g (ring_at g p i) = ring_at g p (Suc i)"
proof -
  let ?n = "ring_size g" and ?k = "p - first g + i"
  have pos: "0 < ?n" by (rule ring_size_pos[OF assms])
  have m: "maxlen g = first g + ?n" using assms by (simp add: ring_size_def geometry_ok_def)
  show ?thesis
    using pos mod_Suc[of ?k ?n] mod_less_divisor[OF pos, of ?k]
    by (auto simp: next_log_block_def ring_at_def m Let_def)
qed

lemma advance_eq_ring_at:
  assumes "geometry_ok g" "in_ring g p"
  shows "advance g p n = ring_at g p n"
  using assms by (induction n) (simp_all add: advance_def ring_at_0 next_ring_at)

lemma advance_in_ring: "geometry_ok g \<Longrightarrow> in_ring g p \<Longrightarrow> in_ring g (advance g p n)"
  by (simp add: advance_eq_ring_at ring_at_in_ring)

lemma add_mod_inj:
  fixes i j n a :: nat
  assumes "(a + i) mod n = (a + j) mod n" "i < n" "j < n"
  shows "i = j"
  using assms
proof (induction i j rule: linorder_wlog)
  case (le i j)
  then have "n dvd (a + j) - (a + i)" by (metis add_left_mono mod_eq_dvd_iff_nat)
  then show ?case using le by (auto dest: dvd_imp_le)
qed simp

lemma ring_at_inj:
  assumes "i < ring_size g" "j < ring_size g" "ring_at g p i = ring_at g p j"
  shows "i = j"
  using assms by (intro add_mod_inj[of "p - first g" i "ring_size g" j]) (simp_all add: ring_at_def)

text \<open>Every ring position is reached from every other by a unique number of steps below the
  ring size, the distance \<open>free_log_blocks\<close> computes.\<close>

lemma free_log_blocks_le: "free_log_blocks g h t \<le> ring_size g" if "in_ring g h" "\<And>p. t = Some p \<Longrightarrow> in_ring g p"
  using that by (auto simp: free_log_blocks_def ring_size_def in_ring_def Let_def split: option.splits)

lemma free_log_blocks_distance:
  assumes "geometry_ok g" "in_ring g h" "in_ring g t"
  shows "free_log_blocks g h (Some t) < ring_size g"
    "ring_at g h (free_log_blocks g h (Some t)) = t"
proof -
  let ?n = "ring_size g" and ?h = "h - first g" and ?t = "t - first g"
  have lt: "?h < ?n" "?t < ?n" using assms by (auto simp: in_ring_def ring_size_def)
  have t: "t = first g + ?t" using assms(3) by (simp add: in_ring_def)
  have fr: "free_log_blocks g h (Some t) = (if ?h \<le> ?t then ?t - ?h else ?n - (?h - ?t))"
    by (simp add: free_log_blocks_def ring_size_def Let_def)
  show "free_log_blocks g h (Some t) < ?n" using lt unfolding fr by (auto simp del: diff_diff_left)
  show "ring_at g h (free_log_blocks g h (Some t)) = t"
  proof (cases "?h \<le> ?t")
    case True
    then have "?h + (?t - ?h) = ?t" by simp
    then show ?thesis using True lt t unfolding fr ring_at_def by (simp del: diff_diff_left)
  next
    case False
    then have eq: "?h + (?n - (?h - ?t)) = ?n + ?t" using lt by simp
    have "ring_at g h (free_log_blocks g h (Some t)) = first g + (?n + ?t) mod ?n"
      unfolding ring_at_def fr if_not_P[OF False] eq ..
    then show ?thesis using lt t by (simp only: mod_add_self1 mod_less)
  qed
qed

end
