(* ===== verification/Journal_State.thy ===== *)
theory Journal_State
  imports Transaction Journal_Geometry
begin

text \<open>
  The in-memory journal of \<open>journal/mod.rs\<close>: the two-transaction pipeline with its
  running, locking and committing seats, the commit triggers, the credit arithmetic
  that bounds a transaction by the log, and the waits.  Every function that takes the
  state lock in the code is one state transformer here; the wait queues themselves
  carry no state, so a wait is modelled by the condition it polls.  The \<open>u64\<close> epoch
  wraps; block counts and log positions are natural numbers.
\<close>

section \<open>Data\<close>

record PinnedRun =
  pr_count :: u32
  pr_tid :: tid

record CommittingTxn =
  c_txn :: Transaction
  c_phase :: CommitPhase

record JournalState =
  running :: "Transaction option"
  locking :: "Transaction option"
  commit_request :: "tid option"
  committing :: "CommittingTxn option"
  next_tid :: tid
  head :: nat
  tail_block :: "nat option"
  tail_tid :: tid
  j_revoked :: RevokeTable
  uncheckpointed :: "(Ext4Bid \<times> UncheckpointedImage) list"
  pinned_frees :: "(Ext4Bid \<times> PinnedRun) list"

record Journal =
  geometry :: JournalGeometry
  jstate :: JournalState
  committed_tid :: tid
  credit_release_epoch :: u64
  stop :: bool
  aborted :: bool
  sb_error :: u32
  op_handle_owners :: "nat list"
  space_pressure :: bool
  commit_servicer :: bool

datatype CommitCause = WhenDue | Forced

datatype CommitAction = Exit | Advance | Rearm

datatype PipelineStep = Staged Transaction | Parked | Idle

section \<open>The committing transaction\<close>

definition CommittingTxn_new :: "Transaction \<Rightarrow> CommittingTxn" where
  "CommittingTxn_new txn = \<lparr> c_txn = txn, c_phase = Locked \<rparr>"

definition CommittingTxn_collect_unpublished_revokes ::
    "CommittingTxn \<Rightarrow> Ext4Bid list \<Rightarrow> Ext4Bid list" where
  "CommittingTxn_collect_unpublished_revokes c out =
     (if c_phase c = Finished then out else collect_unpublished_revokes (c_txn c) out)"

definition advance_to :: "CommittingTxn \<Rightarrow> tid \<Rightarrow> CommitPhase \<Rightarrow> CommittingTxn result" where
  "advance_to c t to =
     (if t_tid (c_txn c) \<noteq> t then Err EIO
      else if next_in_pipeline (c_phase c) \<noteq> Some to then Err EIO
      else Ok (c\<lparr> c_phase := to \<rparr>))"

section \<open>The lock-guarded state\<close>

definition stage_committing :: "JournalState \<Rightarrow> Transaction \<Rightarrow> JournalState" where
  "stage_committing st txn =
     st\<lparr> uncheckpointed := stash_uncheckpointed txn (uncheckpointed st),
         commit_request :=
           (case commit_request st of
              None \<Rightarrow> None
            | Some requested \<Rightarrow> if tid_geq (t_tid txn) requested then None else Some requested),
         committing := Some (CommittingTxn_new txn) \<rparr>"

definition advance_committing_phase :: "JournalState \<Rightarrow> tid \<Rightarrow> CommitPhase \<Rightarrow> JournalState result" where
  "advance_committing_phase st t to =
     (case committing st of
        None \<Rightarrow> Err EIO
      | Some c \<Rightarrow> and_then (advance_to c t to) (\<lambda>c'. Ok (st\<lparr> committing := Some c' \<rparr>)))"

definition release_pinned_frees :: "JournalState \<Rightarrow> tid \<Rightarrow> JournalState" where
  "release_pinned_frees st committed =
     st\<lparr> pinned_frees := bt_retain (\<lambda>_ run. \<not> tid_geq committed (pr_tid run)) (pinned_frees st) \<rparr>"

definition pins_charged_to :: "JournalState \<Rightarrow> tid \<Rightarrow> bool" where
  "pins_charged_to st t = list_ex (\<lambda>(_, run). pr_tid run = t) (pinned_frees st)"

definition has_durable_obligation :: "JournalState \<Rightarrow> Transaction \<Rightarrow> bool" where
  "has_durable_obligation st txn \<longleftrightarrow> has_recorded_work txn \<or> pins_charged_to st (t_tid txn)"

definition committable_running :: "JournalState \<Rightarrow> (Transaction \<times> tid) option" where
  "committable_running st =
     (case running st of
        None \<Rightarrow> None
      | Some txn \<Rightarrow> if has_durable_obligation st txn then Some (txn, t_tid txn) else None)"

section \<open>The journal\<close>

definition Journal_new :: "JournalGeometry \<Rightarrow> Journal" where
  "Journal_new g =
     \<lparr> geometry = g,
       jstate = \<lparr> running = None, locking = None, commit_request = None, committing = None,
                  next_tid = js_sequence (jsuper g), head = first g,
                  tail_block = map_option unat (js_start (jsuper g)),
                  tail_tid = js_sequence (jsuper g), j_revoked = RevokeTable_new,
                  uncheckpointed = [], pinned_frees = [] \<rparr>,
       committed_tid = tid_prev (js_sequence (jsuper g)), credit_release_epoch = 0, stop = False,
       aborted = False, sb_error = js_errno (jsuper g), op_handle_owners = [],
       space_pressure = False, commit_servicer = False \<rparr>"

definition max_credits :: "JournalGeometry \<Rightarrow> nat" where
  "max_credits g =
     (let usable = maxlen g - first g; tags = tags_per_descriptor (tag_layout g) in
      tags * (usable - 2) div (tags + 1))"

definition batch_trigger_credits :: "JournalGeometry \<Rightarrow> nat" where
  "batch_trigger_credits g = max (max_credits g div 4) 1"

definition checkpoint_low_water :: "JournalGeometry \<Rightarrow> nat" where
  "checkpoint_low_water g = max ((maxlen g - first g) div 4) 1"

definition worst_case_footprint :: "JournalGeometry \<Rightarrow> nat \<Rightarrow> nat \<Rightarrow> nat" where
  "worst_case_footprint g credits revoke_blocks =
     (let tags = tags_per_descriptor (tag_layout g);
          blocks = credits + revoke_blocks + div_ceil credits tags + 1
      in if blocks < 2 ^ 32 then blocks else 2 ^ 32 - 1)"

definition reservation_footprint :: "JournalGeometry \<Rightarrow> Transaction \<Rightarrow> nat \<Rightarrow> nat" where
  "reservation_footprint g txn credits =
     worst_case_footprint g (reserved_metadata_blocks txn credits) (nr_revoke_blocks txn (tag_layout g))"

definition pinned_frees_snapshot :: "Journal \<Rightarrow> (Ext4Bid \<times> u32) list" where
  "pinned_frees_snapshot j = map (\<lambda>(start, run). (start, pr_count run)) (pinned_frees (jstate j))"

definition has_pinned_frees :: "Journal \<Rightarrow> bool" where
  "has_pinned_frees j \<longleftrightarrow> pinned_frees (jstate j) \<noteq> []"

section \<open>Commit triggers and the pipeline\<close>

definition commit_triggered :: "Journal \<Rightarrow> Transaction \<Rightarrow> nat \<Rightarrow> tid option \<Rightarrow> bool" where
  "commit_triggered j txn now requested \<longleftrightarrow>
     (case requested of None \<Rightarrow> False | Some r \<Rightarrow> tid_geq r (t_tid txn)) \<or>
     is_expired_at txn now \<or>
     batch_footprint txn (tag_layout (geometry j)) \<ge> batch_trigger_credits (geometry j)"

definition age_key :: "JournalState \<Rightarrow> tid option" where
  "age_key st = map_option snd (committable_running st)"

definition age_deadline :: "Journal \<Rightarrow> nat option \<Rightarrow> tid option \<times> nat option" where
  "age_deadline j timer =
     (if aborted j then (None, None)
      else case committable_running (jstate j) of
             None \<Rightarrow> (None, None)
           | Some (txn, t) \<Rightarrow> (Some t, map_option (until_expiry txn) timer))"

definition poll_commit_action :: "Journal \<Rightarrow> nat \<Rightarrow> tid option \<Rightarrow> CommitAction option" where
  "poll_commit_action j now armed_age_key =
     (let st = jstate j in
      if stop j then Some Exit
      else if aborted j then None
      else if committing st \<noteq> None then None
      else if space_pressure j then Some Advance
      else case locking st of
             Some locked \<Rightarrow> if t_updates locked = 0 then Some Advance else None
           | None \<Rightarrow>
               if (case committable_running st of
                     None \<Rightarrow> False
                   | Some (txn, _) \<Rightarrow> commit_triggered j txn now (commit_request st))
               then Some Advance
               else if age_key st \<noteq> armed_age_key then Some Rearm
               else None)"

definition advance_pipeline :: "Journal \<Rightarrow> nat \<Rightarrow> CommitCause \<Rightarrow> PipelineStep \<times> Journal" where
  "advance_pipeline j now cause =
     (let st = jstate j in
      if aborted j then (Idle, j)
      else if committing st \<noteq> None then (Idle, j)
      else case locking st of
        Some locked \<Rightarrow>
          if t_updates locked = 0
          then (Staged locked, j\<lparr> jstate := stage_committing (st\<lparr> locking := None \<rparr>) locked \<rparr>)
          else (Parked, j)
      | None \<Rightarrow>
          (case committable_running st of
             None \<Rightarrow> (Idle, j)
           | Some (txn, _) \<Rightarrow>
               if \<not> (cause = Forced \<or> commit_triggered j txn now (commit_request st)) then (Idle, j)
               else if t_updates txn = 0
               then (Staged txn, j\<lparr> jstate := stage_committing (st\<lparr> running := None \<rparr>) txn \<rparr>)
               else (Parked, j\<lparr> jstate := st\<lparr> running := None, locking := Some txn \<rparr> \<rparr>)))"

definition clear_committing :: "Journal \<Rightarrow> tid \<Rightarrow> Journal" where
  "clear_committing j t =
     (case committing (jstate j) of
        Some c \<Rightarrow>
          if t_tid (c_txn c) = t then j\<lparr> jstate := (jstate j)\<lparr> committing := None \<rparr> \<rparr> else j
      | None \<Rightarrow> j)"

definition request_commit_for :: "Journal \<Rightarrow> tid \<Rightarrow> Journal" where
  "request_commit_for j target =
     (if (case commit_request (jstate j) of None \<Rightarrow> False | Some existing \<Rightarrow> tid_geq existing target)
      then j
      else j\<lparr> jstate := (jstate j)\<lparr> commit_request := Some target \<rparr> \<rparr>)"

definition request_commit_of_running :: "Journal \<Rightarrow> Journal" where
  "request_commit_of_running j =
     (case committable_running (jstate j) of
        None \<Rightarrow> j
      | Some (_, t) \<Rightarrow> request_commit_for j t)"

definition note_credits_released :: "Journal \<Rightarrow> Journal" where
  "note_credits_released j = j\<lparr> credit_release_epoch := credit_release_epoch j + 1 \<rparr>"

text \<open>A task may hold one operation handle; \<open>current_op_owner\<close> is the running task's identity.\<close>

definition claim_op_handle :: "Journal \<Rightarrow> nat option \<Rightarrow> nat option result \<times> Journal" where
  "claim_op_handle j owner =
     (case owner of
        None \<Rightarrow> (Ok None, j)
      | Some i \<Rightarrow>
          if i \<in> set (op_handle_owners j) then (Err EDEADLK, j)
          else (Ok (Some i), j\<lparr> op_handle_owners := bs_insert i (op_handle_owners j) \<rparr>))"

definition release_op_handle :: "Journal \<Rightarrow> nat \<Rightarrow> Journal" where
  "release_op_handle j i = j\<lparr> op_handle_owners := bs_remove i (op_handle_owners j) \<rparr>"

section \<open>Starting and stopping the commit thread, unmount\<close>

definition start_commit_thread :: "Journal \<Rightarrow> Journal" where
  "start_commit_thread j = j\<lparr> commit_servicer := True \<rparr>"

definition stop_commit_thread :: "Journal \<Rightarrow> Journal" where
  "stop_commit_thread j = j\<lparr> commit_servicer := False, stop := True \<rparr>"

text \<open>Staging the oldest seat at unmount: \<open>Ok None\<close> when both are empty, \<open>Ok (Some None)\<close> when a
  transaction without durable obligations was dropped.\<close>

definition take_unmount_seat :: "JournalState \<Rightarrow> (Transaction option option \<times> JournalState) result" where
  "take_unmount_seat st =
     (if committing st \<noteq> None then Err EIO
      else if (case (case locking st of Some txn \<Rightarrow> Some txn | None \<Rightarrow> running st) of
                 Some txn \<Rightarrow> t_updates txn \<noteq> 0
               | None \<Rightarrow> False)
      then Err EIO
      else case locking st of
        Some txn \<Rightarrow>
          let st1 = st\<lparr> locking := None \<rparr> in
          if has_durable_obligation st1 txn then Ok (Some (Some txn), stage_committing st1 txn)
          else Ok (Some None, st1)
      | None \<Rightarrow>
          (case running st of
             Some txn \<Rightarrow>
               let st1 = st\<lparr> running := None \<rparr> in
               if has_durable_obligation st1 txn then Ok (Some (Some txn), stage_committing st1 txn)
               else Ok (Some None, st1)
           | None \<Rightarrow> Ok (None, st)))"

section \<open>Waits\<close>

text \<open>Each wait first publishes its request and then polls; \<open>None\<close> is \<open>still blocked\<close>.\<close>

definition poll_transaction_room :: "Journal \<Rightarrow> tid \<Rightarrow> u64 \<Rightarrow> unit result option" where
  "poll_transaction_room j t epoch =
     (if aborted j then Some (Err EIO)
      else if tid_geq (committed_tid j) t \<or> credit_release_epoch j \<noteq> epoch then Some (Ok ())
      else None)"

definition request_log_space :: "Journal \<Rightarrow> Journal" where
  "request_log_space j =
     (if commit_servicer j then request_commit_of_running (j\<lparr> space_pressure := True \<rparr>) else j)"

definition poll_log_space :: "Journal \<Rightarrow> u64 \<Rightarrow> unit result option" where
  "poll_log_space j epoch =
     (if aborted j then Some (Err EIO)
      else if \<not> commit_servicer j then Some (Ok ())
      else if credit_release_epoch j \<noteq> epoch then Some (Ok ())
      else None)"

definition log_wait_commit_start :: "Journal \<Rightarrow> tid \<Rightarrow> unit result option \<times> Journal" where
  "log_wait_commit_start j target =
     (if tid_geq (committed_tid j) target then (Some (Ok ()), j)
      else (None, request_commit_for j target))"

definition poll_log_commit :: "Journal \<Rightarrow> tid \<Rightarrow> unit result option" where
  "poll_log_commit j target =
     (if tid_geq (committed_tid j) target then Some (Ok ())
      else if aborted j then Some (Err EIO)
      else None)"

definition sync_durability_target :: "Journal \<Rightarrow> tid option result" where
  "sync_durability_target j =
     (let st = jstate j in
      case (case running st of Some txn \<Rightarrow> Some txn | None \<Rightarrow> locking st) of
        Some txn \<Rightarrow>
          if has_durable_obligation st txn then Ok (Some (t_tid txn))
          else (case committing st of
                  Some c \<Rightarrow> Ok (Some (t_tid (c_txn c)))
                | None \<Rightarrow> if aborted j then Err EIO else Ok None)
      | None \<Rightarrow>
          (case committing st of
             Some c \<Rightarrow> Ok (Some (t_tid (c_txn c)))
           | None \<Rightarrow> if aborted j then Err EIO else Ok None))"

section \<open>Abort\<close>

definition S_ERRNO_ERROR_MARKER :: u32 where
  "S_ERRNO_ERROR_MARKER = 5"

definition abort :: "Journal \<Rightarrow> Journal" where
  "abort j = j\<lparr> aborted := True \<rparr>"

definition write_errno_to_super :: "Journal \<Rightarrow> device \<Rightarrow> unit result \<times> device" where
  "write_errno_to_super j d =
     (case read_raw_superblock (geometry j) d of
        Inl e \<Rightarrow> (Inl e, d)
      | Inr raw \<Rightarrow> write_superblock (geometry j) d (raw\<lparr> s_errno := sb_error j \<rparr>))"

definition abort_with_error :: "Journal \<Rightarrow> device \<Rightarrow> Journal \<times> device" where
  "abort_with_error j d =
     (let j' = (abort j)\<lparr> sb_error := S_ERRNO_ERROR_MARKER \<rparr> in
      (j', snd (write_errno_to_super j' d)))"

end
