(* ===== verification/Journal_Commit.thy ===== *)
theory Journal_Commit
  imports Journal_State
begin

text \<open>
  The commit path of \<open>journal/commit.rs\<close>: the descriptor chain, the revoke blocks and the
  commit block a transaction becomes in the log, and \<open>try_commit_transaction\<close> with its fit
  guard, ordered-data flush, barriers, superblock update and publication.  The wall clock
  of the commit block is an argument; the page-cache flush of ordered data appears as the
  block writes it issues.
\<close>

section \<open>Journal and device together\<close>

definition jd_bind ::
    "'a result \<times> Journal \<times> device \<Rightarrow> ('a \<Rightarrow> Journal \<Rightarrow> device \<Rightarrow> 'b result \<times> Journal \<times> device) \<Rightarrow>
     'b result \<times> Journal \<times> device" where
  "jd_bind m f = (case m of (Inl e, j, d) \<Rightarrow> (Inl e, j, d) | (Inr v, j, d) \<Rightarrow> f v j d)"

definition with_device :: "Journal \<Rightarrow> 'a result \<times> device \<Rightarrow> 'a result \<times> Journal \<times> device" where
  "with_device j m = (fst m, j, snd m)"

lemma jd_bind_Ok [simp]: "jd_bind (Inr v, j, d) f = f v j d"
  by (simp add: jd_bind_def)

lemma jd_bind_Err [simp]: "jd_bind (Inl e, j, d) f = (Inl e, j, d)"
  by (simp add: jd_bind_def)

lemma jd_bind_eq_Ok:
  "jd_bind m f = (Inr v, j', d') \<longleftrightarrow> (\<exists>u j1 d1. m = (Inr u, j1, d1) \<and> f u j1 d1 = (Inr v, j', d'))"
  by (cases m; cases "fst m") (auto simp: jd_bind_def)

lemma with_device_eq: "with_device j m = (r, j', d') \<longleftrightarrow> j' = j \<and> m = (r, d')"
  by (cases m) (auto simp: with_device_def)

section \<open>Log images\<close>

record LoggedBlock =
  lb_bytes :: bytes
  lb_escape :: bool

record DescriptorRun =
  descriptor :: bytes
  blocks :: "LoggedBlock list"

definition nr_blocks :: "DescriptorRun \<Rightarrow> nat" where
  "nr_blocks run = length (blocks run)"

definition JBD2_MAGIC_BYTES :: bytes where
  "JBD2_MAGIC_BYTES = be32 JBD2_MAGIC"

text \<open>The escaped form: a block that begins with the journal magic is logged with a zeroed head.\<close>

definition needs_escape :: "bytes \<Rightarrow> bool" where
  "needs_escape bs \<longleftrightarrow> take 4 bs = JBD2_MAGIC_BYTES"

definition zero_head :: "bytes \<Rightarrow> bytes" where
  "zero_head bs = splice 0 [0, 0, 0, 0] bs"

definition logged_image :: "bytes \<Rightarrow> bytes" where
  "logged_image bs = (if needs_escape bs then zero_head bs else bs)"

definition capture_flags :: "nat \<Rightarrow> nat \<Rightarrow> bytes \<Rightarrow> u16" where
  "capture_flags n i bs =
     (if i \<noteq> 0 then TAG_FLAG_SAME_UUID else 0) OR
     (if i = n - 1 then TAG_FLAG_LAST_TAG else 0) OR
     (if needs_escape bs then TAG_FLAG_ESCAPE else 0)"

fun put_captures ::
    "nat \<Rightarrow> nat \<Rightarrow> TagWriter \<Rightarrow> (Ext4Bid \<times> bytes) list \<Rightarrow> (TagWriter \<times> LoggedBlock list) result" where
  "put_captures n i w [] = Ok (w, [])"
| "put_captures n i w ((bid, bs) # rest) =
     and_then (TagWriter_put w bid (capture_flags n i bs) (logged_image bs)) (\<lambda>w1.
     and_then (put_captures n (i + 1) w1 rest) (\<lambda>(w2, lbs).
     Ok (w2, \<lparr> lb_bytes = bs, lb_escape = needs_escape bs \<rparr> # lbs)))"

definition build_descriptor_run ::
    "tid \<Rightarrow> (Ext4Bid \<times> bytes) list \<Rightarrow> TagLayout \<Rightarrow> JournalCsumSeed option \<Rightarrow> DescriptorRun result" where
  "build_descriptor_run t run L seed =
     (let header = \<lparr> h_magic = JBD2_MAGIC, h_blocktype = BLOCKTYPE_DESCRIPTOR, h_sequence = t \<rparr>;
          block = splice 0 (RawJournalHeader_as_bytes header) (replicate BLOCK_SIZE 0)
      in and_then (TagLayout_writer L block t seed) (\<lambda>w.
         and_then (put_captures (length run) 0 w run) (\<lambda>(w', lbs).
         Ok \<lparr> descriptor = TagWriter_finish w', blocks = lbs \<rparr>)))"

text \<open>The slices \<open>chunks(n)\<close> of a list; the code never asks for chunks of size zero.\<close>

function chunks :: "nat \<Rightarrow> 'a list \<Rightarrow> 'a list list" where
  "chunks n xs = (if xs = [] \<or> n = 0 then [] else take n xs # chunks n (drop n xs))"
  by pat_completeness auto
termination by (relation "measure (\<lambda>(_, xs). length xs)") auto

declare chunks.simps [simp del]

fun collect_results :: "('a \<Rightarrow> 'b result) \<Rightarrow> 'a list \<Rightarrow> 'b list result" where
  "collect_results f [] = Ok []"
| "collect_results f (x # xs) =
     and_then (f x) (\<lambda>y. and_then (collect_results f xs) (\<lambda>ys. Ok (y # ys)))"

definition build_descriptor_chain ::
    "Transaction \<Rightarrow> TagLayout \<Rightarrow> JournalCsumSeed option \<Rightarrow> DescriptorRun list result" where
  "build_descriptor_chain txn L seed =
     (let captures = metadata_blocks txn in
      if captures = [] then Err EINVAL
      else collect_results (\<lambda>run. build_descriptor_run (t_tid txn) run L seed)
             (chunks (tags_per_descriptor L) captures))"

definition build_revoke_blocks ::
    "Transaction \<Rightarrow> TagLayout \<Rightarrow> JournalCsumSeed option \<Rightarrow> bytes list result" where
  "build_revoke_blocks txn L seed =
     collect_results
       (\<lambda>run. and_then (revoke_writer L (t_tid txn) seed) (\<lambda>w.
              and_then (revoke_put_all w run) (\<lambda>w'. Ok (RevokeBlockWriter_finish w'))))
       (chunks (revoke_entries_per_block L) (t_revoked txn))"

text \<open>\<open>RawCommitBlock\<close>: the header, the zeroed checksum fields and the commit time, 60 bytes.\<close>

definition build_commit_block :: "u64 \<Rightarrow> u32 \<Rightarrow> tid \<Rightarrow> JournalCsumSeed option \<Rightarrow> bytes" where
  "build_commit_block secs nsecs t seed =
     (let header = \<lparr> h_magic = JBD2_MAGIC, h_blocktype = BLOCKTYPE_COMMIT, h_sequence = t \<rparr>;
          commit = RawJournalHeader_as_bytes header @ replicate 36 0 @ be64 secs @ be32 nsecs;
          block = splice 0 commit (replicate BLOCK_SIZE 0)
      in case seed of Some s \<Rightarrow> stamp_commit_block s block | None \<Rightarrow> block)"

section \<open>Writing the log\<close>

definition update_superblock_tail :: "JournalGeometry \<Rightarrow> device \<Rightarrow> nat \<Rightarrow> tid \<Rightarrow> unit result \<times> device" where
  "update_superblock_tail g d txn_start t =
     (case read_raw_superblock g d of
        Inl e \<Rightarrow> (Inl e, d)
      | Inr raw \<Rightarrow> write_superblock g d (raw\<lparr> s_start := word_of_nat txn_start, s_sequence := t \<rparr>))"

fun write_log_blocks :: "JournalGeometry \<Rightarrow> device \<Rightarrow> nat \<Rightarrow> bytes list \<Rightarrow> nat result \<times> device" where
  "write_log_blocks g d log [] = (Ok log, d)"
| "write_log_blocks g d log (b # bs) =
     dev_bind (write_log_block g d log b) (\<lambda>_ d'. write_log_blocks g d' (next_log_block g log) bs)"

definition write_run :: "JournalGeometry \<Rightarrow> device \<Rightarrow> nat \<Rightarrow> DescriptorRun \<Rightarrow> nat result \<times> device" where
  "write_run g d log run =
     dev_bind (write_log_block g d log (descriptor run)) (\<lambda>_ d'.
       write_log_blocks g d' (next_log_block g log)
         (map (\<lambda>b. if lb_escape b then zero_head (lb_bytes b) else lb_bytes b) (blocks run)))"

fun write_chain :: "JournalGeometry \<Rightarrow> device \<Rightarrow> nat \<Rightarrow> DescriptorRun list \<Rightarrow> nat result \<times> device" where
  "write_chain g d log [] = (Ok log, d)"
| "write_chain g d log (run # runs) = dev_bind (write_run g d log run) (\<lambda>log' d'. write_chain g d' log' runs)"

fun write_final_blocks :: "device \<Rightarrow> (u64 \<times> bytes) list \<Rightarrow> unit result \<times> device" where
  "write_final_blocks d [] = (Ok (), d)"
| "write_final_blocks d ((b, bs) # ws) = dev_bind (write_block d b bs) (\<lambda>_ d'. write_final_blocks d' ws)"

text \<open>Step 0: flush every ordered inode, then one barrier if anything was flushed.\<close>

definition flush_ordered_data :: "device \<Rightarrow> OrderedData list \<Rightarrow> unit result \<times> device" where
  "flush_ordered_data d ods =
     dev_bind (write_final_blocks d (concat (map od_writes ods))) (\<lambda>_ d'.
       if ods \<noteq> [] then barrier d' else (Ok (), d'))"

section \<open>Committing\<close>

datatype CommitAttempt = Committed tid | NeedsLogSpace

definition phase_step :: "Journal \<Rightarrow> device \<Rightarrow> tid \<Rightarrow> CommitPhase \<Rightarrow> unit result \<times> Journal \<times> device" where
  "phase_step j d t to =
     (case advance_committing_phase (jstate j) t to of
        Inl e \<Rightarrow> (Inl e, j, d)
      | Inr st \<Rightarrow> (Ok (), j\<lparr> jstate := st \<rparr>, d))"

text \<open>Step 6, one state-lock window and the store of the committed id.\<close>

definition publish_commit :: "Journal \<Rightarrow> Transaction \<Rightarrow> nat \<Rightarrow> nat \<Rightarrow> bool \<Rightarrow> Journal result" where
  "publish_commit j txn start_head footprint was_clean =
     (let t = t_tid txn in
      and_then (advance_committing_phase (jstate j) t Finished) (\<lambda>st.
        let st1 = st\<lparr> head := advance (geometry j) start_head footprint \<rparr>;
            st2 = (if was_clean then st1\<lparr> tail_block := Some start_head, tail_tid := t \<rparr> else st1);
            st3 = st2\<lparr> j_revoked := stash_revokes txn (j_revoked st2) \<rparr>
        in Ok (j\<lparr> jstate := release_pinned_frees st3 t, committed_tid := t \<rparr>)))"

definition commit_footprint :: "bytes list \<Rightarrow> DescriptorRun list \<Rightarrow> nat" where
  "commit_footprint revoke_blocks chain =
     length revoke_blocks + sum_list (map nr_blocks chain) + length chain + 1"

text \<open>Steps 0 to 6, once the transaction is known to fit.\<close>

definition write_transaction ::
    "u64 \<Rightarrow> u32 \<Rightarrow> Journal \<Rightarrow> device \<Rightarrow> Transaction \<Rightarrow> bytes list \<Rightarrow> DescriptorRun list \<Rightarrow>
     CommitAttempt result \<times> Journal \<times> device" where
  "write_transaction secs nsecs j d txn revoke_blocks chain =
     (let t = t_tid txn; g = geometry j; start_head = head (jstate j);
          was_clean = (tail_block (jstate j) = None)
      in jd_bind (phase_step j d t Flush) (\<lambda>_ j d.
         jd_bind (with_device j (flush_ordered_data d (ordered_data txn))) (\<lambda>_ j d.
         jd_bind (phase_step j d t Commit) (\<lambda>_ j d.
         jd_bind (with_device j (write_log_blocks g d start_head revoke_blocks)) (\<lambda>log j d.
         jd_bind (with_device j (write_chain g d log chain)) (\<lambda>log j d.
         jd_bind (with_device j (barrier d)) (\<lambda>_ j d.
         jd_bind (phase_step j d t CommitRecord) (\<lambda>_ j d.
         jd_bind (with_device j (write_log_block g d log (build_commit_block secs nsecs t (csum_seed g)))) (\<lambda>_ j d.
         jd_bind (with_device j (barrier d)) (\<lambda>_ j d.
         jd_bind (with_device j (if was_clean then update_superblock_tail g d start_head t else (Ok (), d))) (\<lambda>_ j d.
         case publish_commit j txn start_head (commit_footprint revoke_blocks chain) was_clean of
           Inl e \<Rightarrow> (Inl e, j, d)
         | Inr j' \<Rightarrow> (Ok (Committed t), j', d))))))))))))"

definition try_commit_transaction ::
    "u64 \<Rightarrow> u32 \<Rightarrow> Journal \<Rightarrow> device \<Rightarrow> Transaction \<Rightarrow> CommitAttempt result \<times> Journal \<times> device" where
  "try_commit_transaction secs nsecs j d txn =
     (let g = geometry j in
      case build_revoke_blocks txn (tag_layout g) (csum_seed g) of
        Inl e \<Rightarrow> (Inl e, j, d)
      | Inr revoke_blocks \<Rightarrow>
          (case build_descriptor_chain txn (tag_layout g) (csum_seed g) of
             Inl e \<Rightarrow> (Inl e, j, d)
           | Inr chain \<Rightarrow>
               let footprint = commit_footprint revoke_blocks chain in
               if footprint \<ge> 2 ^ 32 then (Err ENOSPC, j, d)
               else if footprint > free_log_blocks g (head (jstate j)) (tail_block (jstate j))
               then (Ok NeedsLogSpace, j, d)
               else write_transaction secs nsecs j d txn revoke_blocks chain))"

end
