(* ===== verification/Log_Image.thy ===== *)
theory Log_Image
  imports Journal_Commit
begin

text \<open>
  What the commit path writes, as the readers of the log see it.  A transaction becomes a
  list of chain items (revoke blocks, then descriptors with the blocks they tag) sealed by a
  commit block; this theory shows that the blocks the builders return parse back to those
  items, and that the log holds them after a commit.
\<close>

section \<open>Chunks and collected results\<close>

lemma chunks_Nil [simp]: "chunks n [] = []"
  by (simp add: chunks.simps)

lemma concat_chunks: "0 < n \<Longrightarrow> concat (chunks n xs) = xs"
proof (induction n xs rule: chunks.induct)
  case (1 n xs)
  then show ?case by (subst chunks.simps) auto
qed

lemma chunks_member: "c \<in> set (chunks n xs) \<Longrightarrow> c \<noteq> [] \<and> length c \<le> n"
proof (induction n xs rule: chunks.induct)
  case (1 n xs)
  then show ?case by (subst (asm) chunks.simps) (auto split: if_splits)
qed

lemma length_chunks: "0 < n \<Longrightarrow> length (chunks n xs) = div_ceil (length xs) n"
proof (induction n xs rule: chunks.induct)
  case (1 n xs)
  show ?case
  proof (cases "xs = []")
    case True
    then show ?thesis using 1(2) by (simp add: div_ceil_def)
  next
    case False
    have "div_ceil (length xs) n = Suc (div_ceil (length xs - n) n)"
    proof (cases "length xs \<le> n")
      case True
      obtain k where "length xs = Suc k" using False by (cases xs) auto
      then have "(length xs + n - 1) div n = 1"
        using True 1(2) by (intro div_nat_eqI) simp_all
      then show ?thesis using True 1(2) by (simp add: div_ceil_def)
    next
      case F2: False
      then have "length xs + n - 1 = (length xs - n + n - 1) + n" using 1(2) by simp
      then show ?thesis using 1(2) unfolding div_ceil_def by (metis Suc_eq_plus1 div_add_self2 not_gr_zero)
    qed
    then show ?thesis using False 1 by (subst chunks.simps) simp
  qed
qed

lemma collect_results_iff:
  "collect_results f xs = Ok ys \<longleftrightarrow> list_all2 (\<lambda>x y. f x = Ok y) xs ys"
  by (induction f xs arbitrary: ys rule: collect_results.induct) (auto simp: list_all2_Cons1)

section \<open>Chain items\<close>

datatype ChainItem =
    RevokeItem bytes "Ext4Bid list"
  | DescriptorItem bytes "(DescriptorTag \<times> bytes) list"

fun item_blocks :: "ChainItem \<Rightarrow> bytes list" where
  "item_blocks (RevokeItem b _) = [b]"
| "item_blocks (DescriptorItem b tagged) = b # map snd tagged"

fun item_writes :: "ChainItem \<Rightarrow> (Ext4Bid \<times> bytes) list" where
  "item_writes (RevokeItem _ _) = []"
| "item_writes (DescriptorItem _ tagged) =
     map (\<lambda>(tag, b). (dt_blocknr tag, if is_escaped tag then splice 0 (be32 JBD2_MAGIC) b else b)) tagged"

fun item_revokes :: "ChainItem \<Rightarrow> Ext4Bid list" where
  "item_revokes (RevokeItem _ bs) = bs"
| "item_revokes (DescriptorItem _ _) = []"

definition header_is :: "bytes \<Rightarrow> u32 \<Rightarrow> tid \<Rightarrow> bool" where
  "header_is b ty t \<longleftrightarrow>
     RawJournalHeader_parse b = \<lparr> h_magic = JBD2_MAGIC, h_blocktype = ty, h_sequence = t \<rparr>"

definition tail_ok :: "JournalCsumSeed option \<Rightarrow> bytes \<Rightarrow> bool" where
  "tail_ok seed b = (case seed of None \<Rightarrow> True | Some s \<Rightarrow> verify_block_tail s b)"

fun item_ok :: "TagLayout \<Rightarrow> JournalCsumSeed option \<Rightarrow> tid \<Rightarrow> ChainItem \<Rightarrow> bool" where
  "item_ok L seed t (RevokeItem b bs) \<longleftrightarrow>
     header_is b BLOCKTYPE_REVOKE t \<and> tail_ok seed b \<and>
     (\<exists>k. walk_revoke L b = Ok k \<and> revoke_entries k = bs)"
| "item_ok L seed t (DescriptorItem b tagged) \<longleftrightarrow>
     header_is b BLOCKTYPE_DESCRIPTOR t \<and> tail_ok seed b \<and>
     walk_tags L b = map (\<lambda>(tag, _). Ok tag) tagged \<and>
     (\<forall>(tag, lb)\<in>set tagged. \<forall>s. seed = Some s \<longrightarrow> verify_data_csum tag s t lb)"

definition commit_ok :: "JournalCsumSeed option \<Rightarrow> tid \<Rightarrow> bytes \<Rightarrow> bool" where
  "commit_ok seed t b \<longleftrightarrow>
     header_is b BLOCKTYPE_COMMIT t \<and> (case seed of None \<Rightarrow> True | Some s \<Rightarrow> verify_commit_block s b)"

section \<open>The blocks the builders return\<close>

lemma header_is_take:
  assumes "take 12 b = be32 JBD2_MAGIC @ be32 ty @ be32 t"
  shows "header_is b ty t"
proof -
  have "take 12 b = take 12 (be32 JBD2_MAGIC @ be32 ty @ be32 t)" using assms by simp
  from slice_cong_take[OF this, of 0 4] slice_cong_take[OF this, of 4 4] slice_cong_take[OF this, of 8 4]
  show ?thesis by (simp add: header_is_def RawJournalHeader_parse_def)
qed

lemma capture_flags_bits:
  "capture_flags n i bs AND TAG_FLAG_LAST_TAG \<noteq> 0 \<longleftrightarrow> i = n - 1"
  "capture_flags n i bs AND TAG_FLAG_ESCAPE \<noteq> 0 \<longleftrightarrow> needs_escape bs"
  "capture_flags n i bs AND TAG_FLAG_SAME_UUID = 0 \<longleftrightarrow> i = 0"
  by (auto simp: capture_flags_def format_consts)

fun run_puts :: "nat \<Rightarrow> nat \<Rightarrow> (Ext4Bid \<times> bytes) list \<Rightarrow> (Ext4Bid \<times> u16 \<times> bytes) list" where
  "run_puts n i [] = []"
| "run_puts n i ((b, bs) # rest) = (b, capture_flags n i bs, logged_image bs) # run_puts n (i + 1) rest"

lemma put_captures_eq:
  "put_captures n i w run =
     and_then (put_all w (run_puts n i run)) (\<lambda>w'.
       Ok (w', map (\<lambda>(_, bs). \<lparr> lb_bytes = bs, lb_escape = needs_escape bs \<rparr>) run))"
  by (induction n i w run rule: put_captures.induct)
     (auto simp: and_then_def split: sum.splits prod.splits)

lemma length_run_puts [simp]: "length (run_puts n i run) = length run"
  by (induction n i run rule: run_puts.induct) auto

lemma nth_run_puts:
  "k < length run \<Longrightarrow>
   run_puts n i run ! k = (fst (run ! k), capture_flags n (i + k) (snd (run ! k)), logged_image (snd (run ! k)))"
  by (induction n i run arbitrary: k rule: run_puts.induct) (auto simp: nth_Cons split: nat.splits)

lemma run_puts_eq_map:
  "run_puts n i run =
     map (\<lambda>k. (fst (run ! k), capture_flags n (i + k) (snd (run ! k)), logged_image (snd (run ! k)))) [0..<length run]"
  by (rule nth_equalityI) (simp_all add: nth_run_puts)

lemma unescape_logged:
  assumes "4 \<le> length bs"
  shows "(if needs_escape bs then splice 0 (be32 JBD2_MAGIC) (logged_image bs) else logged_image bs) = bs"
proof (cases "needs_escape bs")
  case True
  then have "be32 JBD2_MAGIC @ drop 4 bs = bs"
    by (metis JBD2_MAGIC_BYTES_def append_take_drop_id needs_escape_def)
  then show ?thesis
    using True assms by (simp add: logged_image_def zero_head_def splice_def eval_nat_numeral)
qed (simp add: logged_image_def)

lemma length_logged_image [simp]: "4 \<le> length bs \<Longrightarrow> length (logged_image bs) = length bs"
  by (simp add: logged_image_def zero_head_def)

lemma verify_written_tag:
  assumes "writer_ok L w" "layout_ok L" "tw_mode w \<noteq> Plain \<Longrightarrow> tw_mode w = ModeV2 s \<or> tw_mode w = ModeV3 s"
  shows "verify_data_csum (written_tag w b f d) s (tw_tid w) d"
proof -
  have "(ucast (ucast c :: u16) :: u32) = c AND 0xFFFF" for c :: u32
  proof -
    have "c AND 0xFFFF = take_bit 16 c" by (simp add: take_bit_eq_mask mask_eq_exp_minus_1)
    then show ?thesis by (simp only:) (rule bit_word_eqI, auto simp: bit_simps)
  qed
  then show ?thesis
    using assms(3)
    by (cases "tw_mode w") (simp_all add: verify_data_csum_def written_tag_def Let_def)
qed

text \<open>A finished descriptor is a descriptor item whose tags are the captures of the run.\<close>

lemma writer_finish_tail:
  assumes "layout_ok L" "length block = BLOCK_SIZE" "TagLayout_writer L block t seed = Ok w"
    and "writer_ok L w'" "tw_mode w' = tw_mode w"
  shows "tail_ok seed (TagWriter_finish w')"
    "\<And>s. seed = Some s \<Longrightarrow> tw_mode w = ModeV2 s \<or> tw_mode w = ModeV3 s"
proof -
  show mode: "tw_mode w = ModeV2 s \<or> tw_mode w = ModeV3 s" if "seed = Some s" for s
    using assms(3) that by (auto simp: TagLayout_writer_def split: if_splits)
  show "tail_ok seed (TagWriter_finish w')"
    using mode assms(4,5) writer_okD[OF assms(4)]
    by (auto simp: tail_ok_def TagWriter_finish_def verify_stamp_block_tail split: option.splits)
qed

definition tagged_captures :: "TagWriter \<Rightarrow> (Ext4Bid \<times> bytes) list \<Rightarrow> (DescriptorTag \<times> bytes) list" where
  "tagged_captures w run =
     map (\<lambda>(b, f, d). (written_tag w b f d, d)) (run_puts (length run) 0 run)"

lemma tagged_captures_simps:
  assumes "\<forall>(b, bs)\<in>set run. length bs = BLOCK_SIZE"
  shows "map snd (tagged_captures w run) = map (\<lambda>(_, bs). logged_image bs) run"
    "item_writes (DescriptorItem x (tagged_captures w run)) = run"
proof -
  have len: "4 \<le> length (snd (run ! k))" if "k < length run" for k
    using assms that nth_mem[OF that] by (auto simp: BLOCK_SIZE_def case_prod_unfold)
  show "map snd (tagged_captures w run) = map (\<lambda>(_, bs). logged_image bs) run"
    by (rule nth_equalityI) (simp_all add: tagged_captures_def nth_run_puts case_prod_unfold)
  show "item_writes (DescriptorItem x (tagged_captures w run)) = run"
  proof (rule nth_equalityI)
    fix k assume "k < length (item_writes (DescriptorItem x (tagged_captures w run)))"
    then have k: "k < length run" by (simp add: tagged_captures_def)
    then show "item_writes (DescriptorItem x (tagged_captures w run)) ! k = run ! k"
      using unescape_logged[OF len[OF k]] capture_flags_bits(2)[of "length run" k "snd (run ! k)"]
      by (simp add: tagged_captures_def nth_run_puts written_tag_def is_escaped_def prod_eq_iff)
  qed (simp add: tagged_captures_def)
qed

lemma built_descriptor_run:
  assumes "layout_ok L" "build_descriptor_run t run L seed = Ok r" "run \<noteq> []"
    and "\<forall>(b, bs)\<in>set run. length bs = BLOCK_SIZE"
  obtains tagged where "item_ok L seed t (DescriptorItem (descriptor r) tagged)"
    "item_writes (DescriptorItem (descriptor r) tagged) = run"
    "map snd tagged = map (\<lambda>b. if lb_escape b then zero_head (lb_bytes b) else lb_bytes b) (blocks r)"
    "nr_blocks r = length tagged"
proof -
  define block where "block = splice 0 (RawJournalHeader_as_bytes
    \<lparr> h_magic = JBD2_MAGIC, h_blocktype = BLOCKTYPE_DESCRIPTOR, h_sequence = t \<rparr>) (replicate BLOCK_SIZE 0)"
  have hlen: "length (RawJournalHeader_as_bytes
    \<lparr> h_magic = JBD2_MAGIC, h_blocktype = BLOCKTYPE_DESCRIPTOR, h_sequence = t \<rparr>) = 12"
    by (simp add: RawJournalHeader_as_bytes_def)
  have len: "length block = BLOCK_SIZE" by (simp add: block_def hlen BLOCK_SIZE_def)
  let ?xs = "run_puts (length run) 0 run"
  obtain w w' where w: "TagLayout_writer L block t seed = Ok w" "put_all w ?xs = Ok w'"
    and r: "r = \<lparr> descriptor = TagWriter_finish w',
       blocks = map (\<lambda>(_, bs). \<lparr> lb_bytes = bs, lb_escape = needs_escape bs \<rparr>) run \<rparr>"
    using assms(2) by (auto simp: build_descriptor_run_def block_def put_captures_eq)
  note init = writer_ok_initial[OF assms(1) len w(1)]
  have ok: "writer_ok L w" using init by blast
  note put = put_all_tags_in[OF assms(1) ok w(2)]
  note fin = writer_finish_tail[OF assms(1) len w(1), of w']
  let ?tg = "tagged_captures w run"
  have wt: "written_tags w ?xs = map fst ?tg"
    by (simp add: written_tags_def tagged_captures_def case_prod_unfold)
  have flag: "is_last (map fst ?tg ! k) \<longleftrightarrow> k = length run - 1" if "k < length run" for k
    using that capture_flags_bits(1)[of "length run" k "snd (run ! k)"]
    by (simp add: tagged_captures_def nth_run_puts written_tag_def is_last_def)
  have lenxs: "length (map fst ?tg) = length run" by (simp add: tagged_captures_def)
  have "map fst ?tg \<noteq> []" using lenxs assms(3) by (metis length_0_conv)
  then have "last (map fst ?tg) = map fst ?tg ! (length run - 1)" by (metis last_conv_nth lenxs)
  then have "is_last (last (map fst ?tg))"
    using flag[of "length run - 1"] assms(3) by (simp only:) simp
  moreover have "\<not> is_last x" if "x \<in> set (butlast (map fst ?tg))" for x
    using that flag lenxs by (auto simp: in_set_conv_nth nth_butlast)
  ultimately have walk: "walk_tags L (descriptor r) = map (\<lambda>(tag, _). Ok tag) ?tg"
    using walk_tags_written[OF assms(1) ok _ w(2)] init assms(3) r
    by (simp add: wt case_prod_unfold comp_def) (metis length_0_conv length_run_puts)
  have "first_tag_offset L = 12" by (simp add: first_tag_offset_def JOURNAL_HEADER_SIZE_def)
  then have "take 12 (descriptor r) = take 12 (tw_block w')"
    using put init layout_ok_bounds(3)[OF assms(1)] r
    by (simp add: take_TagWriter_finish[OF assms(1)])
  also have "\<dots> = take 12 block"
    using put init by (simp add: \<open>first_tag_offset L = 12\<close>)
  also have "\<dots> = be32 JBD2_MAGIC @ be32 BLOCKTYPE_DESCRIPTOR @ be32 t"
    by (simp add: block_def splice_def RawJournalHeader_as_bytes_def)
  finally have "header_is (descriptor r) BLOCKTYPE_DESCRIPTOR t" by (rule header_is_take)
  moreover have "\<forall>(tag, lb)\<in>set ?tg. \<forall>s. seed = Some s \<longrightarrow> verify_data_csum tag s t lb"
    using fin(2) put init verify_written_tag[OF ok assms(1)] by (auto simp: tagged_captures_def)
  ultimately have "item_ok L seed t (DescriptorItem (descriptor r) ?tg)"
    using walk fin(1) put r by simp
  then show ?thesis
    using that[of ?tg] tagged_captures_simps[OF assms(4)] r lenxs
    by (simp add: case_prod_unfold logged_image_def nr_blocks_def comp_def)
qed

section \<open>A transaction in the log\<close>

definition run_log_blocks :: "DescriptorRun \<Rightarrow> bytes list" where
  "run_log_blocks r =
     descriptor r # map (\<lambda>b. if lb_escape b then zero_head (lb_bytes b) else lb_bytes b) (blocks r)"

definition chain_blocks :: "bytes list \<Rightarrow> DescriptorRun list \<Rightarrow> bytes list" where
  "chain_blocks revoke_blocks chain = revoke_blocks @ concat (map run_log_blocks chain)"

abbreviation items_blocks :: "ChainItem list \<Rightarrow> bytes list" where
  "items_blocks items \<equiv> concat (map item_blocks items)"

abbreviation items_writes :: "ChainItem list \<Rightarrow> (Ext4Bid \<times> bytes) list" where
  "items_writes items \<equiv> concat (map item_writes items)"

abbreviation items_revokes :: "ChainItem list \<Rightarrow> Ext4Bid list" where
  "items_revokes items \<equiv> concat (map item_revokes items)"

lemma built_runs_items:
  assumes "layout_ok L" "list_all2 (\<lambda>run r. build_descriptor_run t run L seed = Ok r) runs rs"
    and "\<forall>run\<in>set runs. run \<noteq> [] \<and> (\<forall>(b, bs)\<in>set run. length bs = BLOCK_SIZE)"
  shows "\<exists>items. list_all (item_ok L seed t) items \<and> items_blocks items = concat (map run_log_blocks rs) \<and>
    items_writes items = concat runs \<and> items_revokes items = [] \<and>
    length (items_blocks items) = sum_list (map nr_blocks rs) + length rs"
  using assms(2,3)
proof (induction runs rs rule: list_all2_induct)
  case Nil
  show ?case by (rule exI[of _ "[]"]) simp
next
  case (Cons run runs r rs)
  then obtain items where it: "list_all (item_ok L seed t) items"
    "items_blocks items = concat (map run_log_blocks rs)" "items_writes items = concat runs"
    "items_revokes items = []" "length (items_blocks items) = sum_list (map nr_blocks rs) + length rs"
    by auto
  from Cons.prems have run: "run \<noteq> []" "\<forall>(b, bs)\<in>set run. length bs = BLOCK_SIZE" by auto
  obtain tagged where
    tg: "item_ok L seed t (DescriptorItem (descriptor r) tagged)"
    "item_writes (DescriptorItem (descriptor r) tagged) = run"
    "map snd tagged = map (\<lambda>b. if lb_escape b then zero_head (lb_bytes b) else lb_bytes b) (blocks r)"
    "nr_blocks r = length tagged"
    by (rule built_descriptor_run[OF assms(1) Cons.hyps(1) run])
  show ?case
  proof (intro exI[of _ "DescriptorItem (descriptor r) tagged # items"] conjI)
    show "items_blocks (DescriptorItem (descriptor r) tagged # items) = concat (map run_log_blocks (r # rs))"
      using it tg(3) by (simp add: run_log_blocks_def)
    show "length (items_blocks (DescriptorItem (descriptor r) tagged # items)) =
        sum_list (map nr_blocks (r # rs)) + length (r # rs)"
      using it(5) tg(4) by simp
  qed (use it tg in auto)
qed

lemma built_revoke_block:
  assumes "layout_ok L" "revoke_writer L t seed = Ok w" "revoke_put_all w bs = Ok w'"
  shows "item_ok L seed t (RevokeItem (RevokeBlockWriter_finish w') bs)"
proof -
  note init = revoke_writer_ok_initial[OF assms(1,2)]
  note put = revoke_put_all_correct[OF assms(1) init(1) assms(3)]
  have ok': "revoke_writer_ok L w'" using put by blast
  have "take REVOKE_HEADER_SIZE (rw_block w') = take REVOKE_HEADER_SIZE (rw_block w)"
    using put init(2) by simp
  then have "take 12 (take REVOKE_HEADER_SIZE (rw_block w')) = take 12 (take REVOKE_HEADER_SIZE (rw_block w))"
    by (rule arg_cong)
  then have "take 12 (RevokeBlockWriter_finish w') = be32 JBD2_MAGIC @ be32 BLOCKTYPE_REVOKE @ be32 t"
    using revoke_finish_frame(3)[OF assms(1) ok'] init(4) by (simp add: REVOKE_HEADER_SIZE_def)
  moreover have "tail_ok seed (RevokeBlockWriter_finish w')"
    using put init(3) ok'
    by (auto simp: tail_ok_def RevokeBlockWriter_finish_def Let_def revoke_writer_ok_def BLOCK_SIZE_def
        intro!: verify_stamp_block_tail split: option.splits)
  ultimately show ?thesis
    using revoke_finish_walk[OF assms(1) init(1,2) assms(3)] by (simp add: header_is_take)
qed

lemma built_revokes_items:
  assumes "layout_ok L"
    and "list_all2 (\<lambda>run b. and_then (revoke_writer L t seed) (\<lambda>w.
           and_then (revoke_put_all w run) (\<lambda>w'. Ok (RevokeBlockWriter_finish w'))) = Ok b) runs bs"
  shows "\<exists>items. list_all (item_ok L seed t) items \<and> items_blocks items = bs \<and>
    items_writes items = [] \<and> items_revokes items = concat runs"
  using assms(2)
proof (induction runs bs rule: list_all2_induct)
  case Nil
  show ?case by (rule exI[of _ "[]"]) simp
next
  case (Cons run runs b bs)
  then obtain items where it: "list_all (item_ok L seed t) items" "items_blocks items = bs"
    "items_writes items = []" "items_revokes items = concat runs" by blast
  have "item_ok L seed t (RevokeItem b run)"
    using Cons.hyps(1) built_revoke_block[OF assms(1)] by auto
  then show ?case
    by (intro exI[of _ "RevokeItem b run # items"]) (use it in simp)
qed

lemma capacities_pos:
  assumes "layout_ok L"
  shows "0 < tags_per_descriptor L" "0 < revoke_entries_per_block L"
proof -
  note b = layout_ok_bounds(1-3)[OF assms]
  show "0 < tags_per_descriptor L"
    using b by (simp add: tags_per_descriptor_def div_greater_zero_iff first_tag_offset_def
        JOURNAL_HEADER_SIZE_def TAG_UUID_BYTES_def)
  have "RevokeEntryWidth_bytes W \<le> 8" "0 < RevokeEntryWidth_bytes W" for W
    by (cases W; simp)+
  then show "0 < revoke_entries_per_block L"
    using b(3) order.trans[of "RevokeEntryWidth_bytes (revoke_entry_width L)" 8]
    by (simp add: revoke_entries_per_block_def div_greater_zero_iff REVOKE_HEADER_SIZE_def)
qed

text \<open>The transaction's blocks in the log are its revokes and captures, as chain items.\<close>

lemma built_transaction_items:
  assumes "layout_ok L" "transaction_ok txn"
    and "build_revoke_blocks txn L seed = Ok revs" "build_descriptor_chain txn L seed = Ok chain"
  obtains items where "list_all (item_ok L seed (t_tid txn)) items"
    "items_blocks items = chain_blocks revs chain"
    "items_writes items = metadata_blocks txn" "items_revokes items = t_revoked txn"
    "commit_footprint revs chain = length (items_blocks items) + 1"
proof -
  note pos = capacities_pos[OF assms(1)]
  note rl = assms(3)[unfolded build_revoke_blocks_def collect_results_iff]
  obtain revi where r: "list_all (item_ok L seed (t_tid txn)) revi" "items_blocks revi = revs"
    "items_writes revi = []" "items_revokes revi = t_revoked txn"
    using built_revokes_items[OF assms(1) rl] unfolding concat_chunks[OF pos(2)] by blast
  have whole: "\<forall>(b, bs)\<in>set run. length bs = BLOCK_SIZE"
    if "run \<in> set (chunks (tags_per_descriptor L) (metadata_blocks txn))" for run
  proof -
    have "set run \<subseteq> set (metadata_blocks txn)"
      using that concat_chunks[OF pos(1), of "metadata_blocks txn"] by (metis UN_upper set_concat)
    then show ?thesis using assms(2) by (fastforce simp: metadata_blocks_def transaction_ok_def)
  qed
  have "\<forall>run\<in>set (chunks (tags_per_descriptor L) (metadata_blocks txn)).
      run \<noteq> [] \<and> (\<forall>(b, bs)\<in>set run. length bs = BLOCK_SIZE)"
    using chunks_member whole by blast
  moreover have "list_all2 (\<lambda>run r. build_descriptor_run (t_tid txn) run L seed = Ok r)
      (chunks (tags_per_descriptor L) (metadata_blocks txn)) chain"
    using assms(4) unfolding build_descriptor_chain_def Let_def collect_results_iff[symmetric]
    by (simp split: if_splits)
  ultimately have "\<exists>items. list_all (item_ok L seed (t_tid txn)) items \<and>
      items_blocks items = concat (map run_log_blocks chain) \<and>
      items_writes items = concat (chunks (tags_per_descriptor L) (metadata_blocks txn)) \<and>
      items_revokes items = [] \<and>
      length (items_blocks items) = sum_list (map nr_blocks chain) + length chain"
    by (intro built_runs_items[OF assms(1)])
  then obtain desc where d: "list_all (item_ok L seed (t_tid txn)) desc"
    "items_blocks desc = concat (map run_log_blocks chain)"
    "items_writes desc = metadata_blocks txn" "items_revokes desc = []"
    "length (items_blocks desc) = sum_list (map nr_blocks chain) + length chain"
    unfolding concat_chunks[OF pos(1)] by blast
  show ?thesis
    by (rule that[of "revi @ desc"]) (use r d in \<open>simp_all add: chain_blocks_def commit_footprint_def\<close>)
qed

lemma built_commit_block: "commit_ok seed t (build_commit_block secs nsecs t seed)"
proof -
  define block where "block = splice 0 (RawJournalHeader_as_bytes
      \<lparr> h_magic = JBD2_MAGIC, h_blocktype = BLOCKTYPE_COMMIT, h_sequence = t \<rparr> @
      replicate 36 0 @ be64 secs @ be32 nsecs) (replicate BLOCK_SIZE (0 :: u8))"
  have len: "length block = BLOCK_SIZE"
    by (simp add: block_def RawJournalHeader_as_bytes_def BLOCK_SIZE_def)
  have tk: "take 12 block = be32 JBD2_MAGIC @ be32 BLOCKTYPE_COMMIT @ be32 t"
    by (simp add: block_def splice_def RawJournalHeader_as_bytes_def)
  have "take 12 (stamp_commit_block s block) = take 12 block" for s
    unfolding stamp_commit_block_def using len by (simp add: take_splice format_consts)
  then have "header_is (build_commit_block secs nsecs t seed) BLOCKTYPE_COMMIT t"
    using tk by (auto simp: build_commit_block_def block_def[symmetric] intro!: header_is_take split: option.splits)
  then show ?thesis
    using verify_stamp_commit_block[OF len]
    by (auto simp: commit_ok_def build_commit_block_def block_def[symmetric] split: option.splits)
qed

end
