(* ===== verification/Log_Content.thy ===== *)
theory Log_Content
  imports Log_Image
begin

text \<open>
  The contents of the log area on the device: what it means for the ring to hold a sequence of
  blocks from a position on, what the log writers add to the device, and which writes leave
  the log alone.
\<close>

section \<open>Whole-block devices\<close>

definition sized :: "device \<Rightarrow> bool" where
  "sized d \<longleftrightarrow> (\<forall>b. length (visible d b) = BLOCK_SIZE)"

definition sized_writes :: "(u64 \<times> bytes) list \<Rightarrow> bool" where
  "sized_writes ws \<longleftrightarrow> (\<forall>(b, bs)\<in>set ws. length bs = BLOCK_SIZE)"

definition add_writes :: "device \<Rightarrow> (u64 \<times> bytes) list \<Rightarrow> device" where
  "add_writes d ws = d\<lparr> pending := pending d @ ws \<rparr>"

named_theorems write_simps \<open>devices with cached writes\<close>

lemma add_writes_simps [simp, write_simps]:
  "add_writes d [] = d"
  "add_writes (add_writes d xs) ys = add_writes d (xs @ ys)"
  "durable (add_writes d ws) = durable d"
  "pending (add_writes d ws) = pending d @ ws"
  "bad_read (add_writes d ws) = bad_read d"
  "bad_write (add_writes d ws) = bad_write d"
  "syncs_left (add_writes d ws) = syncs_left d"
  "visible (add_writes d ws) = apply_writes ws (visible d)"
  by (simp_all add: add_writes_def visible_def)

lemma sized_writes_simps [simp]:
  "sized_writes []" "sized_writes ((b, bs) # ws) \<longleftrightarrow> length bs = BLOCK_SIZE \<and> sized_writes ws"
  "sized_writes (xs @ ys) \<longleftrightarrow> sized_writes xs \<and> sized_writes ys"
  by (auto simp: sized_writes_def)

lemma sized_add_writes:
  assumes "sized d" "sized_writes ws"
  shows "sized (add_writes d ws)"
  unfolding sized_def
proof
  fix b
  show "length (visible (add_writes d ws) b) = BLOCK_SIZE"
  proof (cases "b \<in> fst ` set ws")
    case True
    then show ?thesis
      using apply_writes_in[of b ws "visible d"] assms(2) by (auto simp: sized_writes_def)
  next
    case False
    then show ?thesis using assms(1) by (simp add: apply_writes_other sized_def)
  qed
qed

lemma splice_whole: "length xs = length ys \<Longrightarrow> splice 0 xs ys = xs"
  by (simp add: splice_def)

lemma write_block_whole:
  assumes "sized d" "length bs = BLOCK_SIZE"
  shows "write_block d b bs = (if bad_write d b then (Err EIO, d) else (Ok (), add_writes d [(b, bs)]))"
  using assms by (simp add: write_block_def sized_def splice_whole add_writes_def)

lemma write_final_blocks_ok:
  "sized d \<Longrightarrow> sized_writes ws \<Longrightarrow> write_final_blocks d ws = (Ok (), d') \<Longrightarrow> d' = add_writes d ws"
proof (induction d ws arbitrary: d' rule: write_final_blocks.induct)
  case (2 d b bs ws)
  from "2.prems" have ok: "\<not> bad_write d b" "write_final_blocks (add_writes d [(b, bs)]) ws = (Ok (), d')"
    by (auto simp: write_block_whole split: if_splits)
  have "d' = add_writes (add_writes d [(b, bs)]) ws"
    by (rule "2.IH") (use "2.prems" ok sized_add_writes[of d "[(b, bs)]"] in \<open>simp_all add: write_block_whole\<close>)
  then show ?case by simp
qed simp

section \<open>The log as a sequence\<close>

fun log_holds :: "JournalGeometry \<Rightarrow> device \<Rightarrow> nat \<Rightarrow> bytes list \<Rightarrow> bool" where
  "log_holds g d pos [] \<longleftrightarrow> True"
| "log_holds g d pos (b # bs) \<longleftrightarrow> read_log_block g d pos = Ok b \<and> log_holds g d (next_log_block g pos) bs"

fun log_writes :: "JournalGeometry \<Rightarrow> nat \<Rightarrow> bytes list \<Rightarrow> (u64 \<times> bytes) list" where
  "log_writes g pos [] = []"
| "log_writes g pos (b # bs) = (block_map g ! pos, b) # log_writes g (next_log_block g pos) bs"

lemma advance_0 [simp]: "advance g pos 0 = pos"
  by (simp add: advance_def)

lemma advance_Suc: "advance g pos (Suc n) = advance g (next_log_block g pos) n"
  by (simp only: advance_def funpow_Suc_right comp_apply)

lemma advance_add: "advance g pos (m + n) = advance g (advance g pos m) n"
  by (simp add: advance_def funpow_add add.commute[of m])

lemma advance_next: "next_log_block g (advance g pos n) = advance g pos (Suc n)"
  by (simp add: advance_def)

lemma log_holds_append:
  "log_holds g d pos (xs @ ys) \<longleftrightarrow> log_holds g d pos xs \<and> log_holds g d (advance g pos (length xs)) ys"
  by (induction g d pos xs rule: log_holds.induct) (simp_all add: advance_Suc)

lemma log_writes_append:
  "log_writes g pos (xs @ ys) = log_writes g pos xs @ log_writes g (advance g pos (length xs)) ys"
  by (induction g pos xs rule: log_writes.induct) (simp_all add: advance_Suc)

lemma log_holds_nth:
  "log_holds g d pos bs \<longleftrightarrow> (\<forall>i<length bs. read_log_block g d (advance g pos i) = Ok (bs ! i))"
  by (induction g d pos bs rule: log_holds.induct) (auto simp: advance_Suc less_Suc_eq_0_disj)

lemma log_writes_eq:
  "log_writes g pos bs = map (\<lambda>i. (block_map g ! advance g pos i, bs ! i)) [0..<length bs]"
  by (rule sym, induction g pos bs rule: log_writes.induct)
     (simp_all add: advance_Suc map_upt_Suc del: upt_Suc)

lemma sized_log_writes: "\<forall>b\<in>set bs. length b = BLOCK_SIZE \<Longrightarrow> sized_writes (log_writes g pos bs)"
  by (induction g pos bs rule: log_writes.induct) simp_all

text \<open>The device blocks a stretch of the ring occupies.\<close>

definition log_area :: "JournalGeometry \<Rightarrow> nat \<Rightarrow> nat \<Rightarrow> u64 set" where
  "log_area g pos n = (\<lambda>i. block_map g ! advance g pos i) ` {..<n}"

lemma fst_log_writes: "fst ` set (log_writes g pos bs) = log_area g pos (length bs)"
  by (auto simp: log_writes_eq log_area_def image_image)

lemma read_log_block_ok:
  "read_log_block g d p = Ok b \<longleftrightarrow>
     p < length (block_map g) \<and> \<not> bad_read d (block_map g ! p) \<and> visible d (block_map g ! p) = b"
  by (auto simp: read_log_block_def log_block_to_physical_def read_block_def)

lemma log_holds_cong:
  assumes "bad_read d' = bad_read d" "\<And>b. b \<in> log_area g pos (length bs) \<Longrightarrow> visible d' b = visible d b"
  shows "log_holds g d' pos bs = log_holds g d pos bs"
proof -
  have "visible d' (block_map g ! advance g pos i) = visible d (block_map g ! advance g pos i)"
    if "i < length bs" for i
    using assms(2) that by (auto simp: log_area_def)
  then show ?thesis by (simp add: log_holds_nth read_log_block_ok assms(1))
qed

lemma log_area_subset:
  assumes "geometry_ok g" "in_ring g pos"
  shows "log_area g pos n \<subseteq> set (block_map g)"
proof -
  have "advance g pos i < length (block_map g)" for i
    using advance_in_ring[OF assms, of i] assms(1) by (auto simp: in_ring_def geometry_ok_def)
  then show ?thesis by (auto simp: log_area_def)
qed

text \<open>Within one turn of the ring, distinct offsets are distinct device blocks.\<close>

lemma log_area_inj:
  assumes "geometry_ok g" "distinct (block_map g)" "in_ring g pos" "i < ring_size g" "j < ring_size g"
    and "block_map g ! advance g pos i = block_map g ! advance g pos j"
  shows "i = j"
proof -
  have "advance g pos i < length (block_map g)" "advance g pos j < length (block_map g)"
    using advance_in_ring[OF assms(1,3)] assms(1) by (auto simp: in_ring_def geometry_ok_def intro: less_le_trans)
  then have "advance g pos i = advance g pos j"
    using assms(2,6) by (simp add: nth_eq_iff_index_eq)
  then show ?thesis
    using ring_at_inj[OF assms(4,5)] advance_eq_ring_at[OF assms(1,3)] by simp
qed

lemma log_area_disjoint:
  assumes "geometry_ok g" "distinct (block_map g)" "in_ring g pos" "m + n \<le> ring_size g"
  shows "log_area g pos m \<inter> log_area g (advance g pos m) n = {}"
proof -
  have False if "i < m" "j < n" "block_map g ! advance g pos i = block_map g ! advance g (advance g pos m) j" for i j
    using log_area_inj[OF assms(1-3), of i "m + j"] that assms(4) by (simp add: advance_add)
  then show ?thesis by (auto simp: log_area_def)
qed

text \<open>Writing a stretch no longer than the ring makes the log hold it.\<close>

lemma log_holds_written:
  assumes "geometry_ok g" "distinct (block_map g)" "in_ring g pos" "length bs \<le> ring_size g"
    and "\<forall>b. \<not> bad_read d b"
  shows "log_holds g (add_writes d (log_writes g pos bs)) pos bs"
proof -
  have "apply_writes (log_writes g pos bs) m (block_map g ! advance g pos i) = bs ! i"
    if i: "i < length bs" for i m
  proof -
    let ?ws = "log_writes g pos bs"
    have "block_map g ! advance g pos i \<in> fst ` set ?ws"
      using i by (auto simp: fst_log_writes log_area_def)
    then have "(block_map g ! advance g pos i, apply_writes ?ws m (block_map g ! advance g pos i)) \<in> set ?ws"
      by (rule apply_writes_in)
    then obtain k where k: "k < length bs" "block_map g ! advance g pos i = block_map g ! advance g pos k"
      "apply_writes ?ws m (block_map g ! advance g pos i) = bs ! k"
      by (auto simp: log_writes_eq)
    then have "i = k" using log_area_inj[OF assms(1-3), of i k] i assms(4) by simp
    then show ?thesis using k by simp
  qed
  moreover have "advance g pos i < length (block_map g)" for i
    using advance_in_ring[OF assms(1,3), of i] assms(1) by (auto simp: in_ring_def geometry_ok_def)
  ultimately show ?thesis using assms(5) by (simp add: log_holds_nth read_log_block_ok)
qed

section \<open>The writers\<close>

lemma write_log_block_whole:
  assumes "geometry_ok g" "in_ring g pos" "sized d" "length b = BLOCK_SIZE"
  shows "write_log_block g d pos b =
    (if bad_write d (block_map g ! pos) then (Err EIO, d) else (Ok (), add_writes d [(block_map g ! pos, b)]))"
  using assms by (simp add: write_log_block_def log_block_to_physical_def write_block_whole
      in_ring_def geometry_ok_def)

lemma write_log_blocks_ok:
  "geometry_ok g \<Longrightarrow> in_ring g pos \<Longrightarrow> sized d \<Longrightarrow> \<forall>b\<in>set bs. length b = BLOCK_SIZE \<Longrightarrow>
   write_log_blocks g d pos bs = (Ok log, d') \<Longrightarrow>
   log = advance g pos (length bs) \<and> d' = add_writes d (log_writes g pos bs)"
proof (induction g d pos bs arbitrary: log d' rule: write_log_blocks.induct)
  case (2 g d pos b bs)
  let ?d1 = "add_writes d [(block_map g ! pos, b)]"
  from "2.prems" have ok: "write_log_block g d pos b = (Ok (), ?d1)"
    "write_log_blocks g ?d1 (next_log_block g pos) bs = (Ok log, d')"
    by (auto simp: write_log_block_whole split: if_splits)
  have "log = advance g (next_log_block g pos) (length bs) \<and> d' = add_writes ?d1 (log_writes g (next_log_block g pos) bs)"
    by (rule "2.IH"[OF ok(1)]) (use "2.prems" ok in \<open>simp_all add: next_log_block_in_ring sized_add_writes\<close>)
  then show ?case by (simp add: advance_Suc)
qed simp

lemma write_log_blocks_append:
  "write_log_blocks g d pos (xs @ ys) =
     dev_bind (write_log_blocks g d pos xs) (\<lambda>log d'. write_log_blocks g d' log ys)"
  by (induction g d pos xs rule: write_log_blocks.induct)
     (auto simp: dev_bind_def split: prod.splits sum.splits)

lemma write_run_eq: "write_run g d pos r = write_log_blocks g d pos (run_log_blocks r)"
  by (simp add: write_run_def run_log_blocks_def)

lemma write_chain_eq: "write_chain g d pos runs = write_log_blocks g d pos (concat (map run_log_blocks runs))"
  by (induction g d pos runs rule: write_chain.induct)
     (auto simp: write_log_blocks_append write_run_eq intro: dev_bind_cong)

end
