(* ===== verification/Journal_Checkpoint.thy ===== *)
theory Journal_Checkpoint
  imports Journal_Commit
begin

text \<open>
  The checkpoint path of \<open>journal/checkpoint.rs\<close>: applying one logged transaction to its final
  locations under the revoke table, the defer-prefix test for unpublished revokes, and the
  tail advance.  The loops keep the code's own anti-cycle bound (\<open>consumed\<close> against
  \<open>s_maxlen\<close>), which is also why they terminate; the tail loop terminates because the
  wrapping distance to the committed id decreases.
\<close>

section \<open>Applying a logged transaction\<close>

text \<open>The tag loop: the cursor \<open>log\<close> steps one block per tag, a suppressed block is not read, a
  block with a bad checksum is skipped and recorded.\<close>

fun apply_tags ::
    "JournalGeometry \<Rightarrow> tid \<Rightarrow> RevokeTable \<Rightarrow> device \<Rightarrow> DescriptorTag result list \<Rightarrow> nat \<Rightarrow> nat \<Rightarrow> bool \<Rightarrow>
     (nat \<times> nat \<times> bool) result \<times> device" where
  "apply_tags g t revoked d [] log consumed bad = (Ok (log, consumed, bad), d)"
| "apply_tags g t revoked d (Inl e # items) log consumed bad = (Inl e, d)"
| "apply_tags g t revoked d (Inr tag # items) log consumed bad =
     (let log' = next_log_block g log; consumed' = consumed + 1 in
      if suppresses revoked (dt_blocknr tag) t
      then apply_tags g t revoked d items log' consumed' bad
      else case read_log_block g d log' of
             Inl e \<Rightarrow> (Inl e, d)
           | Inr block \<Rightarrow>
               if (case csum_seed g of None \<Rightarrow> False | Some s \<Rightarrow> \<not> verify_data_csum tag s t block)
               then apply_tags g t revoked d items log' consumed' True
               else
                 let block' = (if is_escaped tag then splice 0 (be32 JBD2_MAGIC) block else block) in
                 dev_bind (write_block d (dt_blocknr tag) block') (\<lambda>_ d'.
                   apply_tags g t revoked d' items log' consumed' bad))"

lemma apply_tags_consumed:
  "apply_tags g t revoked d items log consumed bad = (Ok (log', consumed', bad'), d') \<Longrightarrow> consumed \<le> consumed'"
  by (induction g t revoked d items log consumed bad arbitrary: log' consumed' bad' d' rule: apply_tags.induct)
     (fastforce simp: Let_def dev_bind_eq_Ok split: if_splits sum.splits)+

function apply_loop ::
    "JournalGeometry \<Rightarrow> tid \<Rightarrow> RevokeTable \<Rightarrow> device \<Rightarrow> nat \<Rightarrow> nat \<Rightarrow> bool \<Rightarrow> nat result \<times> device" where
  "apply_loop g t revoked d log consumed bad =
     (case read_log_block g d log of
        Inl e \<Rightarrow> (Inl e, d)
      | Inr chain_block \<Rightarrow>
          let header = RawJournalHeader_parse chain_block in
          if h_magic header \<noteq> JBD2_MAGIC then (Err EUCLEAN, d)
          else if h_sequence header \<noteq> t then (Err EUCLEAN, d)
          else if h_blocktype header = BLOCKTYPE_COMMIT then
            (if bad then (Err EUCLEAN, d) else (Ok (next_log_block g log), d))
          else if h_blocktype header = BLOCKTYPE_REVOKE then
            (if consumed + 1 > maxlen g then (Err EUCLEAN, d)
             else apply_loop g t revoked d (next_log_block g log) (consumed + 1) bad)
          else if h_blocktype header \<noteq> BLOCKTYPE_DESCRIPTOR then (Err EUCLEAN, d)
          else if (case csum_seed g of None \<Rightarrow> False | Some s \<Rightarrow> \<not> verify_block_tail s chain_block)
          then (Err EUCLEAN, d)
          else case apply_tags g t revoked d (walk_tags (tag_layout g) chain_block) log consumed bad of
                 (Inl e, d') \<Rightarrow> (Inl e, d')
               | (Inr (log', consumed', bad'), d') \<Rightarrow>
                   if consumed' + 1 > maxlen g then (Err EUCLEAN, d')
                   else apply_loop g t revoked d' (next_log_block g log') (consumed' + 1) bad')"
  by pat_completeness auto
termination
  by (relation "measure (\<lambda>(g, _, _, _, _, consumed, _). Suc (maxlen g) - consumed)")
     (auto dest!: sym[of _ "apply_tags _ _ _ _ _ _ _ _"] apply_tags_consumed)

declare apply_loop.simps [simp del]

definition apply_log_transaction ::
    "JournalGeometry \<Rightarrow> device \<Rightarrow> nat \<Rightarrow> tid \<Rightarrow> RevokeTable \<Rightarrow> nat result \<times> device" where
  "apply_log_transaction g d start_log expected_tid revoked =
     apply_loop g expected_tid revoked d start_log 0 False"

section \<open>The defer-prefix test\<close>

text \<open>\<open>Ok None\<close> says a tag names an unpublished block; otherwise the stepped cursor.\<close>

fun cover_tags ::
    "JournalGeometry \<Rightarrow> Ext4Bid list \<Rightarrow> DescriptorTag result list \<Rightarrow> nat \<Rightarrow> nat \<Rightarrow> (nat \<times> nat) option result" where
  "cover_tags g unpublished [] log consumed = Ok (Some (log, consumed))"
| "cover_tags g unpublished (Inl e # items) log consumed = Inl e"
| "cover_tags g unpublished (Inr tag # items) log consumed =
     (if dt_blocknr tag \<in> set unpublished then Ok None
      else cover_tags g unpublished items (next_log_block g log) (consumed + 1))"

lemma cover_tags_consumed:
  "cover_tags g unpublished items log consumed = Ok (Some (log', consumed')) \<Longrightarrow> consumed \<le> consumed'"
  by (induction g unpublished items log consumed rule: cover_tags.induct) (auto split: if_splits)

function cover_loop ::
    "JournalGeometry \<Rightarrow> device \<Rightarrow> tid \<Rightarrow> Ext4Bid list \<Rightarrow> nat \<Rightarrow> nat \<Rightarrow> bool result" where
  "cover_loop g d t unpublished log consumed =
     (case read_log_block g d log of
        Inl e \<Rightarrow> Inl e
      | Inr chain_block \<Rightarrow>
          let header = RawJournalHeader_parse chain_block in
          if h_magic header \<noteq> JBD2_MAGIC then Err EUCLEAN
          else if h_sequence header \<noteq> t then Err EUCLEAN
          else if h_blocktype header = BLOCKTYPE_COMMIT then Ok False
          else if h_blocktype header = BLOCKTYPE_REVOKE then
            (if consumed + 1 > maxlen g then Err EUCLEAN
             else cover_loop g d t unpublished (next_log_block g log) (consumed + 1))
          else if h_blocktype header \<noteq> BLOCKTYPE_DESCRIPTOR then Err EUCLEAN
          else case cover_tags g unpublished (walk_tags (tag_layout g) chain_block) log consumed of
                 Inl e \<Rightarrow> Inl e
               | Inr None \<Rightarrow> Ok True
               | Inr (Some (log', consumed')) \<Rightarrow>
                   if consumed' + 1 > maxlen g then Err EUCLEAN
                   else cover_loop g d t unpublished (next_log_block g log') (consumed' + 1))"
  by pat_completeness auto
termination
  by (relation "measure (\<lambda>(g, _, _, _, _, consumed). Suc (maxlen g) - consumed)")
     (auto dest!: sym[of _ "cover_tags _ _ _ _ _"] cover_tags_consumed)

declare cover_loop.simps [simp del]

definition chain_covers_unpublished ::
    "JournalGeometry \<Rightarrow> device \<Rightarrow> nat \<Rightarrow> tid \<Rightarrow> Ext4Bid list \<Rightarrow> bool result" where
  "chain_covers_unpublished g d start_log expected_tid unpublished =
     cover_loop g d expected_tid unpublished start_log 0"

section \<open>Advancing the tail\<close>

text \<open>The unpublished revokes of the three seats, under one state-lock hold.\<close>

definition unpublished_revokes :: "JournalState \<Rightarrow> Ext4Bid list" where
  "unpublished_revokes st =
     (let u1 = (case running st of Some txn \<Rightarrow> collect_unpublished_revokes txn [] | None \<Rightarrow> []);
          u2 = (case locking st of Some txn \<Rightarrow> collect_unpublished_revokes txn u1 | None \<Rightarrow> u1)
      in case committing st of
           Some c \<Rightarrow> CommittingTxn_collect_unpublished_revokes c u2
         | None \<Rightarrow> u2)"

lemma tid_distance_next:
  assumes "tid_geq c t" "tid_geq c (tid_next t)"
  shows "unat (c - tid_next t) < unat (c - t)"
proof -
  have "c - t \<noteq> 0"
  proof
    assume "c - t = 0"
    then have "c - tid_next t = - 1" by (simp add: tid_next_def)
    then show False using assms(2) by (simp add: tid_geq_def)
  qed
  moreover have "c - tid_next t = (c - t) - 1" by (simp add: tid_next_def)
  ultimately show ?thesis by (metis word_less_nat_alt measure_unat)
qed

function checkpoint_loop ::
    "JournalGeometry \<Rightarrow> RevokeTable \<Rightarrow> Ext4Bid list \<Rightarrow> nat option \<Rightarrow> nat \<Rightarrow> tid \<Rightarrow> device \<Rightarrow> nat \<Rightarrow> tid \<Rightarrow> bool \<Rightarrow>
     (nat \<times> tid \<times> bool \<times> bool) result \<times> device" where
  "checkpoint_loop g revoked unpublished target head0 committed d log t applied_any =
     (if \<not> tid_geq committed t then (Ok (log, t, applied_any, False), d)
      else case (if unpublished = [] then Ok False else chain_covers_unpublished g d log t unpublished) of
             Inl e \<Rightarrow> (Inl e, d)
           | Inr True \<Rightarrow> (Ok (log, t, applied_any, True), d)
           | Inr False \<Rightarrow>
               (case apply_log_transaction g d log t revoked of
                  (Inl e, d') \<Rightarrow> (Inl e, d')
                | (Inr log', d') \<Rightarrow>
                    let t' = tid_next t in
                    if (case target of
                          None \<Rightarrow> False
                        | Some want_free \<Rightarrow>
                            tid_geq committed t' \<and> free_log_blocks g head0 (Some log') \<ge> want_free)
                    then (Ok (log', t', True, True), d')
                    else checkpoint_loop g revoked unpublished target head0 committed d' log' t' True))"
  by pat_completeness auto
termination
proof (relation "measure (\<lambda>(_, _, _, _, _, c, _, _, t, _). if tid_geq c t then Suc (unat (c - t)) else 0)",
    goal_cases)
  case (2 g revoked unpublished target head0 committed d log t applied_any x y z aa)
  then show ?case using tid_distance_next[of committed t] by auto
qed simp

declare checkpoint_loop.simps [simp del]

text \<open>The publication of a finished pass: new tail, evicted images and retired revokes in one
  state-lock window.\<close>

definition publish_checkpoint :: "JournalState \<Rightarrow> nat \<Rightarrow> tid \<Rightarrow> bool \<Rightarrow> JournalState" where
  "publish_checkpoint st log t stopped_early =
     (let applied_through = tid_prev t in
      st\<lparr> tail_block := (if stopped_early then Some log else None), tail_tid := t,
          uncheckpointed := bt_retain (\<lambda>_ image. \<not> is_checkpointed_by image applied_through) (uncheckpointed st),
          j_revoked := retire_through (j_revoked st) applied_through \<rparr>)"

definition mark_log_clean :: "JournalGeometry \<Rightarrow> device \<Rightarrow> tid \<Rightarrow> nat \<Rightarrow> unit result \<times> device" where
  "mark_log_clean g d seq head0 =
     (case read_raw_superblock g d of
        Inl e \<Rightarrow> (Inl e, d)
      | Inr raw \<Rightarrow>
          write_superblock g d (raw\<lparr> s_start := 0, s_sequence := seq, s_head := word_of_nat head0 \<rparr>))"

definition checkpoint_advance ::
    "Journal \<Rightarrow> device \<Rightarrow> nat option \<Rightarrow> bool result \<times> Journal \<times> device" where
  "checkpoint_advance j d target_free =
     (let g = geometry j; st = jstate j in
      case tail_block st of
        None \<Rightarrow> (Ok False, j, d)
      | Some tail \<Rightarrow>
          if (case target_free of
                None \<Rightarrow> False
              | Some want_free \<Rightarrow> free_log_blocks g (head st) (Some tail) \<ge> want_free)
          then (Ok False, j, d)
          else
            (case checkpoint_loop g (j_revoked st) (unpublished_revokes st) target_free (head st)
                    (committed_tid j) d tail (tail_tid st) False of
               (Inl e, d1) \<Rightarrow> (Inl e, j, d1)
             | (Inr (log, t, applied_any, stopped_early), d1) \<Rightarrow>
                 if \<not> applied_any then (Ok False, j, d1)
                 else
                   jd_bind (with_device j (barrier d1)) (\<lambda>_ j d2.
                   jd_bind (with_device j
                       (if stopped_early then update_superblock_tail g d2 log t
                        else mark_log_clean g d2 (tid_next (committed_tid j)) (head st))) (\<lambda>_ j d3.
                   (Ok True, j\<lparr> jstate := publish_checkpoint (jstate j) log t stopped_early \<rparr>, d3)))))"

definition checkpoint :: "Journal \<Rightarrow> device \<Rightarrow> unit result \<times> Journal \<times> device" where
  "checkpoint j d = jd_bind (checkpoint_advance j d None) (\<lambda>_ j d. (Ok (), j, d))"

definition run_lazy_checkpoint :: "Journal \<Rightarrow> device \<Rightarrow> bool result \<times> Journal \<times> device" where
  "run_lazy_checkpoint j0 d =
     (let demanded = space_pressure j0; j = j0\<lparr> space_pressure := False \<rparr>; g = geometry j; st = jstate j in
      if tail_block st = None then (Ok False, j, d)
      else if \<not> demanded \<and> \<not> free_log_blocks g (head st) (tail_block st) < checkpoint_low_water g
      then (Ok False, j, d)
      else
        jd_bind (checkpoint_advance j d (if demanded then None else Some (checkpoint_low_water g)))
          (\<lambda>advanced j d. (Ok advanced, if advanced then note_credits_released j else j, d)))"

end
