(* ===== verification/Journal_Recovery.thy ===== *)
theory Journal_Recovery
  imports Journal_Checkpoint
begin

text \<open>
  Mount-time recovery of \<open>journal/recovery.rs\<close>: the scan for committed transactions, the
  revoke pass, the replay and the rewrite of the journal superblock.  The scan of one
  transaction and the revoke collection terminate by the code's own anti-cycle bound; the
  loop over transactions runs with fuel, which \<open>scan_committed_total\<close> shows is enough.
\<close>

section \<open>PASS_SCAN\<close>

text \<open>One cursor step per tag; the first malformed tag ends the walk with its error.\<close>

fun step_tags :: "JournalGeometry \<Rightarrow> DescriptorTag result list \<Rightarrow> nat \<Rightarrow> nat \<Rightarrow> (nat \<times> nat) result" where
  "step_tags g [] log consumed = Ok (log, consumed)"
| "step_tags g (Inl e # items) log consumed = Inl e"
| "step_tags g (Inr tag # items) log consumed = step_tags g items (next_log_block g log) (consumed + 1)"

lemma step_tags_consumed: "step_tags g items log consumed = Ok (log', consumed') \<Longrightarrow> consumed \<le> consumed'"
  by (induction g items log consumed rule: step_tags.induct) auto

function scan_loop :: "JournalGeometry \<Rightarrow> device \<Rightarrow> tid \<Rightarrow> nat \<Rightarrow> nat \<Rightarrow> bool \<Rightarrow> nat option result" where
  "scan_loop g d t log consumed tails_ok =
     (case read_log_block g d log of
        Inl e \<Rightarrow> Inl e
      | Inr block \<Rightarrow>
          let header = RawJournalHeader_parse block; blocktype = h_blocktype header;
              block_ok = (case csum_seed g of None \<Rightarrow> True | Some s \<Rightarrow> verify_block_tail s block) in
          if h_magic header \<noteq> JBD2_MAGIC then Ok None
          else if h_sequence header \<noteq> t then Ok None
          else if blocktype = BLOCKTYPE_REVOKE then
            (if consumed + 1 > maxlen g then Err EUCLEAN
             else scan_loop g d t (next_log_block g log) (consumed + 1) (tails_ok \<and> block_ok))
          else if blocktype \<noteq> BLOCKTYPE_DESCRIPTOR \<and> blocktype \<noteq> BLOCKTYPE_COMMIT then Ok None
          else if blocktype = BLOCKTYPE_COMMIT then
            (if \<not> tails_ok then Err EUCLEAN
             else if (case csum_seed g of None \<Rightarrow> False | Some s \<Rightarrow> \<not> verify_commit_block s block)
             then Err EUCLEAN
             else Ok (Some (next_log_block g log)))
          else case step_tags g (walk_tags (tag_layout g) block) log consumed of
                 Inl e \<Rightarrow> Ok None
               | Inr (log', consumed') \<Rightarrow>
                   if consumed' + 1 > maxlen g then Err EUCLEAN
                   else scan_loop g d t (next_log_block g log') (consumed' + 1) (tails_ok \<and> block_ok))"
  by pat_completeness auto
termination
  by (relation "measure (\<lambda>(g, _, _, _, consumed, _). Suc (maxlen g) - consumed)")
     (auto dest!: sym[of _ "step_tags _ _ _ _"] step_tags_consumed)

declare scan_loop.simps [simp del]

definition scan_transaction :: "JournalGeometry \<Rightarrow> device \<Rightarrow> nat \<Rightarrow> tid \<Rightarrow> nat option result" where
  "scan_transaction g d start_log expected_tid = scan_loop g d expected_tid start_log 0 True"

text \<open>The \<open>while let\<close> over transactions: log position, next expected id and count at the boundary.\<close>

fun scan_committed ::
    "nat \<Rightarrow> JournalGeometry \<Rightarrow> device \<Rightarrow> nat \<Rightarrow> tid \<Rightarrow> nat \<Rightarrow> (nat \<times> tid \<times> nat) result option" where
  "scan_committed 0 g d log t count = None"
| "scan_committed (Suc fuel) g d log t count =
     (case scan_transaction g d log t of
        Inl e \<Rightarrow> Some (Inl e)
      | Inr None \<Rightarrow> Some (Ok (log, t, count))
      | Inr (Some nxt) \<Rightarrow> scan_committed fuel g d nxt (tid_next t) (count + 1))"

section \<open>PASS_REVOKE\<close>

function revoke_loop ::
    "JournalGeometry \<Rightarrow> device \<Rightarrow> tid \<Rightarrow> nat \<Rightarrow> nat \<Rightarrow> RevokeTable \<Rightarrow> (nat \<times> RevokeTable) result" where
  "revoke_loop g d t log consumed table =
     (case read_log_block g d log of
        Inl e \<Rightarrow> Inl e
      | Inr block \<Rightarrow>
          let header = RawJournalHeader_parse block in
          if h_magic header \<noteq> JBD2_MAGIC then Err EUCLEAN
          else if h_sequence header \<noteq> t then Err EUCLEAN
          else if h_blocktype header = BLOCKTYPE_COMMIT then Ok (next_log_block g log, table)
          else if h_blocktype header = BLOCKTYPE_REVOKE then
            (case walk_revoke (tag_layout g) block of
               Inl e \<Rightarrow> Inl e
             | Inr k \<Rightarrow>
                 let table' = foldl (\<lambda>tb b. record_revoke tb b t) table (revoke_entries k) in
                 if consumed + 1 > maxlen g then Err EUCLEAN
                 else revoke_loop g d t (next_log_block g log) (consumed + 1) table')
          else if h_blocktype header = BLOCKTYPE_DESCRIPTOR then
            (case step_tags g (walk_tags (tag_layout g) block) log consumed of
               Inl e \<Rightarrow> Inl e
             | Inr (log', consumed') \<Rightarrow>
                 if consumed' + 1 > maxlen g then Err EUCLEAN
                 else revoke_loop g d t (next_log_block g log') (consumed' + 1) table)
          else Err EUCLEAN)"
  by pat_completeness auto
termination
  by (relation "measure (\<lambda>(g, _, _, _, consumed, _). Suc (maxlen g) - consumed)")
     (auto dest!: sym[of _ "step_tags _ _ _ _"] step_tags_consumed)

declare revoke_loop.simps [simp del]

definition collect_transaction_revokes ::
    "JournalGeometry \<Rightarrow> device \<Rightarrow> nat \<Rightarrow> tid \<Rightarrow> RevokeTable \<Rightarrow> (nat \<times> RevokeTable) result" where
  "collect_transaction_revokes g d start_log expected_tid table =
     revoke_loop g d expected_tid start_log 0 table"

fun collect_revokes :: "nat \<Rightarrow> JournalGeometry \<Rightarrow> device \<Rightarrow> nat \<Rightarrow> tid \<Rightarrow> RevokeTable \<Rightarrow> RevokeTable result" where
  "collect_revokes 0 g d log t table = Ok table"
| "collect_revokes (Suc n) g d log t table =
     and_then (collect_transaction_revokes g d log t table) (\<lambda>(log', table').
       collect_revokes n g d log' (tid_next t) table')"

section \<open>PASS_REPLAY\<close>

fun replay_transactions ::
    "nat \<Rightarrow> JournalGeometry \<Rightarrow> device \<Rightarrow> nat \<Rightarrow> tid \<Rightarrow> RevokeTable \<Rightarrow> unit result \<times> device" where
  "replay_transactions 0 g d log t revoked = (Ok (), d)"
| "replay_transactions (Suc n) g d log t revoked =
     dev_bind (apply_log_transaction g d log t revoked) (\<lambda>log' d'.
       replay_transactions n g d' log' (tid_next t) revoked)"

definition publish_recovery :: "Journal \<Rightarrow> tid \<Rightarrow> Journal" where
  "publish_recovery j end_tid =
     j\<lparr> jstate := (jstate j)\<lparr> head := first (geometry j), tail_block := None, tail_tid := end_tid,
                              next_tid := end_tid \<rparr>,
        committed_tid := tid_prev end_tid \<rparr>"

definition recovery_fuel :: "JournalGeometry \<Rightarrow> nat" where
  "recovery_fuel g = length (block_map g) + 2"

definition recover :: "Journal \<Rightarrow> device \<Rightarrow> (unit result \<times> Journal \<times> device) option" where
  "recover j d =
     (let g = geometry j in
      case read_raw_superblock g d of
        Inl e \<Rightarrow> Some (Inl e, j, d)
      | Inr raw \<Rightarrow>
          (case recovery_start raw of
             None \<Rightarrow> Some (Ok (), j, d)
           | Some start \<Rightarrow>
               (case scan_committed (recovery_fuel g) g d (unat start) (s_sequence raw) 0 of
                  None \<Rightarrow> None
                | Some (Inl e) \<Rightarrow> Some (Inl e, j, d)
                | Some (Inr (_, end_tid, count)) \<Rightarrow>
                    (case collect_revokes count g d (unat start) (s_sequence raw) RevokeTable_new of
                       Inl e \<Rightarrow> Some (Inl e, j, d)
                     | Inr revoked \<Rightarrow>
                         Some
                           (jd_bind (with_device j
                              (replay_transactions count g d (unat start) (s_sequence raw) revoked)) (\<lambda>_ j d.
                            jd_bind (with_device j (barrier d)) (\<lambda>_ j d.
                            jd_bind (with_device j
                              (write_superblock g d
                                 (raw\<lparr> s_start := 0, s_sequence := end_tid,
                                       s_head := word_of_nat (first g) \<rparr>))) (\<lambda>_ j d.
                            (Ok (), publish_recovery j end_tid, d)))))))))"

section \<open>The scan over transactions terminates\<close>

text \<open>A transaction that scans as committed has a commit block of its id in the log.\<close>

lemma scan_loop_commit:
  "scan_loop g d t log consumed ok = Ok (Some nxt) \<Longrightarrow>
   \<exists>p b. p < length (block_map g) \<and> read_log_block g d p = Ok b \<and> h_sequence (RawJournalHeader_parse b) = t"
proof (induction g d t log consumed ok rule: scan_loop.induct)
  case (1 g d t log consumed ok)
  obtain b where b: "read_log_block g d log = Ok b"
    using "1.prems" by (subst (asm) scan_loop.simps) (auto split: sum.splits)
  then have p: "log < length (block_map g)"
    by (auto simp: read_log_block_def log_block_to_physical_def split: if_splits)
  show ?case
  proof (cases "h_sequence (RawJournalHeader_parse b) = t")
    case True
    then show ?thesis using b p by blast
  next
    case False
    then show ?thesis using "1.prems" b by (subst (asm) scan_loop.simps) (auto simp: Let_def split: if_splits)
  qed
qed

definition logged_tids :: "JournalGeometry \<Rightarrow> device \<Rightarrow> tid set" where
  "logged_tids g d = (\<lambda>p. h_sequence (RawJournalHeader_parse (visible d (block_map g ! p)))) ` {..<length (block_map g)}"

lemma scan_transaction_logged:
  assumes "scan_transaction g d log t = Ok (Some nxt)"
  shows "t \<in> logged_tids g d"
proof -
  from assms obtain p b where "p < length (block_map g)" "read_log_block g d p = Ok b"
    "h_sequence (RawJournalHeader_parse b) = t"
    using scan_loop_commit unfolding scan_transaction_def by blast
  then show ?thesis
    by (auto simp: logged_tids_def read_log_block_def log_block_to_physical_def read_block_def
        split: if_splits intro!: image_eqI[of _ _ p])
qed

lemma scan_committed_runs:
  "scan_committed n g d log t count = None \<Longrightarrow> k < n \<Longrightarrow> t + word_of_nat k \<in> logged_tids g d"
proof (induction n arbitrary: log t count k)
  case (Suc n)
  then obtain nxt where nxt: "scan_transaction g d log t = Ok (Some nxt)"
    "scan_committed n g d nxt (tid_next t) (count + 1) = None"
    by (auto split: sum.splits option.splits)
  show ?case
  proof (cases k)
    case 0
    then show ?thesis using scan_transaction_logged[OF nxt(1)] by simp
  next
    case (Suc k')
    then have "tid_next t + word_of_nat k' \<in> logged_tids g d" using Suc.IH[OF nxt(2)] Suc.prems(2) by simp
    then show ?thesis using Suc by (simp add: tid_next_def add.assoc)
  qed
qed simp

lemma scan_committed_total:
  assumes "length (block_map g) < 2 ^ 32"
  shows "scan_committed (recovery_fuel g) g d log t count \<noteq> None"
proof
  let ?n = "Suc (length (block_map g))"
  assume none: "scan_committed (recovery_fuel g) g d log t count = None"
  have "inj_on (\<lambda>k. t + word_of_nat k) {..<?n}"
  proof (rule inj_onI)
    fix x y assume "x \<in> {..<?n}" "y \<in> {..<?n}" and eq: "t + word_of_nat x = t + (word_of_nat y :: u32)"
    then have "x < 2 ^ 32" "y < 2 ^ 32" using assms by auto
    then show "x = y" using eq by (metis add_left_cancel unat_word_of_nat_u32)
  qed
  then have card: "card ((\<lambda>k. t + word_of_nat k) ` {..<?n}) = ?n" by (simp add: card_image)
  have sub: "(\<lambda>k. t + word_of_nat k) ` {..<?n} \<subseteq> logged_tids g d"
    using scan_committed_runs[OF none] by (auto simp: recovery_fuel_def)
  have le: "card (logged_tids g d) \<le> length (block_map g)"
    using card_image_le[of "{..<length (block_map g)}"] by (simp add: logged_tids_def)
  have "finite (logged_tids g d)" by (simp add: logged_tids_def)
  from card_mono[OF this sub] show False unfolding card using le by linarith
qed

lemma recover_total:
  assumes "length (block_map (geometry j)) < 2 ^ 32"
  shows "\<exists>r j' d'. recover j d = Some (r, j', d')"
proof -
  have "recover j d \<noteq> None"
    unfolding recover_def Let_def
    by (auto split: sum.split option.split prod.split simp: scan_committed_total[OF assms] simp del: not_None_eq)
  then show ?thesis by (cases "recover j d") auto
qed

end
