(* ===== verification/Log_Replay.thy ===== *)
theory Log_Replay
  imports Log_Content Journal_Recovery
begin

text \<open>
  The three recovery passes over a log that holds committed transactions: the scan finds
  exactly those transactions, the revoke pass collects exactly their revokes, and the replay
  writes exactly the images no transaction at or after them revoked.
\<close>

section \<open>One transaction\<close>

lemmas header_consts = BLOCKTYPE_DESCRIPTOR_def BLOCKTYPE_COMMIT_def BLOCKTYPE_REVOKE_def

lemma step_tags_ok:
  "step_tags g (map (\<lambda>(tag, _). Ok tag) tagged) log consumed =
     Ok (advance g log (length tagged), consumed + length tagged)"
  by (induction tagged arbitrary: log consumed) (auto simp: advance_Suc)

lemma scan_loop_commit_block:
  assumes "commit_ok (csum_seed g) t c" "read_log_block g d pos = Ok c"
  shows "scan_loop g d t pos consumed True = Ok (Some (next_log_block g pos))"
  using assms
  by (subst scan_loop.simps) (auto simp: commit_ok_def header_is_def Let_def header_consts split: option.splits)

lemma scan_loop_items:
  "list_all (item_ok (tag_layout g) (csum_seed g) t) items \<Longrightarrow> commit_ok (csum_seed g) t c \<Longrightarrow>
   log_holds g d pos (items_blocks items @ [c]) \<Longrightarrow> consumed + length (items_blocks items) \<le> maxlen g \<Longrightarrow>
   scan_loop g d t pos consumed True = Ok (Some (advance g pos (length (items_blocks items) + 1)))"
proof (induction items arbitrary: pos consumed)
  case Nil
  then show ?case by (simp add: scan_loop_commit_block advance_Suc)
next
  case (Cons item items)
  show ?case
  proof (cases item)
    case (RevokeItem b bs)
    then have "scan_loop g d t pos consumed True = scan_loop g d t (next_log_block g pos) (consumed + 1) True"
      using Cons.prems
      by (subst scan_loop.simps) (auto simp: header_is_def tail_ok_def Let_def header_consts split: option.splits)
    then show ?thesis using Cons RevokeItem by (simp add: advance_Suc)
  next
    case (DescriptorItem b tagged)
    let ?n = "length tagged"
    have "scan_loop g d t pos consumed True =
        scan_loop g d t (advance g pos (Suc ?n)) (consumed + Suc ?n) True"
      using Cons.prems DescriptorItem
      by (subst scan_loop.simps)
         (auto simp: header_is_def tail_ok_def Let_def header_consts step_tags_ok advance_next split: option.splits)
    also have "\<dots> = Ok (Some (advance g (advance g pos (Suc ?n)) (length (items_blocks items) + 1)))"
    proof (rule Cons.IH)
      show "log_holds g d (advance g pos (Suc ?n)) (items_blocks items @ [c])"
        using Cons.prems(3) DescriptorItem by (simp add: log_holds_append advance_Suc)
    qed (use Cons.prems DescriptorItem in simp_all)
    finally show ?thesis using DescriptorItem by (simp add: advance_add[symmetric] add_ac)
  qed
qed

lemma revoke_loop_items:
  "list_all (item_ok (tag_layout g) (csum_seed g) t) items \<Longrightarrow> commit_ok (csum_seed g) t c \<Longrightarrow>
   log_holds g d pos (items_blocks items @ [c]) \<Longrightarrow> consumed + length (items_blocks items) \<le> maxlen g \<Longrightarrow>
   revoke_loop g d t pos consumed table =
     Ok (advance g pos (length (items_blocks items) + 1),
         foldl (\<lambda>tb b. record_revoke tb b t) table (items_revokes items))"
proof (induction items arbitrary: pos consumed table)
  case Nil
  then show ?case
    by (subst revoke_loop.simps) (simp add: commit_ok_def header_is_def Let_def advance_Suc)
next
  case (Cons item items)
  show ?case
  proof (cases item)
    case (RevokeItem b bs)
    then have "revoke_loop g d t pos consumed table =
        revoke_loop g d t (next_log_block g pos) (consumed + 1) (foldl (\<lambda>tb b. record_revoke tb b t) table bs)"
      using Cons.prems by (subst revoke_loop.simps) (auto simp: header_is_def Let_def header_consts)
    then show ?thesis using Cons RevokeItem by (simp add: advance_Suc)
  next
    case (DescriptorItem b tagged)
    let ?n = "length tagged"
    have "revoke_loop g d t pos consumed table =
        revoke_loop g d t (advance g pos (Suc ?n)) (consumed + Suc ?n) table"
      using Cons.prems DescriptorItem
      by (subst revoke_loop.simps)
         (auto simp: header_is_def Let_def header_consts step_tags_ok advance_next)
    also have "\<dots> = Ok (advance g (advance g pos (Suc ?n)) (length (items_blocks items) + 1),
         foldl (\<lambda>tb b. record_revoke tb b t) table (items_revokes items))"
    proof (rule Cons.IH)
      show "log_holds g d (advance g pos (Suc ?n)) (items_blocks items @ [c])"
        using Cons.prems(3) DescriptorItem by (simp add: log_holds_append advance_Suc)
    qed (use Cons.prems DescriptorItem in simp_all)
    finally show ?thesis using DescriptorItem by (simp add: advance_add[symmetric] add_ac)
  qed
qed

section \<open>Applying\<close>

definition unsuppressed :: "RevokeTable \<Rightarrow> tid \<Rightarrow> (Ext4Bid \<times> bytes) list \<Rightarrow> (Ext4Bid \<times> bytes) list" where
  "unsuppressed revoked t ws = filter (\<lambda>(b, _). \<not> suppresses revoked b t) ws"

lemma unsuppressed_simps [simp]:
  "unsuppressed revoked t [] = []"
  "unsuppressed revoked t ((b, v) # ws) =
     (if suppresses revoked b t then unsuppressed revoked t ws else (b, v) # unsuppressed revoked t ws)"
  "unsuppressed revoked t (xs @ ys) = unsuppressed revoked t xs @ unsuppressed revoked t ys"
  by (simp_all add: unsuppressed_def)

text \<open>Final locations: whole-block writes of good blocks outside the log.\<close>

definition final_writes :: "JournalGeometry \<Rightarrow> device \<Rightarrow> (Ext4Bid \<times> bytes) list \<Rightarrow> bool" where
  "final_writes g d ws \<longleftrightarrow>
     sized_writes ws \<and> (\<forall>(b, _)\<in>set ws. b \<notin> set (block_map g) \<and> \<not> bad_write d b)"

lemma final_writes_simps [simp]:
  "final_writes g d []"
  "final_writes g d ((b, v) # ws) \<longleftrightarrow>
     length v = BLOCK_SIZE \<and> b \<notin> set (block_map g) \<and> \<not> bad_write d b \<and> final_writes g d ws"
  "final_writes g d (xs @ ys) \<longleftrightarrow> final_writes g d xs \<and> final_writes g d ys"
  "final_writes g (add_writes d zs) ws = final_writes g d ws"
  by (auto simp: final_writes_def)

lemma final_writes_unsuppressed: "final_writes g d ws \<Longrightarrow> final_writes g d (unsuppressed revoked t ws)"
  by (auto simp: final_writes_def unsuppressed_def sized_writes_def)

lemma log_holds_final:
  assumes "geometry_ok g" "in_ring g pos" "final_writes g d ws"
  shows "log_holds g (add_writes d ws) pos bs = log_holds g d pos bs"
proof (rule log_holds_cong)
  fix b assume "b \<in> log_area g pos (length bs)"
  then have "b \<in> set (block_map g)" using log_area_subset[OF assms(1,2)] by blast
  then have "b \<notin> fst ` set ws" using assms(3) by (auto simp: final_writes_def)
  then show "visible (add_writes d ws) b = visible d b" by (simp add: apply_writes_other)
qed simp

lemma apply_tags_ok:
  "geometry_ok g \<Longrightarrow> in_ring g log \<Longrightarrow> sized d \<Longrightarrow>
   log_holds g d (next_log_block g log) (map snd tagged) \<Longrightarrow>
   final_writes g d (item_writes (DescriptorItem x tagged)) \<Longrightarrow>
   (\<forall>(tag, lb)\<in>set tagged. \<forall>s. csum_seed g = Some s \<longrightarrow> verify_data_csum tag s t lb) \<Longrightarrow>
   apply_tags g t revoked d (map (\<lambda>(tag, _). Ok tag) tagged) log consumed bad =
     (Ok (advance g log (length tagged), consumed + length tagged, bad),
      add_writes d (unsuppressed revoked t (item_writes (DescriptorItem x tagged))))"
proof (induction tagged arbitrary: d log consumed)
  case (Cons tl tagged)
  obtain tag lb where tl: "tl = (tag, lb)" by (cases tl)
  let ?log = "next_log_block g log"
  let ?v = "if is_escaped tag then splice 0 (be32 JBD2_MAGIC) lb else lb"
  let ?d1 = "add_writes d [(dt_blocknr tag, ?v)]"
  have ring: "in_ring g ?log" by (rule next_log_block_in_ring[OF Cons.prems(1,2)])
  have rd: "read_log_block g d ?log = Ok lb"
    "log_holds g d (next_log_block g ?log) (map snd tagged)"
    using Cons.prems(4) by (auto simp: tl)
  have fw: "final_writes g d [(dt_blocknr tag, ?v)]" "final_writes g d (item_writes (DescriptorItem x tagged))"
    using Cons.prems(5) by (auto simp: tl)
  have vf: "\<forall>(tag, lb)\<in>set tagged. \<forall>s. csum_seed g = Some s \<longrightarrow> verify_data_csum tag s t lb"
    "csum_seed g = Some s \<Longrightarrow> verify_data_csum tag s t lb" for s
    using Cons.prems(6) by (auto simp: tl)
  show ?case
  proof (cases "suppresses revoked (dt_blocknr tag) t")
    case True
    then show ?thesis
      using Cons.IH[OF Cons.prems(1) ring Cons.prems(3) rd(2) fw(2) vf(1)]
      by (simp add: tl advance_Suc)
  next
    case False
    have wr: "write_block d (dt_blocknr tag) ?v = (Ok (), ?d1)"
      using fw(1) Cons.prems(3) by (simp add: write_block_whole)
    have sz: "sized ?d1" using sized_add_writes[OF Cons.prems(3)] fw(1) by (simp add: final_writes_def)
    have hold: "log_holds g ?d1 (next_log_block g ?log) (map snd tagged)"
      using rd(2) log_holds_final[OF Cons.prems(1) next_log_block_in_ring[OF Cons.prems(1) ring] fw(1)] by simp
    have fw2: "final_writes g ?d1 (item_writes (DescriptorItem x tagged))" using fw(2) by (simp only: final_writes_simps)
    have step: "apply_tags g t revoked d (map (\<lambda>(tag, _). Ok tag) (tl # tagged)) log consumed bad =
        apply_tags g t revoked ?d1 (map (\<lambda>(tag, _). Ok tag) tagged) ?log (consumed + 1) bad"
      using False rd(1) wr vf(2) by (auto simp: tl Let_def split: option.splits)
    show ?thesis
      unfolding step Cons.IH[OF Cons.prems(1) ring sz hold fw2 vf(1)]
      using False by (simp add: tl advance_Suc)
  qed
qed simp

lemma apply_loop_items:
  "geometry_ok g \<Longrightarrow> in_ring g pos \<Longrightarrow> sized d \<Longrightarrow>
   list_all (item_ok (tag_layout g) (csum_seed g) t) items \<Longrightarrow> commit_ok (csum_seed g) t c \<Longrightarrow>
   log_holds g d pos (items_blocks items @ [c]) \<Longrightarrow> consumed + length (items_blocks items) \<le> maxlen g \<Longrightarrow>
   final_writes g d (items_writes items) \<Longrightarrow>
   apply_loop g t revoked d pos consumed False =
     (Ok (advance g pos (length (items_blocks items) + 1)),
      add_writes d (unsuppressed revoked t (items_writes items)))"
proof (induction items arbitrary: d pos consumed)
  case Nil
  then show ?case
    by (subst apply_loop.simps) (simp add: commit_ok_def header_is_def Let_def advance_Suc)
next
  case (Cons item items)
  show ?case
  proof (cases item)
    case (RevokeItem b bs)
    then have "apply_loop g t revoked d pos consumed False =
        apply_loop g t revoked d (next_log_block g pos) (consumed + 1) False"
      using Cons.prems by (subst apply_loop.simps) (auto simp: header_is_def Let_def header_consts)
    then show ?thesis using Cons RevokeItem by (simp add: advance_Suc next_log_block_in_ring)
  next
    case (DescriptorItem b tagged)
    let ?n = "length tagged" and ?ws = "unsuppressed revoked t (item_writes item)"
    have hold: "log_holds g d (next_log_block g pos) (map snd tagged)"
      "log_holds g d (advance g pos (Suc ?n)) (items_blocks items @ [c])"
      using Cons.prems(6) DescriptorItem by (simp_all add: log_holds_append advance_Suc)
    have fw: "final_writes g d (item_writes item)" "final_writes g d (items_writes items)"
      using Cons.prems(8) by simp_all
    have vf: "\<forall>(tag, lb)\<in>set tagged. \<forall>s. csum_seed g = Some s \<longrightarrow> verify_data_csum tag s t lb"
      using Cons.prems(4) DescriptorItem by simp
    note tags = apply_tags_ok[OF Cons.prems(1-3) hold(1) fw(1)[unfolded DescriptorItem] vf, of revoked consumed False]
    have "apply_loop g t revoked d pos consumed False =
        apply_loop g t revoked (add_writes d ?ws) (advance g pos (Suc ?n)) (consumed + Suc ?n) False"
      using Cons.prems(4,6,7) DescriptorItem tags
      by (subst apply_loop.simps)
         (auto simp: header_is_def tail_ok_def Let_def header_consts advance_next split: option.splits)
    also have "\<dots> = (Ok (advance g (advance g pos (Suc ?n)) (length (items_blocks items) + 1)),
        add_writes (add_writes d ?ws) (unsuppressed revoked t (items_writes items)))"
    proof (rule Cons.IH)
      have ring: "in_ring g (advance g pos (Suc ?n))" by (rule advance_in_ring[OF Cons.prems(1,2)])
      then show "in_ring g (advance g pos (Suc ?n))" .
      show "sized (add_writes d ?ws)"
        using sized_add_writes[OF Cons.prems(3)] final_writes_unsuppressed[OF fw(1)] by (simp add: final_writes_def)
      show "log_holds g (add_writes d ?ws) (advance g pos (Suc ?n)) (items_blocks items @ [c])"
        using hold(2) log_holds_final[OF Cons.prems(1) ring final_writes_unsuppressed[OF fw(1)]] by simp
    qed (use Cons.prems DescriptorItem fw in simp_all)
    finally show ?thesis using DescriptorItem by (simp add: advance_add[symmetric] add_ac)
  qed
qed

section \<open>A sequence of transactions\<close>

text \<open>A committed transaction in the log: its chain items and its commit block.\<close>

type_synonym LoggedTxn = "ChainItem list \<times> bytes"

definition lt_writes :: "LoggedTxn \<Rightarrow> (Ext4Bid \<times> bytes) list" where
  "lt_writes x = items_writes (fst x)"

definition lt_revokes :: "LoggedTxn \<Rightarrow> Ext4Bid list" where
  "lt_revokes x = items_revokes (fst x)"

definition lt_blocks :: "LoggedTxn \<Rightarrow> bytes list" where
  "lt_blocks x = items_blocks (fst x) @ [snd x]"

definition lt_ok :: "JournalGeometry \<Rightarrow> tid \<Rightarrow> LoggedTxn \<Rightarrow> bool" where
  "lt_ok g t x \<longleftrightarrow>
     list_all (item_ok (tag_layout g) (csum_seed g) t) (fst x) \<and> commit_ok (csum_seed g) t (snd x) \<and>
     length (items_blocks (fst x)) \<le> maxlen g"

fun lts_ok :: "JournalGeometry \<Rightarrow> tid \<Rightarrow> LoggedTxn list \<Rightarrow> bool" where
  "lts_ok g t [] \<longleftrightarrow> True"
| "lts_ok g t (x # xs) \<longleftrightarrow> lt_ok g t x \<and> lts_ok g (tid_next t) xs"

abbreviation lts_blocks :: "LoggedTxn list \<Rightarrow> bytes list" where
  "lts_blocks xs \<equiv> concat (map lt_blocks xs)"

lemma length_lt_blocks: "length (lt_blocks x) = length (items_blocks (fst x)) + 1"
  by (simp add: lt_blocks_def)

lemma lts_ok_append:
  "lts_ok g t (xs @ ys) \<longleftrightarrow> lts_ok g t xs \<and> lts_ok g (t + word_of_nat (length xs)) ys"
  by (induction xs arbitrary: t) (auto simp: tid_next_def add_ac)

text \<open>The end of the committed log: a block that is no journal block of the next transaction.\<close>

definition boundary_at :: "JournalGeometry \<Rightarrow> device \<Rightarrow> nat \<Rightarrow> tid \<Rightarrow> bool" where
  "boundary_at g d pos t \<longleftrightarrow>
     (\<exists>b. read_log_block g d pos = Ok b \<and>
        (h_magic (RawJournalHeader_parse b) \<noteq> JBD2_MAGIC \<or> h_sequence (RawJournalHeader_parse b) \<noteq> t))"

lemma scan_boundary: "boundary_at g d pos t \<Longrightarrow> scan_transaction g d pos t = Ok None"
  unfolding scan_transaction_def by (subst scan_loop.simps) (auto simp: boundary_at_def Let_def)

lemma scan_transaction_ok:
  "lt_ok g t x \<Longrightarrow> log_holds g d pos (lt_blocks x) \<Longrightarrow>
   scan_transaction g d pos t = Ok (Some (advance g pos (length (lt_blocks x))))"
  using scan_loop_items[of g t "fst x" "snd x" d pos 0]
  by (simp add: scan_transaction_def lt_blocks_def lt_ok_def)

lemma scan_committed_ok:
  "lts_ok g t xs \<Longrightarrow> log_holds g d pos (lts_blocks xs) \<Longrightarrow>
   scan_transaction g d (advance g pos (length (lts_blocks xs))) (t + word_of_nat (length xs)) = Ok None \<Longrightarrow>
   length xs < fuel \<Longrightarrow>
   scan_committed fuel g d pos t count =
     Some (Ok (advance g pos (length (lts_blocks xs)), t + word_of_nat (length xs), count + length xs))"
proof (induction xs arbitrary: pos t count fuel)
  case Nil
  then show ?case by (cases fuel) simp_all
next
  case (Cons x xs)
  then obtain fuel' where f: "fuel = Suc fuel'" "length xs < fuel'" by (cases fuel) auto
  have hold: "log_holds g d pos (lt_blocks x)" "log_holds g d (advance g pos (length (lt_blocks x))) (lts_blocks xs)"
    using Cons.prems(2) by (simp_all add: log_holds_append)
  have tid: "tid_next t + word_of_nat (length xs) = t + word_of_nat (length (x # xs))"
    by (simp add: tid_next_def add_ac)
  note IH = Cons.IH[of "tid_next t" "advance g pos (length (lt_blocks x))" fuel' "count + 1", unfolded tid]
  show ?case
    using IH Cons.prems f hold scan_transaction_ok[of g t x d pos]
    by (simp add: advance_add[symmetric])
qed

lemma collect_revokes_ok:
  "lts_ok g t xs \<Longrightarrow> log_holds g d pos (lts_blocks xs) \<Longrightarrow>
   collect_revokes (length xs) g d pos t table =
     Ok (foldl (\<lambda>tb (i, x). foldl (\<lambda>tb b. record_revoke tb b (t + word_of_nat i)) tb (lt_revokes x))
           table (enumerate 0 xs))"
proof (induction xs arbitrary: pos t table)
  case (Cons x xs)
  have hold: "log_holds g d pos (lt_blocks x)" "log_holds g d (advance g pos (length (lt_blocks x))) (lts_blocks xs)"
    using Cons.prems(2) by (simp_all add: log_holds_append)
  have one: "collect_transaction_revokes g d pos t table =
      Ok (advance g pos (length (lt_blocks x)), foldl (\<lambda>tb b. record_revoke tb b t) table (lt_revokes x))"
    using Cons.prems(1) hold(1) revoke_loop_items[of g t "fst x" "snd x" d pos 0 table]
    by (simp add: collect_transaction_revokes_def lt_blocks_def lt_ok_def lt_revokes_def)
  have shift: "enumerate (Suc 0) xs = map (\<lambda>(i, x). (Suc i, x)) (enumerate 0 xs)"
    by (simp add: enumerate_eq_zip zip_map1[symmetric] map_Suc_upt)
  show ?case
    using Cons.prems(1) one Cons.IH[OF _ hold(2), of "tid_next t"]
    by (simp add: shift foldl_map case_prod_unfold tid_next_def add_ac)
qed simp

text \<open>The writes replay issues: per transaction the images its revoke table does not suppress.\<close>

fun replay_writes :: "RevokeTable \<Rightarrow> tid \<Rightarrow> LoggedTxn list \<Rightarrow> (Ext4Bid \<times> bytes) list" where
  "replay_writes revoked t [] = []"
| "replay_writes revoked t (x # xs) = unsuppressed revoked t (lt_writes x) @ replay_writes revoked (tid_next t) xs"

lemma final_writes_replay:
  "final_writes g d (concat (map lt_writes xs)) \<Longrightarrow> final_writes g d (replay_writes revoked t xs)"
  by (induction xs arbitrary: t) (simp_all add: final_writes_unsuppressed)

lemma apply_log_transaction_ok:
  assumes "geometry_ok g" "in_ring g pos" "sized d" "lt_ok g t x" "log_holds g d pos (lt_blocks x)"
    and "final_writes g d (lt_writes x)"
  shows "apply_log_transaction g d pos t revoked =
    (Ok (advance g pos (length (lt_blocks x))), add_writes d (unsuppressed revoked t (lt_writes x)))"
  using assms apply_loop_items[of g pos d t "fst x" "snd x" 0 revoked]
  by (simp add: apply_log_transaction_def lt_blocks_def lt_ok_def lt_writes_def)

lemma replay_transactions_ok:
  "geometry_ok g \<Longrightarrow> in_ring g pos \<Longrightarrow> sized d \<Longrightarrow> lts_ok g t xs \<Longrightarrow> log_holds g d pos (lts_blocks xs) \<Longrightarrow>
   final_writes g d (concat (map lt_writes xs)) \<Longrightarrow>
   replay_transactions (length xs) g d pos t revoked = (Ok (), add_writes d (replay_writes revoked t xs))"
proof (induction xs arbitrary: d pos t)
  case (Cons x xs)
  let ?ws = "unsuppressed revoked t (lt_writes x)" and ?pos = "advance g pos (length (lt_blocks x))"
  have hold: "log_holds g d pos (lt_blocks x)" "log_holds g d ?pos (lts_blocks xs)"
    using Cons.prems(5) by (simp_all add: log_holds_append)
  have ring: "in_ring g ?pos" by (rule advance_in_ring[OF Cons.prems(1,2)])
  have fw: "final_writes g d ?ws" using Cons.prems(6) by (simp add: final_writes_unsuppressed)
  have one: "apply_log_transaction g d pos t revoked = (Ok ?pos, add_writes d ?ws)"
    using Cons.prems hold(1) by (intro apply_log_transaction_ok) simp_all
  have "replay_transactions (length xs) g (add_writes d ?ws) ?pos (tid_next t) revoked =
      (Ok (), add_writes (add_writes d ?ws) (replay_writes revoked (tid_next t) xs))"
  proof (rule Cons.IH[OF Cons.prems(1) ring])
    show "sized (add_writes d ?ws)" using sized_add_writes[OF Cons.prems(3)] fw by (simp add: final_writes_def)
    show "log_holds g (add_writes d ?ws) ?pos (lts_blocks xs)"
      using hold(2) log_holds_final[OF Cons.prems(1) ring fw] by simp
  qed (use Cons.prems in simp_all)
  then show ?case using one by simp
qed simp

end
