(* ===== verification/Recovery_Correct.thy ===== *)
theory Recovery_Correct
  imports Log_Replay
begin

text \<open>
  Correctness of recovery on a healthy device: the device content after \<open>recover\<close> is the one
  the committed transactions describe, each block with its newest image unless a transaction
  at or after that image revoked the block, and the journal superblock reads as clean.
\<close>

section \<open>Healthy devices and the superblock funnel\<close>

definition healthy :: "JournalGeometry \<Rightarrow> device \<Rightarrow> bool" where
  "healthy g d \<longleftrightarrow>
     geometry_ok g \<and> distinct (block_map g) \<and> length (block_map g) < 2 ^ 32 \<and> sized d \<and>
     (\<forall>b. \<not> bad_read d b) \<and> (\<forall>b. \<not> bad_write d b) \<and> syncs_left d = None"

lemma healthyD:
  assumes "healthy g d"
  shows "geometry_ok g" "distinct (block_map g)" "length (block_map g) < 2 ^ 32" "sized d"
    "\<forall>b. \<not> bad_read d b" "\<forall>b. \<not> bad_write d b" "syncs_left d = None"
  using assms by (simp_all add: healthy_def)

definition flushed :: "device \<Rightarrow> device" where
  "flushed d = d\<lparr> durable := visible d, pending := [] \<rparr>"

lemma flushed_simps [simp]:
  "visible (flushed d) = visible d" "durable (flushed d) = visible d" "pending (flushed d) = []"
  "bad_read (flushed d) = bad_read d" "bad_write (flushed d) = bad_write d"
  "syncs_left (flushed d) = syncs_left d" "healthy g (flushed d) = healthy g d"
  by (simp_all add: flushed_def visible_def healthy_def sized_def)

lemma barrier_healthy: "healthy g d \<Longrightarrow> barrier d = (Ok (), flushed d)"
  by (simp add: barrier_def sync_def healthy_def flushed_def)

lemma healthy_add_writes: "healthy g d \<Longrightarrow> sized_writes ws \<Longrightarrow> healthy g (add_writes d ws)"
  by (simp add: healthy_def sized_add_writes)

definition sb_block :: "JournalGeometry \<Rightarrow> u64" where
  "sb_block g = block_map g ! 0"

lemma superblock_block_ok: "geometry_ok g \<Longrightarrow> superblock_block g = Ok (sb_block g)"
  by (auto simp: superblock_block_def log_block_to_physical_def sb_block_def geometry_ok_def)

lemma block_map_nonempty: "geometry_ok g \<Longrightarrow> block_map g \<noteq> []"
  by (cases "block_map g") (auto simp: geometry_ok_def)

lemma sb_block_in_map: "geometry_ok g \<Longrightarrow> sb_block g \<in> set (block_map g)"
  using nth_mem[of 0 "block_map g"] block_map_nonempty[of g] by (simp add: sb_block_def)

lemma sb_block_not_in_ring:
  assumes "geometry_ok g" "distinct (block_map g)" "in_ring g pos"
  shows "sb_block g \<notin> log_area g pos n"
proof
  assume "sb_block g \<in> log_area g pos n"
  then obtain i where "block_map g ! 0 = block_map g ! advance g pos i"
    by (auto simp: sb_block_def log_area_def)
  moreover have "in_ring g (advance g pos i)" by (rule advance_in_ring[OF assms(1,3)])
  ultimately show False
    using assms(1) nth_eq_iff_index_eq[OF assms(2), of 0 "advance g pos i"] block_map_nonempty[OF assms(1)]
    by (simp add: geometry_ok_def in_ring_def)
qed

lemma from_bytes_ok: "1024 \<le> length bs \<Longrightarrow> raw_sb_ok (RawJournalSuperblock_from_bytes bs)"
  by (simp add: raw_sb_ok_def RawJournalSuperblock_from_bytes_def)

lemma read_raw_superblock_healthy:
  assumes "healthy g d"
  shows "read_raw_superblock g d = Ok (RawJournalSuperblock_from_bytes (take JOURNAL_SUPERBLOCK_SIZE (visible d (sb_block g))))"
  using assms by (simp add: read_raw_superblock_def superblock_block_ok healthyD read_block_def)

lemma read_raw_superblock_raw_ok:
  assumes "healthy g d" "read_raw_superblock g d = Ok raw"
  shows "raw_sb_ok raw"
proof -
  have "length (visible d (sb_block g)) = BLOCK_SIZE" using healthyD(4)[OF assms(1)] by (simp add: sized_def)
  then show ?thesis
    using assms(2) by (auto simp: read_raw_superblock_healthy[OF assms(1)] JOURNAL_SUPERBLOCK_SIZE_def
        BLOCK_SIZE_def intro!: from_bytes_ok)
qed

definition sb_image :: "RawJournalSuperblock \<Rightarrow> bytes \<Rightarrow> bytes" where
  "sb_image raw old = splice 0 (RawJournalSuperblock_as_bytes (stamp_checksum raw)) old"

definition with_superblock :: "JournalGeometry \<Rightarrow> device \<Rightarrow> RawJournalSuperblock \<Rightarrow> device" where
  "with_superblock g d raw = flushed (add_writes d [(sb_block g, sb_image raw (visible d (sb_block g)))])"

lemma write_superblock_healthy:
  assumes "healthy g d" "raw_sb_ok raw"
  shows "write_superblock g d raw = (Ok (), with_superblock g d raw)"
    "healthy g (with_superblock g d raw)"
    "read_raw_superblock g (with_superblock g d raw) = Ok (stamp_checksum raw)"
    "b \<noteq> sb_block g \<Longrightarrow> visible (with_superblock g d raw) b = visible d b"
proof -
  let ?bs = "RawJournalSuperblock_as_bytes (stamp_checksum raw)"
  let ?old = "visible d (sb_block g)"
  have old: "length ?old = BLOCK_SIZE" using healthyD(4)[OF assms(1)] by (simp add: sized_def)
  have len: "length ?bs = 1024" using assms(2) by (simp add: JOURNAL_SUPERBLOCK_SIZE_def)
  have sz: "sized_writes [(sb_block g, sb_image raw ?old)]"
    using old len by (simp add: sb_image_def BLOCK_SIZE_def)
  have hw: "healthy g (add_writes d [(sb_block g, sb_image raw ?old)])"
    by (rule healthy_add_writes[OF assms(1) sz])
  have "write_block d (sb_block g) ?bs = (Ok (), add_writes d [(sb_block g, sb_image raw ?old)])"
    using healthyD[OF assms(1)] by (simp add: write_block_def add_writes_def sb_image_def)
  then show "write_superblock g d raw = (Ok (), with_superblock g d raw)"
    using barrier_healthy[OF hw] healthyD(1)[OF assms(1)]
    by (simp add: write_superblock_def superblock_block_ok with_superblock_def)
  show h: "healthy g (with_superblock g d raw)" using hw by (simp add: with_superblock_def)
  have "take 1024 (sb_image raw ?old) = ?bs @ []" using len by (simp add: sb_image_def splice_def)
  then show "read_raw_superblock g (with_superblock g d raw) = Ok (stamp_checksum raw)"
    unfolding read_raw_superblock_healthy[OF h]
    using from_bytes_as_bytes[of "stamp_checksum raw" "[]"] assms(2)
    by (simp add: with_superblock_def JOURNAL_SUPERBLOCK_SIZE_def)
  show "b \<noteq> sb_block g \<Longrightarrow> visible (with_superblock g d raw) b = visible d b"
    by (simp add: with_superblock_def)
qed

section \<open>The collected revokes\<close>

definition collected :: "tid \<Rightarrow> LoggedTxn list \<Rightarrow> RevokeTable" where
  "collected t xs =
     foldl (\<lambda>tb (i, x). foldl (\<lambda>tb b. record_revoke tb b (t + word_of_nat i)) tb (lt_revokes x))
       RevokeTable_new (enumerate 0 xs)"

lemma collected_snoc:
  "collected t (xs @ [x]) =
     foldl (\<lambda>tb b. record_revoke tb b (t + word_of_nat (length xs))) (collected t xs) (lt_revokes x)"
  by (simp add: collected_def enumerate_append_eq)

lemma collected_window:
  "length xs \<le> n \<Longrightarrow> n \<le> 2 ^ 31 \<Longrightarrow> table_in_window t n (collected t xs)"
proof (induction xs rule: rev_induct)
  case (snoc x xs)
  then show ?case
    using revokes.rec_all_inwin[of t n "collected t xs" "length xs" "lt_revokes x"]
    by (simp add: collected_snoc)
qed (simp add: collected_def table_in_window_new)

lemma collected_suppresses:
  "length xs \<le> n \<Longrightarrow> n \<le> 2 ^ 31 \<Longrightarrow> j < n \<Longrightarrow>
   suppresses (collected t xs) b (t + word_of_nat j) \<longleftrightarrow>
   (\<exists>i<length xs. j \<le> i \<and> b \<in> set (lt_revokes (xs ! i)))"
proof (induction xs rule: rev_induct)
  case Nil
  then show ?case by (simp add: collected_def suppresses_def RevokeTable_new_def)
next
  case (snoc x xs)
  then have "suppresses (collected t (xs @ [x])) b (t + word_of_nat j) \<longleftrightarrow>
      suppresses (collected t xs) b (t + word_of_nat j) \<or> (b \<in> set (lt_revokes x) \<and> j \<le> length xs)"
    unfolding collected_snoc
    by (intro revokes.rec_all_suppr[where n = n] collected_window) simp_all
  also have "\<dots> \<longleftrightarrow> (\<exists>i<length (xs @ [x]). j \<le> i \<and> b \<in> set (lt_revokes ((xs @ [x]) ! i)))"
    using snoc by (auto simp: nth_append less_Suc_eq)
  finally show ?case .
qed

section \<open>What replay leaves on the device\<close>

lemma replay_writes_append:
  "replay_writes revoked t (xs @ ys) =
     replay_writes revoked t xs @ replay_writes revoked (t + word_of_nat (length xs)) ys"
  by (induction xs arbitrary: t) (simp_all add: tid_next_def add_ac)

lemma replay_writes_mem:
  "b \<in> fst ` set (replay_writes revoked t xs) \<longleftrightarrow>
     (\<exists>i<length xs. b \<in> fst ` set (lt_writes (xs ! i)) \<and> \<not> suppresses revoked b (t + word_of_nat i))"
proof (induction xs arbitrary: t)
  case (Cons x xs)
  have "b \<in> fst ` set (unsuppressed revoked t (lt_writes x)) \<longleftrightarrow>
      b \<in> fst ` set (lt_writes x) \<and> \<not> suppresses revoked b t"
    by (force simp: unsuppressed_def)
  moreover have "tid_next t + word_of_nat i = t + word_of_nat (Suc i)" for i
    by (simp add: tid_next_def add_ac)
  ultimately show ?case
    unfolding replay_writes.simps set_append image_Un Un_iff Cons.IH length_Cons Ex_less_Suc2 nth_Cons_0
      nth_Cons_Suc by (simp add: add.assoc)
qed simp

text \<open>A block keeps its content when every image of it is revoked later, and otherwise gets the
  newest image.\<close>

definition block_survives :: "LoggedTxn list \<Rightarrow> Ext4Bid \<Rightarrow> nat \<Rightarrow> bool" where
  "block_survives xs b i \<longleftrightarrow> (\<forall>k<length xs. i \<le> k \<longrightarrow> b \<notin> set (lt_revokes (xs ! k)))"

lemma apply_writes_at: "m b = m' b \<Longrightarrow> apply_writes ws m b = apply_writes ws m' b"
proof (induction ws arbitrary: m m')
  case (Cons w ws)
  obtain c v where w: "w = (c, v)" by (cases w)
  show ?case unfolding w apply_writes_Cons by (rule Cons.IH) (simp add: Cons.prems)
qed simp

lemma apply_writes_unsuppressed:
  "\<not> suppresses revoked b t \<Longrightarrow> apply_writes (unsuppressed revoked t ws) m b = apply_writes ws m b"
proof (induction ws arbitrary: m)
  case (Cons w ws)
  obtain c v where w: "w = (c, v)" by (cases w)
  have "apply_writes ws (m(c := v)) b = apply_writes ws m b" if "suppresses revoked c t"
    using that Cons.prems by (intro apply_writes_at) auto
  then show ?case using Cons by (simp add: w apply_writes_Cons)
qed simp

lemma apply_writes_mem:
  "distinct (map fst ws) \<Longrightarrow> (b, v) \<in> set ws \<Longrightarrow> apply_writes ws m b = v"
  using apply_writes_in[of b ws m] by (metis eq_key_imp_eq_value image_eqI fst_conv)

lemma replayed_image:
  assumes "length xs \<le> 2 ^ 31" "i < length xs" "(b, v) \<in> set (lt_writes (xs ! i))"
    and "distinct (map fst (lt_writes (xs ! i)))"
    and "\<forall>k<length xs. i < k \<longrightarrow> b \<notin> fst ` set (lt_writes (xs ! k))" "block_survives xs b i"
  shows "apply_writes (replay_writes (collected t xs) t xs) m b = v"
proof -
  let ?R = "collected t xs"
  have xs: "xs = take i xs @ xs ! i # drop (Suc i) xs" using assms(2) by (rule id_take_nth_drop)
  have notsup: "\<not> suppresses ?R b (t + word_of_nat i)"
    using assms(1,2,6) collected_suppresses[of xs "length xs" i t b] by (auto simp: block_survives_def)
  have "b \<notin> fst ` set (lt_writes (drop (Suc i) xs ! k))" if "k < length (drop (Suc i) xs)" for k
    using assms(5) that by simp
  then have "b \<notin> fst ` set (replay_writes ?R (tid_next (t + word_of_nat i)) (drop (Suc i) xs))"
    unfolding replay_writes_mem by blast
  then have "apply_writes (replay_writes ?R t xs) m b =
      apply_writes (unsuppressed ?R (t + word_of_nat i) (lt_writes (xs ! i))) (apply_writes (replay_writes ?R t (take i xs)) m) b"
    using assms(2) by (subst xs) (simp add: replay_writes_append apply_writes_other)
  then show ?thesis
    using apply_writes_unsuppressed[OF notsup] apply_writes_mem[OF assms(4,3)] by simp
qed

lemma replayed_unchanged:
  assumes "length xs \<le> 2 ^ 31"
    and "\<forall>i<length xs. b \<in> fst ` set (lt_writes (xs ! i)) \<longrightarrow> \<not> block_survives xs b i"
  shows "apply_writes (replay_writes (collected t xs) t xs) m b = m b"
proof -
  have "b \<notin> fst ` set (replay_writes (collected t xs) t xs)"
    using assms collected_suppresses[of xs "length xs" _ t b]
    by (auto simp: replay_writes_mem block_survives_def)
  then show ?thesis by (rule apply_writes_other)
qed

section \<open>Recovery\<close>

text \<open>A device whose log area holds the committed transactions \<open>xs\<close> from \<open>pos\<close> on, the first
  with id \<open>t\<close>, and whose superblock points at them.\<close>

definition log_state :: "JournalGeometry \<Rightarrow> device \<Rightarrow> nat \<Rightarrow> tid \<Rightarrow> LoggedTxn list \<Rightarrow> bool" where
  "log_state g d pos t xs \<longleftrightarrow>
     in_ring g pos \<and> lts_ok g t xs \<and> log_holds g d pos (lts_blocks xs) \<and>
     final_writes g d (concat (map lt_writes xs)) \<and>
     length (lts_blocks xs) \<le> ring_size g \<and>
     (\<exists>raw. read_raw_superblock g d = Ok raw \<and> s_start raw = word_of_nat pos \<and> s_sequence raw = t)"

lemma length_lts_le: "length xs \<le> length (lts_blocks xs)"
  by (induction xs) (simp_all add: length_lt_blocks)

lemma recover_log_state:
  assumes "healthy g d" "log_state g d pos t xs" "geometry j = g"
    and "scan_transaction g d (advance g pos (length (lts_blocks xs))) (t + word_of_nat (length xs)) = Ok None"
  shows "\<exists>raw. recover j d = Some (Ok (), publish_recovery j (t + word_of_nat (length xs)),
      with_superblock g (flushed (add_writes d (replay_writes (collected t xs) t xs)))
        (raw\<lparr> s_start := 0, s_sequence := t + word_of_nat (length xs), s_head := word_of_nat (first g) \<rparr>)) \<and>
    raw_sb_ok raw"
proof -
  note h = healthyD[OF assms(1)]
  obtain raw where raw: "read_raw_superblock g d = Ok raw" "s_start raw = word_of_nat pos" "s_sequence raw = t"
    using assms(2) by (auto simp: log_state_def)
  have ls: "in_ring g pos" "lts_ok g t xs" "log_holds g d pos (lts_blocks xs)"
    "final_writes g d (concat (map lt_writes xs))" "length (lts_blocks xs) \<le> ring_size g"
    using assms(2) by (auto simp: log_state_def)
  have pos: "0 < pos" "pos < 2 ^ 32"
    using ls(1) h(1,3) by (auto simp: in_ring_def geometry_ok_def)
  then have un: "unat (word_of_nat pos :: u32) = pos" by (simp add: unat_of_nat)
  then have start: "recovery_start raw = Some (word_of_nat pos)"
    using raw(2) pos(1) by (auto simp: recovery_start_def Let_def)
  have fuel: "length xs < recovery_fuel g"
  proof -
    have "maxlen g \<le> length (block_map g)" using h(1) by (simp add: geometry_ok_def)
    then show ?thesis using length_lts_le[of xs] ls(5) by (simp add: recovery_fuel_def ring_size_def)
  qed
  let ?ws = "replay_writes (collected t xs) t xs"
  let ?raw = "raw\<lparr> s_start := 0, s_sequence := t + word_of_nat (length xs), s_head := word_of_nat (first g) \<rparr>"
  have scan: "scan_committed (recovery_fuel g) g d pos t 0 =
      Some (Ok (advance g pos (length (lts_blocks xs)), t + word_of_nat (length xs), length xs))"
    using scan_committed_ok[OF ls(2,3) assms(4) fuel, of 0] by simp
  have coll: "collect_revokes (length xs) g d pos t RevokeTable_new = Ok (collected t xs)"
    using collect_revokes_ok[OF ls(2,3)] by (simp add: collected_def)
  have rep: "replay_transactions (length xs) g d pos t (collected t xs) = (Ok (), add_writes d ?ws)"
    by (rule replay_transactions_ok[OF h(1) ls(1) h(4) ls(2,3,4)])
  have "sized_writes ?ws" using final_writes_replay[OF ls(4)] by (simp add: final_writes_def)
  then have hw: "healthy g (add_writes d ?ws)" by (rule healthy_add_writes[OF assms(1)])
  have rok: "raw_sb_ok raw" by (rule read_raw_superblock_raw_ok[OF assms(1) raw(1)])
  then have "raw_sb_ok ?raw" by (simp add: raw_sb_ok_def)
  then have "write_superblock g (flushed (add_writes d ?ws)) ?raw = (Ok (), with_superblock g (flushed (add_writes d ?ws)) ?raw)"
    using hw by (intro write_superblock_healthy(1)) simp_all
  then have "recover j d = Some (Ok (), publish_recovery j (t + word_of_nat (length xs)),
      with_superblock g (flushed (add_writes d ?ws)) ?raw)"
    using raw start scan coll rep barrier_healthy[OF hw] assms(3)
    by (simp add: recover_def Let_def un with_device_def)
  then show ?thesis using rok by blast
qed

end
