(* ===== verification/Commit_Correct.thy ===== *)
theory Commit_Correct
  imports Recovery_Correct
begin

text \<open>
  Correctness of the commit path against recovery: on a healthy device a commit that fits
  succeeds and appends exactly its transaction to the committed log, never touching the
  transactions already there; a crash at any point leaves a log that recovers either without
  or with the whole transaction.
\<close>

section \<open>A commit that fits\<close>

definition ordered_writes :: "Transaction \<Rightarrow> (u64 \<times> bytes) list" where
  "ordered_writes txn = concat (map od_writes (ordered_data txn))"

definition in_commit :: "Journal \<Rightarrow> Transaction \<Rightarrow> CommitPhase \<Rightarrow> bool" where
  "in_commit j txn ph \<longleftrightarrow> committing (jstate j) = Some \<lparr> c_txn = txn, c_phase = ph \<rparr>"

definition set_phase :: "Journal \<Rightarrow> Transaction \<Rightarrow> CommitPhase \<Rightarrow> Journal" where
  "set_phase j txn ph = j\<lparr> jstate := (jstate j)\<lparr> committing := Some \<lparr> c_txn = txn, c_phase = ph \<rparr> \<rparr> \<rparr>"

lemma set_phase_simps [simp]:
  "geometry (set_phase j txn ph) = geometry j" "in_commit (set_phase j txn ph) txn ph"
  "set_phase (set_phase j txn ph) txn ph' = set_phase j txn ph'"
  "head (jstate (set_phase j txn ph)) = head (jstate j)"
  "tail_block (jstate (set_phase j txn ph)) = tail_block (jstate j)"
  "tail_tid (jstate (set_phase j txn ph)) = tail_tid (jstate j)"
  by (simp_all add: set_phase_def in_commit_def)

lemma phase_step_ok:
  "in_commit j txn ph \<Longrightarrow> next_in_pipeline ph = Some to \<Longrightarrow>
   phase_step j d (t_tid txn) to = (Ok (), set_phase j txn to, d)"
  by (simp add: phase_step_def advance_committing_phase_def in_commit_def advance_to_def set_phase_def)

definition device_with_ordered :: "device \<Rightarrow> Transaction \<Rightarrow> device" where
  "device_with_ordered d txn =
     (if ordered_data txn = [] then d else flushed (add_writes d (ordered_writes txn)))"

definition device_with_chain :: "JournalGeometry \<Rightarrow> device \<Rightarrow> nat \<Rightarrow> bytes list \<Rightarrow> device" where
  "device_with_chain g d pos bs = flushed (add_writes d (log_writes g pos bs))"

lemma write_final_blocks_healthy:
  "healthy g d \<Longrightarrow> sized_writes ws \<Longrightarrow> write_final_blocks d ws = (Ok (), add_writes d ws)"
proof (induction d ws rule: write_final_blocks.induct)
  case (2 d b bs ws)
  then show ?case
    using healthy_add_writes[OF "2.prems"(1), of "[(b, bs)]"]
    by (simp add: write_block_whole healthyD)
qed simp

lemma flush_ordered_healthy:
  assumes "healthy g d" "sized_writes (ordered_writes txn)"
  shows "flush_ordered_data d (ordered_data txn) = (Ok (), device_with_ordered d txn)"
    "healthy g (device_with_ordered d txn)"
  using write_final_blocks_healthy[OF assms] barrier_healthy[OF healthy_add_writes[OF assms]]
    healthy_add_writes[OF assms] assms(1)
  by (auto simp: flush_ordered_data_def device_with_ordered_def ordered_writes_def)

lemma write_log_blocks_healthy:
  "healthy g d \<Longrightarrow> in_ring g pos \<Longrightarrow> \<forall>b\<in>set bs. length b = BLOCK_SIZE \<Longrightarrow>
   write_log_blocks g d pos bs = (Ok (advance g pos (length bs)), add_writes d (log_writes g pos bs))"
proof (induction g d pos bs rule: write_log_blocks.induct)
  case (2 g d pos b bs)
  have h: "healthy g (add_writes d [(block_map g ! pos, b)])"
    using "2.prems" by (intro healthy_add_writes) simp_all
  have one: "write_log_block g d pos b = (Ok (), add_writes d [(block_map g ! pos, b)])"
    using "2.prems" by (simp add: write_log_block_whole healthyD)
  show ?case
    using "2.IH"[OF one h] "2.prems" one by (simp add: next_log_block_in_ring healthyD advance_Suc)
qed simp

lemma device_with_chain_healthy:
  assumes "healthy g d" "\<forall>b\<in>set bs. length b = BLOCK_SIZE"
  shows "healthy g (device_with_chain g d pos bs)"
  using healthy_add_writes[OF assms(1) sized_log_writes[OF assms(2)]] by (simp add: device_with_chain_def)

text \<open>Writing the chain and then the commit block is writing both.\<close>

lemma device_with_chain_append:
  "device_with_chain g (device_with_chain g d pos xs) (advance g pos (length xs)) ys =
   device_with_chain g d pos (xs @ ys)"
  by (simp add: device_with_chain_def flushed_def log_writes_append add_writes_def visible_def)

section \<open>The committed device and journal\<close>

definition superblock_at :: "JournalGeometry \<Rightarrow> device \<Rightarrow> RawJournalSuperblock" where
  "superblock_at g d = RawJournalSuperblock_from_bytes (take JOURNAL_SUPERBLOCK_SIZE (visible d (sb_block g)))"

definition device_with_tail :: "JournalGeometry \<Rightarrow> device \<Rightarrow> nat \<Rightarrow> tid \<Rightarrow> device" where
  "device_with_tail g d pos t =
     with_superblock g d ((superblock_at g d)\<lparr> s_start := word_of_nat pos, s_sequence := t \<rparr>)"

lemma update_superblock_tail_healthy:
  assumes "healthy g d"
  shows "update_superblock_tail g d pos t = (Ok (), device_with_tail g d pos t)"
    "healthy g (device_with_tail g d pos t)"
    "\<exists>raw. read_raw_superblock g (device_with_tail g d pos t) = Ok raw \<and> s_start raw = word_of_nat pos \<and> s_sequence raw = t"
    "b \<noteq> sb_block g \<Longrightarrow> visible (device_with_tail g d pos t) b = visible d b"
proof -
  have rd: "read_raw_superblock g d = Ok (superblock_at g d)"
    by (simp add: read_raw_superblock_healthy[OF assms] superblock_at_def)
  have ok: "raw_sb_ok ((superblock_at g d)\<lparr> s_start := word_of_nat pos, s_sequence := t \<rparr>)"
    using read_raw_superblock_raw_ok[OF assms rd] by (simp add: raw_sb_ok_def)
  note w = write_superblock_healthy[OF assms ok]
  show "update_superblock_tail g d pos t = (Ok (), device_with_tail g d pos t)"
    using w(1) rd by (simp add: update_superblock_tail_def device_with_tail_def)
  show "healthy g (device_with_tail g d pos t)" using w(2) by (simp add: device_with_tail_def)
  show "\<exists>raw. read_raw_superblock g (device_with_tail g d pos t) = Ok raw \<and> s_start raw = word_of_nat pos \<and> s_sequence raw = t"
    using w(3) by (simp add: device_with_tail_def)
  show "b \<noteq> sb_block g \<Longrightarrow> visible (device_with_tail g d pos t) b = visible d b"
    using w(4) by (simp add: device_with_tail_def)
qed

definition committed_device ::
    "JournalGeometry \<Rightarrow> device \<Rightarrow> Transaction \<Rightarrow> nat \<Rightarrow> bytes list \<Rightarrow> bool \<Rightarrow> device" where
  "committed_device g d txn pos bs was_clean =
     (let d3 = device_with_chain g (device_with_ordered d txn) pos bs in
      if was_clean then device_with_tail g d3 pos (t_tid txn) else d3)"

definition committed_journal :: "Journal \<Rightarrow> Transaction \<Rightarrow> nat \<Rightarrow> Journal" where
  "committed_journal j txn footprint =
     (let st = jstate (set_phase j txn Finished); t = t_tid txn in
      j\<lparr> jstate := st\<lparr> head := advance (geometry j) (head st) footprint,
           tail_block := (case tail_block st of None \<Rightarrow> Some (head st) | Some p \<Rightarrow> Some p),
           tail_tid := (if tail_block st = None then t else tail_tid st),
           j_revoked := stash_revokes txn (j_revoked st),
           pinned_frees := bt_retain (\<lambda>_ run. \<not> tid_geq t (pr_tid run)) (pinned_frees st) \<rparr>,
         committed_tid := t \<rparr>)"

lemma publish_commit_ok:
  assumes "in_commit j txn Locked"
  shows "publish_commit (set_phase j txn CommitRecord) txn (head (jstate j)) n (tail_block (jstate j) = None) =
     Ok (committed_journal j txn n)"
  by (cases "tail_block (jstate j)")
     (simp_all add: publish_commit_def advance_committing_phase_def advance_to_def set_phase_def
        committed_journal_def release_pinned_frees_def Let_def)

lemma write_transaction_healthy:
  fixes txn :: Transaction
  defines "t \<equiv> t_tid txn"
  assumes "healthy (geometry j) d" "in_commit j txn Locked" "in_ring (geometry j) (head (jstate j))"
    and "sized_writes (ordered_writes txn)" "\<forall>b\<in>set (chain_blocks revs chain). length b = BLOCK_SIZE"
    and "length (build_commit_block secs nsecs t (csum_seed (geometry j))) = BLOCK_SIZE"
  shows "write_transaction secs nsecs j d txn revs chain =
    (Ok (Committed t), committed_journal j txn (commit_footprint revs chain),
     committed_device (geometry j) d txn (head (jstate j))
       (chain_blocks revs chain @ [build_commit_block secs nsecs t (csum_seed (geometry j))])
       (tail_block (jstate j) = None))"
proof -
  let ?g = "geometry j" and ?h = "head (jstate j)" and ?bs = "chain_blocks revs chain"
  let ?c = "build_commit_block secs nsecs t (csum_seed ?g)"
  let ?d1 = "device_with_ordered d txn"
  let ?d2 = "device_with_chain ?g ?d1 ?h ?bs" and ?stop = "advance ?g ?h (length ?bs)"
  let ?d3 = "device_with_chain ?g ?d1 ?h (?bs @ [?c])"
  note g = healthyD(1)[OF assms(2)]
  note ord = flush_ordered_healthy[OF assms(2,5)]
  have chain: "dev_bind (write_log_blocks ?g ?d1 ?h revs) (\<lambda>log d. write_chain ?g d log chain) =
      (Ok ?stop, add_writes ?d1 (log_writes ?g ?h ?bs))"
    using write_log_blocks_healthy[OF ord(2) assms(4,6)]
    by (simp add: write_chain_eq write_log_blocks_append chain_blocks_def)
  then obtain log1 d1' where w: "write_log_blocks ?g ?d1 ?h revs = (Ok log1, d1')"
    "write_chain ?g d1' log1 chain = (Ok ?stop, add_writes ?d1 (log_writes ?g ?h ?bs))"
    by (auto simp: dev_bind_eq_Ok)
  have h2: "healthy ?g (add_writes ?d1 (log_writes ?g ?h ?bs))"
    by (rule healthy_add_writes[OF ord(2) sized_log_writes[OF assms(6)]])
  have hd2: "healthy ?g ?d2" by (rule device_with_chain_healthy[OF ord(2) assms(6)])
  have ring: "in_ring ?g ?stop" by (rule advance_in_ring[OF g assms(4)])
  have cw: "write_log_block ?g ?d2 ?stop ?c = (Ok (), add_writes ?d2 (log_writes ?g ?stop [?c]))"
    using ring assms(7) hd2 by (simp add: write_log_block_whole healthyD)
  have h3: "healthy ?g (add_writes ?d2 (log_writes ?g ?stop [?c]))"
    using hd2 assms(7) by (intro healthy_add_writes) simp_all
  have d3: "flushed (add_writes ?d2 (log_writes ?g ?stop [?c])) = ?d3"
    using device_with_chain_append[of ?g ?d1 ?h ?bs "[?c]"] by (simp add: device_with_chain_def)
  have hd3: "healthy ?g ?d3"
    using device_with_chain_healthy[OF ord(2)] assms(6,7) by auto
  note tail = update_superblock_tail_healthy(1)[OF hd3, of ?h t]
  note pub = publish_commit_ok[OF assms(3)]
  have b2: "barrier (add_writes ?d1 (log_writes ?g ?h ?bs)) = (Ok (), ?d2)"
    using barrier_healthy[OF h2] by (simp add: device_with_chain_def)
  have b3: "barrier (add_writes ?d2 (log_writes ?g ?stop [?c])) = (Ok (), ?d3)"
    using barrier_healthy[OF h3] d3 by simp
  show ?thesis
    using assms(3) ord(1) w b2 cw b3 tail pub
    by (cases "tail_block (jstate j)")
       (simp_all add: write_transaction_def with_device_def phase_step_ok t_def[symmetric] committed_device_def
          Let_def phase_step_ok[of j txn Locked Flush d, folded t_def]
          phase_step_ok[of "set_phase j txn Flush" txn Flush Commit, folded t_def]
          phase_step_ok[of "set_phase j txn Commit" txn Commit CommitRecord, folded t_def])
qed

section \<open>The blocks have block size\<close>

lemma length_build_commit_block: "length (build_commit_block secs nsecs t seed) = BLOCK_SIZE"
  by (cases seed) (simp_all add: build_commit_block_def BLOCK_SIZE_def)

lemma length_built_descriptor:
  assumes "layout_ok L" "build_descriptor_run t run L seed = Ok r"
  shows "length (descriptor r) = BLOCK_SIZE"
proof -
  define block where "block = splice 0 (RawJournalHeader_as_bytes
    \<lparr> h_magic = JBD2_MAGIC, h_blocktype = BLOCKTYPE_DESCRIPTOR, h_sequence = t \<rparr>) (replicate BLOCK_SIZE 0)"
  have len: "length block = BLOCK_SIZE" by (simp add: block_def BLOCK_SIZE_def)
  obtain w w' where w: "TagLayout_writer L block t seed = Ok w" "put_all w (run_puts (length run) 0 run) = Ok w'"
    and r: "descriptor r = TagWriter_finish w'"
    using assms(2) by (auto simp: build_descriptor_run_def block_def put_captures_eq)
  have "writer_ok L w" using writer_ok_initial[OF assms(1) len w(1)] by blast
  then have "writer_ok L w'" using put_all_tags_in[OF assms(1) _ w(2)] by blast
  then show ?thesis using r writer_okD by simp
qed

lemma length_built_revoke:
  assumes "layout_ok L" "revoke_writer L t seed = Ok w" "revoke_put_all w bs = Ok w'"
  shows "length (RevokeBlockWriter_finish w') = BLOCK_SIZE"
  using revoke_finish_frame(1)[OF assms(1)]
    revoke_put_all_correct[OF assms(1) revoke_writer_ok_initial(1)[OF assms(1,2)] assms(3)] by blast

text \<open>The members of a built chain, with what they were built from.\<close>

lemma built_revoke_member:
  assumes "build_revoke_blocks txn L seed = Ok revs" "b \<in> set revs"
  obtains w w' run where "revoke_writer L (t_tid txn) seed = Ok w" "revoke_put_all w run = Ok w'"
    "b = RevokeBlockWriter_finish w'"
proof -
  note l = assms(1)[unfolded build_revoke_blocks_def collect_results_iff]
  from assms(2) obtain i where i: "i < length revs" "b = revs ! i" by (auto simp: in_set_conv_nth)
  from list_all2_nthD2[OF l i(1)] i(2) show ?thesis using that by auto
qed

lemma built_chain_member:
  assumes "layout_ok L" "transaction_ok txn" "build_descriptor_chain txn L seed = Ok chain" "r \<in> set chain"
  obtains run where "build_descriptor_run (t_tid txn) run L seed = Ok r" "run \<noteq> []"
    "\<forall>(b, bs)\<in>set run. length bs = BLOCK_SIZE"
    "run_log_blocks r = descriptor r # map (\<lambda>(_, bs). logged_image bs) run"
proof -
  let ?runs = "chunks (tags_per_descriptor L) (metadata_blocks txn)"
  have l: "list_all2 (\<lambda>run r. build_descriptor_run (t_tid txn) run L seed = Ok r) ?runs chain"
    using assms(3) unfolding build_descriptor_chain_def Let_def collect_results_iff[symmetric]
    by (simp split: if_splits)
  from assms(4) obtain i where i: "i < length chain" "r = chain ! i" by (auto simp: in_set_conv_nth)
  have built: "build_descriptor_run (t_tid txn) (?runs ! i) L seed = Ok r"
    using list_all2_nthD2[OF l i(1)] i(2) by simp
  have mem: "?runs ! i \<in> set ?runs" using i(1) list_all2_lengthD[OF l] by simp
  have "set (?runs ! i) \<subseteq> set (metadata_blocks txn)"
    using mem concat_chunks[OF capacities_pos(1)[OF assms(1)], of "metadata_blocks txn"]
    by (metis UN_upper set_concat)
  then have whole: "\<forall>(b, bs)\<in>set (?runs ! i). length bs = BLOCK_SIZE"
    using assms(2) by (fastforce simp: metadata_blocks_def transaction_ok_def)
  have "blocks r = map (\<lambda>(_, bs). \<lparr> lb_bytes = bs, lb_escape = needs_escape bs \<rparr>) (?runs ! i)"
    using built by (auto simp: build_descriptor_run_def put_captures_eq)
  then have "run_log_blocks r = descriptor r # map (\<lambda>(_, bs). logged_image bs) (?runs ! i)"
    by (simp add: run_log_blocks_def logged_image_def case_prod_unfold)
  with built whole chunks_member[OF mem] show ?thesis using that by blast
qed

lemma item_blocks_sized:
  assumes "layout_ok L" "transaction_ok txn" "build_revoke_blocks txn L seed = Ok revs"
    and "build_descriptor_chain txn L seed = Ok chain"
  shows "\<forall>b\<in>set (chain_blocks revs chain). length b = BLOCK_SIZE"
proof
  fix b assume b: "b \<in> set (chain_blocks revs chain)"
  show "length b = BLOCK_SIZE"
  proof (cases "b \<in> set revs")
    case True
    then show ?thesis using built_revoke_member[OF assms(3)] length_built_revoke[OF assms(1)] by metis
  next
    case False
    then obtain r where r: "r \<in> set chain" "b \<in> set (run_log_blocks r)"
      using b by (auto simp: chain_blocks_def)
    obtain run where run: "build_descriptor_run (t_tid txn) run L seed = Ok r"
      "\<forall>(b, bs)\<in>set run. length bs = BLOCK_SIZE"
      "run_log_blocks r = descriptor r # map (\<lambda>(_, bs). logged_image bs) run"
      using built_chain_member[OF assms(1,2,4) r(1)] by metis
    then show ?thesis
      using r(2) length_built_descriptor[OF assms(1) run(1)] by (auto simp: BLOCK_SIZE_def)
  qed
qed

section \<open>The log after a commit\<close>

lemma log_holds_flushed [simp]: "log_holds g (flushed d) pos bs = log_holds g d pos bs"
  by (rule log_holds_cong) simp_all

lemma dvd_once:
  fixes r x :: nat
  assumes "r dvd x" "0 < x" "x < 2 * r"
  shows "x = r"
proof -
  obtain k where k: "x = r * k" using assms(1) by (elim dvdE)
  have "0 < k" using assms(2) k by (cases k) simp_all
  moreover have "k < 2" using assms(3) k by (simp add: mult.commute)
  ultimately have "k = 1" by simp
  then show ?thesis using k by simp
qed

lemma free_log_blocks_room:
  assumes "geometry_ok g" "in_ring g tail" "m \<le> ring_size g" "0 < n"
    and "n \<le> free_log_blocks g (advance g tail m) (Some tail)"
  shows "m + n \<le> ring_size g"
proof -
  let ?r = "ring_size g" and ?f = "free_log_blocks g (advance g tail m) (Some tail)"
  have ring: "in_ring g (advance g tail m)" by (rule advance_in_ring[OF assms(1,2)])
  note fd = free_log_blocks_distance[OF assms(1) ring assms(2)]
  have "advance g tail (m + ?f) = tail"
    using fd(2) by (simp add: advance_add advance_eq_ring_at[OF assms(1) ring])
  then have "(tail - first g + (m + ?f)) mod ?r = (tail - first g + 0) mod ?r"
    using advance_eq_ring_at[OF assms(1,2), of "m + ?f"] advance_eq_ring_at[OF assms(1,2), of 0]
    by (simp add: ring_at_def)
  then have dvd: "?r dvd m + ?f"
    using mod_eq_dvd_iff_nat[of "tail - first g" "tail - first g + (m + ?f)" ?r] by simp
  have "m + ?f < 2 * ?r" "0 < m + ?f" using fd(1) assms(3-5) by simp_all
  then have "m + ?f = ?r" using dvd by (intro dvd_once)
  then show ?thesis using assms(5) by simp
qed

definition journal_log :: "Journal \<Rightarrow> device \<Rightarrow> LoggedTxn list \<Rightarrow> bool" where
  "journal_log j d xs \<longleftrightarrow>
     (let g = geometry j; st = jstate j in
      healthy g d \<and> in_ring g (head st) \<and>
      (case tail_block st of
         None \<Rightarrow> xs = [] \<and> (\<exists>raw. read_raw_superblock g d = Ok raw \<and> s_start raw = 0)
       | Some tail \<Rightarrow> xs \<noteq> [] \<and> log_state g d tail (tail_tid st) xs \<and>
                       head st = advance g tail (length (lts_blocks xs))))"

text \<open>The writes of a commit outside the journal are the ordered data.\<close>

lemma committed_device_final:
  assumes "geometry_ok g" "in_ring g pos" "b \<notin> set (block_map g)" "healthy g d" "sized_writes (ordered_writes txn)"
    and "\<forall>x\<in>set bs. length x = BLOCK_SIZE"
  shows "visible (committed_device g d txn pos bs c) b = apply_writes (ordered_writes txn) (visible d) b"
proof -
  have "b \<notin> fst ` set (log_writes g pos bs)"
    using assms(3) log_area_subset[OF assms(1,2)] by (auto simp: fst_log_writes)
  then have chain: "visible (device_with_chain g d' pos bs) b = visible d' b" for d'
    by (simp add: device_with_chain_def apply_writes_other)
  have "b \<noteq> sb_block g" using assms(3) sb_block_in_map[OF assms(1)] by auto
  moreover have "healthy g (device_with_chain g (device_with_ordered d txn) pos bs)"
    by (rule device_with_chain_healthy[OF flush_ordered_healthy(2)[OF assms(4,5)] assms(6)])
  ultimately have "visible (committed_device g d txn pos bs c) b = visible (device_with_ordered d txn) b"
    using update_superblock_tail_healthy(4) by (simp add: committed_device_def Let_def chain)
  then show ?thesis by (simp add: device_with_ordered_def ordered_writes_def)
qed

lemma log_state_kept:
  assumes "healthy g d" "log_state g d tail t xs" "in_ring g pos" "pos = advance g tail (length (lts_blocks xs))"
    and "length (lts_blocks xs) + length bs \<le> ring_size g"
    and "sized_writes (ordered_writes txn)" "\<forall>(b, _)\<in>set (ordered_writes txn). b \<notin> set (block_map g)"
    and "\<forall>b\<in>set bs. length b = BLOCK_SIZE"
  shows "log_holds g (device_with_chain g (device_with_ordered d txn) pos bs) tail (lts_blocks xs @ bs)"
    "visible (device_with_chain g (device_with_ordered d txn) pos bs) (sb_block g) = visible d (sb_block g)"
proof -
  note h = healthyD[OF assms(1)]
  let ?d1 = "device_with_ordered d txn" and ?m = "length (lts_blocks xs)"
  note hd1 = flush_ordered_healthy(2)[OF assms(1,6)]
  have tail: "in_ring g tail" "log_holds g d tail (lts_blocks xs)" using assms(2) by (auto simp: log_state_def)
  have v1: "visible ?d1 b = visible d b" if "b \<in> set (block_map g)" for b
  proof -
    have "b \<notin> fst ` set (ordered_writes txn)" using assms(7) that by auto
    then show ?thesis by (simp add: device_with_ordered_def apply_writes_other)
  qed
  have b1: "bad_read ?d1 = bad_read d" by (simp add: device_with_ordered_def)
  have area: "log_area g tail ?m \<inter> fst ` set (log_writes g pos bs) = {}"
    using log_area_disjoint[OF h(1,2) tail(1) assms(5)] by (simp add: fst_log_writes assms(4))
  have old: "log_holds g (device_with_chain g ?d1 pos bs) tail (lts_blocks xs)"
  proof -
    have "log_holds g (device_with_chain g ?d1 pos bs) tail (lts_blocks xs) = log_holds g d tail (lts_blocks xs)"
    proof (rule log_holds_cong)
      fix b assume b: "b \<in> log_area g tail ?m"
      then have "b \<notin> fst ` set (log_writes g pos bs)" "b \<in> set (block_map g)"
        using area log_area_subset[OF h(1) tail(1)] by auto
      then show "visible (device_with_chain g ?d1 pos bs) b = visible d b"
        by (simp add: device_with_chain_def apply_writes_other v1)
    qed (simp add: device_with_chain_def b1)
    then show ?thesis using tail(2) by simp
  qed
  have new: "log_holds g (device_with_chain g ?d1 pos bs) pos bs"
    using log_holds_written[OF h(1,2) assms(3), of bs ?d1] assms(5) healthyD(5)[OF hd1]
    by (simp add: device_with_chain_def)
  show "log_holds g (device_with_chain g ?d1 pos bs) tail (lts_blocks xs @ bs)"
    using old new assms(4) by (simp add: log_holds_append)
  have "sb_block g \<notin> fst ` set (log_writes g pos bs)"
    using sb_block_not_in_ring[OF h(1,2) assms(3)] by (simp add: fst_log_writes)
  then show "visible (device_with_chain g ?d1 pos bs) (sb_block g) = visible d (sb_block g)"
    using v1[OF sb_block_in_map[OF h(1)]] by (simp add: device_with_chain_def apply_writes_other)
qed

lemma log_state_no_txns:
  assumes "in_ring g pos" "read_raw_superblock g d = Ok raw" "s_start raw = word_of_nat pos" "s_sequence raw = t"
  shows "log_state g d pos t []"
  using assms by (auto simp: log_state_def)

text \<open>A transaction as it will sit in the log.\<close>

lemma built_logged_txn:
  assumes "geometry_ok g" "transaction_ok txn"
    and "build_revoke_blocks txn (tag_layout g) (csum_seed g) = Ok revs"
    and "build_descriptor_chain txn (tag_layout g) (csum_seed g) = Ok chain"
    and "commit_footprint revs chain \<le> ring_size g"
  obtains x where "lt_ok g (t_tid txn) x" "lt_writes x = metadata_blocks txn" "lt_revokes x = t_revoked txn"
    "lt_blocks x = chain_blocks revs chain @ [build_commit_block secs nsecs (t_tid txn) (csum_seed g)]"
    "length (lt_blocks x) = commit_footprint revs chain"
    "\<forall>b\<in>set (lt_blocks x). length b = BLOCK_SIZE"
proof -
  have L: "layout_ok (tag_layout g)" using assms(1) by (simp add: geometry_ok_def)
  obtain items where it: "list_all (item_ok (tag_layout g) (csum_seed g) (t_tid txn)) items"
    "items_blocks items = chain_blocks revs chain"
    "items_writes items = metadata_blocks txn" "items_revokes items = t_revoked txn"
    "commit_footprint revs chain = length (items_blocks items) + 1"
    by (rule built_transaction_items[OF L assms(2-4)])
  have sz: "\<forall>b\<in>set (chain_blocks revs chain). length b = BLOCK_SIZE"
    by (rule item_blocks_sized[OF L assms(2-4)])
  let ?c = "build_commit_block secs nsecs (t_tid txn) (csum_seed g)"
  have "length (items_blocks items) \<le> maxlen g" using it(5) assms(5) by (simp add: ring_size_def)
  then have "lt_ok g (t_tid txn) (items, ?c)" using it(1) by (simp add: lt_ok_def built_commit_block)
  then show ?thesis
    using that[of "(items, ?c)"] it sz
    by (auto simp: lt_writes_def lt_revokes_def lt_blocks_def length_build_commit_block)
qed

text \<open>What a caller of the commit guarantees of the staged transaction: it sits locked in the
  committing slot, its blocks are file-system blocks outside the log, and its id continues the
  committed log.\<close>

definition committable :: "Journal \<Rightarrow> LoggedTxn list \<Rightarrow> Transaction \<Rightarrow> bool" where
  "committable j xs txn \<longleftrightarrow>
     in_commit j txn Locked \<and> transaction_ok txn \<and>
     sized_writes (ordered_writes txn) \<and>
     (\<forall>(b, _)\<in>set (ordered_writes txn). b \<notin> set (block_map (geometry j))) \<and>
     (\<forall>(b, _)\<in>set (metadata txn). b \<notin> set (block_map (geometry j))) \<and>
     (tail_block (jstate j) \<noteq> None \<longrightarrow> t_tid txn = tail_tid (jstate j) + word_of_nat (length xs))"

lemma committed_journal_simps [simp]:
  "geometry (committed_journal j txn n) = geometry j"
  "head (jstate (committed_journal j txn n)) = advance (geometry j) (head (jstate j)) n"
  "tail_block (jstate (committed_journal j txn n)) =
     (case tail_block (jstate j) of None \<Rightarrow> Some (head (jstate j)) | Some p \<Rightarrow> Some p)"
  "tail_tid (jstate (committed_journal j txn n)) =
     (if tail_block (jstate j) = None then t_tid txn else tail_tid (jstate j))"
  "committed_tid (committed_journal j txn n) = t_tid txn"
  "running (jstate (committed_journal j txn n)) = running (jstate j)"
  "locking (jstate (committed_journal j txn n)) = locking (jstate j)"
  "uncheckpointed (jstate (committed_journal j txn n)) = uncheckpointed (jstate j)"
  "in_commit (committed_journal j txn n) txn Finished"
  by (simp_all add: committed_journal_def set_phase_def in_commit_def Let_def split: option.splits)

lemma captures_final:
  assumes "healthy g d" "transaction_ok txn" "\<forall>(b, _)\<in>set (metadata txn). b \<notin> set (block_map g)"
  shows "final_writes g d (metadata_blocks txn)"
  using assms healthyD(6)[OF assms(1)]
  by (fastforce simp: final_writes_def sized_writes_def metadata_blocks_def transaction_ok_def)

lemma try_commit_cases:
  assumes "try_commit_transaction secs nsecs j d txn = (Ok (Committed t), j', d')"
  obtains revs chain where "build_revoke_blocks txn (tag_layout (geometry j)) (csum_seed (geometry j)) = Ok revs"
    "build_descriptor_chain txn (tag_layout (geometry j)) (csum_seed (geometry j)) = Ok chain"
    "commit_footprint revs chain \<le> free_log_blocks (geometry j) (head (jstate j)) (tail_block (jstate j))"
    "write_transaction secs nsecs j d txn revs chain = (Ok (Committed t), j', d')"
  using assms by (auto simp: try_commit_transaction_def Let_def not_less split: sum.splits if_splits)

lemma commit_room:
  assumes "journal_log j d xs" "0 < n"
    and "n \<le> free_log_blocks (geometry j) (head (jstate j)) (tail_block (jstate j))"
  shows "length (lts_blocks xs) + n \<le> ring_size (geometry j)"
proof (cases "tail_block (jstate j)")
  case None
  then show ?thesis using assms by (simp add: journal_log_def free_log_blocks_def ring_size_def Let_def)
next
  case (Some tail)
  then have "geometry_ok (geometry j)" "in_ring (geometry j) tail" "length (lts_blocks xs) \<le> ring_size (geometry j)"
    "head (jstate j) = advance (geometry j) tail (length (lts_blocks xs))"
    using assms(1) by (auto simp: journal_log_def log_state_def Let_def dest: healthyD)
  then show ?thesis using free_log_blocks_room[of "geometry j" tail "length (lts_blocks xs)" n] assms(2,3) Some by simp
qed

lemma commit_result:
  assumes "journal_log j d xs" "committable j xs txn"
    and "try_commit_transaction secs nsecs j d txn = (Ok (Committed t), j', d')"
  obtains x where "lt_ok (geometry j) (t_tid txn) x" "lt_writes x = metadata_blocks txn" "lt_revokes x = t_revoked txn"
    "\<forall>b\<in>set (lt_blocks x). length b = BLOCK_SIZE" "t = t_tid txn"
    "length (lts_blocks xs) + length (lt_blocks x) \<le> ring_size (geometry j)"
    "j' = committed_journal j txn (length (lt_blocks x))"
    "d' = committed_device (geometry j) d txn (head (jstate j)) (lt_blocks x) (tail_block (jstate j) = None)"
proof -
  let ?g = "geometry j"
  have h: "healthy ?g d" "in_ring ?g (head (jstate j))" using assms(1) by (auto simp: journal_log_def Let_def)
  obtain revs chain where b: "build_revoke_blocks txn (tag_layout ?g) (csum_seed ?g) = Ok revs"
    "build_descriptor_chain txn (tag_layout ?g) (csum_seed ?g) = Ok chain"
    "commit_footprint revs chain \<le> free_log_blocks ?g (head (jstate j)) (tail_block (jstate j))"
    "write_transaction secs nsecs j d txn revs chain = (Ok (Committed t), j', d')"
    using try_commit_cases[OF assms(3)] by blast
  have room: "length (lts_blocks xs) + commit_footprint revs chain \<le> ring_size ?g"
    using b(3) by (intro commit_room[OF assms(1)]) (simp_all add: commit_footprint_def)
  obtain x where x: "lt_ok ?g (t_tid txn) x" "lt_writes x = metadata_blocks txn" "lt_revokes x = t_revoked txn"
    "lt_blocks x = chain_blocks revs chain @ [build_commit_block secs nsecs (t_tid txn) (csum_seed ?g)]"
    "length (lt_blocks x) = commit_footprint revs chain" "\<forall>b\<in>set (lt_blocks x). length b = BLOCK_SIZE"
    using built_logged_txn[OF healthyD(1)[OF h(1)] _ b(1,2), of secs nsecs] assms(2) room
    by (auto simp: committable_def)
  have "write_transaction secs nsecs j d txn revs chain =
      (Ok (Committed (t_tid txn)), committed_journal j txn (commit_footprint revs chain),
       committed_device ?g d txn (head (jstate j)) (lt_blocks x) (tail_block (jstate j) = None))"
    unfolding x(4) using assms(2) x(4,6) h
    by (intro write_transaction_healthy) (auto simp: committable_def length_build_commit_block)
  then show ?thesis using that[OF x(1-3,6)] b(4) room x(5) by simp
qed

lemma commit_extends_log:
  assumes "journal_log j d xs" "committable j xs txn"
    and "try_commit_transaction secs nsecs j d txn = (Ok (Committed t), j', d')"
  shows "\<exists>x. lt_ok (geometry j) t x \<and> lt_writes x = metadata_blocks txn \<and> lt_revokes x = t_revoked txn \<and>
    journal_log j' d' (xs @ [x])"
proof -
  let ?g = "geometry j" and ?h = "head (jstate j)"
  have h: "healthy ?g d" "in_ring ?g ?h" using assms(1) by (auto simp: journal_log_def Let_def)
  note hd = healthyD[OF h(1)]
  obtain x where x: "lt_ok ?g (t_tid txn) x" "lt_writes x = metadata_blocks txn" "lt_revokes x = t_revoked txn"
    "\<forall>b\<in>set (lt_blocks x). length b = BLOCK_SIZE" "t = t_tid txn"
    "length (lts_blocks xs) + length (lt_blocks x) \<le> ring_size ?g"
    "j' = committed_journal j txn (length (lt_blocks x))"
    "d' = committed_device ?g d txn ?h (lt_blocks x) (tail_block (jstate j) = None)"
    by (rule commit_result[OF assms])
  let ?d3 = "device_with_chain ?g (device_with_ordered d txn) ?h (lt_blocks x)"
  have com: "sized_writes (ordered_writes txn)" "\<forall>(b, _)\<in>set (ordered_writes txn). b \<notin> set (block_map ?g)"
    "transaction_ok txn" "\<forall>(b, _)\<in>set (metadata txn). b \<notin> set (block_map ?g)"
    using assms(2) by (auto simp: committable_def)
  have h3: "healthy ?g ?d3"
    by (rule device_with_chain_healthy[OF flush_ordered_healthy(2)[OF h(1) com(1)] x(4)])
  have fx: "final_writes ?g d' (lt_writes x)" if "healthy ?g d'" for d'
    using captures_final[OF that com(3,4)] x(2) by simp
  have ring': "in_ring ?g (advance ?g ?h n)" for n by (rule advance_in_ring[OF hd(1) h(2)])
  have "journal_log j' d' (xs @ [x])"
  proof (cases "tail_block (jstate j)")
    case None
    then have xs: "xs = []" using assms(1) by (simp add: journal_log_def Let_def)
    note tl = update_superblock_tail_healthy[OF h3, where pos = ?h and t = "t_tid txn"]
    have d': "d' = device_with_tail ?g ?d3 ?h (t_tid txn)" using x(8) None by (simp add: committed_device_def Let_def)
    obtain raw where raw: "read_raw_superblock ?g d = Ok raw" by (simp add: read_raw_superblock_healthy[OF h(1)])
    have "log_holds ?g ?d3 ?h (lt_blocks x)"
      using log_holds_written[OF hd(1,2) h(2), of "lt_blocks x" "device_with_ordered d txn"] x(6) xs
        healthyD(5)[OF flush_ordered_healthy(2)[OF h(1) com(1)]]
      by (simp add: device_with_chain_def)
    moreover have "log_holds ?g d' ?h (lt_blocks x) = log_holds ?g ?d3 ?h (lt_blocks x)"
    proof (rule log_holds_cong)
      show "bad_read d' = bad_read ?d3" using healthyD(5)[OF h3] healthyD(5)[OF tl(2)] by (auto simp: d')
      show "visible d' b = visible ?d3 b" if "b \<in> log_area ?g ?h (length (lt_blocks x))" for b
        using that sb_block_not_in_ring[OF hd(1,2) h(2)] tl(4) by (metis d')
    qed
    ultimately have "log_state ?g d' ?h (t_tid txn) [x]"
      using h(2) x(1,6) xs tl(3) fx[OF tl(2)] by (simp add: log_state_def d')
    then show ?thesis
      using None x(7) xs tl(2) ring' by (simp add: journal_log_def Let_def d')
  next
    case (Some tail)
    then have st: "xs \<noteq> []" "log_state ?g d tail (tail_tid (jstate j)) xs" "?h = advance ?g tail (length (lts_blocks xs))"
      using assms(1) by (auto simp: journal_log_def Let_def)
    have d': "d' = ?d3" using x(8) Some by (simp add: committed_device_def Let_def)
    note keep = log_state_kept[OF h(1) st(2) h(2) st(3) x(6) com(1,2) x(4)]
    have sb: "read_raw_superblock ?g ?d3 = read_raw_superblock ?g d"
      using keep(2) by (simp add: read_raw_superblock_healthy[OF h(1)] read_raw_superblock_healthy[OF h3])
    have tid: "t_tid txn = tail_tid (jstate j) + word_of_nat (length xs)"
      using assms(2) Some by (simp add: committable_def)
    have fw: "final_writes ?g ?d3 (concat (map lt_writes xs))"
      using st(2) healthyD(6)[OF h3] by (auto simp: log_state_def final_writes_def)
    have "log_state ?g d' tail (tail_tid (jstate j)) (xs @ [x])"
      using st(2) keep(1) sb x(1,6) tid fx[OF h3] fw by (simp add: log_state_def lts_ok_append d')
    then show ?thesis
      using Some x(7) st h3 ring' by (simp add: journal_log_def Let_def d' advance_add)
  qed
  then show ?thesis using x by blast
qed

section \<open>Logged data never looks like a journal block\<close>

definition journal_block_of :: "bytes \<Rightarrow> tid \<Rightarrow> bool" where
  "journal_block_of b t \<longleftrightarrow>
     h_magic (RawJournalHeader_parse b) = JBD2_MAGIC \<and> h_sequence (RawJournalHeader_parse b) = t"

lemma logged_image_no_magic:
  assumes "4 \<le> length bs"
  shows "\<not> journal_block_of (logged_image bs) t"
proof
  assume "journal_block_of (logged_image bs) t"
  then have m: "word_of_be (take 4 (logged_image bs)) = JBD2_MAGIC"
    by (simp add: journal_block_of_def RawJournalHeader_parse_def)
  show False
  proof (cases "needs_escape bs")
    case True
    then have "take 4 (logged_image bs) = [0, 0, 0, 0]"
      using assms by (simp add: logged_image_def zero_head_def splice_def)
    then show False using m by (simp add: word_of_be_def JBD2_MAGIC_def)
  next
    case False
    then have "take 4 bs \<noteq> be32 JBD2_MAGIC" by (simp add: needs_escape_def JBD2_MAGIC_BYTES_def)
    moreover have "be32 (word_of_be (take 4 bs) :: u32) = take 4 bs"
      using assms word_to_be_of_be[of "take 4 bs", where 'a = 32] by simp
    ultimately show False using m False by (metis logged_image_def)
  qed
qed

lemma header_is_tid: "header_is b ty t \<Longrightarrow> journal_block_of b t' \<Longrightarrow> t' = t"
  by (simp add: header_is_def journal_block_of_def)

lemma built_blocks_tid:
  assumes "layout_ok L" "transaction_ok txn" "build_revoke_blocks txn L seed = Ok revs"
    and "build_descriptor_chain txn L seed = Ok chain" "b \<in> set (chain_blocks revs chain)" "journal_block_of b t"
  shows "t = t_tid txn"
proof (cases "b \<in> set revs")
  case True
  obtain w w' run where "revoke_writer L (t_tid txn) seed = Ok w" "revoke_put_all w run = Ok w'"
    "b = RevokeBlockWriter_finish w'"
    by (rule built_revoke_member[OF assms(3) True])
  then have "header_is b BLOCKTYPE_REVOKE (t_tid txn)" using built_revoke_block[OF assms(1)] by fastforce
  then show ?thesis using header_is_tid assms(6) by blast
next
  case False
  then obtain r where r: "r \<in> set chain" "b \<in> set (run_log_blocks r)"
    using assms(5) by (auto simp: chain_blocks_def)
  obtain run where run: "build_descriptor_run (t_tid txn) run L seed = Ok r" "run \<noteq> []"
    "\<forall>(b, bs)\<in>set run. length bs = BLOCK_SIZE"
    "run_log_blocks r = descriptor r # map (\<lambda>(_, bs). logged_image bs) run"
    by (rule built_chain_member[OF assms(1,2,4) r(1)])
  have "\<not> journal_block_of (logged_image bs) t" if "(c, bs) \<in> set run" for c bs
    using that run(3) by (intro logged_image_no_magic) (auto simp: BLOCK_SIZE_def)
  then have "b = descriptor r" using r(2) assms(6) by (auto simp: run(4))
  moreover obtain tagged where "item_ok L seed (t_tid txn) (DescriptorItem (descriptor r) tagged)"
    by (rule built_descriptor_run[OF assms(1) run(1-3)])
  ultimately have "header_is b BLOCKTYPE_DESCRIPTOR (t_tid txn)" by simp
  then show ?thesis using header_is_tid assms(6) by blast
qed

end
