(* ===== verification/Crash_Safety.thy ===== *)
theory Crash_Safety
  imports Commit_Correct
begin

text \<open>
  Crash safety of the commit path.  The device may refuse any write and may stop completing
  flushes at any moment, and power may be cut at any time, which keeps an arbitrary part of the
  cached writes.  A power cut in the middle of a stretch between two flushes leaves one of the
  images the run leaves whose device stops completing flushes at the second one, so the runs over
  all faults are all the crash points.  Whatever happens, the image recovers either the
  transactions committed before or those and the whole new transaction, in the latter case with
  the ordered data of the transaction on its final blocks.
\<close>

section \<open>Images and what they recover\<close>

text \<open>A device freshly attached after a crash: only the durable content is left.\<close>

definition mounted :: "(u64 \<Rightarrow> bytes) \<Rightarrow> device" where
  "mounted m = \<lparr> durable = m, pending = [], bad_read = (\<lambda>_. False), bad_write = (\<lambda>_. False), syncs_left = None \<rparr>"

lemma mounted_simps [simp]:
  "visible (mounted m) = m" "durable (mounted m) = m" "pending (mounted m) = []"
  "\<not> bad_read (mounted m) b" "\<not> bad_write (mounted m) b" "syncs_left (mounted m) = None"
  by (simp_all add: mounted_def visible_def)

text \<open>An image from which recovery replays exactly the transactions \<open>xs\<close>, the first with id \<open>t\<close>.\<close>

definition recoverable :: "JournalGeometry \<Rightarrow> (u64 \<Rightarrow> bytes) \<Rightarrow> tid \<Rightarrow> LoggedTxn list \<Rightarrow> bool" where
  "recoverable g m t xs \<longleftrightarrow>
     healthy g (mounted m) \<and>
     (\<exists>raw. read_raw_superblock g (mounted m) = Ok raw \<and>
        (if s_start raw = 0 then xs = []
         else \<exists>pos. log_state g (mounted m) pos t xs \<and>
                scan_transaction g (mounted m) (advance g pos (length (lts_blocks xs)))
                  (t + word_of_nat (length xs)) = Ok None))"

definition recovered :: "(u64 \<Rightarrow> bytes) \<Rightarrow> tid \<Rightarrow> LoggedTxn list \<Rightarrow> u64 \<Rightarrow> bytes" where
  "recovered m t xs = apply_writes (replay_writes (collected t xs) t xs) m"

lemma recovered_Nil [simp]: "recovered m t [] = m"
  by (simp add: recovered_def)

lemma word_of_nat_pos:
  assumes "healthy g d" "in_ring g pos"
  shows "(word_of_nat pos :: u32) \<noteq> 0" "unat (word_of_nat pos :: u32) = pos"
proof -
  have "0 < pos" "pos < 2 ^ 32" using assms by (auto simp: healthy_def in_ring_def geometry_ok_def)
  then show "unat (word_of_nat pos :: u32) = pos" by (simp add: unat_of_nat)
  then show "(word_of_nat pos :: u32) \<noteq> 0" using \<open>0 < pos\<close> by auto
qed

lemma recover_recoverable:
  assumes "recoverable g m t xs" "geometry j = g"
  shows "\<exists>j' d'. recover j (mounted m) = Some (Ok (), j', d') \<and>
    (\<forall>b. b \<notin> set (block_map g) \<longrightarrow> visible d' b = recovered m t xs b) \<and>
    pending d' = [] \<and> healthy g d' \<and> (\<exists>raw. read_raw_superblock g d' = Ok raw \<and> s_start raw = 0)"
proof -
  obtain raw where raw: "read_raw_superblock g (mounted m) = Ok raw" using assms by (auto simp: recoverable_def)
  have h: "healthy g (mounted m)" using assms(1) by (simp add: recoverable_def)
  show ?thesis
  proof (cases "s_start raw = 0")
    case True
    then have "xs = []" using assms(1) raw by (auto simp: recoverable_def)
    moreover have "recover j (mounted m) = Some (Ok (), j, mounted m)"
      using True raw assms(2) by (simp add: recover_def recovery_start_def Let_def)
    ultimately show ?thesis using True raw h by simp
  next
    case False
    then obtain pos where ls: "log_state g (mounted m) pos t xs"
      "scan_transaction g (mounted m) (advance g pos (length (lts_blocks xs))) (t + word_of_nat (length xs)) = Ok None"
      using assms(1) raw by (auto simp: recoverable_def)
    let ?ws = "replay_writes (collected t xs) t xs"
    let ?sb = "\<lambda>raw. raw\<lparr> s_start := 0, s_sequence := t + word_of_nat (length xs), s_head := word_of_nat (first g) \<rparr>"
    obtain raw' where r: "recover j (mounted m) = Some (Ok (), publish_recovery j (t + word_of_nat (length xs)),
        with_superblock g (flushed (add_writes (mounted m) ?ws)) (?sb raw'))" "raw_sb_ok raw'"
      using recover_log_state[OF h ls(1) assms(2) ls(2)] by blast
    let ?d = "flushed (add_writes (mounted m) ?ws)"
    have "final_writes g (mounted m) (concat (map lt_writes xs))" using ls(1) by (simp add: log_state_def)
    from final_writes_replay[OF this] have "sized_writes ?ws" by (simp only: final_writes_def)
    then have hd: "healthy g ?d" using healthy_add_writes[OF h] by simp
    have ok: "raw_sb_ok (?sb raw')" using r(2) by (simp add: raw_sb_ok_def)
    note w = write_superblock_healthy[OF hd ok]
    have "visible (with_superblock g ?d (?sb raw')) b = recovered m t xs b" if "b \<notin> set (block_map g)" for b
      using that w(4)[of b] sb_block_in_map[OF healthyD(1)[OF h]] by (auto simp: recovered_def)
    moreover have "pending (with_superblock g ?d (?sb raw')) = []" by (simp add: with_superblock_def)
    ultimately show ?thesis using r(1) w(2,3) by (auto simp: stamp_checksum_def)
  qed
qed

section \<open>The scan over a torn transaction\<close>

text \<open>The blocks of a chain, each either in place or still showing something that is no journal
  block of the transaction, with no commit block behind them: the scan sees no transaction.\<close>

lemma scan_loop_boundary: "boundary_at g d pos t \<Longrightarrow> scan_loop g d t pos consumed ok = Ok None"
  by (subst scan_loop.simps) (auto simp: boundary_at_def Let_def)

lemma scan_loop_torn:
  "list_all (item_ok (tag_layout g) (csum_seed g) t) items \<Longrightarrow>
   \<forall>i<length (items_blocks items).
     read_log_block g d (advance g pos i) = Ok (items_blocks items ! i) \<or> boundary_at g d (advance g pos i) t \<Longrightarrow>
   boundary_at g d (advance g pos (length (items_blocks items))) t \<Longrightarrow>
   consumed + length (items_blocks items) \<le> maxlen g \<Longrightarrow>
   scan_loop g d t pos consumed ok = Ok None"
proof (induction items arbitrary: pos consumed ok)
  case Nil
  then show ?case by (simp add: scan_loop_boundary)
next
  case (Cons item items)
  let ?n = "length (item_blocks item)"
  have rest: "\<forall>i<length (items_blocks items).
     read_log_block g d (advance g (advance g pos ?n) i) = Ok (items_blocks items ! i) \<or>
     boundary_at g d (advance g (advance g pos ?n) i) t"
  proof (intro allI impI)
    fix i assume "i < length (items_blocks items)"
    then show "read_log_block g d (advance g (advance g pos ?n) i) = Ok (items_blocks items ! i) \<or>
        boundary_at g d (advance g (advance g pos ?n) i) t"
      using Cons.prems(2)[rule_format, of "?n + i"] by (simp add: nth_append advance_add)
  qed
  have "boundary_at g d (advance g (advance g pos ?n) (length (items_blocks items))) t"
    using Cons.prems(3) by (simp add: advance_add)
  note IH = Cons.IH[OF _ rest this]
  have nz: "0 < ?n" by (cases item) simp_all
  consider (torn) "boundary_at g d pos t" | (there) "read_log_block g d pos = Ok (item_blocks item ! 0)"
    using Cons.prems(2)[rule_format, of 0] nz by (auto simp: nth_append)
  then show ?case
  proof cases
    case torn
    then show ?thesis by (rule scan_loop_boundary)
  next
    case there
    show ?thesis
    proof (cases item)
      case (RevokeItem b bs)
      then have "scan_loop g d t pos consumed ok = scan_loop g d t (next_log_block g pos) (consumed + 1)
          (ok \<and> tail_ok (csum_seed g) b)"
        using Cons.prems(1,4) there
        by (subst scan_loop.simps) (auto simp: header_is_def tail_ok_def Let_def header_consts split: option.splits)
      then show ?thesis using IH Cons.prems(1,4) RevokeItem by (simp add: advance_Suc)
    next
      case (DescriptorItem b tagged)
      then have "scan_loop g d t pos consumed ok = scan_loop g d t (advance g pos (Suc (length tagged)))
          (consumed + Suc (length tagged)) (ok \<and> tail_ok (csum_seed g) b)"
        using Cons.prems(1,4) there
        by (subst scan_loop.simps)
           (auto simp: header_is_def tail_ok_def Let_def header_consts step_tags_ok advance_next split: option.splits)
      then show ?thesis using IH Cons.prems(1,4) DescriptorItem by simp
    qed
  qed
qed

lemma scan_torn:
  assumes "lt_ok g t x"
    and "\<forall>i<length (items_blocks (fst x)).
      read_log_block g d (advance g pos i) = Ok (lt_blocks x ! i) \<or> boundary_at g d (advance g pos i) t"
    and "boundary_at g d (advance g pos (length (items_blocks (fst x)))) t"
  shows "scan_transaction g d pos t = Ok None"
  unfolding scan_transaction_def
  by (rule scan_loop_torn[where items = "fst x"])
     (use assms in \<open>auto simp: lt_ok_def lt_blocks_def nth_append\<close>)

section \<open>The images a commit may leave\<close>

text \<open>What a commit of one transaction puts where: the content \<open>cp_old\<close> it starts from, the
  content \<open>cp_data\<close> of the file-system blocks once the ordered data is out, the chain and the
  commit block with their place in the log, and the superblock that anchors a log that was empty.\<close>

record commit_plan =
  cp_geometry :: JournalGeometry
  cp_old :: "u64 \<Rightarrow> bytes"
  cp_data :: "u64 \<Rightarrow> bytes"
  cp_pos :: nat
  cp_chain :: "bytes list"
  cp_commit :: bytes
  cp_anchor :: bytes

definition cp_slot :: "commit_plan \<Rightarrow> nat \<Rightarrow> u64" where
  "cp_slot p i = block_map (cp_geometry p) ! advance (cp_geometry p) (cp_pos p) i"

abbreviation cp_area :: "commit_plan \<Rightarrow> u64 set" where
  "cp_area p \<equiv> log_area (cp_geometry p) (cp_pos p) (length (cp_chain p) + 1)"

text \<open>The order the commit guarantees between its writes: the commit block only over a complete
  chain and complete ordered data (\<open>sealed\<close>), the superblock only over the commit block
  (\<open>anchored\<close>).\<close>

definition commit_image :: "commit_plan \<Rightarrow> bool \<Rightarrow> bool \<Rightarrow> (u64 \<Rightarrow> bytes) \<Rightarrow> bool" where
  "commit_image p sealed anchored m \<longleftrightarrow>
     (\<forall>b. length (m b) = BLOCK_SIZE) \<and>
     (\<forall>b\<in>set (block_map (cp_geometry p)). b \<notin> cp_area p \<longrightarrow> b \<noteq> sb_block (cp_geometry p) \<longrightarrow> m b = cp_old p b) \<and>
     (\<forall>i<length (cp_chain p).
        m (cp_slot p i) = cp_chain p ! i \<or> \<not> sealed \<and> m (cp_slot p i) = cp_old p (cp_slot p i)) \<and>
     m (cp_slot p (length (cp_chain p))) =
       (if sealed then cp_commit p else cp_old p (cp_slot p (length (cp_chain p)))) \<and>
     m (sb_block (cp_geometry p)) = (if anchored then cp_anchor p else cp_old p (sb_block (cp_geometry p))) \<and>
     (anchored \<longrightarrow> sealed) \<and>
     (sealed \<longrightarrow> (\<forall>b. b \<notin> set (block_map (cp_geometry p)) \<longrightarrow> m b = cp_data p b))"

text \<open>No block of the ring is a journal block of the given transaction.\<close>

definition stale_free :: "JournalGeometry \<Rightarrow> (u64 \<Rightarrow> bytes) \<Rightarrow> tid \<Rightarrow> bool" where
  "stale_free g m t \<longleftrightarrow> (\<forall>p. in_ring g p \<longrightarrow> \<not> journal_block_of (m (block_map g ! p)) t)"

lemma boundary_mounted:
  assumes "geometry_ok g" "in_ring g p" "\<not> journal_block_of (m (block_map g ! p)) t"
  shows "boundary_at g (mounted m) p t"
  using assms by (auto simp: boundary_at_def read_log_block_ok journal_block_of_def in_ring_def geometry_ok_def)

lemma healthy_mounted:
  "healthy g (mounted m') \<Longrightarrow> \<forall>b. length (m b) = BLOCK_SIZE \<Longrightarrow> healthy g (mounted m)"
  by (simp add: healthy_def sized_def)

lemma read_superblock_mounted:
  "healthy g (mounted m) \<Longrightarrow> read_raw_superblock g (mounted m) =
     Ok (RawJournalSuperblock_from_bytes (take JOURNAL_SUPERBLOCK_SIZE (m (sb_block g))))"
  by (simp add: read_raw_superblock_healthy)

lemma log_holds_mounted:
  "(\<And>b. b \<in> log_area g pos (length bs) \<Longrightarrow> m' b = m b) \<Longrightarrow>
   log_holds g (mounted m') pos bs = log_holds g (mounted m) pos bs"
  by (rule log_holds_cong) (simp_all add: mounted_def visible_def)

text \<open>What ties a plan to a transaction \<open>x\<close> that fits behind the log \<open>xs\<close>.\<close>

definition plan_ok :: "commit_plan \<Rightarrow> Journal \<Rightarrow> LoggedTxn list \<Rightarrow> tid \<Rightarrow> LoggedTxn \<Rightarrow> bool" where
  "plan_ok p j xs t x \<longleftrightarrow>
     cp_geometry p = geometry j \<and> journal_log j (mounted (cp_old p)) xs \<and> cp_pos p = head (jstate j) \<and>
     lt_ok (geometry j) t x \<and> lt_blocks x = cp_chain p @ [cp_commit p] \<and>
     final_writes (geometry j) (mounted (cp_old p)) (lt_writes x) \<and>
     length (lts_blocks xs) + length (lt_blocks x) \<le> ring_size (geometry j) \<and>
     (tail_block (jstate j) \<noteq> None \<longrightarrow> t = tail_tid (jstate j) + word_of_nat (length xs)) \<and>
     stale_free (geometry j) (cp_old p) t \<and> stale_free (geometry j) (cp_old p) (tid_next t) \<and>
     (\<forall>b\<in>set (lt_blocks x). \<not> journal_block_of b (tid_next t)) \<and>
     s_start (RawJournalSuperblock_from_bytes (take JOURNAL_SUPERBLOCK_SIZE (cp_anchor p))) = word_of_nat (cp_pos p) \<and>
     s_sequence (RawJournalSuperblock_from_bytes (take JOURNAL_SUPERBLOCK_SIZE (cp_anchor p))) = t"

lemma plan_okD:
  assumes "plan_ok p j xs t x"
  shows "cp_geometry p = geometry j" "journal_log j (mounted (cp_old p)) xs" "cp_pos p = head (jstate j)"
    "lt_ok (geometry j) t x" "lt_blocks x = cp_chain p @ [cp_commit p]"
    "items_blocks (fst x) = cp_chain p" "healthy (geometry j) (mounted (cp_old p))" "in_ring (geometry j) (cp_pos p)"
    "length (lts_blocks xs) + length (lt_blocks x) \<le> ring_size (geometry j)"
  using assms by (auto simp: plan_ok_def journal_log_def Let_def lt_blocks_def)

lemma image_outside_area:
  assumes "plan_ok p j xs t x" "commit_image p sl an m" "tail_block (jstate j) = Some tail"
  shows "log_holds (geometry j) (mounted m) tail (lts_blocks xs)"
proof -
  let ?g = "geometry j"
  note d = plan_okD[OF assms(1)] and h = healthyD[OF plan_okD(7)[OF assms(1)]]
  have st: "in_ring ?g tail" "log_holds ?g (mounted (cp_old p)) tail (lts_blocks xs)"
    "cp_pos p = advance ?g tail (length (lts_blocks xs))"
    using d(2,3) assms(3) by (auto simp: journal_log_def log_state_def Let_def)
  have "m b = cp_old p b" if b: "b \<in> log_area ?g tail (length (lts_blocks xs))" for b
  proof -
    have "b \<notin> cp_area p"
      using b log_area_disjoint[OF h(1,2) st(1) d(9)] d(1,5) st(3) by auto
    moreover have "b \<in> set (block_map ?g)" using b log_area_subset[OF h(1) st(1)] by blast
    moreover have "b \<noteq> sb_block ?g" using b sb_block_not_in_ring[OF h(1,2) st(1)] by blast
    ultimately show ?thesis using assms(2) d(1) by (simp add: commit_image_def)
  qed
  then show ?thesis using st(2) log_holds_mounted by blast
qed

lemma unsealed_scan:
  assumes "plan_ok p j xs t x" "commit_image p False an m"
  shows "scan_transaction (geometry j) (mounted m) (cp_pos p) t = Ok None"
proof (rule scan_torn[where x = x])
  let ?g = "geometry j"
  note d = plan_okD[OF assms(1)] and h = healthyD[OF plan_okD(7)[OF assms(1)]]
  have ring: "in_ring ?g (advance ?g (cp_pos p) i)" for i by (rule advance_in_ring[OF h(1) d(8)])
  then have lt: "advance ?g (cp_pos p) i < length (block_map ?g)" for i
    using h(1) by (auto simp: in_ring_def geometry_ok_def intro: less_le_trans)
  have old: "boundary_at ?g (mounted m) (advance ?g (cp_pos p) i) t" if "m (cp_slot p i) = cp_old p (cp_slot p i)" for i
    using that assms(1) ring[of i] d(1)
    by (intro boundary_mounted[OF h(1)]) (auto simp: plan_ok_def stale_free_def cp_slot_def)
  show "lt_ok ?g t x" by (rule d(4))
  show "boundary_at ?g (mounted m) (advance ?g (cp_pos p) (length (items_blocks (fst x)))) t"
    using assms(2) d(6) by (intro old) (simp add: commit_image_def)
  show "\<forall>i<length (items_blocks (fst x)).
      read_log_block ?g (mounted m) (advance ?g (cp_pos p) i) = Ok (lt_blocks x ! i) \<or>
      boundary_at ?g (mounted m) (advance ?g (cp_pos p) i) t"
  proof (intro allI impI)
    fix i assume i: "i < length (items_blocks (fst x))"
    then consider "m (cp_slot p i) = cp_chain p ! i" | "m (cp_slot p i) = cp_old p (cp_slot p i)"
      using assms(2) d(6) by (auto simp: commit_image_def)
    then show "read_log_block ?g (mounted m) (advance ?g (cp_pos p) i) = Ok (lt_blocks x ! i) \<or>
        boundary_at ?g (mounted m) (advance ?g (cp_pos p) i) t"
      using i old[of i] lt[of i] d(1,5,6) by cases (auto simp: read_log_block_ok cp_slot_def nth_append)
  qed
qed

lemma image_superblock:
  "commit_image p sl False m \<Longrightarrow> m (sb_block (cp_geometry p)) = cp_old p (sb_block (cp_geometry p))"
  by (simp add: commit_image_def)

lemma image_healthy: "plan_ok p j xs t x \<Longrightarrow> commit_image p sl an m \<Longrightarrow> healthy (geometry j) (mounted m)"
  using healthy_mounted[of "geometry j" "cp_old p" m] by (auto dest: plan_okD(7) simp: commit_image_def)

text \<open>The log was empty and the superblock still says so: nothing is replayed.\<close>

lemma unanchored_recoverable:
  assumes "plan_ok p j xs t x" "commit_image p sl False m" "tail_block (jstate j) = None"
  shows "recoverable (geometry j) m t' xs"
proof -
  note d = plan_okD[OF assms(1)]
  obtain raw where "xs = []" "read_raw_superblock (geometry j) (mounted (cp_old p)) = Ok raw" "s_start raw = 0"
    using d(2) assms(3) by (auto simp: journal_log_def Let_def)
  then show ?thesis
    using image_superblock[OF assms(2)] d(1) read_superblock_mounted[OF d(7)]
      read_superblock_mounted[OF image_healthy[OF assms(1,2)]] image_healthy[OF assms(1,2)]
    by (simp add: recoverable_def)
qed

lemma image_old_state:
  assumes "plan_ok p j xs t x" "commit_image p sl False m" "tail_block (jstate j) = Some tail"
  shows "log_state (geometry j) (mounted m) tail (tail_tid (jstate j)) xs"
proof -
  note d = plan_okD[OF assms(1)]
  have old: "log_state (geometry j) (mounted (cp_old p)) tail (tail_tid (jstate j)) xs"
    using d(2) assms(3) by (auto simp: journal_log_def Let_def)
  have "read_raw_superblock (geometry j) (mounted m) = read_raw_superblock (geometry j) (mounted (cp_old p))"
    using image_superblock[OF assms(2)] d(1) read_superblock_mounted[OF d(7)]
      read_superblock_mounted[OF image_healthy[OF assms(1,2)]] by simp
  then show ?thesis
    using old image_outside_area[OF assms] by (auto simp: log_state_def final_writes_def)
qed

text \<open>No commit block yet: the transactions committed before are recovered.\<close>

lemma unsealed_recoverable:
  assumes "plan_ok p j xs t x" "commit_image p False an m"
  shows "recoverable (geometry j) m (tail_tid (jstate j)) xs"
proof -
  note d = plan_okD[OF assms(1)]
  have im: "commit_image p False False m" using assms(2) by (auto simp: commit_image_def)
  show ?thesis
  proof (cases "tail_block (jstate j)")
    case None
    then show ?thesis using unanchored_recoverable[OF assms(1) im] by blast
  next
    case (Some tail)
    note ls = image_old_state[OF assms(1) im Some]
    have at: "cp_pos p = advance (geometry j) tail (length (lts_blocks xs))"
      "t = tail_tid (jstate j) + word_of_nat (length xs)"
      using assms(1) d(2,3) Some by (auto simp: plan_ok_def journal_log_def Let_def)
    obtain raw where raw: "read_raw_superblock (geometry j) (mounted m) = Ok raw" "s_start raw = word_of_nat tail" "in_ring (geometry j) tail"
      using ls by (auto simp: log_state_def)
    then have "s_start raw \<noteq> 0" using word_of_nat_pos(1)[OF image_healthy[OF assms]] by simp
    then show ?thesis
      unfolding recoverable_def using image_healthy[OF assms] raw(1) ls unsealed_scan[OF assms] at by auto
  qed
qed

lemma sealed_next_boundary:
  assumes "plan_ok p j xs t x" "commit_image p True an m" "in_ring (geometry j) q"
  shows "boundary_at (geometry j) (mounted m) q (tid_next t)"
proof (rule boundary_mounted)
  note d = plan_okD[OF assms(1)] and h = healthyD[OF plan_okD(7)[OF assms(1)]]
  show "geometry_ok (geometry j)" "in_ring (geometry j) q" by (fact h(1) assms(3))+
  let ?b = "block_map (geometry j) ! q"
  have q: "q < length (block_map (geometry j))" using h(1) assms(3) by (auto simp: in_ring_def geometry_ok_def)
  have new: "\<forall>b\<in>set (cp_chain p @ [cp_commit p]). \<not> journal_block_of b (tid_next t)"
    using assms(1) d(5) by (simp add: plan_ok_def)
  show "\<not> journal_block_of (m ?b) (tid_next t)"
  proof (cases "?b \<in> cp_area p")
    case True
    then obtain i where i: "i \<le> length (cp_chain p)" "?b = cp_slot p i"
      by (auto simp: log_area_def cp_slot_def less_Suc_eq_le)
    then have "m ?b = (cp_chain p @ [cp_commit p]) ! i"
      using assms(2) by (cases "i = length (cp_chain p)") (auto simp: commit_image_def nth_append)
    then show ?thesis using new i(1) nth_mem[of i "cp_chain p @ [cp_commit p]"] by (auto simp del: nth_append)
  next
    case False
    have "?b \<noteq> sb_block (geometry j)"
      using assms(3) q h(1) nth_eq_iff_index_eq[OF h(2), of q 0] block_map_nonempty[OF h(1)]
      by (auto simp: sb_block_def in_ring_def geometry_ok_def)
    then have "m ?b = cp_old p ?b" using False assms(2) q d(1) by (simp add: commit_image_def)
    then show ?thesis using assms(1,3) by (simp add: plan_ok_def stale_free_def)
  qed
qed

lemma sealed_log_holds:
  assumes "plan_ok p j xs t x" "commit_image p True an m"
  shows "log_holds (geometry j) (mounted m) (cp_pos p) (lt_blocks x)"
proof -
  note d = plan_okD[OF assms(1)] and h = healthyD[OF plan_okD(7)[OF assms(1)]]
  have "advance (geometry j) (cp_pos p) i < length (block_map (geometry j))" for i
    using advance_in_ring[OF h(1) d(8), of i] h(1) by (auto simp: in_ring_def geometry_ok_def)
  moreover have "m (cp_slot p i) = lt_blocks x ! i" if "i < length (lt_blocks x)" for i
    using assms(2) that d(5) by (cases "i = length (cp_chain p)") (auto simp: commit_image_def nth_append)
  ultimately show ?thesis by (simp add: log_holds_nth read_log_block_ok cp_slot_def d(1))
qed

text \<open>The commit block is in place: the whole transaction is recovered with those before it.\<close>

lemma sealed_recoverable:
  assumes "plan_ok p j xs t x" "commit_image p True False m" "tail_block (jstate j) = Some tail"
  shows "recoverable (geometry j) m (tail_tid (jstate j)) (xs @ [x])"
proof -
  let ?g = "geometry j"
  note d = plan_okD[OF assms(1)] and h = healthyD[OF plan_okD(7)[OF assms(1)]]
  note ls = image_old_state[OF assms]
  have at: "cp_pos p = advance ?g tail (length (lts_blocks xs))" "t = tail_tid (jstate j) + word_of_nat (length xs)"
    using assms(1,3) d(2,3) by (auto simp: plan_ok_def journal_log_def Let_def)
  have fw: "final_writes ?g (mounted m) (lt_writes x)"
    using assms(1) by (auto simp: plan_ok_def final_writes_def)
  have ls': "log_state ?g (mounted m) tail (tail_tid (jstate j)) (xs @ [x])"
    using ls sealed_log_holds[OF assms(1,2)] fw at d(4,9) by (simp add: log_state_def lts_ok_append log_holds_append)
  have ring: "in_ring ?g tail" using ls by (simp add: log_state_def)
  have "scan_transaction ?g (mounted m) (advance ?g tail (length (lts_blocks (xs @ [x])))) (tid_next t) = Ok None"
    by (intro scan_boundary sealed_next_boundary[OF assms(1,2)] advance_in_ring[OF h(1) ring])
  moreover have "tid_next t = tail_tid (jstate j) + word_of_nat (length (xs @ [x]))"
    by (simp add: at(2) tid_next_def add_ac)
  moreover obtain raw where "read_raw_superblock ?g (mounted m) = Ok raw" "s_start raw = word_of_nat tail"
    using ls by (auto simp: log_state_def)
  ultimately show ?thesis
    unfolding recoverable_def
    using image_healthy[OF assms(1,2)] ls' word_of_nat_pos(1)[OF image_healthy[OF assms(1,2)] ring] by auto
qed

lemma anchored_recoverable:
  assumes "plan_ok p j xs t x" "commit_image p True True m" "tail_block (jstate j) = None"
  shows "recoverable (geometry j) m t (xs @ [x])"
proof -
  let ?g = "geometry j"
  note d = plan_okD[OF assms(1)] and h = healthyD[OF plan_okD(7)[OF assms(1)]]
  have xs: "xs = []" using d(2) assms(3) by (simp add: journal_log_def Let_def)
  have hm: "healthy ?g (mounted m)" by (rule image_healthy[OF assms(1,2)])
  obtain raw where raw: "read_raw_superblock ?g (mounted m) = Ok raw" "s_start raw = word_of_nat (cp_pos p)" "s_sequence raw = t"
    using assms(1,2) read_superblock_mounted[OF hm] d(1) by (auto simp: commit_image_def plan_ok_def)
  have fw: "final_writes ?g (mounted m) (lt_writes x)"
    using assms(1) by (auto simp: plan_ok_def final_writes_def)
  have "log_state ?g (mounted m) (cp_pos p) t [x]"
    using sealed_log_holds[OF assms(1,2)] fw d(4,8,9) raw xs by (simp add: log_state_def)
  moreover have "scan_transaction ?g (mounted m) (advance ?g (cp_pos p) (length (lts_blocks [x]))) (tid_next t) = Ok None"
    by (intro scan_boundary sealed_next_boundary[OF assms(1,2)] advance_in_ring[OF h(1) d(8)])
  moreover have "tid_next t = t + word_of_nat (length [x])" by (simp add: tid_next_def)
  ultimately show ?thesis
    unfolding recoverable_def using hm raw(1,2) word_of_nat_pos(1)[OF hm d(8)] xs by auto
qed

text \<open>All or nothing: every image the commit may leave recovers the log without or with the
  whole transaction.\<close>

definition log_tid :: "Journal \<Rightarrow> Transaction \<Rightarrow> tid" where
  "log_tid j txn = (if tail_block (jstate j) = None then t_tid txn else tail_tid (jstate j))"

lemma commit_image_recoverable:
  assumes "plan_ok p j xs (t_tid txn) x" "commit_image p sl an m" "an \<longrightarrow> tail_block (jstate j) = None"
  shows "recoverable (geometry j) m (log_tid j txn)
    (if sl \<and> (an \<or> tail_block (jstate j) \<noteq> None) then xs @ [x] else xs)"
proof (cases "tail_block (jstate j)")
  case None
  moreover have "an \<longrightarrow> sl" using assms(2) by (simp add: commit_image_def)
  ultimately show ?thesis
    using unanchored_recoverable[OF assms(1) _ None] anchored_recoverable[OF assms(1) _ None] assms(2)
    by (cases an; cases sl) (auto simp: log_tid_def)
next
  case (Some tail)
  then have "\<not> an" using assms(3) by simp
  then show ?thesis
    using sealed_recoverable[OF assms(1) _ Some] unsealed_recoverable[OF assms(1), of an] assms(2) Some
    by (cases sl) (auto simp: log_tid_def)
qed

section \<open>The writes of a commit under faults\<close>

text \<open>What a crash leaves, block by block: the durable content or some cached write.\<close>

lemma apply_writes_cases: "apply_writes ws m b = m b \<or> (b, apply_writes ws m b) \<in> set ws"
  using apply_writes_in[of b ws m] apply_writes_other[of b ws m] by blast

lemma crash_block:
  assumes "crash d c"
  shows "durable c b = durable d b \<or> (b, durable c b) \<in> set (pending d)"
proof -
  obtain ws where ws: "ws \<in> set (subseqs (pending d))" "durable c = apply_writes ws (durable d)"
    using assms by (auto simp: crash_simps)
  have "set ws \<subseteq> set (pending d)" using ws(1) subseqs_powset[of "pending d"] by blast
  then show ?thesis using apply_writes_cases[of ws "durable d" b] ws(2) by auto
qed

lemma barrier_cases:
  assumes "barrier d = (r, d')"
  obtains (flushed) "r = Ok ()" "durable d' = visible d" "pending d' = []" "visible d' = visible d"
  | (stuck) e where "r = Err e" "d' = d"
  using assms by (auto simp: barrier_def sync_def visible_def split: option.splits nat.splits)

lemma write_block_cases:
  assumes "sized d" "length bs = BLOCK_SIZE" "write_block d b bs = (r, d')"
  obtains (written) "r = Ok ()" "d' = add_writes d [(b, bs)]" | (refused) e where "r = Err e" "d' = d"
  using assms by (auto simp: write_block_whole split: if_splits)

text \<open>Before the barrier over the chain: the journal blocks are durably the old ones, and only
  chain blocks in their slots are cached among the journal's writes.\<close>

definition early :: "commit_plan \<Rightarrow> device \<Rightarrow> bool" where
  "early p d \<longleftrightarrow>
     (\<forall>b. length (durable d b) = BLOCK_SIZE) \<and> sized_writes (pending d) \<and>
     (\<forall>b\<in>set (block_map (cp_geometry p)). durable d b = cp_old p b) \<and>
     (\<forall>(b, v)\<in>set (pending d). b \<in> set (block_map (cp_geometry p)) \<longrightarrow>
        (\<exists>i<length (cp_chain p). b = cp_slot p i \<and> v = cp_chain p ! i))"

lemma early_sized: "early p d \<Longrightarrow> sized d"
  using sized_add_writes[of "d\<lparr> pending := [] \<rparr>" "pending d"]
  by (simp add: early_def sized_def visible_def)

text \<open>The slots of a plan are distinct, and none is the superblock.\<close>

definition slots_ok :: "commit_plan \<Rightarrow> bool" where
  "slots_ok p \<longleftrightarrow>
     geometry_ok (cp_geometry p) \<and> distinct (block_map (cp_geometry p)) \<and> in_ring (cp_geometry p) (cp_pos p) \<and>
     length (cp_chain p) + 1 \<le> ring_size (cp_geometry p)"

lemma slots_okD:
  assumes "slots_ok p"
  shows "i \<le> length (cp_chain p) \<Longrightarrow> k \<le> length (cp_chain p) \<Longrightarrow> cp_slot p i = cp_slot p k \<longleftrightarrow> i = k"
    "cp_slot p i \<in> set (block_map (cp_geometry p))" "cp_slot p i \<noteq> sb_block (cp_geometry p)"
    "sb_block (cp_geometry p) \<notin> cp_area p"
    "b \<in> cp_area p \<longleftrightarrow> (\<exists>i\<le>length (cp_chain p). b = cp_slot p i)"
proof -
  note a = assms[unfolded slots_ok_def]
  show "i \<le> length (cp_chain p) \<Longrightarrow> k \<le> length (cp_chain p) \<Longrightarrow> cp_slot p i = cp_slot p k \<longleftrightarrow> i = k"
    using log_area_inj[of "cp_geometry p" "cp_pos p" i k] a by (auto simp: cp_slot_def)
  have i: "cp_slot p i \<in> log_area (cp_geometry p) (cp_pos p) (Suc i)" by (auto simp: log_area_def cp_slot_def)
  then show "cp_slot p i \<in> set (block_map (cp_geometry p))"
    using log_area_subset[of "cp_geometry p" "cp_pos p"] a by blast
  have "sb_block (cp_geometry p) \<notin> log_area (cp_geometry p) (cp_pos p) (Suc i)"
    using sb_block_not_in_ring[of "cp_geometry p" "cp_pos p"] a by blast
  then show "cp_slot p i \<noteq> sb_block (cp_geometry p)" using i by metis
  show "sb_block (cp_geometry p) \<notin> cp_area p"
    using sb_block_not_in_ring[of "cp_geometry p" "cp_pos p"] a by blast
  show "b \<in> cp_area p \<longleftrightarrow> (\<exists>i\<le>length (cp_chain p). b = cp_slot p i)"
    by (auto simp: log_area_def cp_slot_def less_Suc_eq_le)
qed

lemma early_image:
  assumes "slots_ok p" "early p d" "crash d c"
  shows "commit_image p False False (durable c)"
proof -
  note s = slots_okD[OF assms(1)]
  have blk: "durable c b = cp_old p b \<or> (\<exists>i<length (cp_chain p). b = cp_slot p i \<and> durable c b = cp_chain p ! i)"
    if "b \<in> set (block_map (cp_geometry p))" for b
    using crash_block[OF assms(3), of b] assms(2) that by (fastforce simp: early_def)
  have "length (durable c b) = BLOCK_SIZE" for b
    using crash_block[OF assms(3), of b] assms(2) by (auto simp: early_def sized_writes_def)
  moreover have "durable c (cp_slot p (length (cp_chain p))) = cp_old p (cp_slot p (length (cp_chain p)))"
    using blk[OF s(2)] s(1) by fastforce
  moreover have "durable c (sb_block (cp_geometry p)) = cp_old p (sb_block (cp_geometry p))"
    using blk[OF sb_block_in_map] s(3) assms(1) by (fastforce simp: slots_ok_def)
  moreover have "durable c (cp_slot p i) = cp_chain p ! i \<or> durable c (cp_slot p i) = cp_old p (cp_slot p i)"
    if "i < length (cp_chain p)" for i
    using blk[OF s(2)[of i]] that by (auto simp: s(1) less_imp_le)
  moreover have "durable c b = cp_old p b" if "b \<in> set (block_map (cp_geometry p))" "b \<notin> cp_area p" for b
    using blk[OF that(1)] that(2) s(5)[of b] less_imp_le_nat by blast
  ultimately show ?thesis by (simp add: commit_image_def)
qed

text \<open>After it: the chain and the data are durable, and the commit block or the superblock may
  be cached.\<close>

definition chained :: "commit_plan \<Rightarrow> u64 \<Rightarrow> bytes" where
  "chained p = apply_writes (log_writes (cp_geometry p) (cp_pos p) (cp_chain p)) (cp_data p)"

definition data_ok :: "commit_plan \<Rightarrow> bool" where
  "data_ok p \<longleftrightarrow>
     (\<forall>b. length (cp_data p b) = BLOCK_SIZE) \<and>
     (\<forall>b\<in>set (block_map (cp_geometry p)). cp_data p b = cp_old p b) \<and>
     (\<forall>b\<in>set (cp_chain p). length b = BLOCK_SIZE) \<and> length (cp_commit p) = BLOCK_SIZE \<and> length (cp_anchor p) = BLOCK_SIZE"

lemma chained_at:
  assumes "slots_ok p" "data_ok p"
  shows "i < length (cp_chain p) \<Longrightarrow> chained p (cp_slot p i) = cp_chain p ! i"
    "b \<notin> set (block_map (cp_geometry p)) \<Longrightarrow> chained p b = cp_data p b"
    "b \<in> set (block_map (cp_geometry p)) \<Longrightarrow> \<forall>i<length (cp_chain p). b \<noteq> cp_slot p i \<Longrightarrow> chained p b = cp_old p b"
    "length (chained p b) = BLOCK_SIZE"
proof -
  note a = assms(1)[unfolded slots_ok_def] and dat = assms(2)[unfolded data_ok_def]
  let ?ws = "log_writes (cp_geometry p) (cp_pos p) (cp_chain p)"
  have area: "fst ` set ?ws = (\<lambda>i. cp_slot p i) ` {..<length (cp_chain p)}"
    by (simp add: fst_log_writes log_area_def cp_slot_def)
  have "log_holds (cp_geometry p) (add_writes (mounted (cp_data p)) ?ws) (cp_pos p) (cp_chain p)"
    using a by (intro log_holds_written) auto
  then show "i < length (cp_chain p) \<Longrightarrow> chained p (cp_slot p i) = cp_chain p ! i"
    by (simp add: log_holds_nth read_log_block_ok chained_def cp_slot_def)
  show "b \<notin> set (block_map (cp_geometry p)) \<Longrightarrow> chained p b = cp_data p b"
    unfolding chained_def using area slots_okD(2)[OF assms(1)] by (intro apply_writes_other) auto
  show "b \<in> set (block_map (cp_geometry p)) \<Longrightarrow> \<forall>i<length (cp_chain p). b \<noteq> cp_slot p i \<Longrightarrow> chained p b = cp_old p b"
    unfolding chained_def using area dat by (subst apply_writes_other) auto
  have "sized (add_writes (mounted (cp_data p)) ?ws)"
    by (intro sized_add_writes sized_log_writes) (use dat in \<open>auto simp: sized_def\<close>)
  then show "length (chained p b) = BLOCK_SIZE" by (simp add: sized_def chained_def)
qed

lemma chained_image:
  assumes "slots_ok p" "data_ok p"
  defines "slot \<equiv> cp_slot p (length (cp_chain p))" and "sb \<equiv> sb_block (cp_geometry p)"
  shows "commit_image p False False (chained p)"
    "commit_image p True False ((chained p)(slot := cp_commit p))"
    "commit_image p True True ((chained p)(slot := cp_commit p, sb := cp_anchor p))"
proof -
  note s = slots_okD[OF assms(1)] and c = chained_at[OF assms(1,2)] and dat = assms(2)[unfolded data_ok_def]
  have sl: "slot \<in> set (block_map (cp_geometry p))" "\<forall>i<length (cp_chain p). cp_slot p i \<noteq> slot" "slot \<noteq> sb"
    using s(1)[of _ "length (cp_chain p)"] s(2,3) by (auto simp: slot_def sb_def)
  have sb: "sb \<in> set (block_map (cp_geometry p))" "\<forall>i. cp_slot p i \<noteq> sb"
    using sb_block_in_map[of "cp_geometry p"] assms(1) s(3) by (auto simp: sb_def slots_ok_def)
  have slot: "chained p slot = cp_old p slot" "chained p sb = cp_old p sb"
    using c(3)[OF sl(1)] c(3)[OF sb(1)] sl(2) sb(2) by metis+
  have out: "chained p b = cp_old p b" "b \<noteq> slot" if "b \<in> set (block_map (cp_geometry p))" "b \<notin> cp_area p" for b
    using c(3)[OF that(1)] that(2) s(5)[of b] less_imp_le_nat slot_def by blast+
  show "commit_image p False False (chained p)"
    using out c slot by (auto simp: commit_image_def slot_def sb_def)
  show "commit_image p True False ((chained p)(slot := cp_commit p))"
    using out c slot sl dat by (auto simp: commit_image_def slot_def[symmetric] sb_def[symmetric])
  show "commit_image p True True ((chained p)(slot := cp_commit p, sb := cp_anchor p))"
    using out c slot sl sb dat by (auto simp: commit_image_def slot_def[symmetric] sb_def[symmetric])
qed

text \<open>At most one block is cached: a crash keeps the write or drops it.\<close>

lemma crash_one:
  assumes "crash d c" "pending d = [] \<or> pending d = [(b, v)]"
  shows "durable c = durable d \<or> pending d = [(b, v)] \<and> durable c = (durable d)(b := v)"
  using assms by (auto simp: crash_simps)

section \<open>One commit under faults\<close>

text \<open>Before the log is touched: no journal block is cached.\<close>

definition quiet :: "commit_plan \<Rightarrow> device \<Rightarrow> bool" where
  "quiet p d \<longleftrightarrow> early p d \<and> (\<forall>(b, _)\<in>set (pending d). b \<notin> set (block_map (cp_geometry p)))"

lemma quiet_visible: "quiet p d \<Longrightarrow> b \<in> set (block_map (cp_geometry p)) \<Longrightarrow> visible d b = cp_old p b"
  unfolding visible_def by (subst apply_writes_other) (auto simp: quiet_def early_def)

lemma quiet_final:
  "quiet p d \<Longrightarrow> sized_writes ws \<Longrightarrow> \<forall>(b, _)\<in>set ws. b \<notin> set (block_map (cp_geometry p)) \<Longrightarrow>
   write_final_blocks d ws = (r, d') \<Longrightarrow>
   quiet p d' \<and> (\<forall>u. r = Ok u \<longrightarrow> visible d' = apply_writes ws (visible d))"
proof (induction d ws arbitrary: r d' rule: write_final_blocks.induct)
  case (2 d b bs ws)
  obtain r1 d1 where w: "write_block d b bs = (r1, d1)" by fastforce
  have sz: "sized d" "length bs = BLOCK_SIZE" using "2.prems"(1,2) early_sized by (auto simp: quiet_def)
  from sz w show ?case
  proof (cases rule: write_block_cases)
    case written
    have "quiet p d1" using "2.prems"(1-3) written by (auto simp: quiet_def early_def)
    then show ?thesis using "2.IH"[of "()" d1 r d'] "2.prems" w written
      by (simp add: apply_writes_Cons fun_upd_def)
  next
    case (refused e)
    then show ?thesis using "2.prems" w by auto
  qed
qed simp

lemma quiet_barrier:
  assumes "quiet p d" "barrier d = (r, d')"
  shows "quiet p d' \<and> visible d' = visible d"
  using assms(2)
proof (cases rule: barrier_cases)
  case flushed
  have "sized d" using assms(1) early_sized[of p d] by (simp add: quiet_def)
  then show ?thesis
    using flushed quiet_visible[OF assms(1)] by (auto simp: quiet_def early_def sized_def)
qed (use assms(1) in simp_all)

lemma flush_ordered_stage:
  assumes "quiet p d" "sized_writes (ordered_writes txn)"
    and "\<forall>(b, _)\<in>set (ordered_writes txn). b \<notin> set (block_map (cp_geometry p))"
    and "flush_ordered_data d (ordered_data txn) = (r, d')"
  shows "quiet p d' \<and> (\<forall>u. r = Ok u \<longrightarrow> visible d' = apply_writes (ordered_writes txn) (visible d))"
proof -
  obtain r1 d1 where w: "write_final_blocks d (ordered_writes txn) = (r1, d1)" by fastforce
  note q = quiet_final[OF assms(1-3) w]
  show ?thesis
  proof (cases r1)
    case (Inl e)
    then show ?thesis using assms(4) w q by (auto simp: flush_ordered_data_def ordered_writes_def)
  next
    case (Inr u)
    then have "(if ordered_data txn \<noteq> [] then barrier d1 else (Ok (), d1)) = (r, d')"
      using assms(4) w by (simp add: flush_ordered_data_def ordered_writes_def)
    then show ?thesis using q Inr quiet_barrier[of p d1 r d'] by (auto split: if_splits)
  qed
qed

text \<open>The chain goes out in pieces, each a stretch of the plan's chain in its slots.\<close>

lemma early_chain:
  "slots_ok p \<Longrightarrow> early p d \<Longrightarrow> \<forall>b\<in>set (cp_chain p). length b = BLOCK_SIZE \<Longrightarrow>
   k + length bs \<le> length (cp_chain p) \<Longrightarrow> \<forall>i<length bs. bs ! i = cp_chain p ! (k + i) \<Longrightarrow>
   write_log_blocks (cp_geometry p) d (advance (cp_geometry p) (cp_pos p) k) bs = (r, d') \<Longrightarrow>
   early p d' \<and>
   (\<forall>log. r = Ok log \<longrightarrow> log = advance (cp_geometry p) (cp_pos p) (k + length bs) \<and>
      visible d' = apply_writes (log_writes (cp_geometry p) (advance (cp_geometry p) (cp_pos p) k) bs) (visible d))"
proof (induction bs arbitrary: k d r d')
  case Nil
  then show ?case by auto
next
  case (Cons b bs)
  let ?g = "cp_geometry p" and ?at = "advance (cp_geometry p) (cp_pos p) k"
  have k: "k < length (cp_chain p)" "b = cp_chain p ! k" using Cons.prems(4,5) by (auto dest: spec[of _ 0])
  have b: "length b = BLOCK_SIZE" using Cons.prems(3) k by simp
  have a: "geometry_ok ?g" "in_ring ?g ?at"
    using Cons.prems(1) by (auto simp: slots_ok_def intro: advance_in_ring)
  have rest: "\<forall>i<length bs. bs ! i = cp_chain p ! (Suc k + i)"
    using Cons.prems(5) by (auto dest: spec[of _ "Suc _"])
  show ?case
  proof (cases "bad_write d (block_map ?g ! ?at)")
    case True
    then show ?thesis
      using Cons.prems(2,6) by (auto simp: write_log_block_whole[OF a early_sized[OF Cons.prems(2)] b])
  next
    case False
    let ?d1 = "add_writes d [(block_map ?g ! ?at, b)]"
    have "write_log_blocks ?g ?d1 (advance ?g (cp_pos p) (Suc k)) bs = (r, d')"
      using Cons.prems(6) False write_log_block_whole[OF a early_sized[OF Cons.prems(2)] b]
      by (simp add: advance_next)
    moreover have "early p ?d1"
      using Cons.prems(2) k b by (auto simp: early_def cp_slot_def)
    ultimately show ?thesis
      using Cons.IH[of ?d1 "Suc k" r d'] Cons.prems(1,3,4) rest
      by (simp add: advance_next apply_writes_Cons fun_upd_def)
  qed
qed

text \<open>The verdict on a final device: every crash image keeps the order of the plan, and a commit
  that reports success has sealed and, over an empty log, anchored the transaction.\<close>

definition crash_ordered :: "commit_plan \<Rightarrow> bool \<Rightarrow> 'a result \<Rightarrow> device \<Rightarrow> bool" where
  "crash_ordered p was_clean r d \<longleftrightarrow>
     (\<forall>c. crash d c \<longrightarrow>
        (\<exists>sealed anchored. commit_image p sealed anchored (durable c) \<and> (anchored \<longrightarrow> was_clean) \<and>
           (\<forall>v. r = Ok v \<longrightarrow> sealed \<and> (anchored \<or> \<not> was_clean))))"

lemma crash_ordered_early: "slots_ok p \<Longrightarrow> early p d \<Longrightarrow> crash_ordered p cl (Err e) d"
  unfolding crash_ordered_def using early_image by fastforce

lemma jd_device_cases:
  assumes "jd_bind (with_device j (r1, d1)) f = (r, j', d')"
  obtains (failed) e where "r1 = Err e" "r = Err e" "j' = j" "d' = d1"
  | (went) v where "r1 = Ok v" "f v j d1 = (r, j', d')"
  using assms by (cases r1) (auto simp: with_device_def)

text \<open>The commit block is durable; over an empty log the superblock is next.\<close>

lemma anchor_stage:
  assumes "slots_ok p" "data_ok p"
    and "durable d = (chained p)(cp_slot p (length (cp_chain p)) := cp_commit p)" "pending d = []"
    and "cp_anchor p = sb_image ((superblock_at (cp_geometry p) d)\<lparr> s_start := word_of_nat (cp_pos p), s_sequence := t \<rparr>)
           (visible d (sb_block (cp_geometry p)))"
    and "update_superblock_tail (cp_geometry p) d (cp_pos p) t = (r, d')"
  shows "crash_ordered p True r d'"
proof -
  let ?sb = "sb_block (cp_geometry p)" and ?v = "cp_anchor p"
  note im = chained_image[OF assms(1,2)]
  have g: "geometry_ok (cp_geometry p)" using assms(1) by (simp add: slots_ok_def)
  consider (untouched) e where "r = Err e" "d' = d"
    | (cached) e where "r = Err e" "durable d' = durable d" "pending d' = [(?sb, ?v)]"
    | (out) "r = Ok ()" "durable d' = (durable d)(?sb := ?v)" "pending d' = []"
  proof (cases "bad_read d ?sb \<or> bad_write d ?sb")
    case True
    then show thesis
      using that(1) assms(6) g superblock_block_ok[OF g]
      by (auto simp: update_superblock_tail_def read_raw_superblock_def read_block_def write_superblock_def
          write_block_def sb_block_def split: if_splits)
  next
    case False
    have rd: "read_raw_superblock (cp_geometry p) d = Ok (superblock_at (cp_geometry p) d)"
      using False superblock_block_ok[OF g] by (simp add: read_raw_superblock_def read_block_def superblock_at_def sb_block_def)
    have "barrier (add_writes d [(?sb, ?v)]) = (r, d')"
      using assms(5,6) rd False superblock_block_ok[OF g]
      by (simp add: update_superblock_tail_def write_superblock_def write_block_def sb_image_def add_writes_def sb_block_def)
    then show thesis
    proof (cases rule: barrier_cases)
      case flushed
      then show thesis using that(3) assms(4) by (simp add: visible_def)
    next
      case (stuck e)
      then show thesis using that(2) assms(4) by simp
    qed
  qed
  then show ?thesis
  proof cases
    case untouched
    then show ?thesis using im(2) assms(3,4) crash_none_pending[of d] by (fastforce simp: crash_ordered_def)
  next
    case cached
    have "durable c = durable d \<or> durable c = (durable d)(?sb := ?v)" if "crash d' c" for c
      using crash_one[OF that, of ?sb ?v] cached by auto
    then show ?thesis using im(2,3) assms(3) cached(1) unfolding crash_ordered_def by fastforce
  next
    case out
    have "durable c = durable d'" if "crash d' c" for c using crash_none_pending[OF out(3) that] by simp
    then show ?thesis using im(3) assms(3) out(1,2) unfolding crash_ordered_def by fastforce
  qed
qed

lemma crash_ordered_durable:
  assumes "slots_ok p" "data_ok p" "pending d = []"
    and "durable d = (chained p)(cp_slot p (length (cp_chain p)) := cp_commit p)"
  shows "crash_ordered p False r d" "crash_ordered p True (Err e) d"
  using chained_image(2)[OF assms(1,2)] crash_none_pending[OF assms(3)] assms(4)
  by (fastforce simp: crash_ordered_def)+

lemma crash_ordered_result:
  "crash_ordered p cl r d \<Longrightarrow> (\<exists>v. r' = Ok v) \<longrightarrow> (\<exists>u. r = Ok u) \<Longrightarrow> crash_ordered p cl r' d"
  unfolding crash_ordered_def by (cases r; cases r') fastforce+

text \<open>The chain is durable; the commit block goes out and is flushed.\<close>

lemma seal_stage:
  assumes "slots_ok p" "data_ok p" "durable d = chained p" "pending d = []"
    and "dev_bind (write_log_block (cp_geometry p) d (advance (cp_geometry p) (cp_pos p) (length (cp_chain p))) (cp_commit p))
           (\<lambda>_ d. barrier d) = (r, d')"
  shows "(\<exists>e. r = Err e) \<and> crash_ordered p cl (Err EIO) d' \<or>
    r = Ok () \<and> pending d' = [] \<and> durable d' = (chained p)(cp_slot p (length (cp_chain p)) := cp_commit p)"
proof -
  let ?g = "cp_geometry p" and ?at = "advance (cp_geometry p) (cp_pos p) (length (cp_chain p))"
  let ?slot = "cp_slot p (length (cp_chain p))"
  note im = chained_image[OF assms(1,2)]
  have a: "geometry_ok ?g" "in_ring ?g ?at" using assms(1) by (auto simp: slots_ok_def intro: advance_in_ring)
  have sz: "sized d" using chained_at(4)[OF assms(1,2)] assms(3,4) by (simp add: sized_def visible_def)
  have len: "length (cp_commit p) = BLOCK_SIZE" using assms(2) by (simp add: data_ok_def)
  show ?thesis
  proof (cases "bad_write d (block_map ?g ! ?at)")
    case True
    then have "r = Err EIO" "d' = d" using assms(5) by (auto simp: write_log_block_whole[OF a sz len])
    then show ?thesis
      using im(1) assms(3) crash_none_pending[OF assms(4)] by (fastforce simp: crash_ordered_def)
  next
    case False
    then have "barrier (add_writes d [(?slot, cp_commit p)]) = (r, d')"
      using assms(5) by (simp add: write_log_block_whole[OF a sz len] cp_slot_def)
    then show ?thesis
    proof (cases rule: barrier_cases)
      case flushed
      then show ?thesis using assms(3,4) by (simp add: visible_def)
    next
      case (stuck e)
      have "durable c = chained p \<or> durable c = (chained p)(?slot := cp_commit p)" if "crash d' c" for c
        using crash_one[OF that, of ?slot "cp_commit p"] stuck assms(3,4) by auto
      then have "crash_ordered p cl (Err EIO) d'" using im(1,2) unfolding crash_ordered_def by fastforce
      then show ?thesis using stuck(1) by blast
    qed
  qed
qed

definition commit_writes :: "commit_plan \<Rightarrow> Journal \<Rightarrow> Transaction \<Rightarrow> bytes list \<Rightarrow> DescriptorRun list \<Rightarrow> u64 \<Rightarrow> u32 \<Rightarrow> device \<Rightarrow> bool" where
  "commit_writes p j txn revs chain secs nsecs d \<longleftrightarrow>
     slots_ok p \<and> data_ok p \<and> quiet p d \<and> in_commit j txn Locked \<and> sized_writes (ordered_writes txn) \<and>
     (\<forall>(b, _)\<in>set (ordered_writes txn). b \<notin> set (block_map (geometry j))) \<and>
     cp_geometry p = geometry j \<and> cp_pos p = head (jstate j) \<and> cp_chain p = chain_blocks revs chain \<and>
     cp_commit p = build_commit_block secs nsecs (t_tid txn) (csum_seed (geometry j)) \<and>
     cp_data p = apply_writes (ordered_writes txn) (visible d) \<and>
     cp_anchor p = sb_image ((RawJournalSuperblock_from_bytes
         (take JOURNAL_SUPERBLOCK_SIZE (cp_old p (sb_block (geometry j)))))\<lparr> s_start := word_of_nat (cp_pos p), s_sequence := t_tid txn \<rparr>)
       (cp_old p (sb_block (geometry j)))"

lemma chain_stage:
  assumes "commit_writes p j txn revs chain secs nsecs d0" "quiet p d" "visible d = cp_data p"
    and "dev_bind (dev_bind (write_log_blocks (geometry j) d (head (jstate j)) revs) (\<lambda>log d. write_chain (geometry j) d log chain))
           (\<lambda>log d. dev_bind (barrier d) (\<lambda>_ d. (Ok log, d))) = (r, d')"
  shows "(\<exists>e. r = Err e) \<and> early p d' \<or>
    r = Ok (advance (geometry j) (head (jstate j)) (length (cp_chain p))) \<and> durable d' = chained p \<and> pending d' = []"
proof -
  note c = assms(1)[unfolded commit_writes_def]
  have eq: "dev_bind (write_log_blocks (geometry j) d (head (jstate j)) revs) (\<lambda>log d. write_chain (geometry j) d log chain) =
      write_log_blocks (geometry j) d (head (jstate j)) (cp_chain p)"
    using c by (simp add: write_chain_eq write_log_blocks_append chain_blocks_def)
  obtain r1 d1 where w: "write_log_blocks (geometry j) d (head (jstate j)) (cp_chain p) = (r1, d1)" by fastforce
  have "early p d" "\<forall>b\<in>set (cp_chain p). length b = BLOCK_SIZE" "slots_ok p"
    using assms(2) c by (auto simp: quiet_def data_ok_def)
  then have e: "early p d1" "\<forall>log. r1 = Ok log \<longrightarrow> log = advance (geometry j) (head (jstate j)) (length (cp_chain p)) \<and>
      visible d1 = chained p"
    using early_chain[of p d 0 "cp_chain p" r1 d1] w c assms(3) by (simp_all add: chained_def)
  show ?thesis
  proof (cases r1)
    case (Inl err)
    then show ?thesis using assms(4) eq w e by auto
  next
    case (Inr log)
    obtain r2 d2 where b: "barrier d1 = (r2, d2)" by fastforce
    from b show ?thesis
      by (cases rule: barrier_cases) (use assms(4) eq w e Inr b in auto)
  qed
qed

text \<open>The device side of a commit, with the state updates between its steps out of the way.\<close>

definition device_steps ::
    "Journal \<Rightarrow> Transaction \<Rightarrow> bytes list \<Rightarrow> DescriptorRun list \<Rightarrow> bytes \<Rightarrow> device \<Rightarrow> unit result \<times> device" where
  "device_steps j txn revs chain commit d =
     (let g = geometry j; h = head (jstate j) in
      dev_bind (flush_ordered_data d (ordered_data txn)) (\<lambda>_ d.
      dev_bind (dev_bind (dev_bind (write_log_blocks g d h revs) (\<lambda>log d. write_chain g d log chain))
        (\<lambda>log d. dev_bind (barrier d) (\<lambda>_ d. (Ok log, d)))) (\<lambda>log d.
      dev_bind (dev_bind (write_log_block g d log commit) (\<lambda>_ d. barrier d)) (\<lambda>_ d.
      if tail_block (jstate j) = None then update_superblock_tail g d h (t_tid txn) else (Ok (), d)))))"

lemma dev_bind_assoc: "dev_bind (dev_bind m f) g = dev_bind m (\<lambda>v d. dev_bind (f v d) g)"
  by (simp add: dev_bind_def split: prod.splits sum.splits)

lemma jd_device:
  "jd_bind (with_device j m) f = (case m of (Inl e, d) \<Rightarrow> (Inl e, j, d) | (Inr v, d) \<Rightarrow> f v j d)"
  by (cases m) (simp add: jd_bind_def with_device_def split: sum.splits)

lemma case_result_parts:
  "snd (snd (case m of (Inl e, d) \<Rightarrow> (Inl e, j, d) | (Inr v, d) \<Rightarrow> f v d)) =
     (case m of (Inl e, d) \<Rightarrow> d | (Inr v, d) \<Rightarrow> snd (snd (f v d)))"
  "fst (case m of (Inl e, d) \<Rightarrow> (Inl e, j, d) | (Inr v, d) \<Rightarrow> f v d) =
     (case m of (Inl e, d) \<Rightarrow> Inl e | (Inr v, d) \<Rightarrow> fst (f v d))"
  by (auto split: prod.splits sum.splits)

lemma dev_bind_parts:
  "snd (dev_bind m f) = (case m of (Inl e, d) \<Rightarrow> d | (Inr v, d) \<Rightarrow> snd (f v d))"
  "map_sum id h (fst (dev_bind m f)) = (case m of (Inl e, d) \<Rightarrow> Inl e | (Inr v, d) \<Rightarrow> map_sum id h (fst (f v d)))"
  by (auto simp: dev_bind_def split: prod.splits sum.splits)

lemma case_result_last:
  "(case m of (Inl e, d) \<Rightarrow> d | (Inr v, d) \<Rightarrow> d) = snd m"
  "(case m of (Inl e, d) \<Rightarrow> Inl e | (Inr v, d) \<Rightarrow> Inr y) = map_sum id (\<lambda>_. y) (fst m)"
  by (simp_all split: prod.splits sum.splits)

lemma write_transaction_device:
  assumes "in_commit j txn Locked"
    and "commit = build_commit_block secs nsecs (t_tid txn) (csum_seed (geometry j))"
  shows "snd (snd (write_transaction secs nsecs j d txn revs chain)) = snd (device_steps j txn revs chain commit d)"
    "fst (write_transaction secs nsecs j d txn revs chain) =
       map_sum id (\<lambda>_. Committed (t_tid txn)) (fst (device_steps j txn revs chain commit d))"
proof -
  let ?t = "t_tid txn"
  have ph: "phase_step j d' ?t Flush = (Ok (), set_phase j txn Flush, d')"
    "phase_step (set_phase j txn Flush) d' ?t Commit = (Ok (), set_phase j txn Commit, d')"
    "phase_step (set_phase j txn Commit) d' ?t CommitRecord = (Ok (), set_phase j txn CommitRecord, d')" for d'
    using assms(1) phase_step_ok[of j txn Locked Flush] phase_step_ok[of "set_phase j txn Flush" txn Flush Commit]
      phase_step_ok[of "set_phase j txn Commit" txn Commit CommitRecord] by simp_all
  note run = write_transaction_def Let_def ph jd_bind_Ok jd_device publish_commit_ok[OF assms(1)] sum.case
    device_steps_def dev_bind_assoc dev_bind_Ok case_result_parts dev_bind_parts assms(2)
  show "snd (snd (write_transaction secs nsecs j d txn revs chain)) = snd (device_steps j txn revs chain commit d)"
    unfolding run by (simp only: snd_conv case_result_last)
  show "fst (write_transaction secs nsecs j d txn revs chain) =
      map_sum id (\<lambda>_. Committed (t_tid txn)) (fst (device_steps j txn revs chain commit d))"
    unfolding run by (simp only: fst_conv case_result_last)
qed

lemma device_steps_crash_ordered:
  assumes "commit_writes p j txn revs chain secs nsecs d"
    and "device_steps j txn revs chain (cp_commit p) d = (r, d')"
  shows "crash_ordered p (tail_block (jstate j) = None) r d'"
proof -
  note c = assms(1)[unfolded commit_writes_def]
  let ?g = "geometry j" and ?t = "t_tid txn" and ?h = "head (jstate j)" and ?clean = "tail_block (jstate j) = None"
  have slots: "slots_ok p" "data_ok p" using c by simp_all
  obtain r1 d1 where s1: "flush_ordered_data d (ordered_data txn) = (r1, d1)" by fastforce
  have q1: "quiet p d1" "\<forall>u. r1 = Ok u \<longrightarrow> visible d1 = cp_data p"
    using flush_ordered_stage[of p d txn r1 d1] s1 c by auto
  obtain r2 d2 where s2: "dev_bind (dev_bind (write_log_blocks ?g d1 ?h revs) (\<lambda>log d. write_chain ?g d log chain))
      (\<lambda>log d. dev_bind (barrier d) (\<lambda>_ d. (Ok log, d))) = (r2, d2)" by fastforce
  obtain r3 d3 where s3: "dev_bind (write_log_block ?g d2 (advance ?g ?h (length (cp_chain p))) (cp_commit p))
      (\<lambda>_ d. barrier d) = (r3, d3)" by fastforce
  obtain r4 d4 where s4: "(if ?clean then update_superblock_tail ?g d3 ?h ?t else (Ok (), d3)) = (r4, d4)" by fastforce
  note run = assms(2)[unfolded device_steps_def Let_def s1]
  consider (flush) e where "r1 = Err e" | (chain_failed) e where "r1 = Ok ()" "r2 = Err e" "early p d2"
    | (chained) "r1 = Ok ()" "r2 = Ok (advance ?g ?h (length (cp_chain p)))" "durable d2 = chained p" "pending d2 = []"
    using q1 chain_stage[OF assms(1) q1(1) _ s2] by (cases r1) auto
  then show ?thesis
  proof cases
    case flush
    then show ?thesis using run q1(1) crash_ordered_early[OF slots(1), of d1] by (auto simp: quiet_def)
  next
    case chain_failed
    then show ?thesis using run s2 crash_ordered_early[OF slots(1), of d2] by auto
  next
    case chained
    consider (stuck) e where "r3 = Err e" "crash_ordered p ?clean (Err EIO :: unit result) d3"
      | (sealed) "r3 = Ok ()" "pending d3 = []" "durable d3 = (chained p)(cp_slot p (length (cp_chain p)) := cp_commit p)"
      using seal_stage[OF slots chained(3,4), of r3 d3 ?clean] s3 c by auto
    then show ?thesis
    proof cases
      case stuck
      then show ?thesis using run chained s2 s3 by (auto intro: crash_ordered_result)
    next
      case sealed
      have last: "r = r4" "d' = d4" using run chained s2 s3 s4 sealed(1) by simp_all
      show ?thesis
      proof (cases ?clean)
        case True
        have "visible d3 (sb_block ?g) = cp_old p (sb_block ?g)"
          using sealed(2,3) chained_image(2)[OF slots] c by (simp add: visible_def commit_image_def)
        then show ?thesis
          using anchor_stage[OF slots sealed(3,2), of ?t r4 d4] True s4 c last by (simp add: superblock_at_def)
      next
        case False
        then show ?thesis using crash_ordered_durable(1)[OF slots sealed(2,3)] s4 last by auto
      qed
    qed
  qed
qed

lemma write_transaction_crash_ordered:
  assumes "commit_writes p j txn revs chain secs nsecs d"
    and "write_transaction secs nsecs j d txn revs chain = (r, j', d')"
  shows "crash_ordered p (tail_block (jstate j) = None) r d'"
proof -
  obtain r1 d1 where s: "device_steps j txn revs chain (cp_commit p) d = (r1, d1)" by fastforce
  have "in_commit j txn Locked" "cp_commit p = build_commit_block secs nsecs (t_tid txn) (csum_seed (geometry j))"
    using assms(1) by (auto simp: commit_writes_def)
  note w = write_transaction_device[OF this, of d revs chain]
  have "d' = d1" "r = map_sum id (\<lambda>_. Committed (t_tid txn)) r1" using w assms(2) s by simp_all
  then show ?thesis
    using crash_ordered_result[OF device_steps_crash_ordered[OF assms(1) s]] by (cases r1) auto
qed

section \<open>Crash atomicity\<close>

text \<open>What holds when a commit starts: the durable blocks hold the committed log, whatever is
  cached lies outside it, the staged transaction continues the log, and the ring shows no
  journal block of this or the next transaction id.\<close>

definition commit_ready :: "Journal \<Rightarrow> device \<Rightarrow> LoggedTxn list \<Rightarrow> Transaction \<Rightarrow> bool" where
  "commit_ready j d xs txn \<longleftrightarrow>
     journal_log j (mounted (durable d)) xs \<and> committable j xs txn \<and>
     sized_writes (pending d) \<and> (\<forall>(b, _)\<in>set (pending d). b \<notin> set (block_map (geometry j))) \<and>
     stale_free (geometry j) (durable d) (t_tid txn) \<and> stale_free (geometry j) (durable d) (tid_next (t_tid txn))"

lemma sb_image_parse:
  assumes "raw_sb_ok raw"
  shows "RawJournalSuperblock_from_bytes (take JOURNAL_SUPERBLOCK_SIZE (sb_image raw old)) = stamp_checksum raw"
proof -
  let ?bs = "RawJournalSuperblock_as_bytes (stamp_checksum raw)"
  have "length ?bs = 1024" using assms by (simp add: JOURNAL_SUPERBLOCK_SIZE_def)
  then have "take JOURNAL_SUPERBLOCK_SIZE (sb_image raw old) = ?bs @ []"
    by (simp add: sb_image_def splice_def JOURNAL_SUPERBLOCK_SIZE_def)
  then show ?thesis using from_bytes_as_bytes[of "stamp_checksum raw" "[]"] assms by simp
qed

lemma length_sb_image: "raw_sb_ok raw \<Longrightarrow> length old = BLOCK_SIZE \<Longrightarrow> length (sb_image raw old) = BLOCK_SIZE"
  by (simp add: sb_image_def BLOCK_SIZE_def JOURNAL_SUPERBLOCK_SIZE_def)

lemma plan_of_commit:
  assumes "commit_ready j d xs txn"
    and "build_revoke_blocks txn (tag_layout (geometry j)) (csum_seed (geometry j)) = Ok revs"
    and "build_descriptor_chain txn (tag_layout (geometry j)) (csum_seed (geometry j)) = Ok chain"
    and "commit_footprint revs chain \<le> free_log_blocks (geometry j) (head (jstate j)) (tail_block (jstate j))"
  obtains p x where "commit_writes p j txn revs chain secs nsecs d" "plan_ok p j xs (t_tid txn) x"
    "lt_writes x = metadata_blocks txn" "lt_revokes x = t_revoked txn" "cp_geometry p = geometry j"
    "cp_data p = apply_writes (ordered_writes txn) (visible d)"
proof -
  let ?g = "geometry j" and ?t = "t_tid txn" and ?sb = "sb_block (geometry j)"
  let ?c = "build_commit_block secs nsecs ?t (csum_seed ?g)"
  let ?raw = "(RawJournalSuperblock_from_bytes (take JOURNAL_SUPERBLOCK_SIZE (durable d ?sb)))
    \<lparr> s_start := word_of_nat (head (jstate j)), s_sequence := ?t \<rparr>"
  let ?p = "\<lparr> cp_geometry = ?g, cp_old = durable d, cp_data = apply_writes (ordered_writes txn) (visible d),
    cp_pos = head (jstate j), cp_chain = chain_blocks revs chain, cp_commit = ?c,
    cp_anchor = sb_image ?raw (durable d ?sb) \<rparr>"
  note r = assms(1)[unfolded commit_ready_def] and com = assms(1)[unfolded commit_ready_def committable_def]
  have h: "healthy ?g (mounted (durable d))" "in_ring ?g (head (jstate j))"
    using r by (auto simp: journal_log_def Let_def)
  note hd = healthyD[OF h(1)]
  have room: "length (lts_blocks xs) + commit_footprint revs chain \<le> ring_size ?g"
    using r assms(4) by (intro commit_room[of j "mounted (durable d)"]) (auto simp: commit_footprint_def)
  obtain x where x: "lt_ok ?g ?t x" "lt_writes x = metadata_blocks txn" "lt_revokes x = t_revoked txn"
    "lt_blocks x = chain_blocks revs chain @ [?c]" "length (lt_blocks x) = commit_footprint revs chain"
    "\<forall>b\<in>set (lt_blocks x). length b = BLOCK_SIZE"
    using built_logged_txn[OF hd(1) _ assms(2,3), of secs nsecs] com room by auto
  have old: "length (durable d b) = BLOCK_SIZE" for b using hd(4) by (simp add: sized_def)
  have raw: "raw_sb_ok ?raw"
    using from_bytes_ok[of "take JOURNAL_SUPERBLOCK_SIZE (durable d ?sb)"] old
    by (simp add: raw_sb_ok_def JOURNAL_SUPERBLOCK_SIZE_def BLOCK_SIZE_def)
  have slots: "slots_ok ?p" using hd(1,2) h(2) room x(4,5) by (simp add: slots_ok_def)
  have quiet: "quiet ?p d" using r old by (auto simp: quiet_def early_def)
  have "apply_writes (ordered_writes txn) (visible d) b = durable d b" if "b \<in> set (block_map ?g)" for b
    using that com quiet_visible[OF quiet, of b] by (subst apply_writes_other) auto
  moreover have "sized (add_writes d (ordered_writes txn))"
    using sized_add_writes[of d] early_sized[of ?p d] quiet com by (simp add: quiet_def)
  ultimately have dat: "data_ok ?p"
    using x(4,6) length_sb_image[OF raw old] by (simp add: data_ok_def sized_def)
  have cw: "commit_writes ?p j txn revs chain secs nsecs d"
    using slots dat quiet com by (simp add: commit_writes_def)
  have "\<not> journal_block_of b (tid_next ?t)" if "b \<in> set (lt_blocks x)" for b
  proof
    assume jb: "journal_block_of b (tid_next ?t)"
    have "tid_next ?t = ?t"
    proof (cases "b = ?c")
      case True
      then have "header_is b BLOCKTYPE_COMMIT ?t" using built_commit_block[of "csum_seed ?g" ?t secs nsecs] by (simp add: commit_ok_def)
      then show ?thesis using header_is_tid jb by blast
    next
      case False
      then show ?thesis using built_blocks_tid[OF _ _ assms(2,3) _ jb] that x(4) com hd(1) by (auto simp: geometry_ok_def)
    qed
    then show False by (simp add: tid_next_def)
  qed
  moreover have "final_writes ?g (mounted (durable d)) (lt_writes x)"
    using captures_final[OF h(1)] com x(2) by simp
  ultimately have "plan_ok ?p j xs ?t x"
    using r com x room sb_image_parse[OF raw] by (auto simp: plan_ok_def stamp_checksum_def)
  then show ?thesis using that[OF cw] x(2,3) by simp
qed

text \<open>Without a write to the journal's blocks the committed log stays what is recovered.\<close>

lemma quiet_crash_recoverable:
  assumes "commit_ready j d xs txn" "crash d c"
  shows "recoverable (geometry j) (durable c) (log_tid j txn) xs"
proof -
  let ?g = "geometry j"
  note r = assms(1)[unfolded commit_ready_def]
  have h: "healthy ?g (mounted (durable d))" using r by (auto simp: journal_log_def Let_def)
  have same: "durable c b = durable d b" if "b \<in> set (block_map ?g)" for b
    using crash_block[OF assms(2), of b] that r by auto
  have "length (durable c b) = BLOCK_SIZE" for b
    using crash_block[OF assms(2), of b] healthyD(4)[OF h] r by (auto simp: sized_def sized_writes_def)
  then have hc: "healthy ?g (mounted (durable c))" using healthy_mounted[OF h] by blast
  have sb: "read_raw_superblock ?g (mounted (durable c)) = read_raw_superblock ?g (mounted (durable d))"
    using same[OF sb_block_in_map[OF healthyD(1)[OF h]]] read_superblock_mounted[OF h] read_superblock_mounted[OF hc] by simp
  show ?thesis
  proof (cases "tail_block (jstate j)")
    case None
    then show ?thesis using r hc sb by (auto simp: recoverable_def journal_log_def Let_def)
  next
    case (Some tail)
    then have st: "log_state ?g (mounted (durable d)) tail (tail_tid (jstate j)) xs" "in_ring ?g tail"
      "t_tid txn = tail_tid (jstate j) + word_of_nat (length xs)"
      using r by (auto simp: journal_log_def Let_def log_state_def committable_def)
    have "log_holds ?g (mounted (durable c)) tail (lts_blocks xs) = log_holds ?g (mounted (durable d)) tail (lts_blocks xs)"
      using same log_area_subset[OF healthyD(1)[OF h] st(2)] by (intro log_holds_mounted) blast
    then have ls: "log_state ?g (mounted (durable c)) tail (tail_tid (jstate j)) xs"
      using st(1) sb by (auto simp: log_state_def final_writes_def)
    let ?stop = "advance ?g tail (length (lts_blocks xs))"
    have ring: "in_ring ?g ?stop" by (rule advance_in_ring[OF healthyD(1)[OF h] st(2)])
    then have "block_map ?g ! ?stop \<in> set (block_map ?g)" using healthyD(1)[OF h] by (auto simp: in_ring_def geometry_ok_def)
    then have "\<not> journal_block_of (durable c (block_map ?g ! ?stop)) (t_tid txn)"
      using r ring same by (simp add: stale_free_def)
    then have "scan_transaction ?g (mounted (durable c)) ?stop (t_tid txn) = Ok None"
      by (intro scan_boundary boundary_mounted[OF healthyD(1)[OF h] ring])
    moreover obtain raw where "read_raw_superblock ?g (mounted (durable c)) = Ok raw" "s_start raw = word_of_nat tail"
      using ls by (auto simp: log_state_def)
    ultimately show ?thesis
      unfolding recoverable_def using hc ls word_of_nat_pos(1)[OF hc st(2)] st(3) Some by (auto simp: log_tid_def)
  qed
qed

definition holds_transaction :: "LoggedTxn \<Rightarrow> Transaction \<Rightarrow> bool" where
  "holds_transaction x txn \<longleftrightarrow> lt_writes x = metadata_blocks txn \<and> lt_revokes x = t_revoked txn"

lemma commit_crash_recoverable:
  assumes "commit_ready j d xs txn" "try_commit_transaction secs nsecs j d txn = (r, j', d')" "crash d' c"
  shows "\<exists>ys. recoverable (geometry j) (durable c) (log_tid j txn) ys \<and>
    (ys = xs \<or> (\<exists>x. holds_transaction x txn \<and> ys = xs @ [x]) \<and>
       (\<forall>b. b \<notin> set (block_map (geometry j)) \<longrightarrow> durable c b = apply_writes (ordered_writes txn) (visible d) b)) \<and>
    (\<forall>t. r = Ok (Committed t) \<longrightarrow> ys \<noteq> xs)"
proof -
  let ?g = "geometry j"
  consider (stopped) "d' = d" "\<forall>t. r \<noteq> Ok (Committed t)"
    | (wrote) revs chain where "build_revoke_blocks txn (tag_layout ?g) (csum_seed ?g) = Ok revs"
        "build_descriptor_chain txn (tag_layout ?g) (csum_seed ?g) = Ok chain"
        "commit_footprint revs chain \<le> free_log_blocks ?g (head (jstate j)) (tail_block (jstate j))"
        "write_transaction secs nsecs j d txn revs chain = (r, j', d')"
    using assms(2) by (auto simp: try_commit_transaction_def Let_def not_less split: sum.splits if_splits)
  then show ?thesis
  proof cases
    case stopped
    then show ?thesis using quiet_crash_recoverable[OF assms(1)] assms(3) by blast
  next
    case wrote
    obtain p x where p: "commit_writes p j txn revs chain secs nsecs d" "plan_ok p j xs (t_tid txn) x"
      "lt_writes x = metadata_blocks txn" "lt_revokes x = t_revoked txn" "cp_geometry p = ?g"
      "cp_data p = apply_writes (ordered_writes txn) (visible d)"
      by (rule plan_of_commit[OF assms(1) wrote(1-3)])
    obtain sl an where im: "commit_image p sl an (durable c)" "an \<longrightarrow> tail_block (jstate j) = None"
      "\<forall>v. r = Ok v \<longrightarrow> sl \<and> (an \<or> tail_block (jstate j) \<noteq> None)"
      using write_transaction_crash_ordered[OF p(1) wrote(4)] assms(3) unfolding crash_ordered_def by blast
    have dat: "sl \<Longrightarrow> b \<notin> set (block_map ?g) \<Longrightarrow> durable c b = apply_writes (ordered_writes txn) (visible d) b" for b
      using im(1) p(5,6) by (simp add: commit_image_def)
    have x: "holds_transaction x txn" using p(3,4) by (simp add: holds_transaction_def)
    note rec = commit_image_recoverable[OF p(2) im(1,2)]
    show ?thesis
    proof (cases "sl \<and> (an \<or> tail_block (jstate j) \<noteq> None)")
      case True
      then show ?thesis using rec x dat by (intro exI[of _ "xs @ [x]"]) (auto simp del: split_paired_Ex)
    next
      case False
      then show ?thesis using rec im(3) by (intro exI[of _ xs]) auto
    qed
  qed
qed

end
