(* ===== verification/Recovery_Crash.thy ===== *)
theory Recovery_Crash
  imports Crash_Safety
begin

text \<open>
  Power loss during recovery.  Replay writes only final locations and the superblock is
  rewritten last, behind a flush; a recovery that is cut short at any point and run again
  therefore leaves the same file-system content as one that ran to its end.
\<close>

section \<open>What recovery reads\<close>

text \<open>Recovery depends on the journal's blocks only.\<close>

definition same_log :: "JournalGeometry \<Rightarrow> (u64 \<Rightarrow> bytes) \<Rightarrow> (u64 \<Rightarrow> bytes) \<Rightarrow> bool" where
  "same_log g m m' \<longleftrightarrow> (\<forall>b\<in>set (block_map g). m' b = m b)"

lemma read_log_block_same:
  assumes "same_log g (visible d) (visible d')" "bad_read d' = bad_read d"
  shows "read_log_block g d' p = read_log_block g d p"
  using assms by (auto simp: read_log_block_def log_block_to_physical_def read_block_def same_log_def)

lemma scan_loop_same:
  assumes "\<And>p. read_log_block g d' p = read_log_block g d p"
  shows "scan_loop g d' t log consumed ok = scan_loop g d t log consumed ok"
proof (induction "Suc (maxlen g) - consumed" arbitrary: log consumed ok rule: less_induct)
  case less
  have IH: "scan_loop g d' t l c k = scan_loop g d t l c k" if "consumed < c" "c \<le> maxlen g" for l c k
    by (rule less.hyps) (use that in simp)
  show ?case
  proof (cases "read_log_block g d log")
    case (Inr b)
    have "scan_loop g d' t l (c + 1) k = scan_loop g d t l (c + 1) k"
      if "step_tags g ts log consumed = Ok (l', c)" "\<not> maxlen g < c + 1" for l l' c k ts
      using IH step_tags_consumed[OF that(1)] that(2) by simp
    then show ?thesis
      using Inr IH[of "consumed + 1"]
      by (subst (1 2) scan_loop.simps) (simp add: assms Let_def split: sum.splits prod.splits)
  qed (subst (1 2) scan_loop.simps, simp add: assms)
qed

lemma recoverable_same:
  assumes "recoverable g m t xs" "same_log g m m'" "\<forall>b. length (m' b) = BLOCK_SIZE"
  shows "recoverable g m' t xs"
proof -
  have h: "healthy g (mounted m)" "healthy g (mounted m')"
    using assms(1,3) healthy_mounted by (auto simp: recoverable_def)
  have sb: "read_raw_superblock g (mounted m') = read_raw_superblock g (mounted m)"
    using assms(2) sb_block_in_map[OF healthyD(1)[OF h(1)]]
    by (simp add: read_superblock_mounted[OF h(1)] read_superblock_mounted[OF h(2)] same_log_def)
  have rd: "read_log_block g (mounted m') p = read_log_block g (mounted m) p" for p
    using assms(2) by (intro read_log_block_same) (simp_all add: mounted_def visible_def)
  have scan: "scan_transaction g (mounted m') p t' = scan_transaction g (mounted m) p t'" for p t'
    unfolding scan_transaction_def using rd by (rule scan_loop_same)
  have ls: "log_state g (mounted m') p t xs = log_state g (mounted m) p t xs" for p
    by (simp add: log_state_def sb log_holds_nth rd final_writes_def)
  show ?thesis using assms(1) h(2) unfolding recoverable_def sb scan ls by blast
qed

section \<open>The device after a cut\<close>

text \<open>A device on which at most \<open>n\<close> more flushes complete.\<close>

definition attached :: "nat option \<Rightarrow> (u64 \<Rightarrow> bytes) \<Rightarrow> device" where
  "attached n m = (mounted m)\<lparr> syncs_left := n \<rparr>"

lemma attached_simps [simp]:
  "visible (attached n m) = m" "durable (attached n m) = m" "pending (attached n m) = []"
  "bad_read (attached n m) = bad_read (mounted m)" "\<not> bad_write (attached n m) b"
  by (simp_all add: attached_def mounted_def visible_def)

lemma apply_writes_base: "b \<in> fst ` set ws \<Longrightarrow> apply_writes ws m b = apply_writes ws m' b"
proof (induction ws arbitrary: m m')
  case (Cons w ws)
  obtain c v where w: "w = (c, v)" by (cases w)
  show ?case
  proof (cases "b \<in> fst ` set ws")
    case True
    then show ?thesis using Cons.IH by (simp add: w apply_writes_Cons)
  next
    case False
    then show ?thesis using Cons.prems by (simp add: w apply_writes_Cons apply_writes_other)
  qed
qed simp

text \<open>Replaying over a half-replayed image gives the same content.\<close>

lemma recovered_partial:
  assumes "\<forall>b. m' b = m b \<or> (b, m' b) \<in> set (replay_writes (collected t xs) t xs)"
  shows "recovered m' t xs = recovered m t xs"
proof
  fix b
  let ?ws = "replay_writes (collected t xs) t xs"
  show "recovered m' t xs b = recovered m t xs b"
  proof (cases "b \<in> fst ` set ?ws")
    case True
    then show ?thesis unfolding recovered_def by (rule apply_writes_base)
  next
    case False
    then have "m' b = m b" using assms by (metis fst_conv image_eqI)
    then show ?thesis using False by (simp add: recovered_def apply_writes_other)
  qed
qed

lemma recover_attached:
  assumes "recoverable g m t xs" "geometry j = g" "read_raw_superblock g (mounted m) = Ok raw" "s_start raw \<noteq> 0"
  defines "ws \<equiv> replay_writes (collected t xs) t xs"
  shows "recover j (attached n m) = Some
      (jd_bind (with_device j (barrier (add_writes (attached n m) ws))) (\<lambda>_ j d.
       jd_bind (with_device j (write_superblock g d
          (raw\<lparr> s_start := 0, s_sequence := t + word_of_nat (length xs), s_head := word_of_nat (first g) \<rparr>))) (\<lambda>_ j d.
       (Ok (), publish_recovery j (t + word_of_nat (length xs)), d))))"
    "final_writes g (mounted m) ws"
proof -
  have h: "healthy g (mounted m)" using assms(1) by (simp add: recoverable_def)
  note hd = healthyD[OF h]
  obtain pos where ls: "log_state g (mounted m) pos t xs"
    "scan_transaction g (mounted m) (advance g pos (length (lts_blocks xs))) (t + word_of_nat (length xs)) = Ok None"
    using assms(1,3,4) by (auto simp: recoverable_def)
  have st: "in_ring g pos" "lts_ok g t xs" "log_holds g (mounted m) pos (lts_blocks xs)"
    "final_writes g (mounted m) (concat (map lt_writes xs))" "length (lts_blocks xs) \<le> ring_size g"
    "s_start raw = word_of_nat pos" "s_sequence raw = t"
    using ls(1) assms(3) by (auto simp: log_state_def)
  have rd: "read_log_block g (attached n m) p = read_log_block g (mounted m) p" for p
    by (rule read_log_block_same) (simp_all add: same_log_def)
  have sb: "read_raw_superblock g (attached n m) = Ok raw"
    using assms(3) superblock_block_ok[OF hd(1)] by (simp add: read_raw_superblock_def read_block_def)
  have hold: "log_holds g (attached n m) pos (lts_blocks xs)" using st(3) by (simp add: log_holds_nth rd)
  have scn: "scan_transaction g (attached n m) (advance g pos (length (lts_blocks xs))) (t + word_of_nat (length xs)) = Ok None"
    using ls(2) scan_loop_same[OF rd] by (simp add: scan_transaction_def)
  have fuel: "length xs < recovery_fuel g"
    using length_lts_le[of xs] st(5) hd(1) by (auto simp: recovery_fuel_def ring_size_def geometry_ok_def)
  have fw: "final_writes g (attached n m) (concat (map lt_writes xs))" using st(4) by (simp add: final_writes_def)
  have sz: "sized (attached n m)" using hd(4) by (simp add: sized_def)
  note un = word_of_nat_pos(2)[OF h st(1)]
  have "scan_committed (recovery_fuel g) g (attached n m) pos t 0 =
      Some (Ok (advance g pos (length (lts_blocks xs)), t + word_of_nat (length xs), length xs))"
    using scan_committed_ok[OF st(2) hold scn fuel, of 0] by simp
  moreover have "collect_revokes (length xs) g (attached n m) pos t RevokeTable_new = Ok (collected t xs)"
    using collect_revokes_ok[OF st(2) hold] by (simp add: collected_def)
  moreover have "replay_transactions (length xs) g (attached n m) pos t (collected t xs) = (Ok (), add_writes (attached n m) ws)"
    unfolding ws_def by (rule replay_transactions_ok[OF hd(1) st(1) sz st(2) hold fw])
  moreover have "recovery_start raw = Some (word_of_nat pos)"
    using st(6) assms(4) by (simp add: recovery_start_def Let_def)
  ultimately show "recover j (attached n m) = Some
      (jd_bind (with_device j (barrier (add_writes (attached n m) ws))) (\<lambda>_ j d.
       jd_bind (with_device j (write_superblock g d
          (raw\<lparr> s_start := 0, s_sequence := t + word_of_nat (length xs), s_head := word_of_nat (first g) \<rparr>))) (\<lambda>_ j d.
       (Ok (), publish_recovery j (t + word_of_nat (length xs)), d))))"
    using sb st(6,7) assms(2) un by (simp add: recover_def Let_def jd_device)
  show "final_writes g (mounted m) ws" unfolding ws_def by (rule final_writes_replay[OF st(4)])
qed

lemma half_replayed:
  assumes "recoverable g m t xs" "final_writes g (mounted m) (replay_writes (collected t xs) t xs)"
    and "\<forall>b. m' b = m b \<or> (b, m' b) \<in> set (replay_writes (collected t xs) t xs)"
  shows "recoverable g m' t xs" "recovered m' t xs = recovered m t xs"
proof -
  have out: "\<forall>(b, v)\<in>set (replay_writes (collected t xs) t xs). b \<notin> set (block_map g) \<and> length v = BLOCK_SIZE"
    using assms(2) by (auto simp: final_writes_def sized_writes_def)
  have "sized (mounted m)" using assms(1) by (auto simp: recoverable_def dest: healthyD)
  then have "length (m' b) = BLOCK_SIZE" for b
    using assms(3)[rule_format, of b] out by (auto simp: sized_def)
  moreover have "same_log g m m'" using assms(3) out by (fastforce simp: same_log_def)
  ultimately show "recoverable g m' t xs" using recoverable_same[OF assms(1)] by blast
qed (rule recovered_partial[OF assms(3)])

lemma write_superblock_crash:
  assumes "geometry_ok g" "pending d = []" "\<forall>b. \<not> bad_write d b" "crash (snd (write_superblock g d raw)) c"
  shows "durable c = durable d \<or> durable c = (durable d)(sb_block g := sb_image raw (durable d (sb_block g)))"
proof -
  let ?w = "(sb_block g, sb_image raw (durable d (sb_block g)))"
  obtain r d' where b: "barrier (add_writes d [?w]) = (r, d')" by fastforce
  have "write_superblock g d raw = (r, d')"
    using superblock_block_ok[OF assms(1)] assms(2,3) b
    by (simp add: write_superblock_def write_block_def sb_image_def add_writes_def sb_block_def visible_def)
  then have c: "crash d' c" using assms(4) by simp
  from b show ?thesis
  proof (cases rule: barrier_cases)
    case flushed
    then show ?thesis using crash_none_pending[OF _ c] assms(2) by (simp add: visible_def)
  next
    case (stuck e)
    then show ?thesis using crash_one[OF c, of "sb_block g" "snd ?w"] assms(2) by auto
  qed
qed

text \<open>Marking the log clean over a finished replay loses nothing.\<close>

lemma clean_recoverable:
  assumes "healthy g (mounted m)" "raw_sb_ok raw" "s_start raw = 0"
  shows "recoverable g (m(sb_block g := sb_image raw (m (sb_block g)))) t []"
proof -
  have "length (m b) = BLOCK_SIZE" for b using healthyD(4)[OF assms(1)] by (simp add: sized_def)
  then have "healthy g (mounted (m(sb_block g := sb_image raw (m (sb_block g)))))"
    using length_sb_image[OF assms(2)] by (intro healthy_mounted[OF assms(1)]) auto
  then show ?thesis
    using sb_image_parse[OF assms(2), of "m (sb_block g)"] assms(3) read_superblock_mounted by (simp add: recoverable_def)
qed

text \<open>Any recovery, cut by a crash wherever its device stops flushing, leaves an image that
  recovers to the same content.\<close>

lemma recovery_crash_recoverable:
  assumes "recoverable g m t xs" "geometry j = g" "recover j (attached n m) = Some (r, j', d')" "crash d' c"
  shows "\<exists>ys. recoverable g (durable c) t ys \<and>
    (\<forall>b. b \<notin> set (block_map g) \<longrightarrow> recovered (durable c) t ys b = recovered m t xs b)"
proof -
  have h: "healthy g (mounted m)" using assms(1) by (simp add: recoverable_def)
  note hd = healthyD[OF h]
  obtain raw where raw: "read_raw_superblock g (mounted m) = Ok raw" using assms(1) by (auto simp: recoverable_def)
  show ?thesis
  proof (cases "s_start raw = 0")
    case True
    then have "d' = attached n m"
      using assms(2,3) raw superblock_block_ok[OF hd(1)]
      by (simp add: recover_def Let_def read_raw_superblock_def read_block_def recovery_start_def)
    then have "durable c = m" using crash_none_pending[of d' c] assms(4) by simp
    then show ?thesis using assms(1) by auto
  next
    case False
    let ?ws = "replay_writes (collected t xs) t xs" and ?sb = "sb_block g" and ?m1 = "recovered m t xs"
    let ?raw = "raw\<lparr> s_start := 0, s_sequence := t + word_of_nat (length xs), s_head := word_of_nat (first g) \<rparr>"
    note run = recover_attached[OF assms(1,2) raw False]
    note half = half_replayed[OF assms(1) run(2)]
    have all: "\<forall>b. ?m1 b = m b \<or> (b, ?m1 b) \<in> set ?ws" unfolding recovered_def using apply_writes_cases by blast
    obtain rb db where b1: "barrier (add_writes (attached n m) ?ws) = (rb, db)" by fastforce
    from b1 show ?thesis
    proof (cases rule: barrier_cases)
      case (stuck e)
      then have "d' = add_writes (attached n m) ?ws" using assms(3) run(1)[of n] b1 by (simp add: jd_device)
      then have "\<forall>b. durable c b = m b \<or> (b, durable c b) \<in> set ?ws" using crash_block[OF assms(4)] by simp
      from half[OF this] show ?thesis by auto
    next
      case flushed
      have d': "d' = snd (write_superblock g db ?raw)"
        using assms(3) run(1)[of n] b1 flushed(1)
        by (cases "write_superblock g db ?raw"; cases "fst (write_superblock g db ?raw)") (auto simp: jd_device)
      have db: "durable db = ?m1" "\<forall>b. \<not> bad_write db b"
        using flushed b1 by (auto simp: recovered_def barrier_def sync_def split: option.splits nat.splits)
      have "healthy g (mounted ?m1)" using half(1)[OF all] by (simp add: recoverable_def)
      moreover have "raw_sb_ok ?raw" using read_raw_superblock_raw_ok[OF h raw] by (simp add: raw_sb_ok_def)
      ultimately have clean: "recoverable g (?m1(?sb := sb_image ?raw (?m1 ?sb))) t []"
        by (intro clean_recoverable) simp_all
      consider "durable c = ?m1" | "durable c = ?m1(?sb := sb_image ?raw (?m1 ?sb))"
        using write_superblock_crash[OF hd(1) flushed(3) db(2)] assms(4) d' db(1) by auto
      then show ?thesis
      proof cases
        case 1
        then show ?thesis using half[OF all] by auto
      next
        case 2
        then show ?thesis using clean sb_block_in_map[OF hd(1)] by (intro exI[of _ "[]"]) auto
      qed
    qed
  qed
qed

end
