(* ===== verification/Replay_Spec.thy ===== *)
theory Replay_Spec
  imports Recovery_Crash
begin

text \<open>
  The abstract meaning of a committed log: for each block the newest image, where a revoke
  drops every image logged up to and including its own transaction.  Recovery refines it.
\<close>

definition newest_step :: "Ext4Bid \<Rightarrow> bytes option \<Rightarrow> LoggedTxn \<Rightarrow> bytes option" where
  "newest_step b img x =
     (if b \<in> set (lt_revokes x) then None
      else case map_of (lt_writes x) b of Some v \<Rightarrow> Some v | None \<Rightarrow> img)"

definition newest :: "LoggedTxn list \<Rightarrow> Ext4Bid \<Rightarrow> bytes option" where
  "newest xs b = foldl (newest_step b) None xs"

lemma newest_simps [simp]:
  "newest [] b = None" "newest (xs @ [x]) b = newest_step b (newest xs b) x"
  by (simp_all add: newest_def)

lemma block_survives_snoc:
  "block_survives (xs @ [x]) b i \<longleftrightarrow>
     (i \<le> length xs \<longrightarrow> b \<notin> set (lt_revokes x)) \<and> block_survives xs b i"
  by (auto simp: block_survives_def nth_append less_Suc_eq)

lemma newest_Some:
  "newest xs b = Some v \<Longrightarrow>
   \<exists>i<length xs. (b, v) \<in> set (lt_writes (xs ! i)) \<and> block_survives xs b i \<and>
     (\<forall>k<length xs. i < k \<longrightarrow> b \<notin> fst ` set (lt_writes (xs ! k)))"
proof (induction xs rule: rev_induct)
  case (snoc x xs)
  then have rv: "b \<notin> set (lt_revokes x)" by (auto simp: newest_step_def split: if_splits)
  show ?case
  proof (cases "map_of (lt_writes x) b")
    case None
    then have "newest xs b = Some v" using snoc.prems rv by (simp add: newest_step_def)
    with snoc.IH obtain i where i: "i < length xs" "(b, v) \<in> set (lt_writes (xs ! i))" "block_survives xs b i"
      "\<forall>k<length xs. i < k \<longrightarrow> b \<notin> fst ` set (lt_writes (xs ! k))" by blast
    moreover have "b \<notin> fst ` set (lt_writes x)" using None by (simp add: map_of_eq_None_iff)
    ultimately show ?thesis
      using rv by (intro exI[of _ i]) (auto simp: nth_append block_survives_snoc less_Suc_eq)
  next
    case (Some w)
    then have "(b, v) \<in> set (lt_writes x)" using snoc.prems rv by (auto simp: newest_step_def dest: map_of_SomeD)
    then show ?thesis
      using rv by (intro exI[of _ "length xs"]) (auto simp: nth_append block_survives_def)
  qed
qed simp

lemma newest_None:
  "newest xs b = None \<Longrightarrow> i < length xs \<Longrightarrow> b \<in> fst ` set (lt_writes (xs ! i)) \<Longrightarrow> \<not> block_survives xs b i"
proof (induction xs arbitrary: i rule: rev_induct)
  case (snoc x xs)
  show ?case
  proof (cases "b \<in> set (lt_revokes x)")
    case True
    then show ?thesis using snoc.prems(2) by (simp add: block_survives_snoc)
  next
    case False
    then have "newest xs b = None" "b \<notin> fst ` set (lt_writes x)"
      using snoc.prems(1) by (auto simp: newest_step_def map_of_eq_None_iff split: option.splits)
    then show ?thesis
      using snoc by (cases "i = length xs") (auto simp: nth_append block_survives_snoc less_Suc_eq)
  qed
qed simp

lemma recovered_newest:
  assumes "length xs \<le> 2 ^ 31" "\<forall>x\<in>set xs. distinct (map fst (lt_writes x))"
  shows "recovered m t xs b = (case newest xs b of None \<Rightarrow> m b | Some v \<Rightarrow> v)"
proof (cases "newest xs b")
  case None
  then show ?thesis
    unfolding recovered_def using newest_None[OF None] by (simp add: replayed_unchanged[OF assms(1)])
next
  case (Some v)
  then obtain i where i: "i < length xs" "(b, v) \<in> set (lt_writes (xs ! i))" "block_survives xs b i"
    "\<forall>k<length xs. i < k \<longrightarrow> b \<notin> fst ` set (lt_writes (xs ! k))"
    using newest_Some by blast
  then have "recovered m t xs b = v"
    unfolding recovered_def using assms by (intro replayed_image[of xs i]) auto
  then show ?thesis using Some by simp
qed

text \<open>The last transaction decides: its images are in place, its revokes hold.\<close>

lemma recovered_last_image:
  assumes "length (xs @ [x]) \<le> 2 ^ 31" "(b, v) \<in> set (lt_writes x)" "distinct (map fst (lt_writes x))"
    and "b \<notin> set (lt_revokes x)"
  shows "recovered m t (xs @ [x]) b = v"
  unfolding recovered_def using assms
  by (intro replayed_image[of "xs @ [x]" "length xs"]) (simp_all add: block_survives_snoc, simp add: block_survives_def)

lemma recovered_last_revoked:
  assumes "length (xs @ [x]) \<le> 2 ^ 31" "b \<in> set (lt_revokes x)"
  shows "recovered m t (xs @ [x]) b = m b"
  unfolding recovered_def using assms
  by (intro replayed_unchanged) (auto simp: block_survives_snoc)

lemma recovered_captured:
  assumes "length (xs @ [x]) \<le> 2 ^ 31" "holds_transaction x txn" "transaction_ok txn" "(b, cap) \<in> set (metadata txn)"
  shows "recovered m t (xs @ [x]) b = buffer cap"
proof -
  have "map fst (metadata_blocks txn) = map fst (metadata txn)" by (simp add: metadata_blocks_def case_prod_unfold)
  then have "distinct (map fst (lt_writes x))"
    using assms(2,3) by (simp add: holds_transaction_def transaction_ok_def bt_ok_def strict_sorted_iff)
  then show ?thesis
    using recovered_last_image[OF assms(1), of b "buffer cap"] assms(2-4)
    by (force simp: holds_transaction_def transaction_ok_def metadata_blocks_def)
qed

lemma recoverable_length:
  assumes "recoverable g m t xs"
  shows "length xs \<le> maxlen g"
proof -
  have "length (lts_blocks xs) \<le> ring_size g \<or> xs = []"
    using assms by (auto simp: recoverable_def log_state_def split: if_splits)
  then show ?thesis using length_lts_le[of xs] by (auto simp: ring_size_def)
qed

end
