(* ===== verification/Sample_Journal.thy ===== *)
theory Sample_Journal
  imports Crash_Safety
begin

text \<open>
  A small journal: eight log blocks at device blocks 100 to 107, the plain tag layout without
  checksums, a zeroed device, and one staged transaction that captured block 7.  The facts below
  show that the preconditions of the journal properties hold of it.
\<close>

definition sample_geometry :: JournalGeometry where
  "sample_geometry =
     \<lparr> block_map = [100, 101, 102, 103, 104, 105, 106, 107],
       jsuper = \<lparr> js_maxlen = 8, js_first = 1, js_sequence = 1, js_start = None, js_errno = 0, js_blocksize = 4096,
                  js_tag_layout = \<lparr> tag_bytes = 8, has_blocknr_high = False, csum_v3 = False, descriptor_tail_bytes = 0 \<rparr>,
                  js_csum_seed = None \<rparr> \<rparr>"

definition sample_image :: "u64 \<Rightarrow> bytes" where
  "sample_image = (\<lambda>_. replicate BLOCK_SIZE 0)"

definition sample_txn :: Transaction where
  "sample_txn = snd (capture_create (Transaction_new 0 1000 1) 7)"

definition sample_journal :: Journal where
  "sample_journal = set_phase (Journal_new sample_geometry) sample_txn Locked"

lemma sample_geometry_simps [simp]:
  "block_map sample_geometry = [100, 101, 102, 103, 104, 105, 106, 107]"
  "maxlen sample_geometry = 8" "first sample_geometry = 1" "csum_seed sample_geometry = None"
  "geometry sample_journal = sample_geometry" "geometry (Journal_new g) = g"
  "head (jstate sample_journal) = 1" "tail_block (jstate sample_journal) = None"
  by (simp_all add: sample_geometry_def maxlen_def first_def csum_seed_def sample_journal_def Journal_new_def set_phase_def)

lemma sample_geometry_ok: "geometry_ok sample_geometry"
  by (simp add: geometry_ok_def layout_ok_def tag_layout_def sample_geometry_def maxlen_def first_def csum_seed_def
      has_csum_def)

lemma sample_healthy: "healthy sample_geometry (mounted sample_image)"
  by (simp add: healthy_def sample_geometry_ok sized_def sample_image_def)

lemma word_of_le_zeros: "word_of_le (replicate n (0 :: u8)) = (0 :: u32)"
  by (induction n) simp_all

lemma word_of_be_zeros: "word_of_be (replicate n (0 :: u8)) = (0 :: u32)"
  by (simp add: word_of_be_def word_of_le_zeros)

lemma sample_stale_free: "stale_free sample_geometry sample_image t"
  by (simp add: stale_free_def journal_block_of_def sample_image_def RawJournalHeader_parse_def
      word_of_be_zeros JBD2_MAGIC_def BLOCK_SIZE_def)

lemma sample_superblock:
  "\<exists>raw. read_raw_superblock sample_geometry (mounted sample_image) = Ok raw \<and> s_start raw = 0"
  unfolding read_superblock_mounted[OF sample_healthy]
  by (simp add: RawJournalSuperblock_from_bytes_def sample_image_def slice_def JOURNAL_SUPERBLOCK_SIZE_def
      BLOCK_SIZE_def word_of_be_zeros)

lemma sample_log: "journal_log sample_journal (mounted sample_image) []"
  using sample_superblock sample_healthy by (simp add: journal_log_def Let_def in_ring_def)

lemma sample_txn_simps [simp]:
  "metadata sample_txn = [(7, \<lparr> generation = 0, buffer = replicate BLOCK_SIZE 0 \<rparr>)]"
  "ordered_writes sample_txn = []" "ordered_data sample_txn = []" "t_tid sample_txn = 1"
  "t_revoked sample_txn = []"
  by (simp_all add: sample_txn_def capture_create_def Transaction_new_def mint_capture_generation_def
      ordered_writes_def ordered_data_def bs_remove_def)

lemma sample_txn_ok: "transaction_ok sample_txn"
  unfolding sample_txn_def by (intro capture_create_ok transaction_ok_new)

lemma sample_committable: "committable sample_journal [] sample_txn"
  by (simp add: committable_def sample_txn_ok sample_journal_def[symmetric])
     (simp add: sample_journal_def)

lemma sample_commit_ready: "commit_ready sample_journal (mounted sample_image) [] sample_txn"
  by (simp add: commit_ready_def sample_log sample_committable sample_stale_free)

end
