(* ===== verification/Commit_Fits.thy ===== *)
theory Commit_Fits
  imports Commit_Correct
begin

text \<open>
  When a commit succeeds: the builders accept every transaction with a capture whose block
  numbers the tag layout can express, the blocks they return number exactly what the admission
  arithmetic of \<open>journal/mod.rs\<close> predicts, and a transaction within the credit limit fits an
  empty log.
\<close>

section \<open>The builders are total\<close>

lemma collect_results_total:
  "(\<And>x. x \<in> set xs \<Longrightarrow> \<exists>y. f x = Ok y) \<Longrightarrow> \<exists>ys. collect_results f xs = Ok ys"
proof (induction xs)
  case (Cons x xs)
  then obtain y ys where "f x = Ok y" "collect_results f xs = Ok ys" by fastforce
  then show ?case by simp
qed simp

lemma chunk_subset: "0 < n \<Longrightarrow> c \<in> set (chunks n xs) \<Longrightarrow> set c \<subseteq> set xs"
  by (metis UN_upper concat_chunks set_concat)

lemma revoke_put_all_total:
  assumes "layout_ok L"
  shows "revoke_writer_ok L w \<Longrightarrow> \<forall>b\<in>set bs. blocknr_fits L b \<Longrightarrow>
    rw_offset w + length bs * RevokeEntryWidth_bytes (revoke_entry_width L) \<le> tag_area_end L \<Longrightarrow>
    \<exists>w'. revoke_put_all w bs = Ok w'"
proof (induction bs arbitrary: w)
  case (Cons b bs)
  let ?n = "RevokeEntryWidth_bytes (revoke_entry_width L)"
  let ?w1 = "w\<lparr> rw_block := splice (rw_offset w) (revoke_entry_bytes (revoke_entry_width L) b) (rw_block w),
    rw_offset := rw_offset w + ?n \<rparr>"
  have put: "RevokeBlockWriter_put w b = Ok ?w1"
    using Cons.prems by (simp add: revoke_put_eq Let_def)
  have "tag_area_end L \<le> BLOCK_SIZE" by (rule layout_ok_bounds(4)[OF assms])
  then have "revoke_writer_ok L ?w1"
    using Cons.prems(1,3) by (auto simp: revoke_writer_ok_def)
  then obtain w' where "revoke_put_all ?w1 bs = Ok w'" using Cons by fastforce
  then show ?case using put by simp
qed simp

lemma build_revoke_total:
  assumes "layout_ok L" "(seed \<noteq> None) = has_csum L" "\<forall>b\<in>set (t_revoked txn). blocknr_fits L b"
  shows "\<exists>revs. build_revoke_blocks txn L seed = Ok revs \<and> length revs = nr_revoke_blocks txn L"
proof -
  note pos = capacities_pos(2)[OF assms(1)]
  have tot: "\<exists>y. and_then (revoke_writer L (t_tid txn) seed) (\<lambda>w.
      and_then (revoke_put_all w run) (\<lambda>w'. Ok (RevokeBlockWriter_finish w'))) = Ok y"
    if run: "run \<in> set (chunks (revoke_entries_per_block L) (t_revoked txn))" for run
  proof -
    obtain w where w: "revoke_writer L (t_tid txn) seed = Ok w"
      using assms(2) by (auto simp: revoke_writer_def Let_def)
    note init = revoke_writer_ok_initial[OF assms(1) w]
    have len: "length run \<le> revoke_entries_per_block L" using chunks_member[OF run] by simp
    have "length run * RevokeEntryWidth_bytes (revoke_entry_width L) \<le> tag_area_end L - REVOKE_HEADER_SIZE"
      using len by (simp add: revoke_entries_per_block_def)
        (metis div_times_less_eq_dividend le_trans mult_le_mono1)
    moreover have "REVOKE_HEADER_SIZE \<le> tag_area_end L" using init(1,2) by (simp add: revoke_writer_ok_def)
    ultimately have "rw_offset w + length run * RevokeEntryWidth_bytes (revoke_entry_width L) \<le> tag_area_end L"
      using init(2) by simp
    then obtain w' where "revoke_put_all w run = Ok w'"
      using revoke_put_all_total[OF assms(1) init(1)] chunk_subset[OF pos run] assms(3) by blast
    then show ?thesis using w by simp
  qed
  have "\<exists>revs. build_revoke_blocks txn L seed = Ok revs"
    unfolding build_revoke_blocks_def by (rule collect_results_total) (rule tot)
  then obtain revs where revs: "build_revoke_blocks txn L seed = Ok revs" by blast
  then have "length revs = length (chunks (revoke_entries_per_block L) (t_revoked txn))"
    unfolding build_revoke_blocks_def collect_results_iff by (simp add: list_all2_lengthD)
  then show ?thesis using revs by (simp add: length_chunks[OF pos] nr_revoke_blocks_def)
qed

lemma run_puts_flags:
  "run_flags (run_puts (length run) 0 run)"
  by (simp add: run_flags_def nth_run_puts capture_flags_bits)

lemma build_run_total:
  assumes "layout_ok L" "(seed \<noteq> None) = has_csum L" "run \<noteq> []" "length run \<le> tags_per_descriptor L"
    and "\<forall>x\<in>set run. blocknr_fits L (fst x)"
  shows "\<exists>r. build_descriptor_run t run L seed = Ok r \<and> nr_blocks r = length run"
proof -
  define block where "block = splice 0 (RawJournalHeader_as_bytes
    \<lparr> h_magic = JBD2_MAGIC, h_blocktype = BLOCKTYPE_DESCRIPTOR, h_sequence = t \<rparr>) (replicate BLOCK_SIZE 0)"
  have len: "length block = BLOCK_SIZE" by (simp add: block_def BLOCK_SIZE_def)
  obtain w where w: "TagLayout_writer L block t seed = Ok w"
    using assms(2) by (cases seed; cases "csum_v3 L") (auto simp: TagLayout_writer_def)
  have wok: "writer_ok L w" "tw_offset w = first_tag_offset L"
    using writer_ok_initial[OF assms(1) len w] by simp_all
  have "\<forall>x\<in>set (run_puts (length run) 0 run). blocknr_fits L (fst x)"
    using assms(5) nth_mem by (fastforce simp: in_set_conv_nth nth_run_puts)
  then obtain w' where "put_all w (run_puts (length run) 0 run) = Ok w'"
    using put_all_fits_iff[OF assms(1) wok run_puts_flags] assms(4)
      tags_per_descriptor_exact[OF assms(1), of "length run"] by auto
  then show ?thesis
    using w by (simp add: build_descriptor_run_def Let_def block_def[symmetric] put_captures_eq nr_blocks_def)
qed

lemma sum_list_map_list_all2: "list_all2 (\<lambda>x y. g y = f x) xs ys \<Longrightarrow> sum_list (map g ys) = sum_list (map f xs)"
  by (induction rule: list_all2_induct) simp_all

lemma build_chain_total:
  assumes "layout_ok L" "(seed \<noteq> None) = has_csum L" "metadata txn \<noteq> []"
    and "\<forall>x\<in>set (metadata txn). blocknr_fits L (fst x)"
  shows "\<exists>chain. build_descriptor_chain txn L seed = Ok chain \<and>
    length chain = div_ceil (nr_metadata_blocks txn) (tags_per_descriptor L) \<and>
    sum_list (map nr_blocks chain) = nr_metadata_blocks txn"
proof -
  note pos = capacities_pos(1)[OF assms(1)]
  let ?runs = "chunks (tags_per_descriptor L) (metadata_blocks txn)"
  have fits: "\<forall>x\<in>set (metadata_blocks txn). blocknr_fits L (fst x)"
    using assms(4) by (auto simp: metadata_blocks_def)
  have tot: "\<exists>r. build_descriptor_run (t_tid txn) run L seed = Ok r \<and> nr_blocks r = length run" if "run \<in> set ?runs" for run
    using chunks_member[OF that] chunk_subset[OF pos that] fits by (intro build_run_total[OF assms(1,2)]) auto
  have "\<exists>chain. collect_results (\<lambda>run. build_descriptor_run (t_tid txn) run L seed) ?runs = Ok chain"
    by (rule collect_results_total) (use tot in blast)
  then obtain chain where c: "collect_results (\<lambda>run. build_descriptor_run (t_tid txn) run L seed) ?runs = Ok chain" by blast
  then have all: "list_all2 (\<lambda>run r. build_descriptor_run (t_tid txn) run L seed = Ok r) ?runs chain"
    by (simp add: collect_results_iff)
  have "list_all2 (\<lambda>run r. nr_blocks r = length run) ?runs chain"
    by (rule list.rel_mono_strong[OF all]) (use tot in fastforce)
  then have "sum_list (map nr_blocks chain) = sum_list (map length ?runs)" by (rule sum_list_map_list_all2)
  also have "\<dots> = length (concat ?runs)" by (simp add: length_concat)
  also have "\<dots> = nr_metadata_blocks txn"
    by (simp add: concat_chunks[OF pos] nr_metadata_blocks_def metadata_blocks_def)
  finally have sum: "sum_list (map nr_blocks chain) = nr_metadata_blocks txn" .
  have "length chain = div_ceil (nr_metadata_blocks txn) (tags_per_descriptor L)"
    using list_all2_lengthD[OF all] by (simp add: length_chunks[OF pos] nr_metadata_blocks_def metadata_blocks_def)
  then show ?thesis
    using c sum assms(3) by (auto simp: build_descriptor_chain_def metadata_blocks_def Let_def)
qed

section \<open>The footprint is the one admission reserved\<close>

definition fits_layout :: "TagLayout \<Rightarrow> Transaction \<Rightarrow> bool" where
  "fits_layout L txn \<longleftrightarrow>
     (\<forall>x\<in>set (metadata txn). blocknr_fits L (fst x)) \<and> (\<forall>b\<in>set (t_revoked txn). blocknr_fits L b)"

lemma build_total:
  assumes "geometry_ok g" "metadata txn \<noteq> []" "fits_layout (tag_layout g) txn"
  shows "\<exists>revs chain. build_revoke_blocks txn (tag_layout g) (csum_seed g) = Ok revs \<and>
    build_descriptor_chain txn (tag_layout g) (csum_seed g) = Ok chain \<and>
    commit_footprint revs chain = nr_metadata_blocks txn + nr_revoke_blocks txn (tag_layout g) +
      div_ceil (nr_metadata_blocks txn) (tags_per_descriptor (tag_layout g)) + 1"
  using build_revoke_total[of "tag_layout g" "csum_seed g" txn] build_chain_total[of "tag_layout g" "csum_seed g" txn] assms
  by (auto simp: geometry_ok_def fits_layout_def commit_footprint_def)

lemma commit_succeeds_if_room:
  assumes "journal_log j d xs" "committable j xs txn" "metadata txn \<noteq> []" "fits_layout (tag_layout (geometry j)) txn"
    and "worst_case_footprint (geometry j) (nr_metadata_blocks txn) (nr_revoke_blocks txn (tag_layout (geometry j)))
           \<le> free_log_blocks (geometry j) (head (jstate j)) (tail_block (jstate j))"
    and "length (block_map (geometry j)) < 2 ^ 32 - 1"
  shows "\<exists>j' d'. try_commit_transaction secs nsecs j d txn = (Ok (Committed (t_tid txn)), j', d')"
proof -
  let ?g = "geometry j"
  have h: "healthy ?g d" "in_ring ?g (head (jstate j))" using assms(1) by (auto simp: journal_log_def Let_def)
  note g = healthyD(1)[OF h(1)]
  obtain revs chain where b: "build_revoke_blocks txn (tag_layout ?g) (csum_seed ?g) = Ok revs"
    "build_descriptor_chain txn (tag_layout ?g) (csum_seed ?g) = Ok chain"
    "commit_footprint revs chain = nr_metadata_blocks txn + nr_revoke_blocks txn (tag_layout ?g) +
      div_ceil (nr_metadata_blocks txn) (tags_per_descriptor (tag_layout ?g)) + 1"
    using build_total[OF g assms(3,4)] by blast
  have free: "free_log_blocks ?g (head (jstate j)) (tail_block (jstate j)) < 2 ^ 32 - 1"
  proof -
    have "0 < worst_case_footprint ?g (nr_metadata_blocks txn) (nr_revoke_blocks txn (tag_layout ?g))"
      by (simp add: worst_case_footprint_def Let_def)
    then have "length (lts_blocks xs) + free_log_blocks ?g (head (jstate j)) (tail_block (jstate j)) \<le> ring_size ?g"
      using assms(5) by (intro commit_room[OF assms(1)]) simp_all
    then show ?thesis using g assms(6) by (auto simp: ring_size_def geometry_ok_def)
  qed
  have fp: "commit_footprint revs chain \<le> free_log_blocks ?g (head (jstate j)) (tail_block (jstate j))"
    "commit_footprint revs chain < 2 ^ 32"
    using assms(5) free by (auto simp: worst_case_footprint_def Let_def b(3) split: if_splits)
  have "write_transaction secs nsecs j d txn revs chain =
      (Ok (Committed (t_tid txn)), committed_journal j txn (commit_footprint revs chain),
       committed_device ?g d txn (head (jstate j))
         (chain_blocks revs chain @ [build_commit_block secs nsecs (t_tid txn) (csum_seed ?g)]) (tail_block (jstate j) = None))"
    using assms(2) h g item_blocks_sized[OF _ _ b(1,2)]
    by (intro write_transaction_healthy) (auto simp: committable_def length_build_commit_block geometry_ok_def)
  then show ?thesis using b(1,2) fp by (simp add: try_commit_transaction_def Let_def)
qed

text \<open>The credit limit leaves room for the chain's descriptors, the commit block and one revoke
  block.\<close>

lemma max_credits_footprint:
  assumes "geometry_ok g" "n \<le> max_credits g" "2 \<le> ring_size g"
  shows "n + div_ceil n (tags_per_descriptor (tag_layout g)) + 2 \<le> ring_size g"
proof -
  let ?k = "tags_per_descriptor (tag_layout g)" and ?u = "ring_size g - 2"
  have k: "0 < ?k" using capacities_pos(1) assms(1) by (simp add: geometry_ok_def)
  have "n \<le> ?k * ?u div (?k + 1)" using assms(2) by (simp add: max_credits_def Let_def ring_size_def)
  then have le: "n * (?k + 1) \<le> ?k * ?u" by (simp add: less_eq_div_iff_mult_less_eq)
  then have "?k * n + n \<le> ?k * ?u" by (simp add: algebra_simps)
  then have "n \<le> ?k * (?u - n)" by (simp add: diff_mult_distrib2)
  then have "n + ?k - 1 < ?k * (?u - n) + ?k" using k by linarith
  then have "n + ?k - 1 < (?u - n + 1) * ?k" by (simp add: algebra_simps)
  then have "div_ceil n ?k < ?u - n + 1"
    unfolding div_ceil_def using k by (simp add: div_less_iff_less_mult)
  moreover have "n \<le> ?u"
  proof -
    have "?k * n \<le> ?k * ?u" using le by (simp add: algebra_simps)
    then show ?thesis using k by simp
  qed
  ultimately show ?thesis using assms(3) by linarith
qed

end
