(* ===== verification/Checkpoint_Correct.thy ===== *)
theory Checkpoint_Correct
  imports Recovery_Crash
begin

text \<open>
  Correctness of the checkpoint: a pass applies a prefix of the committed log to the final
  locations, defers in front of the first transaction that holds an image of a block an
  uncommitted transaction revoked, and moves the tail behind the prefix.  What a recovery would
  leave on the file system is the same before and after the pass, and also after a crash at any
  point of it.
\<close>

section \<open>The defer-prefix test\<close>

lemma cover_tags_ok:
  "cover_tags g U (map (\<lambda>(tag, _). Ok tag) tagged) log consumed =
     Ok (if \<exists>(tag, _)\<in>set tagged. dt_blocknr tag \<in> set U then None
         else Some (advance g log (length tagged), consumed + length tagged))"
  by (induction tagged arbitrary: log consumed) (auto simp: advance_Suc)

lemma cover_loop_items:
  "list_all (item_ok (tag_layout g) (csum_seed g) t) items \<Longrightarrow> commit_ok (csum_seed g) t c \<Longrightarrow>
   log_holds g d pos (items_blocks items @ [c]) \<Longrightarrow> consumed + length (items_blocks items) \<le> maxlen g \<Longrightarrow>
   cover_loop g d t U pos consumed = Ok (\<exists>(b, _)\<in>set (items_writes items). b \<in> set U)"
proof (induction items arbitrary: pos consumed)
  case Nil
  then show ?case by (subst cover_loop.simps) (simp add: commit_ok_def header_is_def Let_def)
next
  case (Cons item items)
  show ?case
  proof (cases item)
    case (RevokeItem b bs)
    then have "cover_loop g d t U pos consumed = cover_loop g d t U (next_log_block g pos) (consumed + 1)"
      using Cons.prems by (subst cover_loop.simps) (auto simp: header_is_def Let_def header_consts)
    then show ?thesis using Cons RevokeItem by simp
  next
    case (DescriptorItem b tagged)
    let ?n = "length tagged" and ?hit = "\<exists>(tag, _)\<in>set tagged. dt_blocknr tag \<in> set U"
    have hit: "(\<exists>(b, _)\<in>set (item_writes item). b \<in> set U) \<longleftrightarrow> ?hit"
      using DescriptorItem by (auto simp: case_prod_unfold)
    have "cover_loop g d t U pos consumed =
        (if ?hit then Ok True else cover_loop g d t U (advance g pos (Suc ?n)) (consumed + Suc ?n))"
      using Cons.prems DescriptorItem
      by (subst cover_loop.simps) (auto simp: header_is_def Let_def header_consts cover_tags_ok advance_next)
    moreover have "cover_loop g d t U (advance g pos (Suc ?n)) (consumed + Suc ?n) =
        Ok (\<exists>(b, _)\<in>set (items_writes items). b \<in> set U)"
    proof (rule Cons.IH)
      show "log_holds g d (advance g pos (Suc ?n)) (items_blocks items @ [c])"
        using Cons.prems(3) DescriptorItem by (simp add: log_holds_append advance_Suc)
    qed (use Cons.prems DescriptorItem in simp_all)
    moreover have "(\<exists>(b, _)\<in>set (items_writes (item # items)). b \<in> set U) \<longleftrightarrow>
        ?hit \<or> (\<exists>(b, _)\<in>set (items_writes items). b \<in> set U)"
      unfolding list.map concat.simps set_append bex_Un hit ..
    ultimately show ?thesis by simp
  qed
qed

definition touches :: "Ext4Bid list \<Rightarrow> LoggedTxn \<Rightarrow> bool" where
  "touches U x \<longleftrightarrow> (\<exists>(b, _)\<in>set (lt_writes x). b \<in> set U)"

lemma chain_covers_ok:
  "lt_ok g t x \<Longrightarrow> log_holds g d pos (lt_blocks x) \<Longrightarrow> chain_covers_unpublished g d pos t U = Ok (touches U x)"
  using cover_loop_items[of g t "fst x" "snd x" d pos 0 U]
  by (simp add: chain_covers_unpublished_def touches_def lt_writes_def lt_blocks_def lt_ok_def)

section \<open>The tail loop\<close>

lemma committed_geq: "n < 2 ^ 31 \<Longrightarrow> tid_geq (t + word_of_nat n) t"
  using tid_geq_add_iff[of n 0 t] by simp

lemma not_geq_next: "\<not> tid_geq t (tid_next t)"
  by (simp add: tid_geq_def tid_next_def)

lemma checkpoint_loop_ok:
  assumes "geometry_ok g"
  shows "in_ring g pos \<Longrightarrow> sized d \<Longrightarrow> lts_ok g t ys \<Longrightarrow> log_holds g d pos (lts_blocks ys) \<Longrightarrow>
    final_writes g d (concat (map lt_writes ys)) \<Longrightarrow> length ys < 2 ^ 31 \<Longrightarrow>
    tid_next committed = t + word_of_nat (length ys) \<Longrightarrow>
    \<exists>zs us. ys = zs @ us \<and>
      checkpoint_loop g R U target h committed d pos t a =
        (Ok (advance g pos (length (lts_blocks zs)), t + word_of_nat (length zs), a \<or> zs \<noteq> [], us \<noteq> []),
         add_writes d (replay_writes R t zs)) \<and>
      (\<forall>x\<in>set zs. \<not> touches U x) \<and> (U = [] \<and> target = None \<longrightarrow> us = [])"
proof (induction ys arbitrary: pos d t a)
  case Nil
  then have "t = tid_next committed" by simp
  then have "checkpoint_loop g R U target h committed d pos t a = (Ok (pos, t, a, False), d)"
    by (subst checkpoint_loop.simps) (simp add: not_geq_next)
  then show ?case by (intro exI[of _ "[]"]) simp
next
  case (Cons x ys)
  have com: "committed = t + word_of_nat (length ys)" using Cons.prems(7) by (simp add: tid_next_def)
  have geq: "tid_geq committed t" using committed_geq[of "length ys" t] Cons.prems(6) com by simp
  have lt: "lt_ok g t x" "log_holds g d pos (lt_blocks x)" using Cons.prems(3,4) by (simp_all add: log_holds_append)
  have cov: "(if U = [] then Ok False else chain_covers_unpublished g d pos t U) = Ok (touches U x)"
    using chain_covers_ok[OF lt] by (simp add: touches_def)
  show ?case
  proof (cases "touches U x")
    case True
    then have "checkpoint_loop g R U target h committed d pos t a = (Ok (pos, t, a, True), d)"
      using geq cov by (subst checkpoint_loop.simps) simp
    moreover have "U \<noteq> []" using True by (auto simp: touches_def)
    ultimately show ?thesis by (intro exI[of _ "[]"] exI[of _ "x # ys"]) simp
  next
    case False
    let ?pos = "advance g pos (length (lt_blocks x))" and ?ws = "unsuppressed R t (lt_writes x)"
    let ?d = "add_writes d ?ws"
    have fw: "final_writes g d (lt_writes x)" "final_writes g d ?ws" "final_writes g ?d (concat (map lt_writes ys))"
      using Cons.prems(5) by (simp_all add: final_writes_unsuppressed)
    have app: "apply_log_transaction g d pos t R = (Ok ?pos, ?d)"
      by (rule apply_log_transaction_ok[OF assms Cons.prems(1,2) lt fw(1)])
    have ring: "in_ring g ?pos" by (rule advance_in_ring[OF assms Cons.prems(1)])
    have stop: "tid_geq committed (tid_next t) \<longleftrightarrow> ys \<noteq> []"
    proof (cases ys)
      case Nil
      then show ?thesis using com not_geq_next by simp
    next
      case (Cons y ys')
      then have "committed = tid_next t + word_of_nat (length ys')" using com by (simp add: tid_next_def add_ac)
      then show ?thesis using committed_geq[of "length ys'" "tid_next t"] Cons Cons.prems(6) by simp
    qed
    define want where "want = (case target of None \<Rightarrow> False | Some want_free \<Rightarrow>
      tid_geq committed (tid_next t) \<and> free_log_blocks g h (Some ?pos) \<ge> want_free)"
    have step: "checkpoint_loop g R U target h committed d pos t a =
        (if want then (Ok (?pos, tid_next t, True, True), ?d)
         else checkpoint_loop g R U target h committed ?d ?pos (tid_next t) True)"
      using geq cov False app by (subst checkpoint_loop.simps) (simp add: want_def Let_def)
    show ?thesis
    proof (cases want)
      case True
      then have "ys \<noteq> []" "target \<noteq> None" using stop by (auto simp: want_def split: option.splits)
      then show ?thesis
        using True step False by (intro exI[of _ "[x]"] exI[of _ ys]) (simp add: tid_next_def)
    next
      case no: False
      have sz: "sized ?d" using sized_add_writes[OF Cons.prems(2)] fw(2) by (simp add: final_writes_def)
      have hold: "log_holds g ?d ?pos (lts_blocks ys)"
        using Cons.prems(4) log_holds_final[OF assms ring fw(2)] by (simp add: log_holds_append)
      have "tid_next committed = tid_next t + word_of_nat (length ys)" using com by (simp add: tid_next_def add_ac)
      with Cons.IH[OF ring sz _ hold fw(3), of "tid_next t" True] Cons.prems(3,6)
      obtain zs us where "ys = zs @ us" "checkpoint_loop g R U target h committed ?d ?pos (tid_next t) True =
          (Ok (advance g ?pos (length (lts_blocks zs)), tid_next t + word_of_nat (length zs), True, us \<noteq> []),
           add_writes ?d (replay_writes R (tid_next t) zs))"
        "\<forall>x\<in>set zs. \<not> touches U x" "U = [] \<and> target = None \<longrightarrow> us = []" by auto
      then show ?thesis
        using no step False
        by (intro exI[of _ "x # zs"] exI[of _ us]) (simp add: advance_add[symmetric] tid_next_def add_ac)
    qed
  qed
qed

section \<open>The revoke table against the log\<close>

text \<open>The newest transaction of a log that revoked a block.\<close>

fun newest_revoke :: "tid \<Rightarrow> LoggedTxn list \<Rightarrow> Ext4Bid \<Rightarrow> tid option" where
  "newest_revoke t [] b = None"
| "newest_revoke t (x # xs) b =
     (case newest_revoke (tid_next t) xs b of
        Some s \<Rightarrow> Some s
      | None \<Rightarrow> if b \<in> set (lt_revokes x) then Some t else None)"

lemma newest_revoke_append:
  "newest_revoke t (zs @ us) b =
     (case newest_revoke (t + word_of_nat (length zs)) us b of
        Some s \<Rightarrow> Some s
      | None \<Rightarrow> newest_revoke t zs b)"
proof (induction zs arbitrary: t)
  case (Cons z zs)
  have eq: "tid_next t + word_of_nat (length zs) = t + word_of_nat (length (z # zs))" by (simp add: tid_next_def)
  show ?case
    unfolding append_Cons newest_revoke.simps Cons.IH eq
    by (cases "newest_revoke (t + word_of_nat (length (z # zs))) us b") (simp_all only: option.case)
qed (simp split: option.split)

lemma newest_revoke_range: "newest_revoke t xs b = Some s \<Longrightarrow> \<exists>i<length xs. s = t + word_of_nat i"
proof (induction xs arbitrary: t)
  case (Cons x xs)
  show ?case
  proof (cases "newest_revoke (tid_next t) xs b")
    case None
    then show ?thesis using Cons.prems by (intro exI[of _ 0]) (simp split: if_splits)
  next
    case (Some r)
    then obtain i where "i < length xs" "s = tid_next t + word_of_nat i" using Cons by fastforce
    then show ?thesis by (intro exI[of _ "Suc i"]) (simp add: tid_next_def add_ac)
  qed
qed simp

lemma get_record_all:
  "bt_get (foldl (\<lambda>tb b. record_revoke tb b s) tb bs) c =
     (if c \<in> set bs \<and> \<not> (\<exists>e. bt_get tb c = Some e \<and> tid_geq e s) then Some s else bt_get tb c)"
proof (induction bs arbitrary: tb)
  case (Cons b bs)
  have one: "bt_get (record_revoke tb b s) c =
      (if c = b \<and> \<not> (\<exists>e. bt_get tb c = Some e \<and> tid_geq e s) then Some s else bt_get tb c)"
    by (auto simp: record_revoke_def split: option.splits)
  show ?case
    unfolding foldl_Cons Cons.IH one
    by (cases "c = b"; cases "\<exists>e. bt_get tb c = Some e \<and> tid_geq e s") simp_all
qed simp

lemma not_geq_later: "i < k \<Longrightarrow> k < 2 ^ 31 \<Longrightarrow> \<not> tid_geq (t + word_of_nat i) (t + word_of_nat k)"
  using tid_geq_add_iff[of i k t] by simp

lemma collected_get: "length xs < 2 ^ 31 \<Longrightarrow> bt_get (collected t xs) b = newest_revoke t xs b"
proof (induction xs rule: rev_induct)
  case Nil
  then show ?case by (simp add: collected_def RevokeTable_new_def)
next
  case (snoc x xs)
  then have IH: "bt_get (collected t xs) b = newest_revoke t xs b" by simp
  have "\<not> tid_geq e (t + word_of_nat (length xs))" if "bt_get (collected t xs) b = Some e" for e
    using newest_revoke_range[of t xs b e] that IH snoc.prems not_geq_later by auto
  then show ?case by (auto simp: collected_snoc get_record_all newest_revoke_append IH)
qed

lemma retire_collected:
  assumes "bt_ok R" "\<forall>b. bt_get R b = newest_revoke t (zs @ us) b" "zs \<noteq> []" "length (zs @ us) < 2 ^ 31"
  shows "bt_get (retire_through R (tid_prev (t + word_of_nat (length zs)))) b =
    newest_revoke (t + word_of_nat (length zs)) us b"
proof -
  let ?t = "t + word_of_nat (length zs)" and ?n = "length zs - 1"
  have c: "tid_prev ?t = t + word_of_nat ?n" using assms(3) by (cases zs) (simp_all add: tid_prev_def)
  note ret = bt_get_retain[OF assms(1), of "\<lambda>_ r. \<not> tid_geq (tid_prev ?t) r" b]
  show ?thesis
  proof (cases "newest_revoke ?t us b")
    case (Some s)
    then obtain i where i: "i < length us" "s = ?t + word_of_nat i" using newest_revoke_range by blast
    then have "s = t + word_of_nat (length zs + i)" by (simp add: add_ac)
    then have "\<not> tid_geq (tid_prev ?t) s"
      unfolding c using not_geq_later[of ?n "length zs + i" t] i(1) assms(3,4) by (cases zs) simp_all
    then show ?thesis using Some assms(2) ret by (simp add: retire_through_def newest_revoke_append)
  next
    case None
    have "tid_geq (tid_prev ?t) s" if s: "newest_revoke t zs b = Some s" for s
    proof -
      obtain i where "i < length zs" "s = t + word_of_nat i" using newest_revoke_range[OF s] by blast
      then show ?thesis unfolding c using tid_geq_add_iff[of ?n i t] assms(4) by simp
    qed
    then show ?thesis using None assms(2) ret by (simp add: retire_through_def newest_revoke_append split: option.split)
  qed
qed

section \<open>Applying a prefix\<close>

lemma replay_writes_cong:
  "(\<And>b i. i < length xs \<Longrightarrow> suppresses R b (t + word_of_nat i) = suppresses R' b (t + word_of_nat i)) \<Longrightarrow>
   replay_writes R t xs = replay_writes R' t xs"
proof (induction xs arbitrary: t)
  case (Cons x xs)
  have "unsuppressed R t (lt_writes x) = unsuppressed R' t (lt_writes x)"
    using Cons.prems[of 0] by (simp add: unsuppressed_def)
  moreover have "suppresses R b (tid_next t + word_of_nat i) = suppresses R' b (tid_next t + word_of_nat i)"
    if "i < length xs" for b i
    using Cons.prems[of "Suc i" b] that by (simp add: tid_next_def add_ac)
  ultimately show ?case using Cons.IH by simp
qed simp

lemma replay_writes_get: "\<forall>b. bt_get R b = bt_get R' b \<Longrightarrow> replay_writes R t xs = replay_writes R' t xs"
  by (rule replay_writes_cong) (simp add: suppresses_def)

text \<open>Recovery over an applied prefix gives what recovery of the whole log gives.\<close>

lemma recovered_prefix:
  assumes "length (zs @ us) \<le> 2 ^ 31"
  shows "recovered m t (zs @ us) =
    recovered (apply_writes (replay_writes (collected t (zs @ us)) t zs) m) (t + word_of_nat (length zs)) us"
proof -
  let ?C = "collected t (zs @ us)" and ?t = "t + word_of_nat (length zs)"
  have "suppresses ?C b (?t + word_of_nat i) = suppresses (collected ?t us) b (?t + word_of_nat i)" if i: "i < length us" for b i
  proof -
    have "?t + word_of_nat i = t + word_of_nat (length zs + i)" by (simp add: add_ac)
    then have "suppresses ?C b (?t + word_of_nat i) \<longleftrightarrow>
        (\<exists>k<length (zs @ us). length zs + i \<le> k \<and> b \<in> set (lt_revokes ((zs @ us) ! k)))"
      using collected_suppresses[OF _ assms, of "zs @ us" "length zs + i" t b] i by (simp add: add.assoc)
    also have "\<dots> \<longleftrightarrow> (\<exists>k<length us. i \<le> k \<and> b \<in> set (lt_revokes (us ! k)))"
    proof (intro iffI; elim exE conjE)
      fix k assume k: "k < length (zs @ us)" "length zs + i \<le> k" "b \<in> set (lt_revokes ((zs @ us) ! k))"
      then have "k - length zs < length us" "i \<le> k - length zs" "b \<in> set (lt_revokes (us ! (k - length zs)))"
        by (auto simp: nth_append)
      then show "\<exists>k<length us. i \<le> k \<and> b \<in> set (lt_revokes (us ! k))" by blast
    next
      fix k assume "k < length us" "i \<le> k" "b \<in> set (lt_revokes (us ! k))"
      then show "\<exists>k<length (zs @ us). length zs + i \<le> k \<and> b \<in> set (lt_revokes ((zs @ us) ! k))"
        by (intro exI[of _ "length zs + k"]) simp
    qed
    also have "\<dots> \<longleftrightarrow> suppresses (collected ?t us) b (?t + word_of_nat i)"
      using collected_suppresses[of us "length (zs @ us)" i ?t b] assms i by simp
    finally show ?thesis .
  qed
  then have "replay_writes ?C ?t us = replay_writes (collected ?t us) ?t us" by (rule replay_writes_cong)
  then show ?thesis by (simp add: recovered_def replay_writes_append)
qed

text \<open>The journal's own records against the log: the revoke table and the newest committed id.\<close>

definition log_tracked :: "Journal \<Rightarrow> LoggedTxn list \<Rightarrow> bool" where
  "log_tracked j xs \<longleftrightarrow>
     bt_ok (j_revoked (jstate j)) \<and>
     (\<forall>b. bt_get (j_revoked (jstate j)) b = newest_revoke (tail_tid (jstate j)) xs b) \<and>
     (xs \<noteq> [] \<longrightarrow> tid_next (committed_tid j) = tail_tid (jstate j) + word_of_nat (length xs))"

text \<open>A pass as a computation on the device: the applied writes, a flush, the superblock.\<close>

definition checkpoint_superblock :: "JournalGeometry \<Rightarrow> device \<Rightarrow> nat \<Rightarrow> nat \<Rightarrow> tid \<Rightarrow> LoggedTxn list \<Rightarrow> unit result \<times> device" where
  "checkpoint_superblock g d hd0 pos t us =
     (if us \<noteq> [] then update_superblock_tail g d pos t else mark_log_clean g d t hd0)"

lemma checkpoint_advance_run:
  assumes "geometry_ok (geometry j)" "tail_block (jstate j) = Some tail" "in_ring (geometry j) tail" "sized d"
    and "lts_ok (geometry j) (tail_tid (jstate j)) xs" "log_holds (geometry j) d tail (lts_blocks xs)"
    and "final_writes (geometry j) d (concat (map lt_writes xs))" "length xs < 2 ^ 31" "xs \<noteq> []" "log_tracked j xs"
  obtains zs us where "xs = zs @ us" "\<forall>x\<in>set zs. \<not> touches (unpublished_revokes (jstate j)) x"
    "unpublished_revokes (jstate j) = [] \<and> target = None \<longrightarrow> us = []"
    "checkpoint_advance j d target =
       (if zs = [] then (Ok False, j, d)
        else jd_bind (with_device j (barrier (add_writes d (replay_writes (collected (tail_tid (jstate j)) xs) (tail_tid (jstate j)) zs))))
          (\<lambda>_ j d2. jd_bind (with_device j (checkpoint_superblock (geometry j) d2 (head (jstate j))
              (advance (geometry j) tail (length (lts_blocks zs))) (tail_tid (jstate j) + word_of_nat (length zs)) us))
          (\<lambda>_ j d3. (Ok True, j\<lparr> jstate := publish_checkpoint (jstate j)
              (advance (geometry j) tail (length (lts_blocks zs))) (tail_tid (jstate j) + word_of_nat (length zs)) (us \<noteq> []) \<rparr>, d3))))"
proof -
  let ?g = "geometry j" and ?st = "jstate j" and ?t = "tail_tid (jstate j)"
  let ?enough = "case target of None \<Rightarrow> False | Some want_free \<Rightarrow> free_log_blocks ?g (head ?st) (Some tail) \<ge> want_free"
  have com: "tid_next (committed_tid j) = ?t + word_of_nat (length xs)" using assms(9,10) by (simp add: log_tracked_def)
  have rev: "replay_writes (j_revoked ?st) ?t zs = replay_writes (collected ?t xs) ?t zs" for zs
    using assms(8,10) by (intro replay_writes_get) (simp add: log_tracked_def collected_get)
  show thesis
  proof (cases ?enough)
    case True
    then have "checkpoint_advance j d target = (Ok False, j, d)"
      using assms(2) by (simp add: checkpoint_advance_def Let_def)
    moreover have "target \<noteq> None" using True by (cases target) simp_all
    ultimately show thesis by (intro that[of "[]" xs]) auto
  next
    case False
    from checkpoint_loop_ok[OF assms(1,3-8) com, of "j_revoked ?st" "unpublished_revokes ?st" target "head ?st" False]
    obtain zs us where run: "xs = zs @ us" "checkpoint_loop ?g (j_revoked ?st) (unpublished_revokes ?st) target (head ?st)
          (committed_tid j) d tail ?t False =
        (Ok (advance ?g tail (length (lts_blocks zs)), ?t + word_of_nat (length zs), zs \<noteq> [], us \<noteq> []),
         add_writes d (replay_writes (j_revoked ?st) ?t zs))"
      "\<forall>x\<in>set zs. \<not> touches (unpublished_revokes ?st) x" "unpublished_revokes ?st = [] \<and> target = None \<longrightarrow> us = []" by auto
    have t': "us = [] \<Longrightarrow> tid_next (committed_tid j) = ?t + word_of_nat (length zs)" using com run(1) by simp
    have nil: "zs = [] \<Longrightarrow> replay_writes R ?t zs = []" for R by simp
    show thesis
    proof (rule that[OF run(1,3,4)])
      show "checkpoint_advance j d target =
       (if zs = [] then (Ok False, j, d)
        else jd_bind (with_device j (barrier (add_writes d (replay_writes (collected ?t xs) ?t zs))))
          (\<lambda>_ j d2. jd_bind (with_device j (checkpoint_superblock (geometry j) d2 (head (jstate j))
              (advance (geometry j) tail (length (lts_blocks zs))) (tail_tid (jstate j) + word_of_nat (length zs)) us))
          (\<lambda>_ j d3. (Ok True, j\<lparr> jstate := publish_checkpoint (jstate j)
              (advance (geometry j) tail (length (lts_blocks zs))) (tail_tid (jstate j) + word_of_nat (length zs)) (us \<noteq> []) \<rparr>, d3))))"
        using assms(2) False run(2) rev t'
        by (cases "zs = []"; cases "us = []")
           (simp_all add: checkpoint_advance_def Let_def jd_device checkpoint_superblock_def split: prod.split sum.split)
    qed
  qed
qed

section \<open>A pass on a working device\<close>

definition checkpoint_raw :: "RawJournalSuperblock \<Rightarrow> nat \<Rightarrow> nat \<Rightarrow> tid \<Rightarrow> LoggedTxn list \<Rightarrow> RawJournalSuperblock" where
  "checkpoint_raw raw hd0 pos t us =
     (if us \<noteq> [] then raw\<lparr> s_start := word_of_nat pos, s_sequence := t \<rparr>
      else raw\<lparr> s_start := 0, s_sequence := t, s_head := word_of_nat hd0 \<rparr>)"

lemma checkpoint_raw_simps [simp]:
  "raw_sb_ok (checkpoint_raw raw hd0 pos t us) = raw_sb_ok raw"
  "s_start (checkpoint_raw raw hd0 pos t us) = (if us \<noteq> [] then word_of_nat pos else 0)"
  "s_sequence (checkpoint_raw raw hd0 pos t us) = t"
  by (simp_all add: checkpoint_raw_def raw_sb_ok_def)

lemma checkpoint_superblock_write:
  "read_raw_superblock g d = Ok raw \<Longrightarrow>
   checkpoint_superblock g d hd0 pos t us = write_superblock g d (checkpoint_raw raw hd0 pos t us)"
  by (simp add: checkpoint_superblock_def update_superblock_tail_def mark_log_clean_def checkpoint_raw_def)

lemma stamp_checksum_fields [simp]:
  "s_start (stamp_checksum raw) = s_start raw" "s_sequence (stamp_checksum raw) = s_sequence raw"
  by (simp_all add: stamp_checksum_def)

lemma log_suffix_state:
  assumes "healthy g d'" "log_state g d tail t (zs @ us)" "geometry_ok g" "distinct (block_map g)" "bad_read d' = bad_read d"
    and "\<And>b. b \<in> set (block_map g) \<Longrightarrow> b \<noteq> sb_block g \<Longrightarrow> visible d' b = visible d b"
    and "read_raw_superblock g d' = Ok raw" "s_start raw = word_of_nat (advance g tail (length (lts_blocks zs)))"
    and "s_sequence raw = t + word_of_nat (length zs)"
  shows "log_state g d' (advance g tail (length (lts_blocks zs))) (t + word_of_nat (length zs)) us"
proof -
  let ?p = "advance g tail (length (lts_blocks zs))"
  have ls: "in_ring g tail" "lts_ok g t (zs @ us)" "log_holds g d tail (lts_blocks (zs @ us))"
    "final_writes g d (concat (map lt_writes (zs @ us)))" "length (lts_blocks (zs @ us)) \<le> ring_size g"
    using assms(2) by (auto simp: log_state_def)
  have ring: "in_ring g ?p" by (rule advance_in_ring[OF assms(3) ls(1)])
  have "log_holds g d' ?p (lts_blocks us) = log_holds g d ?p (lts_blocks us)"
  proof (rule log_holds_cong[OF assms(5)])
    fix b assume b: "b \<in> log_area g ?p (length (lts_blocks us))"
    then have "b \<in> set (block_map g)" "b \<noteq> sb_block g"
      using log_area_subset[OF assms(3) ring] sb_block_not_in_ring[OF assms(3,4) ring] by auto
    then show "visible d' b = visible d b" by (rule assms(6))
  qed
  then have "log_holds g d' ?p (lts_blocks us)" using ls(3) by (simp add: log_holds_append)
  moreover have "final_writes g d' (concat (map lt_writes us))"
    using ls(4) healthyD(6)[OF assms(1)] by (auto simp: final_writes_def)
  ultimately show ?thesis using ring ls(2,5) assms(7-9) by (simp add: log_state_def lts_ok_append)
qed

lemma log_state_length:
  assumes "log_state g d tail t xs" "geometry_ok g" "maxlen g \<le> 2 ^ 31"
  shows "length xs < 2 ^ 31"
proof -
  have "0 < first g" using assms(2) by (simp add: geometry_ok_def)
  moreover have "length xs \<le> maxlen g - first g" using assms(1) length_lts_le[of xs] by (simp add: log_state_def ring_size_def)
  moreover have "maxlen g - first g < 2 ^ 31" using assms(3) \<open>0 < first g\<close> by (cases "maxlen g = 0") (simp_all add: less_diff_iff)
  ultimately show ?thesis by simp
qed

lemma publish_checkpoint_tracked:
  assumes "log_tracked j (zs @ us)" "zs \<noteq> []" "length (zs @ us) < 2 ^ 31"
    and "st = publish_checkpoint (jstate j) pos (tail_tid (jstate j) + word_of_nat (length zs)) e"
  shows "log_tracked (j\<lparr> jstate := st \<rparr>) us"
proof -
  let ?R = "j_revoked (jstate j)" and ?t = "tail_tid (jstate j)"
  have R: "bt_ok ?R" "\<forall>b. bt_get ?R b = newest_revoke ?t (zs @ us) b" using assms(1) by (simp_all add: log_tracked_def)
  have "j_revoked st = retire_through ?R (tid_prev (?t + word_of_nat (length zs)))" "tail_tid st = ?t + word_of_nat (length zs)"
    using assms(4) by (simp_all add: publish_checkpoint_def Let_def)
  then show ?thesis
    using retire_collected[OF R assms(2,3)] R(1) assms(1,2) by (simp add: log_tracked_def retire_through_def add.assoc)
qed

lemma checkpoint_healthy:
  assumes "journal_log j d xs" "log_tracked j xs" "maxlen (geometry j) \<le> 2 ^ 31"
  shows "\<exists>zs us j' d'. xs = zs @ us \<and> checkpoint_advance j d target = (Ok (zs \<noteq> []), j', d') \<and>
    journal_log j' d' us \<and> log_tracked j' us \<and> geometry j' = geometry j \<and>
    (\<forall>x\<in>set zs. \<not> touches (unpublished_revokes (jstate j)) x) \<and>
    (unpublished_revokes (jstate j) = [] \<and> target = None \<longrightarrow> us = []) \<and>
    (\<forall>b. b \<notin> set (block_map (geometry j)) \<longrightarrow>
       visible d' b = apply_writes (replay_writes (collected (tail_tid (jstate j)) xs) (tail_tid (jstate j)) zs) (visible d) b) \<and>
    (\<forall>b. b \<notin> set (block_map (geometry j)) \<longrightarrow>
       recovered (visible d') (tail_tid (jstate j')) us b = recovered (visible d) (tail_tid (jstate j)) xs b)"
proof (cases "tail_block (jstate j)")
  case None
  then have "xs = []" "checkpoint_advance j d target = (Ok False, j, d)"
    using assms(1) by (simp_all add: journal_log_def checkpoint_advance_def Let_def)
  then show ?thesis using assms by (intro exI[of _ "[]"] exI[of _ j] exI[of _ d]) simp
next
  case (Some tail)
  let ?g = "geometry j" and ?st = "jstate j" and ?t = "tail_tid (jstate j)"
  have h: "healthy ?g d" "xs \<noteq> []" "log_state ?g d tail ?t xs" "head ?st = advance ?g tail (length (lts_blocks xs))"
    using assms(1) Some by (auto simp: journal_log_def Let_def)
  note hd = healthyD[OF h(1)]
  have ls: "in_ring ?g tail" "lts_ok ?g ?t xs" "log_holds ?g d tail (lts_blocks xs)" "final_writes ?g d (concat (map lt_writes xs))"
    using h(3) by (auto simp: log_state_def)
  have len: "length xs < 2 ^ 31" by (rule log_state_length[OF h(3) hd(1) assms(3)])
  let ?C = "collected ?t xs"
  obtain zs us where run: "xs = zs @ us" "\<forall>x\<in>set zs. \<not> touches (unpublished_revokes ?st) x"
    "unpublished_revokes ?st = [] \<and> target = None \<longrightarrow> us = []"
    "checkpoint_advance j d target =
       (if zs = [] then (Ok False, j, d)
        else jd_bind (with_device j (barrier (add_writes d (replay_writes ?C ?t zs))))
          (\<lambda>_ j d2. jd_bind (with_device j (checkpoint_superblock (geometry j) d2 (head (jstate j))
              (advance (geometry j) tail (length (lts_blocks zs))) (tail_tid (jstate j) + word_of_nat (length zs)) us))
          (\<lambda>_ j d3. (Ok True, j\<lparr> jstate := publish_checkpoint (jstate j)
              (advance (geometry j) tail (length (lts_blocks zs))) (tail_tid (jstate j) + word_of_nat (length zs)) (us \<noteq> []) \<rparr>, d3))))"
    by (rule checkpoint_advance_run[OF hd(1) Some ls(1) hd(4) ls(2-4) len h(2) assms(2)])
  show ?thesis
  proof (cases "zs = []")
    case True
    then show ?thesis using run assms(1,2) by (intro exI[of _ "[]"] exI[of _ xs] exI[of _ j] exI[of _ d]) auto
  next
    case False
    let ?ws = "replay_writes ?C ?t zs" and ?p = "advance ?g tail (length (lts_blocks zs))" and ?t' = "?t + word_of_nat (length zs)"
    let ?d2 = "flushed (add_writes d ?ws)"
    let ?j' = "j\<lparr> jstate := publish_checkpoint ?st ?p ?t' (us \<noteq> []) \<rparr>"
    have fw: "final_writes ?g d ?ws" using ls(4) run(1) by (intro final_writes_replay) simp
    then have h2: "healthy ?g ?d2" "healthy ?g (add_writes d ?ws)"
      using healthy_add_writes[OF h(1)] by (simp_all add: final_writes_def)
    obtain raw where raw: "read_raw_superblock ?g ?d2 = Ok raw" by (simp add: read_raw_superblock_healthy[OF h2(1)])
    let ?raw = "checkpoint_raw raw (head ?st) ?p ?t' us"
    have rok: "raw_sb_ok ?raw" using read_raw_superblock_raw_ok[OF h2(1) raw] by simp
    note w = write_superblock_healthy[OF h2(1) rok]
    let ?d' = "with_superblock ?g ?d2 ?raw"
    have adv: "checkpoint_advance j d target = (Ok True, ?j', ?d')"
      using run(4) False barrier_healthy[OF h2(2)] checkpoint_superblock_write[OF raw] w(1) by (simp add: jd_device)
    have vis: "visible ?d' b = visible d b" if "b \<in> set (block_map ?g)" "b \<noteq> sb_block ?g" for b
      using that w(4)[of b] fw by (auto simp: final_writes_def intro!: apply_writes_other)
    have log: "journal_log ?j' ?d' us"
    proof (cases "us = []")
      case True
      then show ?thesis using h(4) ls(1) w(2,3) run(1) advance_in_ring[OF hd(1) ls(1)]
        by (simp add: journal_log_def Let_def publish_checkpoint_def)
    next
      case us: False
      have "log_state ?g ?d' ?p ?t' us"
        using w(3) us h(3) run(1) vis
        by (intro log_suffix_state[OF w(2) _ hd(1,2), of d]) (auto simp: with_superblock_def)
      moreover have "head ?st = advance ?g ?p (length (lts_blocks us))" using h(4) run(1) by (simp add: advance_add)
      moreover have "in_ring ?g (head ?st)" using assms(1) by (simp add: journal_log_def Let_def)
      ultimately show ?thesis using us w(2) by (simp add: journal_log_def Let_def publish_checkpoint_def)
    qed
    have home: "visible ?d' b = apply_writes ?ws (visible d) b" if b: "b \<notin> set (block_map ?g)" for b
    proof -
      have "b \<noteq> sb_block ?g" using b sb_block_in_map[OF hd(1)] by auto
      then show ?thesis using w(4)[of b] by simp
    qed
    have content: "recovered (visible ?d') ?t' us b = recovered (visible d) ?t xs b" if b: "b \<notin> set (block_map ?g)" for b
    proof -
      from home[OF b] have "recovered (visible ?d') ?t' us b = recovered (apply_writes ?ws (visible d)) ?t' us b"
        unfolding recovered_def by (rule apply_writes_at)
      then show ?thesis using recovered_prefix[of zs us "visible d" ?t] len run(1) by simp
    qed
    have tr: "log_tracked ?j' us" using publish_checkpoint_tracked[OF _ False _ refl] assms(2) len run(1) by simp
    have tt: "tail_tid (jstate ?j') = ?t'" by (simp add: publish_checkpoint_def Let_def)
    show ?thesis
    proof (intro exI conjI)
      show "checkpoint_advance j d target = (Ok (zs \<noteq> []), ?j', ?d')" using adv False by simp
      show "\<forall>b. b \<notin> set (block_map ?g) \<longrightarrow> visible ?d' b = apply_writes ?ws (visible d) b" using home by blast
      show "\<forall>b. b \<notin> set (block_map ?g) \<longrightarrow> recovered (visible ?d') (tail_tid (jstate ?j')) us b = recovered (visible d) ?t xs b"
        unfolding tt using content by blast
    qed (use run(1-3) log tr in auto)
  qed
qed

text \<open>The blocks a replay leaves alone.\<close>

lemma replay_writes_from: "(b, v) \<in> set (replay_writes R t zs) \<Longrightarrow> \<exists>x\<in>set zs. (b, v) \<in> set (lt_writes x)"
  by (induction zs arbitrary: t) (auto simp: unsuppressed_def)

lemma replay_writes_untouched:
  assumes "\<forall>x\<in>set zs. b \<notin> fst ` set (lt_writes x)"
  shows "apply_writes (replay_writes R t zs) m b = m b"
proof (rule apply_writes_other)
  show "b \<notin> fst ` set (replay_writes R t zs)"
  proof
    assume "b \<in> fst ` set (replay_writes R t zs)"
    then obtain v where "(b, v) \<in> set (replay_writes R t zs)" by force
    from replay_writes_from[OF this] show False using assms by force
  qed
qed

lemma untouched_blocks: "\<not> touches U x \<Longrightarrow> b \<in> set U \<Longrightarrow> b \<notin> fst ` set (lt_writes x)"
  by (force simp: touches_def)

section \<open>Power loss during a pass\<close>

text \<open>The scan reads the ring only.\<close>

lemma step_tags_in_ring:
  "geometry_ok g \<Longrightarrow> in_ring g log \<Longrightarrow> step_tags g items log consumed = Ok (log', consumed') \<Longrightarrow> in_ring g log'"
  by (induction g items log consumed rule: step_tags.induct) (auto simp: next_log_block_in_ring)

lemma scan_loop_ring:
  assumes "geometry_ok g" "\<And>p. in_ring g p \<Longrightarrow> read_log_block g d' p = read_log_block g d p"
  shows "in_ring g log \<Longrightarrow> scan_loop g d' t log consumed ok = scan_loop g d t log consumed ok"
proof (induction "Suc (maxlen g) - consumed" arbitrary: log consumed ok rule: less_induct)
  case less
  have IH: "scan_loop g d' t l c k = scan_loop g d t l c k" if "consumed < c" "c \<le> maxlen g" "in_ring g l" for l c k
    by (rule less.hyps) (use that in simp_all)
  note ring = next_log_block_in_ring[OF assms(1)]
  show ?case
  proof (cases "read_log_block g d log")
    case (Inr b)
    have "scan_loop g d' t (next_log_block g l') (c + 1) k = scan_loop g d t (next_log_block g l') (c + 1) k"
      if "step_tags g ts log consumed = Ok (l', c)" "\<not> maxlen g < c + 1" for l' c k ts
      using IH step_tags_consumed[OF that(1)] that(2) step_tags_in_ring[OF assms(1) less.prems that(1)] ring by simp
    then show ?thesis
      using Inr IH[of "consumed + 1" "next_log_block g log"] ring[OF less.prems]
      by (subst (1 2) scan_loop.simps) (simp add: assms(2)[OF less.prems] Let_def split: sum.splits prod.splits)
  qed (subst (1 2) scan_loop.simps, simp add: assms(2)[OF less.prems])
qed

lemma word_of_nat_ring_inj:
  assumes "healthy g d" "in_ring g p" "in_ring g q" "(word_of_nat p :: u32) = word_of_nat q"
  shows "p = q"
  using word_of_nat_pos(2)[OF assms(1,2)] word_of_nat_pos(2)[OF assms(1,3)] unfolding assms(4) by (rule trans[OF sym])

text \<open>Moving the superblock behind an applied prefix.\<close>

lemma recoverable_suffix:
  assumes "recoverable g m t (zs @ us)" "log_state g (mounted m) tail t (zs @ us)" "healthy g (mounted m1)"
    and "same_log g m m1" "raw_sb_ok raw" "s_sequence raw = t + word_of_nat (length zs)"
    and "s_start raw = (if us \<noteq> [] then word_of_nat (advance g tail (length (lts_blocks zs))) else 0)"
  shows "recoverable g (m1(sb_block g := sb_image raw (m1 (sb_block g)))) (t + word_of_nat (length zs)) us"
proof (cases "us = []")
  case True
  then show ?thesis using clean_recoverable[OF assms(3,5)] assms(7) by simp
next
  case False
  let ?m2 = "m1(sb_block g := sb_image raw (m1 (sb_block g)))" and ?p = "advance g tail (length (lts_blocks zs))"
  let ?t' = "t + word_of_nat (length zs)"
  note hd = healthyD[OF assms(3)]
  have h: "healthy g (mounted m)" using assms(1) by (simp add: recoverable_def)
  have "length (?m2 b) = BLOCK_SIZE" for b
    using hd(4) length_sb_image[OF assms(5)] by (auto simp: sized_def)
  then have h2: "healthy g (mounted ?m2)" using healthy_mounted[OF assms(3)] by blast
  have sb: "read_raw_superblock g (mounted ?m2) = Ok (stamp_checksum raw)"
    using read_superblock_mounted[OF h2] sb_image_parse[OF assms(5)] by simp
  have ring: "in_ring g tail" using assms(2) by (simp add: log_state_def)
  note ringp = advance_in_ring[OF hd(1) ring]
  have reads: "bad_read (mounted ?m2) = bad_read (mounted m)" by (simp add: mounted_def)
  have "visible (mounted ?m2) b = visible (mounted m) b" if "b \<in> set (block_map g)" "b \<noteq> sb_block g" for b
    using that assms(4) by (simp add: same_log_def)
  from log_suffix_state[OF h2 assms(2) hd(1,2) reads this sb]
  have ls: "log_state g (mounted ?m2) ?p ?t' us" using assms(6,7) False by simp
  obtain raw0 pos where r0: "read_raw_superblock g (mounted m) = Ok raw0" "log_state g (mounted m) pos t (zs @ us)"
    "scan_transaction g (mounted m) (advance g pos (length (lts_blocks (zs @ us)))) (t + word_of_nat (length (zs @ us))) = Ok None"
    using assms(1) False by (auto simp: recoverable_def split: if_splits)
  have "pos = tail"
    using r0(1,2) assms(2) by (intro word_of_nat_ring_inj[OF h]) (auto simp: log_state_def)
  moreover have "scan_transaction g (mounted ?m2) (advance g tail n) u = scan_transaction g (mounted m) (advance g tail n) u" for n u
    unfolding scan_transaction_def
  proof (rule scan_loop_ring[OF hd(1) _ ringp])
    fix p assume p: "in_ring g p"
    then have "p < length (block_map g)" "block_map g ! p \<in> set (block_map g)" using hd(1) by (auto simp: in_ring_def geometry_ok_def)
    moreover have "block_map g ! p \<noteq> sb_block g"
      using sb_block_not_in_ring[OF hd(1,2) p, of 1] by (auto simp: log_area_def)
    ultimately show "read_log_block g (mounted ?m2) p = read_log_block g (mounted m) p"
      using assms(4) by (simp add: read_log_block_def log_block_to_physical_def read_block_def same_log_def)
  qed
  ultimately have "scan_transaction g (mounted ?m2) (advance g ?p (length (lts_blocks us))) (?t' + word_of_nat (length us)) = Ok None"
    using r0(3) by (simp add: advance_add[symmetric] add.assoc)
  moreover have "s_start (stamp_checksum raw) \<noteq> 0" using assms(7) False word_of_nat_pos(1)[OF h2 ringp] by simp
  ultimately show ?thesis unfolding recoverable_def using h2 sb ls by auto
qed

lemma checkpoint_crash_recoverable:
  assumes "recoverable (geometry j) m (tail_tid (jstate j)) xs" "journal_log j (mounted m) xs" "log_tracked j xs" "maxlen (geometry j) \<le> 2 ^ 31"
    and "checkpoint_advance j (attached n m) target = (r, j', d')" "crash d' c"
  shows "\<exists>t' us. recoverable (geometry j) (durable c) t' us \<and>
    (\<forall>b. b \<notin> set (block_map (geometry j)) \<longrightarrow> recovered (durable c) t' us b = recovered m (tail_tid (jstate j)) xs b)"
proof (cases "tail_block (jstate j)")
  case None
  then have "d' = attached n m" using assms(5) by (simp add: checkpoint_advance_def Let_def)
  then have "durable c = m" using crash_none_pending[OF _ assms(6)] by simp
  then show ?thesis using assms(1) by (intro exI[of _ "tail_tid (jstate j)"] exI[of _ xs]) simp
next
  case (Some tail)
  let ?g = "geometry j" and ?t = "tail_tid (jstate j)"
  have st: "healthy ?g (mounted m)" "xs \<noteq> []" "log_state ?g (mounted m) tail ?t xs" using assms(2) Some by (auto simp: journal_log_def Let_def)
  note hd = healthyD[OF st(1)]
  have ls: "in_ring ?g tail" "lts_ok ?g ?t xs" "log_holds ?g (mounted m) tail (lts_blocks xs)" "final_writes ?g (mounted m) (concat (map lt_writes xs))"
    using st(3) by (auto simp: log_state_def)
  have rd: "read_log_block ?g (attached n m) p = read_log_block ?g (mounted m) p" for p
    by (rule read_log_block_same) (simp_all add: same_log_def)
  have hold: "log_holds ?g (attached n m) tail (lts_blocks xs)" using ls(3) by (simp add: log_holds_nth rd)
  have fw: "final_writes ?g (attached n m) (concat (map lt_writes xs))" using ls(4) by (simp add: final_writes_def)
  have sz: "sized (attached n m)" using hd(4) by (simp add: sized_def)
  have len: "length xs < 2 ^ 31" by (rule log_state_length[OF st(3) hd(1) assms(4)])
  let ?C = "collected ?t xs"
  obtain zs us where run: "xs = zs @ us"
    "checkpoint_advance j (attached n m) target =
       (if zs = [] then (Ok False, j, attached n m)
        else jd_bind (with_device j (barrier (add_writes (attached n m) (replay_writes ?C ?t zs))))
          (\<lambda>_ j d2. jd_bind (with_device j (checkpoint_superblock (geometry j) d2 (head (jstate j))
              (advance (geometry j) tail (length (lts_blocks zs))) (tail_tid (jstate j) + word_of_nat (length zs)) us))
          (\<lambda>_ j d3. (Ok True, j\<lparr> jstate := publish_checkpoint (jstate j)
              (advance (geometry j) tail (length (lts_blocks zs))) (tail_tid (jstate j) + word_of_nat (length zs)) (us \<noteq> []) \<rparr>, d3))))"
    by (rule checkpoint_advance_run[OF hd(1) Some ls(1) sz ls(2) hold fw len st(2) assms(3), of target])
  show ?thesis
  proof (cases "zs = []")
    case True
    then have "d' = attached n m" using run(2) assms(5) by simp
    then have "durable c = m" using crash_none_pending[OF _ assms(6)] by simp
    then show ?thesis using assms(1) by (intro exI[of _ ?t] exI[of _ xs]) simp
  next
    case False
    let ?ws = "replay_writes ?C ?t zs" and ?all = "replay_writes ?C ?t xs"
    let ?p = "advance ?g tail (length (lts_blocks zs))" and ?t' = "?t + word_of_nat (length zs)"
    have sub: "set ?ws \<subseteq> set ?all" using run(1) by (auto simp: replay_writes_append)
    note half = half_replayed[OF assms(1) final_writes_replay[OF ls(4)]]
    obtain rb db where b1: "barrier (add_writes (attached n m) ?ws) = (rb, db)" by fastforce
    from b1 show ?thesis
    proof (cases rule: barrier_cases)
      case (stuck e)
      then have "snd (snd (checkpoint_advance j (attached n m) target)) = add_writes (attached n m) ?ws"
        using run(2) False b1 by (simp add: jd_device)
      then have "d' = add_writes (attached n m) ?ws" unfolding assms(5) by simp
      then have "\<forall>b. durable c b = m b \<or> (b, durable c b) \<in> set ?all" using crash_block[OF assms(6)] sub by fastforce
      from half[OF this] show ?thesis by (intro exI[of _ ?t] exI[of _ xs]) simp
    next
      case flushed
      let ?m1 = "apply_writes ?ws m" and ?sb = "sb_block ?g"
      have db: "durable db = ?m1" "visible db = ?m1" "\<forall>b. \<not> bad_write db b" "bad_read db = bad_read (attached n m)"
        using flushed b1 by (auto simp: barrier_def sync_def split: option.splits nat.splits)
      have "\<forall>b. ?m1 b = m b \<or> (b, ?m1 b) \<in> set ?all" using apply_writes_cases[of ?ws m] sub by fastforce
      note m1 = half[OF this]
      have h1: "healthy ?g (mounted ?m1)" using m1(1) by (simp add: recoverable_def)
      obtain raw where raw: "read_raw_superblock ?g (mounted ?m1) = Ok raw" using read_superblock_mounted[OF h1] by blast
      then have sb: "read_raw_superblock ?g db = Ok raw"
        using superblock_block_ok[OF hd(1)] db by (simp add: read_raw_superblock_def read_block_def)
      let ?raw = "checkpoint_raw raw (head (jstate j)) ?p ?t' us"
      have "snd (snd (checkpoint_advance j (attached n m) target)) = snd (write_superblock ?g db ?raw)"
        using run(2) False b1 flushed(1) checkpoint_superblock_write[OF sb]
        by (cases "write_superblock ?g db ?raw"; cases "fst (write_superblock ?g db ?raw)") (simp_all add: jd_device)
      then have d': "d' = snd (write_superblock ?g db ?raw)" unfolding assms(5) by simp
      have same: "same_log ?g m ?m1"
      proof -
        have "final_writes ?g (mounted m) ?ws" using ls(4) run(1) by (intro final_writes_replay) simp
        then show ?thesis by (auto simp: same_log_def final_writes_def intro!: apply_writes_other)
      qed
      have rok: "raw_sb_ok ?raw" using read_raw_superblock_raw_ok[OF h1 raw] by simp
      have new: "recoverable ?g (?m1(?sb := sb_image ?raw (?m1 ?sb))) ?t' us"
        using recoverable_suffix[OF _ _ h1 same rok, of ?t zs us tail] assms(1) st(3) run(1) by simp
      consider "durable c = ?m1" | "durable c = ?m1(?sb := sb_image ?raw (?m1 ?sb))"
        using write_superblock_crash[OF hd(1) flushed(3) db(3)] assms(6) d' db(1) by auto
      then show ?thesis
      proof cases
        case 1
        then show ?thesis using m1 by (intro exI[of _ ?t] exI[of _ xs]) simp
      next
        case 2
        have "recovered (durable c) ?t' us b = recovered m ?t xs b" if "b \<notin> set (block_map ?g)" for b
        proof -
          have "durable c b = ?m1 b" using 2 that sb_block_in_map[OF hd(1)] by auto
          then have "recovered (durable c) ?t' us b = recovered ?m1 ?t' us b" unfolding recovered_def by (rule apply_writes_at)
          then show ?thesis using recovered_prefix[of zs us m ?t] len run(1) by simp
        qed
        then show ?thesis using new 2 by (intro exI[of _ ?t'] exI[of _ us]) simp
      qed
    qed
  qed
qed

section \<open>Commits keep the records\<close>

lemma bt_ok_record_all: "bt_ok tb \<Longrightarrow> bt_ok (foldl (\<lambda>tb b. record_revoke tb b s) tb bs)"
  by (induction bs arbitrary: tb) (simp_all add: record_revoke_def)

lemma commit_tracked:
  assumes "journal_log j d xs" "log_tracked j xs" "committable j xs txn" "maxlen (geometry j) \<le> 2 ^ 31"
    and "try_commit_transaction secs nsecs j d txn = (Ok (Committed t), j', d')"
  shows "\<exists>x. holds_transaction x txn \<and> journal_log j' d' (xs @ [x]) \<and> log_tracked j' (xs @ [x])"
proof -
  let ?g = "geometry j" and ?R = "j_revoked (jstate j)" and ?t = "tail_tid (jstate j)"
  obtain n where n: "j' = committed_journal j txn n" using commit_result[OF assms(1,3,5)] by metis
  obtain x where x: "lt_writes x = metadata_blocks txn" "lt_revokes x = t_revoked txn" "journal_log j' d' (xs @ [x])"
    using commit_extends_log[OF assms(1,3,5)] by blast
  have R: "bt_ok ?R" "\<And>b. bt_get ?R b = newest_revoke ?t xs b" using assms(2) by (simp_all add: log_tracked_def)
  have st: "j_revoked (jstate j') = foldl (\<lambda>tb b. record_revoke tb b (t_tid txn)) ?R (t_revoked txn)" "committed_tid j' = t_tid txn"
    "tail_tid (jstate j') = (if tail_block (jstate j) = None then t_tid txn else ?t)"
    using n by (simp_all add: committed_journal_def Let_def stash_revokes_def set_phase_def)
  have "log_tracked j' (xs @ [x])"
  proof (cases "tail_block (jstate j)")
    case None
    then have "xs = []" using assms(1) by (simp add: journal_log_def Let_def)
    then show ?thesis using None R st x(2) by (simp add: log_tracked_def get_record_all bt_ok_record_all tid_next_def)
  next
    case (Some tail)
    then have ls: "log_state ?g d tail ?t xs" "geometry_ok ?g" using assms(1) by (auto simp: journal_log_def Let_def dest: healthyD)
    have len: "length xs < 2 ^ 31" by (rule log_state_length[OF ls assms(4)])
    have tid: "t_tid txn = ?t + word_of_nat (length xs)" using assms(3) Some by (simp add: committable_def)
    have "\<not> tid_geq e (t_tid txn)" if "newest_revoke ?t xs b = Some e" for b e
      using newest_revoke_range[OF that] not_geq_later len tid by auto
    then have "bt_get (j_revoked (jstate j')) b = newest_revoke ?t (xs @ [x]) b" for b
      using st(1) R(2)[of b] x(2) tid by (auto simp: get_record_all newest_revoke_append)
    then show ?thesis using Some R st tid by (simp add: log_tracked_def bt_ok_record_all tid_next_def)
  qed
  then show ?thesis using x by (auto simp: holds_transaction_def simp del: split_paired_Ex)
qed

section \<open>Logs that end where the journal says\<close>

definition log_ends :: "Journal \<Rightarrow> (u64 \<Rightarrow> bytes) \<Rightarrow> LoggedTxn list \<Rightarrow> bool" where
  "log_ends j m xs \<longleftrightarrow>
     xs \<noteq> [] \<longrightarrow> scan_transaction (geometry j) (mounted m) (head (jstate j)) (tail_tid (jstate j) + word_of_nat (length xs)) = Ok None"

lemma recoverable_of_log:
  assumes "journal_log j (mounted m) xs" "log_ends j m xs"
  shows "recoverable (geometry j) m (tail_tid (jstate j)) xs"
proof (cases "tail_block (jstate j)")
  case None
  then show ?thesis using assms(1) by (auto simp: journal_log_def recoverable_def Let_def)
next
  case (Some tail)
  then have st: "healthy (geometry j) (mounted m)" "xs \<noteq> []" "log_state (geometry j) (mounted m) tail (tail_tid (jstate j)) xs"
    "head (jstate j) = advance (geometry j) tail (length (lts_blocks xs))"
    using assms(1) by (auto simp: journal_log_def Let_def)
  obtain raw where raw: "read_raw_superblock (geometry j) (mounted m) = Ok raw" "s_start raw = word_of_nat tail" "in_ring (geometry j) tail"
    using st(3) by (auto simp: log_state_def)
  have "s_start raw \<noteq> 0" using raw word_of_nat_pos(1)[OF st(1)] by simp
  then show ?thesis using st assms(2) raw(1) unfolding recoverable_def log_ends_def by auto
qed

lemma healthy_settled:
  assumes "healthy g d" "pending d = []"
  shows "d = mounted (durable d)"
proof -
  have "bad_read d = (\<lambda>_. False)" "bad_write d = (\<lambda>_. False)" "syncs_left d = None"
    using healthyD[OF assms(1)] by (auto simp: fun_eq_iff)
  then show ?thesis using assms(2) by (cases d) (simp add: mounted_def)
qed

lemma commit_next_boundary:
  assumes "commit_ready j d xs txn" "try_commit_transaction secs nsecs j d txn = (Ok (Committed t), j', d')" "crash d' c"
    and "in_ring (geometry j) q"
  shows "boundary_at (geometry j) (mounted (durable c)) q (tid_next (t_tid txn))"
proof -
  let ?g = "geometry j"
  obtain revs chain where wrote: "build_revoke_blocks txn (tag_layout ?g) (csum_seed ?g) = Ok revs"
      "build_descriptor_chain txn (tag_layout ?g) (csum_seed ?g) = Ok chain"
      "commit_footprint revs chain \<le> free_log_blocks ?g (head (jstate j)) (tail_block (jstate j))"
      "write_transaction secs nsecs j d txn revs chain = (Ok (Committed t), j', d')"
    using try_commit_cases[OF assms(2)] by blast
  obtain p x where p: "commit_writes p j txn revs chain secs nsecs d" "plan_ok p j xs (t_tid txn) x"
    by (rule plan_of_commit[OF assms(1) wrote(1-3)])
  obtain sl an where "commit_image p sl an (durable c)" sl
    using write_transaction_crash_ordered[OF p(1) wrote(4)] assms(3) unfolding crash_ordered_def by blast
  then show ?thesis using sealed_next_boundary[OF p(2) _ assms(4)] by simp
qed

end
