(* ===== verification/Journal_Handles.thy ===== *)
theory Journal_Handles
  imports Journal_State
begin

text \<open>
  Handles, credits and the capture funnels: \<open>admit\<close>, \<open>journal_start\<close>, \<open>journal_stop\<close>,
  \<open>journal_extend\<close>, \<open>journal_restart\<close> of \<open>journal/transaction.rs\<close>, and \<open>get_write_access\<close>,
  \<open>get_create_access\<close>, \<open>WriteAccess::patch\<close>, \<open>read_metadata_block\<close>, \<open>pin_freed_run\<close> and
  \<open>RevokeDuty::discharge\<close> of \<open>journal/mod.rs\<close> and \<open>journal/revoke.rs\<close>.  A handle's interior
  cells are returned updated beside the journal.
\<close>

section \<open>Handles and seats\<close>

record Handle =
  h_tid :: tid
  credits :: nat
  remaining :: nat

definition grant_credits :: "Handle \<Rightarrow> nat \<Rightarrow> Handle" where
  "grant_credits h extra = h\<lparr> credits := credits h + extra, remaining := remaining h + extra \<rparr>"

definition spend_one_credit :: "Handle \<Rightarrow> Handle" where
  "spend_one_credit h = h\<lparr> remaining := remaining h - 1 \<rparr>"

definition active_txn_mut :: "Transaction option \<Rightarrow> Transaction option \<Rightarrow> tid \<Rightarrow> Transaction option" where
  "active_txn_mut run lock t =
     (let in_lock = (case lock of
                       Some txn \<Rightarrow> if t_tid txn = t then Some txn else None
                     | None \<Rightarrow> None)
      in case run of
           Some txn \<Rightarrow> if t_tid txn = t then Some txn else in_lock
         | None \<Rightarrow> in_lock)"

definition active_for :: "JournalState \<Rightarrow> Handle \<Rightarrow> Transaction result" where
  "active_for st h =
     (case active_txn_mut (running st) (locking st) (h_tid h) of
        Some txn \<Rightarrow> Ok txn
      | None \<Rightarrow> Err EIO)"

text \<open>Writing the borrowed transaction back into the seat it was found in.\<close>

definition put_active :: "JournalState \<Rightarrow> tid \<Rightarrow> Transaction \<Rightarrow> JournalState" where
  "put_active st t txn =
     (case running st of
        Some r \<Rightarrow> if t_tid r = t then st\<lparr> running := Some txn \<rparr> else st\<lparr> locking := Some txn \<rparr>
      | None \<Rightarrow> st\<lparr> locking := Some txn \<rparr>)"

definition set_state :: "Journal \<Rightarrow> JournalState \<Rightarrow> Journal" where
  "set_state j st = j\<lparr> jstate := st \<rparr>"

section \<open>Admission\<close>

datatype Admit = Admitted tid | WaitRoom tid u64 | WaitSpace u64

definition check_capacity :: "JournalGeometry \<Rightarrow> Transaction \<Rightarrow> nat \<Rightarrow> unit result" where
  "check_capacity g txn extra =
     err_if (reserved_metadata_blocks txn extra + nr_revoke_blocks txn (tag_layout g) > max_credits g)
       ENOSPC"

text \<open>One round of the admission loop, under the state lock.\<close>

definition admit_round :: "nat \<Rightarrow> nat \<Rightarrow> Journal \<Rightarrow> nat \<Rightarrow> Admit \<times> Journal" where
  "admit_round now freq j n =
     (let st = jstate j in
      case locking st of
        Some locked \<Rightarrow> (WaitRoom (t_tid locked) (credit_release_epoch j), j)
      | None \<Rightarrow>
          let (txn, st1) =
            (case running st of
               Some txn \<Rightarrow> (txn, st)
             | None \<Rightarrow>
                 let txn = Transaction_new now freq (next_tid st) in
                 (txn, st\<lparr> next_tid := tid_next (next_tid st), running := Some txn \<rparr>))
          in if check_capacity (geometry j) txn n \<noteq> Ok ()
             then (WaitRoom (t_tid txn) (credit_release_epoch j), set_state j st1)
             else if commit_servicer j \<and>
                     reservation_footprint (geometry j) txn n >
                       free_log_blocks (geometry j) (head st1) (tail_block st1)
             then (WaitSpace (credit_release_epoch j), set_state j st1)
             else (Admitted (t_tid txn),
                   set_state j (st1\<lparr> running := Some (txn\<lparr> t_updates := t_updates txn + 1,
                                       outstanding_credits := outstanding_credits txn + n \<rparr>) \<rparr>)))"

text \<open>The whole loop against a schedule: each element is what the other tasks do to the journal
  before the waiter is polled again.  \<open>None\<close> means the schedule ended with the caller still blocked.\<close>

fun await :: "(Journal \<Rightarrow> unit result option) \<Rightarrow> (Journal \<Rightarrow> Journal) list \<Rightarrow> Journal \<Rightarrow>
    ((Journal \<Rightarrow> Journal) list \<times> unit result \<times> Journal) option" where
  "await poll [] j = (case poll j of Some r \<Rightarrow> Some ([], r, j) | None \<Rightarrow> None)"
| "await poll (env # rest) j =
     (case poll j of Some r \<Rightarrow> Some (env # rest, r, j) | None \<Rightarrow> await poll rest (env j))"

lemma await_schedule: "await poll sched j = Some (sched', r, j') \<Longrightarrow> length sched' \<le> length sched"
  by (induction poll sched j rule: await.induct) (auto split: option.splits)

function admit_loop :: "nat \<Rightarrow> nat \<Rightarrow> (Journal \<Rightarrow> Journal) list \<Rightarrow> Journal \<Rightarrow> nat \<Rightarrow> (tid result \<times> Journal) option" where
  "admit_loop now freq sched j n =
     (if aborted j then Some (Err EIO, j)
      else case admit_round now freq j n of
        (Admitted t, j1) \<Rightarrow> Some (Ok t, j1)
      | (WaitRoom t epoch, j1) \<Rightarrow>
          (case sched of
             [] \<Rightarrow> None
           | env # rest \<Rightarrow>
               (case await (\<lambda>x. poll_transaction_room x t epoch) rest (env (request_commit_for j1 t)) of
                  None \<Rightarrow> None
                | Some (sched', Inl e, j2) \<Rightarrow> Some (Inl e, j2)
                | Some (sched', Inr _, j2) \<Rightarrow> admit_loop now freq sched' j2 n))
      | (WaitSpace epoch, j1) \<Rightarrow>
          (case sched of
             [] \<Rightarrow> None
           | env # rest \<Rightarrow>
               (case await (\<lambda>x. poll_log_space x epoch) rest (env (request_log_space j1)) of
                  None \<Rightarrow> None
                | Some (sched', Inl e, j2) \<Rightarrow> Some (Inl e, j2)
                | Some (sched', Inr _, j2) \<Rightarrow> admit_loop now freq sched' j2 n)))"
  by pat_completeness auto
termination
  by (relation "measure (\<lambda>(_, _, sched, _, _). length sched)") (auto dest: await_schedule)

declare admit_loop.simps [simp del]

definition admit :: "nat \<Rightarrow> nat \<Rightarrow> (Journal \<Rightarrow> Journal) list \<Rightarrow> Journal \<Rightarrow> nat \<Rightarrow> (tid result \<times> Journal) option" where
  "admit now freq sched j n =
     (if n > max_credits (geometry j) then Some (Err ENOSPC, j)
      else admit_loop now freq sched j n)"

definition journal_start ::
    "nat \<Rightarrow> nat \<Rightarrow> (Journal \<Rightarrow> Journal) list \<Rightarrow> Journal \<Rightarrow> nat \<Rightarrow> (Handle result \<times> Journal) option" where
  "journal_start now freq sched j n =
     (case admit now freq sched j n of
        None \<Rightarrow> None
      | Some (Inl e, j') \<Rightarrow> Some (Inl e, j')
      | Some (Inr t, j') \<Rightarrow> Some (Ok \<lparr> h_tid = t, credits = n, remaining = n \<rparr>, j'))"

text \<open>The release half shared by \<open>journal_stop\<close> and \<open>journal_restart\<close>.\<close>

definition release_handle :: "Transaction \<Rightarrow> Handle \<Rightarrow> Transaction" where
  "release_handle txn h =
     txn\<lparr> t_updates := t_updates txn - 1,
          outstanding_credits := outstanding_credits txn - remaining h \<rparr>"

definition journal_stop :: "Journal \<Rightarrow> Handle \<Rightarrow> Journal" where
  "journal_stop j h =
     (let st = jstate j in
      case active_txn_mut (running st) (locking st) (h_tid h) of
        Some txn \<Rightarrow> note_credits_released (set_state j (put_active st (h_tid h) (release_handle txn h)))
      | None \<Rightarrow> j)"

section \<open>Growing a reservation\<close>

datatype ExtendOutcome = Granted | NeedsRestart

definition EXTEND_BATCH_BLOCKS :: nat where
  "EXTEND_BATCH_BLOCKS = 8"

definition try_grow_reservation ::
    "JournalGeometry \<Rightarrow> Transaction \<Rightarrow> Handle \<Rightarrow> nat \<Rightarrow> ExtendOutcome \<times> Transaction \<times> Handle" where
  "try_grow_reservation g txn h extra =
     (if reserved_metadata_blocks txn extra + nr_revoke_blocks txn (tag_layout g) > max_credits g
      then (NeedsRestart, txn, h)
      else (Granted, txn\<lparr> outstanding_credits := outstanding_credits txn + extra \<rparr>, grant_credits h extra))"

definition charge_fresh_capture ::
    "JournalGeometry \<Rightarrow> Transaction \<Rightarrow> Handle \<Rightarrow> unit result \<times> Transaction \<times> Handle" where
  "charge_fresh_capture g txn h =
     (let (granted, txn1, h1) =
        (if remaining h = 0 then
           (case try_grow_reservation g txn h EXTEND_BATCH_BLOCKS of
              (NeedsRestart, txn1, h1) \<Rightarrow>
                (case try_grow_reservation g txn1 h1 1 of
                   (NeedsRestart, txn2, h2) \<Rightarrow> (False, txn2, h2)
                 | (Granted, txn2, h2) \<Rightarrow> (True, txn2, h2))
            | (Granted, txn1, h1) \<Rightarrow> (True, txn1, h1))
         else (True, txn, h))
      in if granted then (Ok (), consume_reserved_credit txn1, spend_one_credit h1)
         else (Err ENOSPC, txn1, h1))"

definition locked_by :: "JournalState \<Rightarrow> Handle \<Rightarrow> bool" where
  "locked_by st h = (case locking st of None \<Rightarrow> False | Some locked \<Rightarrow> t_tid locked = h_tid h)"

definition journal_extend :: "Journal \<Rightarrow> Handle \<Rightarrow> nat \<Rightarrow> ExtendOutcome result \<times> Handle \<times> Journal" where
  "journal_extend j h extra =
     (let st = jstate j in
      if locked_by st h then (Ok NeedsRestart, h, j)
      else case running st of
             None \<Rightarrow> (Err EIO, h, j)
           | Some txn \<Rightarrow>
               let (out, txn', h') = try_grow_reservation (geometry j) txn h extra in
               (Ok out, h', set_state j (st\<lparr> running := Some txn' \<rparr>)))"

definition try_reserve_next :: "Journal \<Rightarrow> Handle \<Rightarrow> nat \<Rightarrow> ExtendOutcome result \<times> Handle \<times> Journal" where
  "try_reserve_next j h need =
     (if remaining h \<ge> need then (Ok Granted, h, j)
      else journal_extend j h (need - remaining h))"

definition extend_reservation_for_burst :: "Journal \<Rightarrow> Handle \<Rightarrow> nat \<Rightarrow> unit result \<times> Handle \<times> Journal" where
  "extend_reservation_for_burst j h extra =
     (let st = jstate j in
      if locked_by st h then (Err ENOSPC, h, j)
      else case running st of
             None \<Rightarrow> (Err EIO, h, j)
           | Some txn \<Rightarrow>
               let (out, txn', h') = try_grow_reservation (geometry j) txn h extra;
                   j' = set_state j (st\<lparr> running := Some txn' \<rparr>)
               in (case out of Granted \<Rightarrow> (Ok (), h', j') | NeedsRestart \<Rightarrow> (Err EFBIG, h', j')))"

definition restart_release :: "Journal \<Rightarrow> Handle \<Rightarrow> Journal" where
  "restart_release j h =
     (let st = jstate j;
          st' = (case active_txn_mut (running st) (locking st) (h_tid h) of
                   Some txn \<Rightarrow> put_active st (h_tid h) (release_handle txn h)
                 | None \<Rightarrow> st)
      in request_commit_for (note_credits_released (set_state j st')) (h_tid h))"

definition journal_restart ::
    "nat \<Rightarrow> nat \<Rightarrow> (Journal \<Rightarrow> Journal) list \<Rightarrow> Journal \<Rightarrow> Handle \<Rightarrow> nat \<Rightarrow> (unit result \<times> Handle \<times> Journal) option" where
  "journal_restart now freq sched j h n =
     (if aborted j then Some (Ok (), h, j)
      else case admit now freq sched (restart_release j h) n of
             None \<Rightarrow> None
           | Some (Inl e, j') \<Rightarrow> Some (Inl e, h, j')
           | Some (Inr t, j') \<Rightarrow> Some (Ok (), \<lparr> h_tid = t, credits = n, remaining = n \<rparr>, j'))"

definition ensure_chunk_credits ::
    "nat \<Rightarrow> nat \<Rightarrow> (Journal \<Rightarrow> Journal) list \<Rightarrow> Journal \<Rightarrow> Handle \<Rightarrow> nat \<Rightarrow> (unit result \<times> Handle \<times> Journal) option" where
  "ensure_chunk_credits now freq sched j h need =
     (if remaining h \<ge> need then Some (Ok (), h, j)
      else case journal_extend j h (need - remaining h) of
             (Inl e, h', j') \<Rightarrow> Some (Inl e, h', j')
           | (Inr Granted, h', j') \<Rightarrow> Some (Ok (), h', j')
           | (Inr NeedsRestart, h', j') \<Rightarrow> journal_restart now freq sched j' h' need)"

section \<open>Captures, patches and reads\<close>

record LiveAccess =
  la_tid :: tid
  la_bid :: Ext4Bid
  la_generation :: nat

type_synonym WriteAccess = "LiveAccess option"

definition is_live :: "WriteAccess \<Rightarrow> bool" where
  "is_live a \<longleftrightarrow> a \<noteq> None"

text \<open>The last steps of both access functions: charge a fresh capture and write the seat back.\<close>

definition finish_access ::
    "Journal \<Rightarrow> Handle \<Rightarrow> Ext4Bid \<Rightarrow> bool \<Rightarrow> nat \<Rightarrow> Transaction \<Rightarrow> WriteAccess result \<times> Handle \<times> Journal" where
  "finish_access j h bid fresh gen txn =
     (let st = jstate j;
          (r, txn', h') = (if fresh then charge_fresh_capture (geometry j) txn h else (Ok (), txn, h))
      in (and_then r (\<lambda>_. Ok (Some \<lparr> la_tid = h_tid h, la_bid = bid, la_generation = gen \<rparr>)), h',
          set_state j (put_active st (h_tid h) txn')))"

definition capture_seed :: "JournalState \<Rightarrow> Transaction option \<Rightarrow> Ext4Bid \<Rightarrow> bytes option" where
  "capture_seed st locked_predecessor bid =
     (case (case locked_predecessor of Some locked \<Rightarrow> buffer_bytes locked bid | None \<Rightarrow> None) of
        Some bs \<Rightarrow> Some bs
      | None \<Rightarrow> map_option ui_image (bt_get (uncheckpointed st) bid))"

definition get_write_access_live ::
    "Journal \<Rightarrow> device \<Rightarrow> Handle \<Rightarrow> Ext4Bid \<Rightarrow> WriteAccess result \<times> Handle \<times> Journal" where
  "get_write_access_live j d h bid =
     (let st = jstate j;
          found = (case active_txn_mut (running st) None (h_tid h) of
                     Some txn \<Rightarrow> Some (txn, locking st)
                   | None \<Rightarrow> map_option (\<lambda>txn. (txn, None)) (active_txn_mut None (locking st) (h_tid h)))
      in case found of
           None \<Rightarrow> (Err EIO, h, j)
         | Some (txn, locked_predecessor) \<Rightarrow>
             (case capture_write txn bid (capture_seed st locked_predecessor bid) d of
                (Inl e, txn1) \<Rightarrow> (Inl e, h, set_state j (put_active st (h_tid h) txn1))
              | (Inr gen, txn1) \<Rightarrow> finish_access j h bid (\<not> is_captured txn bid) gen txn1))"

definition get_write_access ::
    "Journal \<Rightarrow> device \<Rightarrow> Handle option \<Rightarrow> Ext4Bid \<Rightarrow> WriteAccess result \<times> Handle option \<times> Journal" where
  "get_write_access j d handle bid =
     (case handle of
        None \<Rightarrow> (Ok None, None, j)
      | Some h \<Rightarrow> let (r, h', j') = get_write_access_live j d h bid in (r, Some h', j'))"

definition get_create_access_live ::
    "Journal \<Rightarrow> Handle \<Rightarrow> Ext4Bid \<Rightarrow> WriteAccess result \<times> Handle \<times> Journal" where
  "get_create_access_live j h bid =
     (case active_for (jstate j) h of
        Inl e \<Rightarrow> (Inl e, h, j)
      | Inr txn \<Rightarrow>
          let (gen, txn1) = capture_create txn bid in
          finish_access j h bid (\<not> is_captured txn bid) gen txn1)"

definition get_create_access ::
    "Journal \<Rightarrow> Handle option \<Rightarrow> Ext4Bid \<Rightarrow> WriteAccess result \<times> Handle option \<times> Journal" where
  "get_create_access j handle bid =
     (case handle of
        None \<Rightarrow> (Ok None, None, j)
      | Some h \<Rightarrow> let (r, h', j') = get_create_access_live j h bid in (r, Some h', j'))"

definition reserve_capture_burst ::
    "Journal \<Rightarrow> Handle option \<Rightarrow> nat \<Rightarrow> unit result \<times> Handle option \<times> Journal" where
  "reserve_capture_burst j handle extra =
     (case handle of
        None \<Rightarrow> (Ok (), None, j)
      | Some h \<Rightarrow> let (r, h', j') = extend_reservation_for_burst j h extra in (r, Some h', j'))"

definition WriteAccess_patch ::
    "Journal \<Rightarrow> Handle \<Rightarrow> WriteAccess \<Rightarrow> (bytes \<Rightarrow> bytes) \<Rightarrow> unit result \<times> Journal" where
  "WriteAccess_patch j h a patch =
     (case a of
        None \<Rightarrow> (Ok (), j)
      | Some live \<Rightarrow>
          (case and_then (active_for (jstate j) h)
                  (\<lambda>txn. apply_patch txn (la_bid live) (la_generation live) patch) of
             Inl e \<Rightarrow> (Inl e, j)
           | Inr txn \<Rightarrow> (Ok (), set_state j (put_active (jstate j) (h_tid h) txn))))"

definition read_metadata_block :: "Journal option \<Rightarrow> device \<Rightarrow> Ext4Bid \<Rightarrow> bytes result" where
  "read_metadata_block journal d bid =
     (let newest = (case journal of
            None \<Rightarrow> None
          | Some j \<Rightarrow>
              (let st = jstate j in
               case (case running st of Some txn \<Rightarrow> buffer_bytes txn bid | None \<Rightarrow> None) of
                 Some bs \<Rightarrow> Some bs
               | None \<Rightarrow>
                   (case (case locking st of Some txn \<Rightarrow> buffer_bytes txn bid | None \<Rightarrow> None) of
                      Some bs \<Rightarrow> Some bs
                    | None \<Rightarrow> map_option ui_image (bt_get (uncheckpointed st) bid))))
      in case newest of Some bs \<Rightarrow> Ok bs | None \<Rightarrow> read_block d bid)"

section \<open>Frees\<close>

definition pin_freed_run :: "Journal \<Rightarrow> Handle option \<Rightarrow> Ext4Bid \<Rightarrow> u32 \<Rightarrow> unit result \<times> Journal" where
  "pin_freed_run j handle start count =
     (case handle of
        None \<Rightarrow> (Ok (), j)
      | Some h \<Rightarrow>
          if count = 0 then (Ok (), j)
          else case active_for (jstate j) h of
                 Inl e \<Rightarrow> (Inl e, j)
               | Inr txn \<Rightarrow>
                   let st = jstate j;
                       run = (case bt_get (pinned_frees st) start of
                                Some run \<Rightarrow> run\<lparr> pr_count := max (pr_count run) count, pr_tid := t_tid txn \<rparr>
                              | None \<Rightarrow> \<lparr> pr_count = count, pr_tid = t_tid txn \<rparr>)
                   in (Ok (), set_state j (st\<lparr> pinned_frees := bt_insert start run (pinned_frees st) \<rparr>)))"

definition discharge :: "Journal \<Rightarrow> Handle \<Rightarrow> Ext4Bid \<Rightarrow> u32 \<Rightarrow> unit result \<times> Journal" where
  "discharge j h start count =
     (let st = jstate j in
      case active_for st h of
        Inl e \<Rightarrow> (Inl e, j)
      | Inr txn \<Rightarrow>
          let bids = map (\<lambda>i. start + word_of_nat i) [0..<unat count];
              txn' = foldl forget_block txn bids;
              un = foldl (\<lambda>m bid. bt_remove bid m) (uncheckpointed st) bids
          in (Ok (), set_state j (put_active (st\<lparr> uncheckpointed := un \<rparr>) (h_tid h) txn')))"

section \<open>Ordered data\<close>

text \<open>Registering ordered data through a handle: a failure aborts the journal, since the metadata that
  refers to the data is captured already.\<close>

definition Handle_register_ordered_data ::
    "Journal \<Rightarrow> device \<Rightarrow> Handle \<Rightarrow> u32 \<Rightarrow> OrderedData \<Rightarrow> unit result \<times> Journal \<times> device" where
  "Handle_register_ordered_data j d h ino od =
     (case active_for (jstate j) h of
        Inl e \<Rightarrow> let (j', d') = abort_with_error j d in (Inl e, j', d')
      | Inr txn \<Rightarrow> (Ok (), set_state j (put_active (jstate j) (h_tid h) (register_ordered_data txn ino od)), d))"

end
