(* ===== verification/Journal_Pipeline.thy ===== *)
theory Journal_Pipeline
  imports Journal_Handles Journal_Recovery "HOL-Library.Multiset"
begin

text \<open>
  The two-transaction pipeline as a whole: every interleaving of the handle operations, the
  commit thread, the checkpointer, unmount and aborts over one journal, from the journal a mount
  produces, with or without recovery.  The state of the system is the journal, the multiset of the
  handles that operations still hold, the number of captures that were refused a credit and the
  number of restarts that were refused.  A restart releases the reservation of its handle first;
  when its new admission is then refused, the operation still holds the handle as it was, can go on
  using it and stops it at its end.  The seats, the transaction ids and the retained images obey
  their invariant in every interleaving.  The counters of the active transaction match the held
  handles as long as no restart was refused.
\<close>

section \<open>The active transaction\<close>

definition seats_ok :: "JournalState \<Rightarrow> bool" where
  "seats_ok st \<longleftrightarrow> running st = None \<or> locking st = None"

definition active :: "JournalState \<Rightarrow> Transaction option" where
  "active st = (case running st of Some txn \<Rightarrow> Some txn | None \<Rightarrow> locking st)"

lemma active_txn_mut_eq:
  "seats_ok st \<Longrightarrow> active_txn_mut (running st) (locking st) t =
     (case active st of Some txn \<Rightarrow> if t_tid txn = t then Some txn else None | None \<Rightarrow> None)"
  by (auto simp: seats_ok_def active_def active_txn_mut_def split: option.splits)

lemma active_for_eq:
  "seats_ok st \<Longrightarrow> active_for st h = Ok txn \<longleftrightarrow> active st = Some txn \<and> t_tid txn = h_tid h"
  by (auto simp: active_for_def active_txn_mut_eq split: option.splits)

text \<open>Everything of the state but the seats of the active transaction.\<close>

definition other_fields :: "JournalState \<Rightarrow> JournalState" where
  "other_fields st = st\<lparr> running := None, locking := None \<rparr>"

lemma put_active_props:
  assumes "seats_ok st" "active st = Some txn" "t_tid txn = t"
  shows "seats_ok (put_active st t txn')" "active (put_active st t txn') = Some txn'"
    "other_fields (put_active st t txn') = other_fields st"
  using assms by (auto simp: seats_ok_def active_def put_active_def other_fields_def split: option.splits if_splits)

lemma other_fieldsD:
  assumes "other_fields st' = other_fields st"
  shows "next_tid st' = next_tid st" "committing st' = committing st" "uncheckpointed st' = uncheckpointed st"
    "pinned_frees st' = pinned_frees st" "head st' = head st" "tail_block st' = tail_block st"
  using assms by (cases st; cases st'; simp add: other_fields_def)+

section \<open>Accounts of the active transaction\<close>

text \<open>The counters of a transaction against its open handles: one update per handle, the unspent
  credits of all handles outstanding, and captures plus credits within the log's limit, up to \<open>k\<close>
  captures that were made although no credit was left for them.\<close>

definition accounts :: "JournalGeometry \<Rightarrow> Transaction \<Rightarrow> Handle multiset \<Rightarrow> nat \<Rightarrow> bool" where
  "accounts g txn H k \<longleftrightarrow>
     transaction_ok txn \<and> t_updates txn = size H \<and>
     outstanding_credits txn = sum_mset (image_mset remaining H) \<and> (\<forall>h\<in>#H. h_tid h = t_tid txn) \<and>
     nr_metadata_blocks txn + outstanding_credits txn \<le> max_credits g + k"

named_theorems account_intros \<open>how the operations keep the accounts\<close>

lemma accounts_mono: "accounts g txn H k \<Longrightarrow> k \<le> k' \<Longrightarrow> accounts g txn H k'"
  by (simp add: accounts_def)

lemma transaction_ok_counters:
  "transaction_ok (txn\<lparr> t_updates := n \<rparr>) = transaction_ok txn"
  "transaction_ok (txn\<lparr> outstanding_credits := n \<rparr>) = transaction_ok txn"
  by (simp_all add: transaction_ok_def)

lemma accounts_new: "n \<le> max_credits g \<Longrightarrow> accounts g (Transaction_new now f t) {#} k"
  by (simp add: accounts_def transaction_ok_new) (simp add: Transaction_new_def nr_metadata_blocks_def)

lemma accounts_admit:
  assumes "accounts g txn H k" "reserved_metadata_blocks txn n \<le> max_credits g" "h_tid h = t_tid txn" "remaining h = n"
  shows "accounts g (txn\<lparr> t_updates := t_updates txn + 1, outstanding_credits := outstanding_credits txn + n \<rparr>) (add_mset h H) k"
  using assms by (simp add: accounts_def transaction_ok_counters reserved_metadata_blocks_def nr_metadata_blocks_def)

lemma accounts_release:
  assumes "accounts g txn H k" "h \<in># H"
  shows "accounts g (release_handle txn h) (H - {#h#}) k"
proof -
  obtain H' where "H = add_mset h H'" using assms(2) by (metis mset_add)
  then show ?thesis
    using assms(1) by (simp add: accounts_def release_handle_def transaction_ok_counters nr_metadata_blocks_def)
qed

lemma accounts_grow:
  assumes "accounts g txn H k" "h \<in># H" "try_grow_reservation g txn h e = (out, txn', h')"
  shows "accounts g txn' (add_mset h' (H - {#h#})) k \<and> t_tid txn' = t_tid txn \<and> h_tid h' = h_tid h \<and>
    (out = Granted \<longrightarrow> remaining h' = remaining h + e)"
proof -
  obtain H' where "H = add_mset h H'" using assms(2) by (metis mset_add)
  then show ?thesis
    using assms(1,3)
    by (auto simp: accounts_def try_grow_reservation_def grant_credits_def transaction_ok_counters
        reserved_metadata_blocks_def nr_metadata_blocks_def split: if_splits)
qed

lemma accounts_spend:
  assumes "accounts g txn H (Suc k)" "h \<in># H" "0 < remaining h"
  shows "accounts g (consume_reserved_credit txn) (add_mset (spend_one_credit h) (H - {#h#})) k"
proof -
  obtain H' where H': "H = add_mset h H'" using assms(2) by (metis mset_add)
  obtain n where "remaining h = Suc n" using assms(3) by (cases "remaining h") simp_all
  then show ?thesis
    using assms(1) H'
    by (simp add: accounts_def consume_reserved_credit_def spend_one_credit_def transaction_ok_counters nr_metadata_blocks_def)
qed

lemma accounts_charge:
  assumes "accounts g txn H (Suc k)" "h \<in># H" "charge_fresh_capture g txn h = (r, txn', h')"
  shows "accounts g txn' (add_mset h' (H - {#h#})) (if r = Ok () then k else Suc k) \<and>
    t_tid txn' = t_tid txn \<and> h_tid h' = h_tid h \<and> (r = Ok () \<or> r = Err ENOSPC)"
proof (cases "remaining h = 0")
  case False
  then show ?thesis
    using assms accounts_spend[OF assms(1,2)]
    by (auto simp: charge_fresh_capture_def consume_reserved_credit_def spend_one_credit_def)
next
  case True
  obtain o1 t1 h1 where g1: "try_grow_reservation g txn h EXTEND_BATCH_BLOCKS = (o1, t1, h1)" by (metis prod_cases3)
  note a1 = accounts_grow[OF assms(1,2) g1]
  have m1: "h1 \<in># add_mset h1 (H - {#h#})" by simp
  obtain o2 t2 h2 where g2: "try_grow_reservation g t1 h1 1 = (o2, t2, h2)" by (metis prod_cases3)
  note a2 = accounts_grow[OF conjunct1[OF a1] m1 g2]
  have m2: "h2 \<in># add_mset h2 (H - {#h#})" by simp
  note s1 = accounts_spend[OF conjunct1[OF a1] m1] and s2 = accounts_spend[OF _ m2, of g t2 k]
  show ?thesis
    using assms(3) True g1 g2 a1 a2 s1 s2
    by (cases o1; cases o2)
       (auto simp: charge_fresh_capture_def consume_reserved_credit_def spend_one_credit_def EXTEND_BATCH_BLOCKS_def)
qed

text \<open>The accounts are owed only as long as the number \<open>R\<close> of refused restarts is zero.\<close>

definition ledger :: "JournalGeometry \<Rightarrow> Transaction \<Rightarrow> Handle multiset \<Rightarrow> nat \<Rightarrow> nat \<Rightarrow> bool" where
  "ledger g txn H k R \<longleftrightarrow> transaction_ok txn \<and> (R = 0 \<longrightarrow> accounts g txn H k)"

lemma accounts_ok: "accounts g txn H k \<Longrightarrow> transaction_ok txn"
  by (simp add: accounts_def)

lemma release_handle_ok [simp]: "transaction_ok (release_handle txn h) = transaction_ok txn" "t_tid (release_handle txn h) = t_tid txn"
  by (simp_all add: release_handle_def transaction_ok_counters)

lemma try_grow_ok: "try_grow_reservation g txn h e = (out, txn', h') \<Longrightarrow> transaction_ok txn' = transaction_ok txn \<and> t_tid txn' = t_tid txn"
  by (auto simp: try_grow_reservation_def transaction_ok_counters split: if_splits)

lemma charge_ok:
  assumes "charge_fresh_capture g txn h = (r, txn', h')"
  shows "transaction_ok txn' = transaction_ok txn" "t_tid txn' = t_tid txn" "r = Ok () \<or> r = Err ENOSPC"
  using assms
  by (auto simp: charge_fresh_capture_def try_grow_reservation_def consume_reserved_credit_def transaction_ok_counters Let_def
      split: if_splits)

lemma ledger_release: "ledger g txn H k R \<Longrightarrow> h \<in># H \<Longrightarrow> ledger g (release_handle txn h) (H - {#h#}) k R"
  using accounts_release by (simp add: ledger_def)

lemma ledger_refused: "ledger g txn H k R \<Longrightarrow> ledger g (release_handle txn h) H k (Suc R)"
  by (simp add: ledger_def)

lemma ledger_grow:
  "ledger g txn H k R \<Longrightarrow> h \<in># H \<Longrightarrow> try_grow_reservation g txn h e = (out, txn', h') \<Longrightarrow>
   ledger g txn' (add_mset h' (H - {#h#})) k R \<and> t_tid txn' = t_tid txn"
  using accounts_grow try_grow_ok unfolding ledger_def by metis

lemma ledger_charge:
  "ledger g txn H (Suc k) R \<Longrightarrow> h \<in># H \<Longrightarrow> charge_fresh_capture g txn h = (r, txn', h') \<Longrightarrow>
   ledger g txn' (add_mset h' (H - {#h#})) (if r = Ok () then k else Suc k) R \<and> t_tid txn' = t_tid txn \<and>
   (r = Ok () \<or> r = Err ENOSPC)"
  using accounts_charge charge_ok unfolding ledger_def by metis

text \<open>The operations on captures leave the counters and the id alone.\<close>

definition same_counters :: "Transaction \<Rightarrow> Transaction \<Rightarrow> bool" where
  "same_counters txn txn' \<longleftrightarrow>
     t_tid txn' = t_tid txn \<and> t_updates txn' = t_updates txn \<and> outstanding_credits txn' = outstanding_credits txn"

lemma accounts_recount:
  assumes "accounts g txn H k" "transaction_ok txn'" "same_counters txn txn'"
    and "nr_metadata_blocks txn' \<le> nr_metadata_blocks txn + e"
  shows "accounts g txn' H (k + e)"
  using assms by (simp add: accounts_def same_counters_def)

lemma ledger_recount:
  "ledger g txn H k R \<Longrightarrow> transaction_ok txn' \<Longrightarrow> same_counters txn txn' \<Longrightarrow>
   nr_metadata_blocks txn' \<le> nr_metadata_blocks txn + e \<Longrightarrow> ledger g txn' H (k + e) R"
  using accounts_recount[of g txn H k txn' e] by (simp add: ledger_def)

lemma capture_create_counts:
  assumes "transaction_ok txn" "capture_create txn bid = (gen, txn')"
  shows "transaction_ok txn'" "same_counters txn txn'"
    "nr_metadata_blocks txn' = nr_metadata_blocks txn + (if is_captured txn bid then 0 else 1)"
proof -
  show "transaction_ok txn'" using capture_create_ok[OF assms(1), of bid] assms(2) by simp
  show "same_counters txn txn'"
    "nr_metadata_blocks txn' = nr_metadata_blocks txn + (if is_captured txn bid then 0 else 1)"
    using assms bt.insert_length[of "metadata txn" bid]
    by (auto simp: capture_create_def same_counters_def mint_capture_generation_def Let_def nr_metadata_blocks_def
        is_captured_def transaction_ok_def split: option.splits)
qed

lemma capture_write_counts:
  assumes "transaction_ok txn" "\<And>s. seed = Some s \<Longrightarrow> length s = BLOCK_SIZE" "length (visible d bid) = BLOCK_SIZE"
    and "capture_write txn bid seed d = (r, txn')"
  shows "transaction_ok txn'" "same_counters txn txn'"
    "nr_metadata_blocks txn' = nr_metadata_blocks txn + (if is_captured txn bid \<or> (\<exists>e. r = Err e) then 0 else 1)"
    "\<forall>e. r = Err e \<longrightarrow> e = EIO"
proof -
  have "transaction_ok (snd (capture_write txn bid seed d))"
    by (rule capture_write_ok) (use assms(1-3) in auto)
  then show "transaction_ok txn'" using assms(4) by simp
  show "same_counters txn txn'" "\<forall>e. r = Err e \<longrightarrow> e = EIO"
    "nr_metadata_blocks txn' = nr_metadata_blocks txn + (if is_captured txn bid \<or> (\<exists>e. r = Err e) then 0 else 1)"
    using assms(1,4) bt.insert_length[of "metadata txn" bid]
    by (auto simp: capture_write_def same_counters_def mint_capture_generation_def Let_def nr_metadata_blocks_def
        is_captured_def transaction_ok_def split: option.splits sum.splits)
qed

lemma apply_patch_counts:
  assumes "transaction_ok txn" "apply_patch txn bid gen patch = Ok txn'"
    and "\<And>b. length b = BLOCK_SIZE \<Longrightarrow> length (patch b) = BLOCK_SIZE"
  shows "transaction_ok txn'" "same_counters txn txn'" "nr_metadata_blocks txn' = nr_metadata_blocks txn"
proof -
  show "transaction_ok txn'" by (rule apply_patch_ok[OF assms])
  show "same_counters txn txn'" "nr_metadata_blocks txn' = nr_metadata_blocks txn"
    using assms(1,2) bt.insert_length[of "metadata txn" bid]
    by (auto simp: apply_patch_def same_counters_def nr_metadata_blocks_def transaction_ok_def
        split: option.splits if_splits)
qed

lemma forget_blocks_counts:
  "transaction_ok txn \<Longrightarrow> transaction_ok (foldl forget_block txn bids) \<and>
   same_counters txn (foldl forget_block txn bids) \<and>
   nr_metadata_blocks (foldl forget_block txn bids) \<le> nr_metadata_blocks txn"
proof (induction bids arbitrary: txn)
  case (Cons b bids)
  have "nr_metadata_blocks (forget_block txn b) \<le> nr_metadata_blocks txn"
    using Cons.prems bt.remove_length[of "metadata txn" b]
    by (simp add: forget_block_def nr_metadata_blocks_def transaction_ok_def)
  moreover have "same_counters txn (forget_block txn b)" by (simp add: same_counters_def forget_block_def)
  ultimately show ?case
    using Cons.IH[OF forget_block_ok[OF Cons.prems, of b]] by (auto simp: same_counters_def)
qed (simp add: same_counters_def)

section \<open>The system and its invariant\<close>

type_synonym system = "Journal \<times> Handle multiset \<times> nat \<times> nat"

inductive pipeline_step :: "system \<Rightarrow> system \<Rightarrow> bool" where
  step_admit: "n \<le> max_credits (geometry j) \<Longrightarrow> admit_round now freq j n = (Admitted t, j') \<Longrightarrow>
    pipeline_step (j, H, k, R) (j', add_mset \<lparr> h_tid = t, credits = n, remaining = n \<rparr> H, k, R)"
| step_wait: "n \<le> max_credits (geometry j) \<Longrightarrow> admit_round now freq j n = (w, j') \<Longrightarrow> (\<forall>t. w \<noteq> Admitted t) \<Longrightarrow>
    pipeline_step (j, H, k, R) (j', H, k, R)"
| step_stop: "h \<in># H \<Longrightarrow> pipeline_step (j, H, k, R) (journal_stop j h, H - {#h#}, k, R)"
| step_leave: "h \<in># H \<Longrightarrow> pipeline_step (j, H, k, R) (restart_release j h, H - {#h#}, k, R)"
| step_refused: "h \<in># H \<Longrightarrow> pipeline_step (j, H, k, R) (restart_release j h, H, k, Suc R)"
| step_extend: "h \<in># H \<Longrightarrow> journal_extend j h n = (r, h', j') \<Longrightarrow>
    pipeline_step (j, H, k, R) (j', add_mset h' (H - {#h#}), k, R)"
| step_burst: "h \<in># H \<Longrightarrow> extend_reservation_for_burst j h n = (rb, h', j') \<Longrightarrow>
    pipeline_step (j, H, k, R) (j', add_mset h' (H - {#h#}), k, R)"
| step_write: "h \<in># H \<Longrightarrow> length (visible d bid) = BLOCK_SIZE \<Longrightarrow> get_write_access_live j d h bid = (ra, h', j') \<Longrightarrow>
    pipeline_step (j, H, k, R) (j', add_mset h' (H - {#h#}), if ra = Err ENOSPC then Suc k else k, R)"
| step_create: "h \<in># H \<Longrightarrow> get_create_access_live j h bid = (ra, h', j') \<Longrightarrow>
    pipeline_step (j, H, k, R) (j', add_mset h' (H - {#h#}), if ra = Err ENOSPC then Suc k else k, R)"
| step_patch: "h \<in># H \<Longrightarrow> (\<And>b. length b = BLOCK_SIZE \<Longrightarrow> length (patch b) = BLOCK_SIZE) \<Longrightarrow>
    WriteAccess_patch j h a patch = (rb, j') \<Longrightarrow> pipeline_step (j, H, k, R) (j', H, k, R)"
| step_ordered: "h \<in># H \<Longrightarrow> Handle_register_ordered_data j d h ino od = (rb, j', d') \<Longrightarrow>
    pipeline_step (j, H, k, R) (j', H, k, R)"
| step_pin: "h \<in># H \<Longrightarrow> pin_freed_run j (Some h) start cnt = (rb, j') \<Longrightarrow> pipeline_step (j, H, k, R) (j', H, k, R)"
| step_discharge: "h \<in># H \<Longrightarrow> discharge j h start cnt = (rb, j') \<Longrightarrow> pipeline_step (j, H, k, R) (j', H, k, R)"
| step_claim: "claim_op_handle j owner = (ro, j') \<Longrightarrow> pipeline_step (j, H, k, R) (j', H, k, R)"
| step_unclaim: "pipeline_step (j, H, k, R) (release_op_handle j i, H, k, R)"
| step_start: "pipeline_step (j, H, k, R) (start_commit_thread j, H, k, R)"
| step_end: "pipeline_step (j, H, k, R) (stop_commit_thread j, H, k, R)"
| step_advance: "advance_pipeline j now cause = (s, j') \<Longrightarrow> pipeline_step (j, H, k, R) (j', H, k, R)"
| step_note: "pipeline_step (j, H, k, R) (note_credits_released j, H, k, R)"
| step_commit: "committing (jstate j) = Some c \<Longrightarrow>
    try_commit_transaction secs nsecs j d (c_txn c) = (rc, j', d') \<Longrightarrow> pipeline_step (j, H, k, R) (j', H, k, R)"
| step_clear: "pipeline_step (j, H, k, R) (clear_committing j t, H, k, R)"
| step_request: "pipeline_step (j, H, k, R) (request_commit_for j t, H, k, R)"
| step_space: "pipeline_step (j, H, k, R) (request_log_space j, H, k, R)"
| step_abort: "pipeline_step (j, H, k, R) (abort j, H, k, R)"
| step_error: "abort_with_error j d = (j', d') \<Longrightarrow> pipeline_step (j, H, k, R) (j', H, k, R)"
| step_checkpoint: "checkpoint_advance j d target = (rk, j', d') \<Longrightarrow> pipeline_step (j, H, k, R) (j', H, k, R)"
| step_lazy: "run_lazy_checkpoint j d = (rk, j', d') \<Longrightarrow> pipeline_step (j, H, k, R) (j', H, k, R)"
| step_unmount: "take_unmount_seat (jstate j) = Ok (x, st) \<Longrightarrow> pipeline_step (j, H, k, R) (set_state j st, H, k, R)"
| step_discard: "aborted j \<Longrightarrow> committing (jstate j) = None \<Longrightarrow>
    pipeline_step (j, {#}, k, R) (set_state j ((jstate j)\<lparr> running := None, locking := None \<rparr>), {#}, k, R)"

text \<open>A restart is \<open>step_leave\<close> and a later admission, or \<open>step_refused\<close> when that admission fails; the
  handle then stays among the held ones with the id and the credits it had.  The last step drops
  the seats of an aborted journal at unmount, when no operation is left and the slot was cleared.

  The journal a mount publishes: a fresh one, or the one recovery returned.\<close>

definition mounted_journal :: "JournalGeometry \<Rightarrow> Journal \<Rightarrow> bool" where
  "mounted_journal g j \<longleftrightarrow> j = Journal_new g \<or> (\<exists>d d'. recover (Journal_new g) d = Some (Ok (), j, d'))"

definition reachable :: "JournalGeometry \<Rightarrow> system \<Rightarrow> bool" where
  "reachable g s \<longleftrightarrow> (\<exists>j. mounted_journal g j \<and> pipeline_step\<^sup>*\<^sup>* (j, {#}, 0, 0) s)"

text \<open>The invariant: one active transaction with its ledger, ids handed out consecutively, and
  whole blocks retained.\<close>

definition txns_ok ::
    "JournalGeometry \<Rightarrow> Transaction option \<Rightarrow> Transaction option \<Rightarrow> tid \<Rightarrow> Handle multiset \<Rightarrow> nat \<Rightarrow> nat \<Rightarrow> bool" where
  "txns_ok g act com nxt H k R \<longleftrightarrow>
     (case act of None \<Rightarrow> R = 0 \<longrightarrow> H = {#} | Some txn \<Rightarrow> ledger g txn H k R \<and> t_tid txn = tid_prev nxt) \<and>
     (case com of
        None \<Rightarrow> True
      | Some txn \<Rightarrow> transaction_ok txn \<and> t_tid txn = (if act = None then tid_prev nxt else tid_prev (tid_prev nxt)))"

definition state_ok :: "JournalGeometry \<Rightarrow> JournalState \<Rightarrow> Handle multiset \<Rightarrow> nat \<Rightarrow> nat \<Rightarrow> bool" where
  "state_ok g st H k R \<longleftrightarrow>
     seats_ok st \<and> bt_ok (uncheckpointed st) \<and> bt_ok (pinned_frees st) \<and>
     (\<forall>(b, i)\<in>set (uncheckpointed st). length (ui_image i) = BLOCK_SIZE) \<and>
     txns_ok g (active st) (map_option c_txn (committing st)) (next_tid st) H k R"

definition pipeline_ok :: "system \<Rightarrow> bool" where
  "pipeline_ok s = (case s of (j, H, k, R) \<Rightarrow> state_ok (geometry j) (jstate j) H k R)"

lemma pipeline_ok_eq [simp]: "pipeline_ok (j, H, k, R) = state_ok (geometry j) (jstate j) H k R"
  by (simp add: pipeline_ok_def)

lemma set_state_simps [simp]: "jstate (set_state j st) = st" "geometry (set_state j st) = geometry j"
  by (simp_all add: set_state_def)

lemma recover_journal:
  assumes "recover j d = Some (r, j', d')"
  shows "j' = j \<or> (\<exists>t. j' = publish_recovery j t)"
  using assms
  by (auto simp: recover_def Let_def jd_bind_def with_device_def split: sum.splits option.splits prod.splits)

lemma pipeline_ok_mounted:
  assumes "mounted_journal g j"
  shows "pipeline_ok (j, {#}, 0, 0)"
proof -
  have "pipeline_ok (Journal_new g, {#}, 0, 0)" "pipeline_ok (publish_recovery (Journal_new g) t, {#}, 0, 0)" for t
    by (simp_all add: state_ok_def txns_ok_def Journal_new_def publish_recovery_def seats_ok_def active_def)
  then show ?thesis using assms recover_journal unfolding mounted_journal_def by metis
qed

text \<open>What the invariant sees of the state.\<close>

definition view where
  "view st = (seats_ok st, active st, next_tid st, map_option c_txn (committing st), uncheckpointed st, pinned_frees st)"

lemma state_ok_view: "view st' = view st \<Longrightarrow> state_ok g st' H k R = state_ok g st H k R"
  by (simp add: view_def state_ok_def)

lemma txns_ok_active:
  "txns_ok g (Some txn) com nxt H k R \<Longrightarrow> ledger g txn' H' k' R' \<Longrightarrow> t_tid txn' = t_tid txn \<Longrightarrow>
   txns_ok g (Some txn') com nxt H' k' R'"
  by (simp add: txns_ok_def split: option.splits)

text \<open>Rewriting the active transaction with its ledger keeps the invariant.\<close>

lemma state_ok_active:
  assumes "state_ok g st H k R" "active st = Some txn" "t_tid txn = t" "ledger g txn' H' k' R'" "t_tid txn' = t_tid txn"
  shows "state_ok g (put_active st t txn') H' k' R'"
proof -
  have s: "seats_ok st" using assms(1) by (simp add: state_ok_def)
  note p = put_active_props[OF s assms(2,3), of txn'] and o = other_fieldsD[OF p(3)]
  show ?thesis using assms p(1,2) o txns_ok_active[OF _ assms(4,5)] by (auto simp: state_ok_def)
qed

lemma state_okD:
  assumes "state_ok g st H k R"
  shows "seats_ok st" "active st = None \<Longrightarrow> R = 0 \<Longrightarrow> H = {#}"
    "active st = Some txn \<Longrightarrow> ledger g txn H k R \<and> t_tid txn = tid_prev (next_tid st)"
  using assms by (auto simp: state_ok_def txns_ok_def)

lemma ledger_ok: "ledger g txn H k R \<Longrightarrow> transaction_ok txn"
  by (simp add: ledger_def)

text \<open>After a refused restart the invariant says nothing of the handles.\<close>

lemma state_ok_refused:
  assumes "state_ok g st H k R" "R' \<noteq> 0"
  shows "state_ok g st H' k' R'"
  using assms by (auto simp: state_ok_def txns_ok_def ledger_def split: option.splits)

text \<open>A held handle reaches the active transaction, unless a restart was refused and the
  transaction left without it.\<close>

lemma handle_seat:
  assumes "state_ok g st H k R" "h \<in># H"
  obtains (found) txn where "active st = Some txn" "t_tid txn = h_tid h" "ledger g txn H k R"
    "active_txn_mut (running st) (locking st) (h_tid h) = Some txn" "active_for st h = Ok txn"
  | (lost) e where "R \<noteq> 0" "active_txn_mut (running st) (locking st) (h_tid h) = None" "active_for st h = Inl e"
proof (cases "active_txn_mut (running st) (locking st) (h_tid h)")
  case None
  have "R \<noteq> 0"
  proof
    assume R: "R = 0"
    note d = state_okD[OF assms(1)]
    obtain txn where txn: "active st = Some txn" using d(2) R assms(2) by (cases "active st") auto
    then have "t_tid txn = h_tid h" using d(3) assms(2) R by (auto simp: accounts_def ledger_def)
    then show False using None txn active_txn_mut_eq[OF d(1), of "h_tid h"] by simp
  qed
  then show ?thesis using lost None by (simp add: active_for_def)
next
  case (Some txn)
  note d = state_okD[OF assms(1)]
  have "active st = Some txn" "t_tid txn = h_tid h"
    using Some active_txn_mut_eq[OF d(1), of "h_tid h"] by (auto split: option.splits if_splits)
  then show ?thesis using found Some d(3) active_for_eq[OF d(1)] by blast
qed

lemma note_credits_simps [simp]:
  "jstate (note_credits_released j) = jstate j" "geometry (note_credits_released j) = geometry j"
  by (simp_all add: note_credits_released_def)

lemma request_commit_view:
  "view (jstate (request_commit_for j t)) = view (jstate j)" "geometry (request_commit_for j t) = geometry j"
  by (simp_all add: request_commit_for_def view_def seats_ok_def active_def split: option.split)

lemma state_ok_request: "state_ok g (jstate (request_commit_for j t)) H k R = state_ok g (jstate j) H k R"
  by (rule state_ok_view[OF request_commit_view(1)])

text \<open>Releasing a handle: at the end of an operation, at a restart, and at a restart that is refused.\<close>

lemma pipeline_ok_release:
  assumes "pipeline_ok (j, H, k, R)" "h \<in># H"
  shows "pipeline_ok (journal_stop j h, H - {#h#}, k, R)" "pipeline_ok (restart_release j h, H - {#h#}, k, R)"
    "pipeline_ok (restart_release j h, H, k, Suc R)"
proof -
  have ok: "state_ok (geometry j) (jstate j) H k R" using assms(1) by simp
  have "pipeline_ok (journal_stop j h, H - {#h#}, k, R) \<and> pipeline_ok (restart_release j h, H - {#h#}, k, R) \<and>
    pipeline_ok (restart_release j h, H, k, Suc R)"
  proof (cases rule: handle_seat[OF ok assms(2)])
    case (1 txn)
    have rel: "state_ok (geometry j) (put_active (jstate j) (h_tid h) (release_handle txn h)) H' k R'"
      if "ledger (geometry j) (release_handle txn h) H' k R'" for H' R'
      by (rule state_ok_active[OF ok 1(1,2) that]) simp
    show ?thesis
      using rel[OF ledger_release[OF 1(3) assms(2)]] rel[OF ledger_refused[OF 1(3)]] 1(4)
      by (simp add: journal_stop_def restart_release_def Let_def request_commit_view(2) state_ok_request)
  next
    case (2 e)
    then show ?thesis
      using state_ok_refused[OF ok]
      by (simp add: journal_stop_def restart_release_def Let_def request_commit_view(2) state_ok_request)
  qed
  then show "pipeline_ok (journal_stop j h, H - {#h#}, k, R)" "pipeline_ok (restart_release j h, H - {#h#}, k, R)"
    "pipeline_ok (restart_release j h, H, k, Suc R)" by simp_all
qed

lemma pipeline_ok_admit_round:
  assumes "pipeline_ok (j, H, k, R)" "n \<le> max_credits (geometry j)" "admit_round now freq j n = (a, j')"
  shows "pipeline_ok (j', case a of Admitted t \<Rightarrow> add_mset \<lparr> h_tid = t, credits = n, remaining = n \<rparr> H | _ \<Rightarrow> H, k, R)"
proof (cases "locking (jstate j)")
  case (Some locked)
  then show ?thesis using assms by (auto simp: admit_round_def)
next
  case None
  let ?st = "jstate j" and ?g = "geometry j"
  define txn where "txn = (case running ?st of Some txn \<Rightarrow> txn | None \<Rightarrow> Transaction_new now freq (next_tid ?st))"
  define st1 where "st1 = (case running ?st of Some _ \<Rightarrow> ?st
    | None \<Rightarrow> ?st\<lparr> next_tid := tid_next (next_tid ?st), running := Some txn \<rparr>)"
  have ok: "state_ok ?g ?st H k R" using assms(1) by simp
  have run: "running st1 = Some txn" "locking st1 = None"
    using None by (auto simp: st1_def txn_def split: option.splits)
  have acc: "ledger ?g txn H k R"
  proof (cases "running ?st")
    case no: None
    have "R = 0 \<Longrightarrow> H = {#}" using state_okD(2)[OF ok] no None by (simp add: active_def)
    then show ?thesis
      using no accounts_new[OF assms(2)] by (auto simp: txn_def ledger_def transaction_ok_new)
  qed (use state_okD(3)[OF ok] None in \<open>auto simp: txn_def active_def\<close>)
  have ok1: "state_ok ?g st1 H k R"
  proof (cases "running ?st")
    case no: None
    then show ?thesis
      using ok acc None no
      by (auto simp: st1_def state_ok_def txns_ok_def seats_ok_def active_def txn_def Transaction_new_def split: option.splits)
  qed (use ok in \<open>simp add: st1_def\<close>)
  let ?txn' = "txn\<lparr> t_updates := t_updates txn + 1, outstanding_credits := outstanding_credits txn + n \<rparr>"
  have act: "active st1 = Some txn" using run by (simp add: active_def)
  have put: "put_active st1 (t_tid txn) ?txn' = st1\<lparr> running := Some ?txn' \<rparr>" using run by (simp add: put_active_def)
  have adm: "state_ok ?g (st1\<lparr> running := Some ?txn' \<rparr>) (add_mset \<lparr> h_tid = t_tid txn, credits = n, remaining = n \<rparr> H) k R"
    if "check_capacity ?g txn n = Ok ()"
  proof -
    have "reserved_metadata_blocks txn n \<le> max_credits ?g" using that by (auto simp: check_capacity_def)
    then have "ledger ?g ?txn' (add_mset \<lparr> h_tid = t_tid txn, credits = n, remaining = n \<rparr> H) k R"
      using acc accounts_admit[of ?g txn H k n] by (simp add: ledger_def transaction_ok_counters)
    then show ?thesis using state_ok_active[OF ok1 act refl, of ?txn'] put by simp
  qed
  have "admit_round now freq j n =
      (if check_capacity ?g txn n \<noteq> Ok () then (WaitRoom (t_tid txn) (credit_release_epoch j), set_state j st1)
       else if commit_servicer j \<and> reservation_footprint ?g txn n > free_log_blocks ?g (head st1) (tail_block st1)
       then (WaitSpace (credit_release_epoch j), set_state j st1)
       else (Admitted (t_tid txn), set_state j (st1\<lparr> running := Some ?txn' \<rparr>)))"
    using None by (simp add: admit_round_def Let_def txn_def st1_def split: option.splits)
  then show ?thesis using assms(3) ok1 adm by (auto split: if_splits)
qed

text \<open>Growing a reservation.\<close>

lemma pipeline_ok_grow:
  assumes "pipeline_ok (j, H, k, R)" "h \<in># H"
  shows "journal_extend j h n = (r, h', j') \<Longrightarrow> pipeline_ok (j', add_mset h' (H - {#h#}), k, R)"
    "extend_reservation_for_burst j h n = (rb, h', j') \<Longrightarrow> pipeline_ok (j', add_mset h' (H - {#h#}), k, R)"
proof -
  have ok: "state_ok (geometry j) (jstate j) H k R" using assms(1) by simp
  have stay: "add_mset h (H - {#h#}) = H" using assms(2) by simp
  have grown: "state_ok (geometry j) ((jstate j)\<lparr> running := Some txn' \<rparr>) (add_mset h' (H - {#h#})) k R"
    if "running (jstate j) = Some txn" "try_grow_reservation (geometry j) txn h n = (out, txn', h')" for txn out txn' h'
  proof -
    have act: "active (jstate j) = Some txn" using that(1) by (simp add: active_def)
    have acc: "ledger (geometry j) txn H k R" using state_okD(3)[OF ok act] by simp
    note gr = ledger_grow[OF acc assms(2) that(2)]
    have "put_active (jstate j) (t_tid txn) txn' = (jstate j)\<lparr> running := Some txn' \<rparr>"
      using that(1) by (simp add: put_active_def)
    then show ?thesis using state_ok_active[OF ok act refl] gr by metis
  qed
  show "journal_extend j h n = (r, h', j') \<Longrightarrow> pipeline_ok (j', add_mset h' (H - {#h#}), k, R)"
    using ok stay grown by (auto simp: journal_extend_def Let_def split: if_splits option.splits prod.splits)
  show "extend_reservation_for_burst j h n = (rb, h', j') \<Longrightarrow> pipeline_ok (j', add_mset h' (H - {#h#}), k, R)"
    using ok stay grown
    by (auto simp: extend_reservation_for_burst_def Let_def split: if_splits option.splits prod.splits ExtendOutcome.splits)
qed

text \<open>Captures, patches and frees.\<close>

lemma finish_access_ok:
  assumes "pipeline_ok (j, H, k, R)" "h \<in># H" "active (jstate j) = Some txn0" "t_tid txn0 = h_tid h"
    and "ledger (geometry j) txn H (k + (if fresh then 1 else 0)) R" "t_tid txn = t_tid txn0"
    and "finish_access j h bid fresh gen txn = (r, h', j')"
  shows "pipeline_ok (j', add_mset h' (H - {#h#}), if r = Err ENOSPC then Suc k else k, R)"
proof -
  have ok: "state_ok (geometry j) (jstate j) H k R" using assms(1) by simp
  obtain rc txn' hc where c: "(if fresh then charge_fresh_capture (geometry j) txn h else (Ok (), txn, h)) = (rc, txn', hc)"
    by (metis prod_cases3)
  have out: "h' = hc" "j' = set_state j (put_active (jstate j) (h_tid h) txn')"
    "r = Err ENOSPC \<longleftrightarrow> rc = Err ENOSPC"
    using assms(7) c by (auto simp: finish_access_def Let_def and_then_def split: sum.splits)
  have "ledger (geometry j) txn' (add_mset hc (H - {#h#})) (if rc = Err ENOSPC then Suc k else k) R \<and> t_tid txn' = t_tid txn0"
  proof (cases fresh)
    case True
    then show ?thesis
      using ledger_charge[of "geometry j" txn H k R h rc txn' hc] assms(2,5,6) c by auto
  next
    case False
    then show ?thesis using assms(2,5,6) c by auto
  qed
  then show ?thesis using state_ok_active[OF ok assms(3,4)] out by simp
qed

lemma pipeline_ok_create:
  assumes "pipeline_ok (j, H, k, R)" "h \<in># H" "get_create_access_live j h bid = (r, h', j')"
  shows "pipeline_ok (j', add_mset h' (H - {#h#}), if r = Err ENOSPC then Suc k else k, R)"
proof -
  have ok: "state_ok (geometry j) (jstate j) H k R" using assms(1) by simp
  show ?thesis
  proof (cases rule: handle_seat[OF ok assms(2)])
    case txn: (1 txn)
    obtain gen txn1 where c: "capture_create txn bid = (gen, txn1)" by fastforce
    note cc = capture_create_counts[OF ledger_ok[OF txn(3)] c]
    have "ledger (geometry j) txn1 H (k + (if \<not> is_captured txn bid then 1 else 0)) R"
      using cc by (intro ledger_recount[OF txn(3)]) auto
    moreover have "t_tid txn1 = t_tid txn" using cc(2) by (simp add: same_counters_def)
    ultimately show ?thesis
      using finish_access_ok[OF assms(1,2) txn(1,2), of txn1 "\<not> is_captured txn bid" bid gen r h' j'] assms(3) txn(5) c
      by (simp add: get_create_access_live_def)
  next
    case (2 e)
    then show ?thesis using assms(3) state_ok_refused[OF ok] by (auto simp: get_create_access_live_def)
  qed
qed

lemma retained_image_sized:
  assumes "state_ok g st H k R" "bt_get (uncheckpointed st) bid = Some i"
  shows "length (ui_image i) = BLOCK_SIZE"
  using assms bt_get_in[of "uncheckpointed st" bid i] by (auto simp: state_ok_def)

lemma get_write_access_run:
  assumes "seats_ok (jstate j)" "active (jstate j) = Some txn" "t_tid txn = h_tid h"
  shows "get_write_access_live j d h bid =
    (case capture_write txn bid (capture_seed (jstate j) None bid) d of
       (Inl e, txn1) \<Rightarrow> (Inl e, h, set_state j (put_active (jstate j) (h_tid h) txn1))
     | (Inr gen, txn1) \<Rightarrow> finish_access j h bid (\<not> is_captured txn bid) gen txn1)"
  using assms
  by (auto simp: get_write_access_live_def Let_def active_txn_mut_def active_def seats_ok_def split: option.splits)

lemma get_write_access_lost:
  assumes "active_txn_mut (running (jstate j)) (locking (jstate j)) (h_tid h) = None"
  shows "get_write_access_live j d h bid = (Err EIO, h, j)"
  using assms by (auto simp: get_write_access_live_def Let_def active_txn_mut_def split: option.splits if_splits)

lemma pipeline_ok_write:
  assumes "pipeline_ok (j, H, k, R)" "h \<in># H" "length (visible d bid) = BLOCK_SIZE"
    and "get_write_access_live j d h bid = (r, h', j')"
  shows "pipeline_ok (j', add_mset h' (H - {#h#}), if r = Err ENOSPC then Suc k else k, R)"
proof -
  let ?st = "jstate j"
  have ok: "state_ok (geometry j) ?st H k R" using assms(1) by simp
  show ?thesis
  proof (cases rule: handle_seat[OF ok assms(2)])
    case txn: (1 txn)
    define seed where "seed = capture_seed ?st None bid"
    have sz: "\<And>s. seed = Some s \<Longrightarrow> length s = BLOCK_SIZE"
      using retained_image_sized[OF ok] by (auto simp: seed_def capture_seed_def)
    note run = get_write_access_run[OF state_okD(1)[OF ok] txn(1,2), of d bid, folded seed_def]
    obtain rc txn1 where c: "capture_write txn bid seed d = (rc, txn1)" by fastforce
    note cc = capture_write_counts[OF ledger_ok[OF txn(3)] sz assms(3) c]
    have tid: "t_tid txn1 = t_tid txn" using cc(2) by (simp add: same_counters_def)
    show ?thesis
    proof (cases rc)
      case (Inl e)
      then have out: "r = Err EIO" "h' = h" "j' = set_state j (put_active ?st (h_tid h) txn1)"
        using assms(4) run c cc(4) by auto
      have "ledger (geometry j) txn1 H (k + 0) R" using cc Inl by (intro ledger_recount[OF txn(3)]) auto
      then show ?thesis using state_ok_active[OF ok txn(1,2) _ tid] out assms(2) by simp
    next
      case (Inr gen)
      have "ledger (geometry j) txn1 H (k + (if \<not> is_captured txn bid then 1 else 0)) R"
        using cc Inr by (intro ledger_recount[OF txn(3)]) auto
      then show ?thesis
        using finish_access_ok[OF assms(1,2) txn(1,2) _ tid, of "\<not> is_captured txn bid" bid gen r h' j'] assms(4) run c Inr by simp
    qed
  next
    case (2 e)
    then show ?thesis using assms(4) get_write_access_lost state_ok_refused[OF ok] by auto
  qed
qed

lemma pipeline_ok_patch:
  assumes "pipeline_ok (j, H, k, R)" "h \<in># H" "\<And>b. length b = BLOCK_SIZE \<Longrightarrow> length (patch b) = BLOCK_SIZE"
    and "WriteAccess_patch j h a patch = (r, j')"
  shows "pipeline_ok (j', H, k, R)"
proof -
  have ok: "state_ok (geometry j) (jstate j) H k R" using assms(1) by simp
  show ?thesis
  proof (cases rule: handle_seat[OF ok assms(2)])
    case txn: (1 txn)
    consider "j' = j" | bid gen txn' where "apply_patch txn bid gen patch = Ok txn'"
        "j' = set_state j (put_active (jstate j) (h_tid h) txn')"
      using assms(4) txn(5) by (auto simp: WriteAccess_patch_def split: option.splits sum.splits)
    then show ?thesis
    proof cases
      case 2
      note p = apply_patch_counts[OF ledger_ok[OF txn(3)] 2(1) assms(3)]
      have "ledger (geometry j) txn' H (k + 0) R" by (rule ledger_recount[OF txn(3) p(1,2)]) (use p(3) in simp_all)
      then show ?thesis using state_ok_active[OF ok txn(1,2), of txn'] p(2) 2(2) by (simp add: same_counters_def)
    qed (use assms(1) in simp)
  next
    case (2 e)
    then have "j' = j" using assms(4) by (auto simp: WriteAccess_patch_def and_then_def split: option.splits)
    then show ?thesis using assms(1) by simp
  qed
qed

lemma abort_simps [simp]:
  "jstate (abort j) = jstate j" "geometry (abort j) = geometry j"
  "jstate (fst (abort_with_error j d)) = jstate j" "geometry (fst (abort_with_error j d)) = geometry j"
  by (simp_all add: abort_def abort_with_error_def Let_def)

lemma pipeline_ok_ordered:
  assumes "pipeline_ok (j, H, k, R)" "h \<in># H" "Handle_register_ordered_data j d h ino od = (r, j', d')"
  shows "pipeline_ok (j', H, k, R)"
proof -
  have ok: "state_ok (geometry j) (jstate j) H k R" using assms(1) by simp
  show ?thesis
  proof (cases rule: handle_seat[OF ok assms(2)])
    case txn: (1 txn)
    let ?txn = "register_ordered_data txn ino od"
    have "transaction_ok ?txn" "same_counters txn ?txn" "nr_metadata_blocks ?txn \<le> nr_metadata_blocks txn + 0"
      using ledger_ok[OF txn(3)]
      by (simp_all add: transaction_ok_def register_ordered_data_def same_counters_def nr_metadata_blocks_def)
    from ledger_recount[OF txn(3) this] have "ledger (geometry j) ?txn H k R" by simp
    then have "state_ok (geometry j) (put_active (jstate j) (h_tid h) ?txn) H k R"
      by (rule state_ok_active[OF ok txn(1,2)]) (simp add: register_ordered_data_def)
    then show ?thesis using assms(3) txn(5) by (auto simp: Handle_register_ordered_data_def)
  next
    case (2 e)
    then have "j' = fst (abort_with_error j d)"
      using assms(3) by (auto simp: Handle_register_ordered_data_def split: prod.splits)
    then show ?thesis using assms(1) by simp
  qed
qed

lemma bt_ok_foldl_remove: "bt_ok m \<Longrightarrow> bt_ok (foldl (\<lambda>m bid. bt_remove bid m) m bids)"
  by (induction bids arbitrary: m) simp_all

lemma set_foldl_remove: "set (foldl (\<lambda>m bid. bt_remove bid m) m bids) \<subseteq> set m"
proof (induction bids arbitrary: m)
  case (Cons b bids)
  have "set (bt_remove b m) \<subseteq> set m" by (auto simp: bt_remove_def)
  then show ?case using Cons.IH[of "bt_remove b m"] by auto
qed simp

lemma pipeline_ok_discharge:
  assumes "pipeline_ok (j, H, k, R)" "h \<in># H" "discharge j h start cnt = (r, j')"
  shows "pipeline_ok (j', H, k, R)"
proof -
  let ?bids = "map (\<lambda>i. start + word_of_nat i) [0..<unat cnt]"
  have ok: "state_ok (geometry j) (jstate j) H k R" using assms(1) by simp
  show ?thesis
  proof (cases rule: handle_seat[OF ok assms(2)])
    case txn: (1 txn)
    let ?st = "(jstate j)\<lparr> uncheckpointed := foldl (\<lambda>m bid. bt_remove bid m) (uncheckpointed (jstate j)) ?bids \<rparr>"
    have out: "j' = set_state j (put_active ?st (h_tid h) (foldl forget_block txn ?bids))"
      using assms(3) txn(5) by (simp add: discharge_def Let_def)
    have "seats_ok ?st = seats_ok (jstate j)" and act: "active ?st = active (jstate j)"
      by (simp_all add: seats_ok_def active_def split: option.split)
    then have ok': "state_ok (geometry j) ?st H k R"
      using ok bt_ok_foldl_remove set_foldl_remove by (fastforce simp: state_ok_def)
    note f = forget_blocks_counts[OF ledger_ok[OF txn(3)], of ?bids]
    have "ledger (geometry j) (foldl forget_block txn ?bids) H (k + 0) R" using f by (intro ledger_recount[OF txn(3)]) auto
    then show ?thesis
      using state_ok_active[OF ok', of txn "h_tid h" "foldl forget_block txn ?bids"] act txn f out by (simp add: same_counters_def)
  next
    case (2 e)
    then show ?thesis using assms(1,3) by (auto simp: discharge_def Let_def)
  qed
qed

lemma seats_update [simp]:
  "active (st\<lparr> pinned_frees := p \<rparr>) = active st" "seats_ok (st\<lparr> pinned_frees := p \<rparr>) = seats_ok st"
  "active (st\<lparr> uncheckpointed := u \<rparr>) = active st" "seats_ok (st\<lparr> uncheckpointed := u \<rparr>) = seats_ok st"
  "active (st\<lparr> committing := c \<rparr>) = active st" "seats_ok (st\<lparr> committing := c \<rparr>) = seats_ok st"
  "active (st\<lparr> commit_request := r \<rparr>) = active st" "seats_ok (st\<lparr> commit_request := r \<rparr>) = seats_ok st"
  "active (st\<lparr> head := n \<rparr>) = active st" "seats_ok (st\<lparr> head := n \<rparr>) = seats_ok st"
  "active (st\<lparr> tail_block := tb \<rparr>) = active st" "seats_ok (st\<lparr> tail_block := tb \<rparr>) = seats_ok st"
  "active (st\<lparr> tail_tid := tt \<rparr>) = active st" "seats_ok (st\<lparr> tail_tid := tt \<rparr>) = seats_ok st"
  "active (st\<lparr> j_revoked := jr \<rparr>) = active st" "seats_ok (st\<lparr> j_revoked := jr \<rparr>) = seats_ok st"
  by (simp_all add: active_def seats_ok_def split: option.split)

lemma pin_freed_run_cases:
  assumes "pin_freed_run j handle start cnt = (r, j')"
  obtains "j' = j" | run where "j' = set_state j ((jstate j)\<lparr> pinned_frees := bt_insert start run (pinned_frees (jstate j)) \<rparr>)"
proof (cases "handle = None \<or> cnt = 0 \<or> (\<exists>e. active_for (jstate j) (the handle) = Inl e)")
  case True
  then have "j' = j" using assms by (auto simp: pin_freed_run_def split: option.splits if_splits)
  then show thesis by (rule that(1))
next
  case False
  then obtain h txn where *: "handle = Some h" "cnt \<noteq> 0" "active_for (jstate j) h = Inr txn"
    by (cases handle; cases "active_for (jstate j) (the handle)") simp_all
  from assms * have "set_state j ((jstate j)\<lparr> pinned_frees := bt_insert start
      (case bt_get (pinned_frees (jstate j)) start of
         Some run \<Rightarrow> run\<lparr> pr_count := max (pr_count run) cnt, pr_tid := t_tid txn \<rparr>
       | None \<Rightarrow> \<lparr> pr_count = cnt, pr_tid = t_tid txn \<rparr>) (pinned_frees (jstate j)) \<rparr>) = j'"
    by (simp add: pin_freed_run_def Let_def)
  from that(2)[OF this[symmetric]] show thesis .
qed

lemma pipeline_ok_pin:
  assumes "pipeline_ok (j, H, k, R)" "pin_freed_run j (Some h) start cnt = (r, j')"
  shows "pipeline_ok (j', H, k, R)"
  using assms(2)
proof (cases rule: pin_freed_run_cases)
  case (2 run)
  then show ?thesis using assms(1) by (simp add: state_ok_def)
qed (use assms(1) in simp)

section \<open>The commit thread\<close>

lemma stash_uncheckpointed_ok:
  assumes "bt_ok r" "\<forall>(b, i)\<in>set r. length (ui_image i) = BLOCK_SIZE" "transaction_ok txn"
  shows "bt_ok (stash_uncheckpointed txn r)" "\<forall>(b, i)\<in>set (stash_uncheckpointed txn r). length (ui_image i) = BLOCK_SIZE"
proof -
  let ?f = "\<lambda>r (bid, capture). bt_insert bid \<lparr> ui_tid = t_tid txn, ui_image = buffer capture \<rparr> r"
  have "bt_ok (foldl ?f r cs) \<and> (\<forall>b i. bt_get (foldl ?f r cs) b = Some i \<longrightarrow> length (ui_image i) = BLOCK_SIZE)"
    if "bt_ok r" "\<forall>b i. bt_get r b = Some i \<longrightarrow> length (ui_image i) = BLOCK_SIZE"
      "\<forall>(b, c)\<in>set cs. length (buffer c) = BLOCK_SIZE" for cs
    using that
  proof (induction cs arbitrary: r)
    case (Cons c cs)
    obtain b cap where c: "c = (b, cap)" by (cases c)
    show ?case unfolding c foldl_Cons prod.case by (rule Cons.IH) (use Cons.prems c in auto)
  qed auto
  moreover have "\<forall>b i. bt_get r b = Some i \<longrightarrow> length (ui_image i) = BLOCK_SIZE"
    using assms(1,2) bt_get_in[OF assms(1)] by fastforce
  moreover have "\<forall>(b, c)\<in>set (metadata txn). length (buffer c) = BLOCK_SIZE" using assms(3) by (auto simp: transaction_ok_def)
  ultimately have *: "bt_ok (stash_uncheckpointed txn r) \<and>
      (\<forall>b i. bt_get (stash_uncheckpointed txn r) b = Some i \<longrightarrow> length (ui_image i) = BLOCK_SIZE)"
    unfolding stash_uncheckpointed_def using assms(1) by blast
  then show "bt_ok (stash_uncheckpointed txn r)" by blast
  with * show "\<forall>(b, i)\<in>set (stash_uncheckpointed txn r). length (ui_image i) = BLOCK_SIZE"
    using bt_get_in[of "stash_uncheckpointed txn r"] by fastforce
qed

text \<open>Staging needs a transaction without open handles, and the counters say so.\<close>

lemma advance_pipeline_cases:
  assumes "advance_pipeline j now cause = (s, j')"
  obtains (idle) "j' = j" "\<forall>txn. s \<noteq> Staged txn"
  | (park) txn where "s = Parked" "running (jstate j) = Some txn" "locking (jstate j) = None" "0 < t_updates txn"
      "j' = j\<lparr> jstate := (jstate j)\<lparr> running := None, locking := Some txn \<rparr> \<rparr>"
  | (stage) txn where "s = Staged txn" "t_updates txn = 0" "committing (jstate j) = None" "\<not> aborted j"
      "locking (jstate j) = Some txn \<or> locking (jstate j) = None \<and> running (jstate j) = Some txn \<and> has_durable_obligation (jstate j) txn"
      "j' = j\<lparr> jstate := stage_committing (if locking (jstate j) = None then (jstate j)\<lparr> running := None \<rparr>
                                             else (jstate j)\<lparr> locking := None \<rparr>) txn \<rparr>"
proof (cases "aborted j \<or> committing (jstate j) \<noteq> None")
  case True
  then have "advance_pipeline j now cause = (Idle, j)" by (auto simp: advance_pipeline_def Let_def)
  then have "j' = j" "s = Idle" using assms by simp_all
  then show thesis using idle by simp
next
  case False
  then have open_seat: "\<not> aborted j" "committing (jstate j) = None" by simp_all
  show thesis
  proof (cases "locking (jstate j)")
    case (Some locked)
    show thesis
    proof (cases "t_updates locked = 0")
      case True
      then have "s = Staged locked" "j' = j\<lparr> jstate := stage_committing ((jstate j)\<lparr> locking := None \<rparr>) locked \<rparr>"
        using assms open_seat Some by (simp_all add: advance_pipeline_def)
      then show thesis using stage[OF _ True open_seat(2,1)] Some by simp
    next
      case False
      then have "s = Parked" "j' = j" using assms open_seat Some by (simp_all add: advance_pipeline_def)
      then show thesis using idle by simp
    qed
  next
    case no: None
    show thesis
    proof (cases "committable_running (jstate j)")
      case None
      then have "s = Idle" "j' = j" using assms open_seat no by (simp_all add: advance_pipeline_def)
      then show thesis using idle by simp
    next
      case (Some p)
      then obtain txn where p: "running (jstate j) = Some txn" "has_durable_obligation (jstate j) txn"
          "committable_running (jstate j) = Some (txn, t_tid txn)"
        by (auto simp: committable_running_def split: option.splits if_splits)
      note run = assms[unfolded advance_pipeline_def Let_def]
      show thesis
      proof (cases "cause = Forced \<or> commit_triggered j txn now (commit_request (jstate j))")
        case False
        then have "s = Idle" "j' = j" using run open_seat no p by simp_all
        then show thesis using idle by simp
      next
        case due: True
        show thesis
        proof (cases "t_updates txn = 0")
          case True
          then have "s = Staged txn" "j' = j\<lparr> jstate := stage_committing ((jstate j)\<lparr> running := None \<rparr>) txn \<rparr>"
            using run open_seat no p due by auto
          then show thesis using stage[OF _ True open_seat(2,1)] no p by simp
        next
          case False
          then have "s = Parked" "j' = j\<lparr> jstate := (jstate j)\<lparr> running := None, locking := Some txn \<rparr> \<rparr>"
            using run open_seat no p due by auto
          then show thesis using park[OF _ p(1) no _] False by simp
        qed
      qed
    qed
  qed
qed

lemma ledger_idle: "ledger g txn H k R \<Longrightarrow> t_updates txn = 0 \<Longrightarrow> R = 0 \<Longrightarrow> H = {#}"
  by (simp add: ledger_def accounts_def)

text \<open>Emptying the seat of a transaction without open updates, with or without staging it.\<close>

lemma state_ok_stage:
  assumes "state_ok g st H k R" "active st = Some t" "t_updates t = 0" "committing st = None"
    and "st1 = (if locking st = None then st\<lparr> running := None \<rparr> else st\<lparr> locking := None \<rparr>)"
  shows "state_ok g (stage_committing st1 t) H k R" "state_ok g st1 H k R" "active st1 = None" "R = 0 \<Longrightarrow> H = {#}"
proof -
  have acc: "ledger g t H k R" "t_tid t = tid_prev (next_tid st)" using state_okD(3)[OF assms(1,2)] by auto
  show H: "R = 0 \<Longrightarrow> H = {#}" using ledger_idle[OF acc(1) assms(3)] .
  have "bt_ok (uncheckpointed st)" "\<forall>(b, i)\<in>set (uncheckpointed st). length (ui_image i) = BLOCK_SIZE"
    using assms(1) by (simp_all add: state_ok_def)
  then have st: "bt_ok (stash_uncheckpointed t (uncheckpointed st))"
      "\<forall>(b, i)\<in>set (stash_uncheckpointed t (uncheckpointed st)). length (ui_image i) = BLOCK_SIZE"
    using stash_uncheckpointed_ok ledger_ok[OF acc(1)] by blast+
  have seats: "running st = None \<or> locking st = None" using assms(1) by (simp add: state_ok_def seats_ok_def)
  show "active st1 = None" using seats assms(2,5) by (cases "locking st") (simp_all add: active_def)
  show "state_ok g (stage_committing st1 t) H k R"
    using seats assms(1,4,5) st acc(2) ledger_ok[OF acc(1)] H
    by (cases "locking st") (simp_all add: state_ok_def stage_committing_def seats_ok_def active_def txns_ok_def CommittingTxn_new_def)
  show "state_ok g st1 H k R"
    using seats assms(1,4,5) H
    by (cases "locking st") (simp_all add: state_ok_def seats_ok_def active_def txns_ok_def)
qed

lemma pipeline_ok_advance:
  assumes "pipeline_ok (j, H, k, R)" "advance_pipeline j now cause = (s, j')"
  shows "pipeline_ok (j', H, k, R)" "s = Staged txn \<Longrightarrow> R = 0 \<Longrightarrow> H = {#}"
proof -
  let ?st = "jstate j" and ?g = "geometry j"
  have ok: "state_ok ?g ?st H k R" using assms(1) by simp
  have "pipeline_ok (j', H, k, R) \<and> (s = Staged txn \<longrightarrow> R = 0 \<longrightarrow> H = {#})"
    using assms(2)
  proof (cases rule: advance_pipeline_cases)
    case idle
    then show ?thesis using assms(1) by simp
  next
    case (park t)
    then show ?thesis using ok by (auto simp: state_ok_def seats_ok_def active_def)
  next
    case (stage t)
    have act: "active ?st = Some t" using stage(5) state_okD(1)[OF ok] by (auto simp: active_def seats_ok_def)
    show ?thesis using state_ok_stage[OF ok act stage(2,3) refl] stage(6) by simp
  qed
  then show "pipeline_ok (j', H, k, R)" "s = Staged txn \<Longrightarrow> R = 0 \<Longrightarrow> H = {#}" by simp_all
qed

lemma pipeline_ok_unmount:
  assumes "pipeline_ok (j, H, k, R)" "take_unmount_seat (jstate j) = Ok (x, st)"
  shows "pipeline_ok (set_state j st, H, k, R)"
proof -
  have ok: "state_ok (geometry j) (jstate j) H k R" using assms(1) by simp
  show ?thesis
  proof (cases "active (jstate j)")
    case None
    then have "st = jstate j"
      using assms(2) by (auto simp: take_unmount_seat_def active_def split: if_splits option.splits)
    then show ?thesis using assms(1) by simp
  next
    case (Some t)
    let ?st1 = "if locking (jstate j) = None then (jstate j)\<lparr> running := None \<rparr> else (jstate j)\<lparr> locking := None \<rparr>"
    have c: "committing (jstate j) = None" using assms(2) by (auto simp: take_unmount_seat_def split: if_splits)
    have "t_updates t = 0 \<and> (st = ?st1 \<or> st = stage_committing ?st1 t)"
      using assms(2) Some state_okD(1)[OF ok] c
      by (auto simp: take_unmount_seat_def active_def seats_ok_def Let_def split: if_splits option.splits)
    then show ?thesis using state_ok_stage(1,2)[OF ok Some _ c refl] by auto
  qed
qed

text \<open>Committing moves the phase, and publication releases the pins and the log position.\<close>

lemma jd_bind_inv:
  assumes "P (fst (snd m))" "\<And>v j d. P j \<Longrightarrow> P (fst (snd (f v j d)))"
  shows "P (fst (snd (jd_bind m f)))"
  using assms by (cases m; cases "fst m") (auto simp: jd_bind_def)

lemma with_device_journal [simp]: "fst (snd (with_device j m)) = j"
  by (simp add: with_device_def)

lemma advance_committing_phase_view:
  assumes "advance_committing_phase st t to = Ok st'"
  shows "view st' = view st"
  using assms
  by (auto simp: advance_committing_phase_def advance_to_def view_def and_then_def split: option.splits if_splits sum.splits)

definition keeps_ok :: "JournalGeometry \<Rightarrow> Handle multiset \<Rightarrow> nat \<Rightarrow> nat \<Rightarrow> Journal \<Rightarrow> bool" where
  "keeps_ok g H k R j \<longleftrightarrow> geometry j = g \<and> state_ok g (jstate j) H k R"

lemma keeps_ok_phase: "keeps_ok g H k R j \<Longrightarrow> keeps_ok g H k R (fst (snd (phase_step j d t to)))"
  using state_ok_view[OF advance_committing_phase_view[of "jstate j" t to], of _ g H k R]
  by (cases "advance_committing_phase (jstate j) t to") (simp_all add: keeps_ok_def phase_step_def)

lemma keeps_ok_publish:
  assumes "keeps_ok g H k R j" "publish_commit j txn h n c = Ok j'"
  shows "keeps_ok g H k R j'"
proof -
  obtain st where st: "advance_committing_phase (jstate j) (t_tid txn) Finished = Ok st"
    using assms(2) by (auto simp: publish_commit_def and_then_def Let_def split: sum.splits)
  have "state_ok g st H k R" using assms(1) state_ok_view[OF advance_committing_phase_view[OF st]] by (simp add: keeps_ok_def)
  then show ?thesis
    using assms st
    by (cases c) (auto simp: publish_commit_def Let_def keeps_ok_def state_ok_def release_pinned_frees_def)
qed

lemma try_commit_inv:
  assumes "P j"
    and phase: "\<And>j d t to. P j \<Longrightarrow> P (fst (snd (phase_step j d t to)))"
    and publish: "\<And>j j' txn h n c. P j \<Longrightarrow> publish_commit j txn h n c = Ok j' \<Longrightarrow> P j'"
  shows "P (fst (snd (try_commit_transaction secs nsecs j d txn)))"
proof -
  have "P (fst (snd (write_transaction secs nsecs j d txn revs chain)))" for revs chain
    unfolding write_transaction_def Let_def
    by (intro jd_bind_inv[where P = P]) (simp_all add: assms split: sum.split)
  then show ?thesis using assms(1) by (simp add: try_commit_transaction_def Let_def split: sum.split)
qed

lemma pipeline_ok_commit:
  assumes "pipeline_ok (j, H, k, R)" "try_commit_transaction secs nsecs j d txn = (rc, j', d')"
  shows "pipeline_ok (j', H, k, R)"
proof -
  have ok: "keeps_ok (geometry j) H k R j" using assms(1) by (simp add: keeps_ok_def)
  have "keeps_ok (geometry j) H k R (fst (snd (try_commit_transaction secs nsecs j d txn)))"
    by (rule try_commit_inv[where P = "keeps_ok (geometry j) H k R", OF ok keeps_ok_phase keeps_ok_publish])
  then show ?thesis using assms(2) by (simp add: keeps_ok_def)
qed

lemma pipeline_ok_misc:
  assumes "pipeline_ok (j, H, k, R)"
  shows "pipeline_ok (clear_committing j t, H, k, R)" "pipeline_ok (request_commit_for j t, H, k, R)"
    "pipeline_ok (request_log_space j, H, k, R)" "pipeline_ok (abort j, H, k, R)"
    "pipeline_ok (note_credits_released j, H, k, R)" "pipeline_ok (release_op_handle j i, H, k, R)"
    "pipeline_ok (start_commit_thread j, H, k, R)" "pipeline_ok (stop_commit_thread j, H, k, R)"
proof -
  show "pipeline_ok (clear_committing j t, H, k, R)"
    using assms
    by (cases "committing (jstate j)"; cases "active (jstate j)")
       (auto simp: clear_committing_def state_ok_def txns_ok_def)
  show "pipeline_ok (request_commit_for j t, H, k, R)" for t
    using assms by (simp add: request_commit_view(2) state_ok_request)
  show "pipeline_ok (request_log_space j, H, k, R)"
    using assms
    by (simp add: request_log_space_def request_commit_of_running_def request_commit_view(2) state_ok_request split: option.split)
qed (use assms in \<open>simp_all add: release_op_handle_def start_commit_thread_def stop_commit_thread_def\<close>)

lemma pipeline_ok_claim:
  assumes "pipeline_ok (j, H, k, R)" "claim_op_handle j owner = (r, j')"
  shows "pipeline_ok (j', H, k, R)"
  using assms by (auto simp: claim_op_handle_def split: option.splits if_splits)

lemma pipeline_ok_error:
  assumes "pipeline_ok (j, H, k, R)" "abort_with_error j d = (j', d')"
  shows "pipeline_ok (j', H, k, R)"
  using assms abort_simps(3,4)[of j d] by simp

lemma pipeline_ok_discard:
  assumes "pipeline_ok (j, {#}, k, R)" "committing (jstate j) = None"
  shows "pipeline_ok (set_state j ((jstate j)\<lparr> running := None, locking := None \<rparr>), {#}, k, R)"
  using assms by (simp add: state_ok_def txns_ok_def seats_ok_def active_def)

lemma set_bt_retain: "x \<in> set (bt_retain P m) \<Longrightarrow> x \<in> set m"
  by (simp add: bt_retain_def)

lemma checkpoint_advance_inv:
  assumes "P j" and publish: "\<And>j log t early. P j \<Longrightarrow> P (j\<lparr> jstate := publish_checkpoint (jstate j) log t early \<rparr>)"
  shows "P (fst (snd (checkpoint_advance j d target)))"
  unfolding checkpoint_advance_def Let_def
  by (auto simp: assms(1) split: option.split sum.split prod.split intro!: jd_bind_inv[where P = P] publish)

lemma pipeline_ok_checkpoint:
  assumes "pipeline_ok (j, H, k, R)" "checkpoint_advance j d target = (rk, j', d')"
  shows "pipeline_ok (j', H, k, R)"
proof -
  have ok: "keeps_ok (geometry j) H k R j" using assms(1) by (simp add: keeps_ok_def)
  have pub: "keeps_ok (geometry j) H k R (i\<lparr> jstate := publish_checkpoint (jstate i) log t early \<rparr>)"
    if "keeps_ok (geometry j) H k R i" for i log t early
    using that set_bt_retain by (fastforce simp: keeps_ok_def state_ok_def publish_checkpoint_def Let_def)
  have "keeps_ok (geometry j) H k R (fst (snd (checkpoint_advance j d target)))"
    by (rule checkpoint_advance_inv[where P = "keeps_ok (geometry j) H k R", OF ok pub])
  then show ?thesis using assms(2) by (simp add: keeps_ok_def)
qed

lemma pipeline_ok_lazy:
  assumes "pipeline_ok (j, H, k, R)" "run_lazy_checkpoint j d = (rk, j', d')"
  shows "pipeline_ok (j', H, k, R)"
proof -
  define j0 where "j0 = j\<lparr> space_pressure := False \<rparr>"
  have ok: "pipeline_ok (j0, H, k, R)" using assms(1) by (simp add: j0_def)
  have kept: "pipeline_ok (fst (snd (checkpoint_advance j0 d target)), H, k, R)" for target
    using pipeline_ok_checkpoint[OF ok] by (cases "checkpoint_advance j0 d target") auto
  have "j' = j0 \<or> (\<exists>target. j' = fst (snd (checkpoint_advance j0 d target)) \<or>
      j' = note_credits_released (fst (snd (checkpoint_advance j0 d target))))"
    using assms(2) unfolding run_lazy_checkpoint_def Let_def j0_def
    by (auto simp: jd_bind_def split: if_splits sum.splits prod.splits) (metis fst_conv snd_conv)+
  then show ?thesis using ok kept by auto
qed

text \<open>The invariant holds of every reachable system.\<close>

lemma pipeline_ok_step: "pipeline_step s s' \<Longrightarrow> pipeline_ok s \<Longrightarrow> pipeline_ok s'"
proof (induction rule: pipeline_step.induct)
  case (step_admit n j now freq t j' H k R)
  then show ?case using pipeline_ok_admit_round[of j H k R n now freq "Admitted t" j'] by simp
next
  case (step_wait n j now freq w j' H k R)
  then show ?case using pipeline_ok_admit_round[of j H k R n now freq w j'] by (cases w) simp_all
next
  case (step_write h H d bid j ra h' j' k R)
  then show ?case by (intro pipeline_ok_write)
next
  case (step_create h H j bid ra h' j' k R)
  then show ?case by (intro pipeline_ok_create)
next
  case (step_patch h H patch j a rb j' k R)
  show ?case by (rule pipeline_ok_patch[OF step_patch(4,1) _ step_patch(3)]) (rule step_patch(2))
qed (rule pipeline_ok_release pipeline_ok_grow pipeline_ok_ordered pipeline_ok_pin pipeline_ok_discharge pipeline_ok_advance(1)
      pipeline_ok_commit pipeline_ok_misc pipeline_ok_claim pipeline_ok_error pipeline_ok_checkpoint pipeline_ok_lazy
      pipeline_ok_unmount pipeline_ok_discard; assumption)+

lemma reachable_ok:
  assumes "reachable g s"
  shows "pipeline_ok s"
proof -
  obtain j where "mounted_journal g j" and steps: "pipeline_step\<^sup>*\<^sup>* (j, {#}, 0, 0) s"
    using assms unfolding reachable_def by blast
  then have ok: "pipeline_ok (j, {#}, 0, 0)" by (intro pipeline_ok_mounted)
  from steps show ?thesis
    by (induction rule: rtranclp_induct) (use ok pipeline_ok_step in blast)+
qed

lemma reachable_step: "reachable g s \<Longrightarrow> pipeline_step s s' \<Longrightarrow> reachable g s'"
  unfolding reachable_def by (meson rtranclp.rtrancl_into_rtrancl)

end
