(* ===== verification/Journal_Driver.thy ===== *)
theory Journal_Driver
  imports Journal_Pipeline
begin

text \<open>
  The drivers of the pipeline in \<open>journal/mod.rs\<close>: committing a staged transaction with one inline
  drain of the tail, the commit thread's turns, teardown and the unmount flush, and the scoped
  operation handle.  The wall clock is a parameter: \<open>clock t n\<close> is the reading attempt \<open>n\<close> of
  transaction \<open>t\<close> puts into its commit block.  Spawning, joining and waking the commit thread
  carry no state.
\<close>

type_synonym clock = "tid \<Rightarrow> nat \<Rightarrow> u64 \<times> u32"

section \<open>Committing a staged transaction\<close>

definition attempt_commit ::
    "clock \<Rightarrow> nat \<Rightarrow> Journal \<Rightarrow> device \<Rightarrow> Transaction \<Rightarrow> CommitAttempt result \<times> Journal \<times> device" where
  "attempt_commit clock n j d txn =
     (let (secs, nsecs) = clock (t_tid txn) n in try_commit_transaction secs nsecs j d txn)"

definition commit_or_drain_tail ::
    "clock \<Rightarrow> Journal \<Rightarrow> device \<Rightarrow> Transaction \<Rightarrow> tid result \<times> Journal \<times> device" where
  "commit_or_drain_tail clock j d txn =
     jd_bind (attempt_commit clock 0 j d txn) (\<lambda>attempt j d.
       case attempt of
         Committed t \<Rightarrow> (Ok t, j, d)
       | NeedsLogSpace \<Rightarrow>
           jd_bind (checkpoint j d) (\<lambda>_ j d.
           jd_bind (attempt_commit clock 1 j d txn) (\<lambda>attempt j d.
             case attempt of
               Committed t \<Rightarrow> (Ok t, j, d)
             | NeedsLogSpace \<Rightarrow> (Err ENOSPC, j, d))))"

definition committing_phase :: "Journal \<Rightarrow> CommitPhase option" where
  "committing_phase j = map_option c_phase (committing (jstate j))"

definition commit_staged ::
    "clock \<Rightarrow> Journal \<Rightarrow> device \<Rightarrow> Transaction \<Rightarrow> tid result \<times> Journal \<times> device" where
  "commit_staged clock j d txn =
     (let (r, j1, d1) = commit_or_drain_tail clock j d txn;
          (j2, d2) = (case r of Inl _ \<Rightarrow> abort_with_error j1 d1 | Inr _ \<Rightarrow> (j1, d1))
      in (r, clear_committing j2 (t_tid txn), d2))"

definition commit_one :: "clock \<Rightarrow> nat \<Rightarrow> Journal \<Rightarrow> device \<Rightarrow> CommitCause \<Rightarrow> bool \<times> Journal \<times> device" where
  "commit_one clock now j d cause =
     (case advance_pipeline j now cause of
        (Staged txn, j1) \<Rightarrow>
          let (_, j2, d2) = commit_staged clock (note_credits_released j1) d txn in (True, j2, d2)
      | (_, j1) \<Rightarrow> (False, j1, d))"

section \<open>The commit thread\<close>

text \<open>The inner loop: commit what is due, then reclaim the log under pressure, until neither does
  anything or the journal aborts.  \<open>now n\<close> is the timer reading of round \<open>n\<close>, and \<open>env\<close> is what other
  tasks do to the journal meanwhile: \<open>env (2 * n)\<close> while the commit of round \<open>n\<close> runs, \<open>env (2 * n + 1)\<close>
  while its checkpoint runs.  \<open>None\<close> is a loop that does not end.\<close>

partial_function (option) drive_pipeline ::
    "clock \<Rightarrow> (nat \<Rightarrow> nat) \<Rightarrow> (nat \<Rightarrow> Journal \<Rightarrow> Journal) \<Rightarrow> nat \<Rightarrow> Journal \<Rightarrow> device \<Rightarrow> (Journal \<times> device) option" where
  "drive_pipeline clock now env n j d =
     (let (committed, j0, d1) = commit_one clock (now n) j d WhenDue; j1 = env (2 * n) j0 in
      if aborted j1 then Some (j1, d1)
      else let (r, j2, d2) = run_lazy_checkpoint j1 d1;
               checkpointed = (case r of Inr did \<Rightarrow> did | Inl _ \<Rightarrow> False);
               j3 = env (2 * n + 1) j2
           in if \<not> committed \<and> \<not> checkpointed then Some (j3, d2)
              else drive_pipeline clock now env (Suc n) j3 d2)"

text \<open>One turn of the outer loop after the wait: \<open>None\<close> for the action is the expired age deadline.
  The first component says whether the thread keeps running.\<close>

definition commit_thread_turn ::
    "clock \<Rightarrow> (nat \<Rightarrow> nat) \<Rightarrow> (nat \<Rightarrow> Journal \<Rightarrow> Journal) \<Rightarrow> CommitAction option \<Rightarrow> Journal \<Rightarrow> device \<Rightarrow>
     (bool \<times> Journal \<times> device) option" where
  "commit_thread_turn clock now env action j d =
     (case (case action of Some a \<Rightarrow> a | None \<Rightarrow> Advance) of
        Exit \<Rightarrow> Some (False, j, d)
      | Rearm \<Rightarrow> Some (True, j, d)
      | Advance \<Rightarrow> map_option (\<lambda>(j', d'). (True, j', d')) (drive_pipeline clock now env 0 j d))"

section \<open>Durability waits and aborts\<close>

definition commit_and_wait_running :: "Journal \<Rightarrow> unit result option \<times> Journal" where
  "commit_and_wait_running j =
     (case sync_durability_target j of
        Inl e \<Rightarrow> (Some (Inl e), j)
      | Inr None \<Rightarrow> (Some (Ok ()), j)
      | Inr (Some target) \<Rightarrow> log_wait_commit_start j target)"

definition abort_for_shutdown :: "Journal \<Rightarrow> Journal" where
  "abort_for_shutdown j = abort j"

definition abort_for_fs_error :: "Journal \<Rightarrow> device \<Rightarrow> Journal \<times> device" where
  "abort_for_fs_error j d = abort_with_error j d"

section \<open>The unmount flush\<close>

definition seats :: "JournalState \<Rightarrow> nat" where
  "seats st = (if running st = None then 0 else 1) + (if locking st = None then 0 else 1)"

text \<open>Committing leaves the seats alone.\<close>

definition seat_view :: "Journal \<Rightarrow> Transaction option \<times> Transaction option \<times> tid" where
  "seat_view j = (running (jstate j), locking (jstate j), next_tid (jstate j))"

lemma seat_view_phase: "seat_view (fst (snd (phase_step j d t to))) = seat_view j"
  by (auto simp: phase_step_def seat_view_def advance_committing_phase_def and_then_def split: sum.split option.split)

lemma seat_view_publish: "publish_commit j txn h n c = Ok j' \<Longrightarrow> seat_view j' = seat_view j"
  by (auto simp: publish_commit_def seat_view_def Let_def advance_committing_phase_def and_then_def
      release_pinned_frees_def split: sum.splits option.splits if_splits)

lemma seat_view_attempt: "seat_view (fst (snd (attempt_commit clock n j d txn))) = seat_view j"
  unfolding attempt_commit_def Let_def case_prod_unfold
  by (rule try_commit_inv[where P = "\<lambda>i. seat_view i = seat_view j"]) (auto simp: seat_view_phase dest: seat_view_publish)

lemma seat_view_checkpoint: "seat_view (fst (snd (checkpoint_advance j d target))) = seat_view j"
  by (rule checkpoint_advance_inv[where P = "\<lambda>i. seat_view i = seat_view j"])
     (simp_all add: seat_view_def publish_checkpoint_def Let_def)

lemma seat_view_drain: "seat_view (fst (snd (commit_or_drain_tail clock j d txn))) = seat_view j"
  unfolding commit_or_drain_tail_def checkpoint_def
  by (intro jd_bind_inv[where P = "\<lambda>i. seat_view i = seat_view j"])
     (auto simp: seat_view_attempt seat_view_checkpoint split: CommitAttempt.split
       intro!: jd_bind_inv[where P = "\<lambda>i. seat_view i = seat_view j"])

lemma seat_view_abort: "seat_view (fst (abort_with_error j d)) = seat_view j" "seat_view (clear_committing j t) = seat_view j"
  by (simp_all add: abort_with_error_def abort_def clear_committing_def seat_view_def Let_def split: option.split)

lemma seat_view_staged: "seat_view (fst (snd (commit_staged clock j d txn))) = seat_view j"
  using seat_view_drain[of clock j d txn]
  by (auto simp: commit_staged_def Let_def case_prod_unfold seat_view_abort split: sum.split)

lemma take_unmount_seat_decreases:
  "take_unmount_seat st = Ok (Some s, st') \<Longrightarrow> seats st' < seats st"
  by (auto simp: take_unmount_seat_def seats_def stage_committing_def Let_def split: if_splits option.splits)

function flush_seats :: "clock \<Rightarrow> Journal \<Rightarrow> device \<Rightarrow> unit result \<times> Journal \<times> device" where
  "flush_seats clock j d =
     (case take_unmount_seat (jstate j) of
        Inl e \<Rightarrow> (Inl e, j, d)
      | Inr (None, st) \<Rightarrow> (Ok (), j, d)
      | Inr (Some None, st) \<Rightarrow> flush_seats clock (j\<lparr> jstate := st \<rparr>) d
      | Inr (Some (Some txn), st) \<Rightarrow>
          (case commit_staged clock (j\<lparr> jstate := st \<rparr>) d txn of
             (Inl e, j1, d1) \<Rightarrow> (Inl e, j1, d1)
           | (Inr _, j1, d1) \<Rightarrow> flush_seats clock j1 d1))"
  by pat_completeness auto
termination
proof (relation "measure (\<lambda>(_, j, _). seats (jstate j))", goal_cases)
  case (2 clock j d x y st x2)
  then show ?case using take_unmount_seat_decreases by fastforce
next
  case (3 clock j d b y st x2 txn r z aa j1 d1)
  then have "commit_staged clock (j\<lparr> jstate := st \<rparr>) d txn = (Ok aa, j1, d1)" by simp
  then have "seat_view j1 = seat_view (j\<lparr> jstate := st \<rparr>)"
    using seat_view_staged[of clock "j\<lparr> jstate := st \<rparr>" d txn] by simp
  then have "seats (jstate j1) = seats st" by (simp add: seat_view_def seats_def)
  then show ?case using 3 take_unmount_seat_decreases by fastforce
qed simp

declare flush_seats.simps [simp del]

definition flush_on_unmount :: "clock \<Rightarrow> Journal \<Rightarrow> device \<Rightarrow> unit result \<times> Journal \<times> device" where
  "flush_on_unmount clock j d =
     (if aborted j
      then (Err EIO, j\<lparr> jstate := (jstate j)\<lparr> running := None, locking := None \<rparr> \<rparr>, d)
      else jd_bind (flush_seats clock j d) (\<lambda>_ j d. checkpoint j d))"

section \<open>Scoped operation handles\<close>

record OpHandle =
  op_handle :: "Handle option"
  op_owner :: "nat option"

definition OpHandle_none :: OpHandle where
  "OpHandle_none = \<lparr> op_handle = None, op_owner = None \<rparr>"

definition OpHandle_start ::
    "nat \<Rightarrow> nat \<Rightarrow> (Journal \<Rightarrow> Journal) list \<Rightarrow> nat option \<Rightarrow> Journal \<Rightarrow> nat \<Rightarrow> (OpHandle result \<times> Journal) option" where
  "OpHandle_start now freq sched me j n =
     (case claim_op_handle j me of
        (Inl e, j1) \<Rightarrow> Some (Inl e, j1)
      | (Inr owner, j1) \<Rightarrow>
          (case journal_start now freq sched j1 n of
             None \<Rightarrow> None
           | Some (Inl e, j2) \<Rightarrow>
               Some (Inl e, case owner of Some i \<Rightarrow> release_op_handle j2 i | None \<Rightarrow> j2)
           | Some (Inr h, j2) \<Rightarrow> Some (Ok \<lparr> op_handle = Some h, op_owner = owner \<rparr>, j2)))"

definition OpHandle_tid :: "OpHandle \<Rightarrow> tid option" where
  "OpHandle_tid op = map_option h_tid (op_handle op)"

definition OpHandle_drop :: "Journal \<Rightarrow> OpHandle \<Rightarrow> Journal" where
  "OpHandle_drop j op =
     (case op_handle op of
        None \<Rightarrow> j
      | Some h \<Rightarrow>
          let j1 = journal_stop j h in
          case op_owner op of Some i \<Rightarrow> release_op_handle j1 i | None \<Rightarrow> j1)"

section \<open>Retiring the slot\<close>

text \<open>The committing slot through a commit: it keeps the transaction, and success means the phase
  reached \<open>Finished\<close> and the id is published.\<close>

definition slot_holds :: "Journal \<Rightarrow> Transaction \<Rightarrow> bool" where
  "slot_holds j txn \<longleftrightarrow> map_option c_txn (committing (jstate j)) = Some txn"

lemma slot_holds_phase: "slot_holds j txn \<Longrightarrow> slot_holds (fst (snd (phase_step j d t to))) txn"
  by (auto simp: phase_step_def slot_holds_def advance_committing_phase_def advance_to_def and_then_def
      split: sum.split option.splits if_splits)

lemma slot_holds_publish: "slot_holds j txn \<Longrightarrow> publish_commit j txn' h n c = Ok j' \<Longrightarrow> slot_holds j' txn"
  by (auto simp: publish_commit_def slot_holds_def Let_def advance_committing_phase_def advance_to_def and_then_def
      release_pinned_frees_def split: sum.splits option.splits if_splits)

lemma slot_holds_attempt: "slot_holds j txn \<Longrightarrow> slot_holds (fst (snd (attempt_commit clock n j d txn'))) txn"
  unfolding attempt_commit_def Let_def case_prod_unfold
  by (rule try_commit_inv[where P = "\<lambda>i. slot_holds i txn"]) (auto simp: slot_holds_phase intro: slot_holds_publish)

lemma slot_holds_checkpoint: "slot_holds j txn \<Longrightarrow> slot_holds (fst (snd (checkpoint_advance j d target))) txn"
  by (rule checkpoint_advance_inv[where P = "\<lambda>i. slot_holds i txn"])
     (simp_all add: slot_holds_def publish_checkpoint_def Let_def)

lemma slot_holds_drain: "slot_holds j txn \<Longrightarrow> slot_holds (fst (snd (commit_or_drain_tail clock j d txn))) txn"
  unfolding commit_or_drain_tail_def checkpoint_def
  by (intro jd_bind_inv[where P = "\<lambda>i. slot_holds i txn"])
     (auto simp: slot_holds_attempt slot_holds_checkpoint split: CommitAttempt.split
       intro!: jd_bind_inv[where P = "\<lambda>i. slot_holds i txn"])

lemma publish_commit_committed: "publish_commit j txn h n c = Ok j' \<Longrightarrow> committed_tid j' = t_tid txn"
  by (auto simp: publish_commit_def Let_def and_then_def split: sum.splits)

lemma jd_bind_post:
  assumes "\<And>v j d. Q (f v j d)" "\<And>e j d. Q (Inl e, j, d)"
  shows "Q (jd_bind m f)"
  using assms by (cases m; cases "fst m") (auto simp: jd_bind_def)

definition reports_commit :: "Transaction \<Rightarrow> CommitAttempt result \<times> Journal \<times> device \<Rightarrow> bool" where
  "reports_commit txn res \<longleftrightarrow> (\<forall>t. fst res = Ok (Committed t) \<longrightarrow> t = t_tid txn \<and> committed_tid (fst (snd res)) = t)"

lemma try_commit_committed: "reports_commit txn (try_commit_transaction secs nsecs j d txn)"
proof -
  have err: "reports_commit txn (Inl e, j, d)" "reports_commit txn (Ok NeedsLogSpace, j, d)" for e j d
    by (simp_all add: reports_commit_def)
  have pub: "publish_commit j txn h n c = Ok j' \<Longrightarrow> reports_commit txn (Ok (Committed (t_tid txn)), j', d)" for j h n c j' d
    by (simp add: reports_commit_def publish_commit_committed)
  have "reports_commit txn (write_transaction secs nsecs j d txn revs chain)" for revs chain
    unfolding write_transaction_def Let_def
    by (intro jd_bind_post[where Q = "reports_commit txn"]) (simp_all add: err pub split: sum.split)
  then show ?thesis by (simp add: try_commit_transaction_def Let_def err split: sum.split)
qed

lemma commit_or_drain_committed:
  "commit_or_drain_tail clock j d txn = (Ok t, j', d') \<Longrightarrow> t = t_tid txn \<and> committed_tid j' = t"
proof -
  have *: "attempt_commit clock n j d txn = (Ok (Committed t), j', d') \<Longrightarrow> t = t_tid txn \<and> committed_tid j' = t" for n j d j' d'
    using try_commit_committed[of txn "fst (clock (t_tid txn) n)" "snd (clock (t_tid txn) n)" j d]
    by (simp add: attempt_commit_def case_prod_unfold Let_def reports_commit_def)
  assume "commit_or_drain_tail clock j d txn = (Ok t, j', d')"
  then obtain u j1 d1 where u: "attempt_commit clock 0 j d txn = (Ok u, j1, d1)"
    "(case u of Committed t \<Rightarrow> (Ok t, j1, d1) | NeedsLogSpace \<Rightarrow>
        jd_bind (checkpoint j1 d1) (\<lambda>_ j d. jd_bind (attempt_commit clock 1 j d txn) (\<lambda>attempt j d.
          case attempt of Committed t \<Rightarrow> (Ok t, j, d) | NeedsLogSpace \<Rightarrow> (Err ENOSPC, j, d)))) = (Ok t, j', d')"
    unfolding commit_or_drain_tail_def jd_bind_eq_Ok by blast
  show ?thesis
  proof (cases u)
    case (Committed t')
    then show ?thesis using u * by auto
  next
    case NeedsLogSpace
    then obtain v j2 d2 j3 d3 where v: "attempt_commit clock 1 j2 d2 txn = (Ok v, j3, d3)"
      "(case v of Committed t \<Rightarrow> (Ok t, j3, d3) | NeedsLogSpace \<Rightarrow> (Err ENOSPC, j3, d3)) = (Ok t, j', d')"
      using u(2) by (auto simp: jd_bind_eq_Ok)
    then show ?thesis using * by (cases v) auto
  qed
qed

lemma abort_with_error_fields:
  "aborted (fst (abort_with_error j d))" "jstate (fst (abort_with_error j d)) = jstate j"
  "committed_tid (fst (abort_with_error j d)) = committed_tid j"
  by (simp_all add: abort_with_error_def abort_def Let_def)

lemma commit_staged_verdict:
  assumes "slot_holds j txn" "commit_staged clock j d txn = (r, j', d')"
  shows "committing (jstate j') = None" "seat_view j' = seat_view j"
    "r = Ok t \<Longrightarrow> t = t_tid txn \<and> committed_tid j' = t" "r = Err e \<Longrightarrow> aborted j'"
proof -
  obtain r0 j1 d1 where run: "commit_or_drain_tail clock j d txn = (r0, j1, d1)" by (metis prod_cases3)
  then have drain: "commit_or_drain_tail clock j d txn = (r, j1, d1)"
    using assms(2) by (simp add: commit_staged_def Let_def case_prod_unfold)
  have slot: "slot_holds j1 txn" using slot_holds_drain[OF assms(1), of clock d] drain by simp
  then have slot2: "slot_holds (fst (abort_with_error j1 d1)) txn" by (simp add: slot_holds_def abort_with_error_fields)
  have clear: "slot_holds i txn \<Longrightarrow> committing (jstate (clear_committing i (t_tid txn))) = None" for i
    by (auto simp: slot_holds_def clear_committing_def)
  have keep: "committed_tid (clear_committing i t) = committed_tid i" "aborted (clear_committing i t) = aborted i" for i t
    by (auto simp: clear_committing_def split: option.split)
  have out: "j' = (case r of Inl _ \<Rightarrow> clear_committing (fst (abort_with_error j1 d1)) (t_tid txn)
                   | Inr _ \<Rightarrow> clear_committing j1 (t_tid txn))"
    using assms(2) drain by (auto simp: commit_staged_def Let_def case_prod_unfold split: sum.splits)
  show "committing (jstate j') = None" using out clear[OF slot] clear[OF slot2] by (simp split: sum.split)
  show "seat_view j' = seat_view j" using seat_view_staged[of clock j d txn] assms(2) by simp
  show "r = Ok t \<Longrightarrow> t = t_tid txn \<and> committed_tid j' = t" using out drain commit_or_drain_committed[of clock j d txn t j1 d1] keep by simp
  show "r = Err e \<Longrightarrow> aborted j'" using out keep abort_with_error_fields(1) by simp
qed

end
