(* ===== verification/Sample_Commit.thy ===== *)
theory Sample_Commit
  imports Sample_Journal Commit_Fits Checkpoint_Correct Journal_Driver
begin

text \<open>
  The sample journal commits its transaction on a working device; the log then holds it, the
  journal's records agree with the log, and the log ends behind it.
\<close>

abbreviation sample_commit :: "CommitAttempt result \<times> Journal \<times> device" where
  "sample_commit \<equiv> try_commit_transaction 0 0 sample_journal (mounted sample_image) sample_txn"

abbreviation drop_cache :: "device \<Rightarrow> device" where
  "drop_cache d \<equiv> d\<lparr> durable := durable d, pending := [] \<rparr>"

lemma crash_drop_cache: "crash d (drop_cache d)"
proof -
  have "[] \<in> set (subseqs ws)" for ws :: "(u64 \<times> bytes) list" by (induction ws) (simp_all add: Let_def)
  then show ?thesis using crashI[of "[]" d] by simp
qed

lemma sample_commit_room:
  "worst_case_footprint sample_geometry (nr_metadata_blocks sample_txn) (nr_revoke_blocks sample_txn (tag_layout sample_geometry)) \<le> 7"
  by (simp add: worst_case_footprint_def nr_metadata_blocks_def nr_revoke_blocks_def div_ceil_def sample_geometry_def
      tag_layout_def tags_per_descriptor_def tag_area_end_def first_tag_offset_def revoke_entries_per_block_def
      revoke_entry_width_def format_consts BLOCK_SIZE_def)

lemma sample_commit_ok: "\<exists>j' d'. sample_commit = (Ok (Committed 1), j', d')"
proof -
  have "\<exists>j' d'. sample_commit = (Ok (Committed (t_tid sample_txn)), j', d')"
    using sample_commit_room
    by (intro commit_succeeds_if_room[OF sample_log sample_committable])
       (simp_all add: fits_layout_def blocknr_fits_def free_log_blocks_def)
  then show ?thesis by simp
qed

lemma sample_tracked: "log_tracked sample_journal []"
  by (simp add: log_tracked_def sample_journal_def set_phase_def Journal_new_def RevokeTable_new_def)

lemma sample_committed:
  obtains j1 m x where "sample_commit = (Ok (Committed 1), j1, mounted m)" "lt_writes x = [(7, replicate BLOCK_SIZE 0)]"
    "journal_log j1 (mounted m) [x]" "log_tracked j1 [x]" "log_ends j1 m [x]" "geometry j1 = sample_geometry"
    "unpublished_revokes (jstate j1) = []" "seat_view j1 = (None, None, 1)" "\<not> aborted j1" "tail_tid (jstate j1) = 1"
proof -
  obtain j1 d1 where run: "sample_commit = (Ok (Committed 1), j1, d1)" using sample_commit_ok by blast
  have len: "maxlen (geometry sample_journal) \<le> 2 ^ 31" by simp
  obtain x where x: "holds_transaction x sample_txn" "journal_log j1 d1 [x]" "log_tracked j1 [x]"
    using commit_tracked[OF sample_log sample_tracked sample_committable len run] by auto
  have w: "lt_writes x = [(7, replicate BLOCK_SIZE 0)]" using x(1) by (simp add: holds_transaction_def metadata_blocks_def)
  obtain n bs where n: "j1 = committed_journal sample_journal sample_txn n"
    "d1 = committed_device sample_geometry (mounted sample_image) sample_txn 1 bs True"
    using commit_result[OF sample_log sample_committable run] by (metis sample_geometry_simps(5,7,8))
  have "pending d1 = []" by (simp add: n(2) committed_device_def device_with_tail_def with_superblock_def Let_def)
  moreover have h: "healthy (geometry j1) d1" "in_ring (geometry j1) (head (jstate j1))"
    using x(2) by (auto simp: journal_log_def Let_def)
  ultimately have d1: "d1 = mounted (durable d1)" using healthy_settled by blast
  have st: "geometry j1 = sample_geometry" "unpublished_revokes (jstate j1) = []" "seat_view j1 = (None, None, 1)"
    "\<not> aborted j1" "tail_tid (jstate j1) = 1"
    by (simp_all add: n(1) committed_journal_def Let_def set_phase_def sample_journal_def Journal_new_def seat_view_def
        unpublished_revokes_def CommittingTxn_collect_unpublished_revokes_def collect_unpublished_revokes_def sample_geometry_def)
  have "boundary_at sample_geometry (mounted (durable d1)) (head (jstate j1)) (tid_next 1)"
    using commit_next_boundary[OF sample_commit_ready run crash_drop_cache] h(2) st(1) by simp
  then have "log_ends j1 (durable d1) [x]" using st(1,5) by (simp add: log_ends_def scan_boundary tid_next_def)
  moreover have "sample_commit = (Ok (Committed 1), j1, mounted (durable d1))" "journal_log j1 (mounted (durable d1)) [x]"
    using run x(2) d1 by simp_all
  ultimately show thesis using that w x(3) st by blast
qed

end
