(* ===== verification/Pipeline_Correct.thy ===== *)
theory Pipeline_Correct
  imports Journal_Pipeline Sample_Journal
begin

text \<open>
  What the pipeline invariant gives the users of the journal: balanced reservations, quiescent
  staging, consecutive transaction ids, whole blocks, and a cache of metadata that readers see
  the same whichever seat or device block holds the newest image.
\<close>

section \<open>Reading metadata\<close>

text \<open>The newest image of a block held in memory.\<close>

definition cached :: "JournalState \<Rightarrow> Ext4Bid \<Rightarrow> bytes option" where
  "cached st bid =
     (case (case active st of Some txn \<Rightarrow> buffer_bytes txn bid | None \<Rightarrow> None) of
        Some bs \<Rightarrow> Some bs
      | None \<Rightarrow> map_option ui_image (bt_get (uncheckpointed st) bid))"

lemma read_metadata_block_cached:
  "seats_ok (jstate j) \<Longrightarrow>
   read_metadata_block (Some j) d bid = (case cached (jstate j) bid of Some bs \<Rightarrow> Ok bs | None \<Rightarrow> read_block d bid)"
  by (auto simp: read_metadata_block_def cached_def active_def seats_ok_def Let_def split: option.splits)

lemma cached_active:
  "active st = Some txn \<Longrightarrow> cached st bid =
     (case buffer_bytes txn bid of Some bs \<Rightarrow> Some bs | None \<Rightarrow> map_option ui_image (bt_get (uncheckpointed st) bid))"
  by (simp add: cached_def)

lemma stash_uncheckpointed_get:
  assumes "transaction_ok txn"
  shows "bt_get (stash_uncheckpointed txn r) b =
    (case bt_get (metadata txn) b of
       Some cap \<Rightarrow> Some \<lparr> ui_tid = t_tid txn, ui_image = buffer cap \<rparr>
     | None \<Rightarrow> bt_get r b)"
proof -
  let ?f = "\<lambda>r (bid, capture). bt_insert bid \<lparr> ui_tid = t_tid txn, ui_image = buffer capture \<rparr> r"
  have "bt_get (foldl ?f r cs) b =
      (case bt_get cs b of Some cap \<Rightarrow> Some \<lparr> ui_tid = t_tid txn, ui_image = buffer cap \<rparr> | None \<Rightarrow> bt_get r b)"
    if "distinct (map fst cs)" for cs
    using that
  proof (induction cs arbitrary: r)
    case (Cons c cs)
    obtain a cap where c: "c = (a, cap)" by (cases c)
    have "bt_get cs a = None" using Cons.prems c by (induction cs) auto
    then show ?case using Cons c by (auto split: option.split)
  qed simp
  moreover have "distinct (map fst (metadata txn))"
    using assms by (simp add: transaction_ok_def bt_ok_def strict_sorted_iff)
  ultimately show ?thesis by (simp add: stash_uncheckpointed_def)
qed

text \<open>Moving a transaction through the seats keeps what readers see.\<close>

lemma advance_pipeline_cached:
  assumes "pipeline_ok (j, H, k, R)" "advance_pipeline j now cause = (s, j')"
  shows "cached (jstate j') bid = cached (jstate j) bid"
  using assms(2)
proof (cases rule: advance_pipeline_cases)
  case (park txn)
  then show ?thesis by (simp add: cached_def active_def split: option.split)
next
  case (stage txn)
  have ok: "state_ok (geometry j) (jstate j) H k R" using assms(1) by simp
  have act: "active (jstate j) = Some txn" using stage(5) state_okD(1)[OF ok] by (auto simp: active_def seats_ok_def)
  have t: "transaction_ok txn" using state_okD(3)[OF ok act] by (simp add: ledger_def)
  have "active (jstate j') = None" "uncheckpointed (jstate j') = stash_uncheckpointed txn (uncheckpointed (jstate j))"
    using stage(5,6) state_okD(1)[OF ok]
    by (cases "locking (jstate j)"; simp add: stage_committing_def active_def seats_ok_def)+
  then show ?thesis
    using act by (simp add: cached_def stash_uncheckpointed_get[OF t] buffer_bytes_def split: option.split)
qed simp

lemma cached_put_active:
  assumes "seats_ok st" "active st = Some txn" "t_tid txn = t"
  shows "cached (put_active st t txn') b =
    (case buffer_bytes txn' b of Some bs \<Rightarrow> Some bs | None \<Rightarrow> map_option ui_image (bt_get (uncheckpointed st) b))"
  using put_active_props(2)[OF assms, of txn'] other_fieldsD(3)[OF put_active_props(3)[OF assms, of txn']]
  by (simp add: cached_def split: option.split)

text \<open>Charging a capture leaves the buffers alone.\<close>

lemma charge_fresh_capture_buffers:
  assumes "charge_fresh_capture g txn h = (r, txn', h')"
  shows "metadata txn' = metadata txn" "h_tid h' = h_tid h"
  using assms
  by (auto simp: charge_fresh_capture_def try_grow_reservation_def grant_credits_def consume_reserved_credit_def
      spend_one_credit_def Let_def split: if_splits)

lemma finish_access_result:
  assumes "finish_access j h bid fresh gen txn = (r, h', j')"
  shows "\<exists>txn'. j' = set_state j (put_active (jstate j) (h_tid h) txn') \<and> metadata txn' = metadata txn \<and>
    (t_tid txn' = t_tid txn) \<and> h_tid h' = h_tid h \<and>
    (\<forall>a. r = Ok a \<longrightarrow> a = Some \<lparr> la_tid = h_tid h, la_bid = bid, la_generation = gen \<rparr>)"
proof (cases fresh)
  case True
  obtain rc txn' hc where c: "charge_fresh_capture (geometry j) txn h = (rc, txn', hc)" by (metis prod_cases3)
  have "t_tid txn' = t_tid txn"
    using c by (auto simp: charge_fresh_capture_def try_grow_reservation_def consume_reserved_credit_def Let_def split: if_splits)
  then show ?thesis
    using assms True c charge_fresh_capture_buffers[OF c]
    by (auto simp: finish_access_def Let_def and_then_def split: sum.splits intro!: exI[of _ txn'])
next
  case False
  then show ?thesis using assms by (auto simp: finish_access_def Let_def intro!: exI[of _ txn])
qed

lemma capture_write_buffers:
  assumes "capture_write txn bid seed d = (r, txn1)"
  shows "buffer_bytes txn1 b =
      (if b = bid \<and> bt_get (metadata txn) bid = None \<and> r \<noteq> Err EIO
       then Some (case seed of Some s \<Rightarrow> s | None \<Rightarrow> (case read_block d bid of Inr v \<Rightarrow> v | Inl e \<Rightarrow> []))
       else buffer_bytes txn b)"
    "r = Ok gen \<Longrightarrow> \<exists>cap. bt_get (metadata txn1) bid = Some cap \<and> generation cap = gen"
    "r = Ok gen \<Longrightarrow> bt_get (metadata txn) bid = None \<Longrightarrow> seed = None \<Longrightarrow> \<exists>v. read_block d bid = Ok v"
    "t_tid txn1 = t_tid txn"
  using assms
  by (auto simp: capture_write_def buffer_bytes_def mint_capture_generation_def Let_def split: option.splits sum.splits)

section \<open>Write access\<close>

text \<open>Acquiring write access changes nothing a reader sees, on any outcome.\<close>

lemma get_write_access_cached_found:
  assumes seats: "seats_ok (jstate j)" and txn: "active (jstate j) = Some txn" "t_tid txn = h_tid h"
    and run: "get_write_access_live j d h bid = (r, h', j')"
  shows "read_metadata_block (Some j') d b = read_metadata_block (Some j) d b" "seats_ok (jstate j')" "h_tid h' = h_tid h"
    "r = Ok a \<Longrightarrow> \<exists>txn cap. active (jstate j') = Some txn \<and> t_tid txn = h_tid h \<and> bt_get (metadata txn) bid = Some cap \<and>
       a = Some \<lparr> la_tid = h_tid h, la_bid = bid, la_generation = generation cap \<rparr>"
proof -
  let ?st = "jstate j"
  define seed where "seed = capture_seed ?st None bid"
  obtain rc txn1 where c: "capture_write txn bid seed d = (rc, txn1)" by fastforce
  note b = capture_write_buffers[OF c]
  have "\<exists>txn'. j' = set_state j (put_active ?st (h_tid h) txn') \<and> metadata txn' = metadata txn1 \<and> t_tid txn' = t_tid txn1 \<and>
      h_tid h' = h_tid h \<and> (\<forall>a. r = Ok a \<longrightarrow> (\<exists>gen. rc = Ok gen \<and> a = Some \<lparr> la_tid = h_tid h, la_bid = bid, la_generation = gen \<rparr>))"
    using run get_write_access_run[OF seats txn, of d bid, folded seed_def] c finish_access_result[of j h bid _ _ txn1 r h' j']
    by (cases rc) fastforce+
  then obtain txn' where txn': "j' = set_state j (put_active ?st (h_tid h) txn')" "metadata txn' = metadata txn1"
    "t_tid txn' = t_tid txn1" "h_tid h' = h_tid h"
    "\<And>a. r = Ok a \<Longrightarrow> \<exists>gen. rc = Ok gen \<and> a = Some \<lparr> la_tid = h_tid h, la_bid = bid, la_generation = gen \<rparr>" by blast
  note put = put_active_props[OF seats txn, of txn']
  show s': "seats_ok (jstate j')" and "h_tid h' = h_tid h" using put txn' by simp_all
  show "r = Ok a \<Longrightarrow> \<exists>txn cap. active (jstate j') = Some txn \<and> t_tid txn = h_tid h \<and> bt_get (metadata txn) bid = Some cap \<and>
       a = Some \<lparr> la_tid = h_tid h, la_bid = bid, la_generation = generation cap \<rparr>"
    using txn'(5)[of a] put(2) txn'(1-3) b(2,4) txn(2) by fastforce
  have buf: "buffer_bytes txn' b = buffer_bytes txn1 b" using txn'(2) by (simp add: buffer_bytes_def)
  show "read_metadata_block (Some j') d b = read_metadata_block (Some j) d b"
  proof (cases "b = bid \<and> bt_get (metadata txn) bid = None \<and> rc \<noteq> Err EIO")
    case False
    then have "buffer_bytes txn' b = buffer_bytes txn b" using buf b(1)[of b] by auto
    then show ?thesis
      unfolding read_metadata_block_cached[OF s'] read_metadata_block_cached[OF seats]
      using cached_put_active[OF seats txn, of txn' b] cached_active[OF txn(1), of b] txn'(1) by simp
  next
    case True
    then obtain gen where gen: "rc = Ok gen"
      using c by (auto simp: capture_write_def Let_def mint_capture_generation_def split: option.splits sum.splits)
    have none: "buffer_bytes txn bid = None" using True by (simp add: buffer_bytes_def)
    have "cached (jstate j') bid = Some (case seed of Some s \<Rightarrow> s | None \<Rightarrow> (case read_block d bid of Inr v \<Rightarrow> v | Inl e \<Rightarrow> []))"
      using cached_put_active[OF seats txn, of txn' bid] txn'(1) buf b(1)[of bid] True by simp
    moreover have "cached ?st bid = seed" using cached_active[OF txn(1), of bid] none by (simp add: seed_def capture_seed_def)
    ultimately show ?thesis
      unfolding read_metadata_block_cached[OF s'] read_metadata_block_cached[OF seats]
      using True b(3)[OF gen] by (cases seed) auto
  qed
qed

lemma get_write_access_cached:
  assumes "pipeline_ok (j, H, k, R)" "h \<in># H" "get_write_access_live j d h bid = (r, h', j')"
  shows "read_metadata_block (Some j') d b = read_metadata_block (Some j) d b" "seats_ok (jstate j')" "h_tid h' = h_tid h"
    "r = Ok a \<Longrightarrow> \<exists>txn cap. active (jstate j') = Some txn \<and> t_tid txn = h_tid h \<and> bt_get (metadata txn) bid = Some cap \<and>
       a = Some \<lparr> la_tid = h_tid h, la_bid = bid, la_generation = generation cap \<rparr>"
proof -
  have ok: "state_ok (geometry j) (jstate j) H k R" using assms(1) by simp
  note seats = state_okD(1)[OF ok]
  have "read_metadata_block (Some j') d b = read_metadata_block (Some j) d b \<and> seats_ok (jstate j') \<and> h_tid h' = h_tid h \<and>
    (r = Ok a \<longrightarrow> (\<exists>txn cap. active (jstate j') = Some txn \<and> t_tid txn = h_tid h \<and> bt_get (metadata txn) bid = Some cap \<and>
       a = Some \<lparr> la_tid = h_tid h, la_bid = bid, la_generation = generation cap \<rparr>))"
  proof (cases rule: handle_seat[OF ok assms(2)])
    case (1 txn)
    show ?thesis using get_write_access_cached_found[OF seats 1(1,2) assms(3)] by blast
  next
    case (2 e)
    then show ?thesis using assms(3) get_write_access_lost[OF 2(2), of d bid] seats by auto
  qed
  then show "read_metadata_block (Some j') d b = read_metadata_block (Some j) d b" "seats_ok (jstate j')" "h_tid h' = h_tid h"
    "r = Ok a \<Longrightarrow> \<exists>txn cap. active (jstate j') = Some txn \<and> t_tid txn = h_tid h \<and> bt_get (metadata txn) bid = Some cap \<and>
       a = Some \<lparr> la_tid = h_tid h, la_bid = bid, la_generation = generation cap \<rparr>" by blast+
qed

lemma patch_cached:
  assumes "seats_ok (jstate j)" "active (jstate j) = Some txn" "t_tid txn = h_tid h" "bt_get (metadata txn) bid = Some cap"
  shows "\<exists>j'. WriteAccess_patch j h (Some \<lparr> la_tid = t, la_bid = bid, la_generation = generation cap \<rparr>) p = (Ok (), j') \<and>
    seats_ok (jstate j') \<and> cached (jstate j') bid = Some (p (buffer cap)) \<and> cached (jstate j) bid = Some (buffer cap) \<and>
    (\<forall>b. b \<noteq> bid \<longrightarrow> cached (jstate j') b = cached (jstate j) b)"
proof -
  define txn' where "txn' = txn\<lparr> metadata := bt_insert bid (cap\<lparr> buffer := p (buffer cap) \<rparr>) (metadata txn) \<rparr>"
  have "active_for (jstate j) h = Ok txn" using active_for_eq[OF assms(1)] assms(2,3) by simp
  then have "WriteAccess_patch j h (Some \<lparr> la_tid = t, la_bid = bid, la_generation = generation cap \<rparr>) p =
      (Ok (), set_state j (put_active (jstate j) (h_tid h) txn'))"
    using assms(4) by (simp add: WriteAccess_patch_def apply_patch_def txn'_def)
  moreover have "cached (jstate j) bid = Some (buffer cap)"
    using cached_active[OF assms(2)] assms(4) by (simp add: buffer_bytes_def)
  moreover have "cached (put_active (jstate j) (h_tid h) txn') bid = Some (p (buffer cap))"
    using cached_put_active[OF assms(1-3)] by (simp add: txn'_def buffer_bytes_def)
  moreover have "cached (put_active (jstate j) (h_tid h) txn') b = cached (jstate j) b" if "b \<noteq> bid" for b
    using cached_put_active[OF assms(1-3), of txn' b] cached_active[OF assms(2), of b] that by (simp add: txn'_def buffer_bytes_def)
  ultimately show ?thesis using put_active_props(1)[OF assms(1-3), of txn'] by simp
qed

section \<open>An opened sample journal\<close>

definition sample_handle :: Handle where
  "sample_handle = \<lparr> h_tid = 1, credits = 1, remaining = 1 \<rparr>"

definition sample_open :: Journal where
  "sample_open = snd (admit_round 0 1000 (Journal_new sample_geometry) 1)"

lemma sample_max_credits: "max_credits sample_geometry = 4"
  by (simp add: max_credits_def tag_layout_def sample_geometry_def tags_per_descriptor_def tag_area_end_def
      first_tag_offset_def format_consts BLOCK_SIZE_def maxlen_def first_def)

lemma sample_capacity: "check_capacity sample_geometry (Transaction_new 0 1000 t) 1 = Ok ()"
proof -
  have "(n - Suc 0) div n = 0" for n :: nat by (cases n) simp_all
  then show ?thesis
    by (simp add: check_capacity_def err_if_def sample_max_credits reserved_metadata_blocks_def nr_metadata_blocks_def
        nr_revoke_blocks_def div_ceil_def Transaction_new_def)
qed

lemma sample_open_eq:
  "sample_open = (Journal_new sample_geometry)\<lparr> jstate := (jstate (Journal_new sample_geometry))
     \<lparr> next_tid := 2, running := Some ((Transaction_new 0 1000 1)\<lparr> t_updates := 1, outstanding_credits := 1 \<rparr>) \<rparr> \<rparr>"
    and sample_admit: "admit_round 0 1000 (Journal_new sample_geometry) 1 = (Admitted 1, sample_open)"
proof -
  have new: "running (jstate (Journal_new sample_geometry)) = None" "locking (jstate (Journal_new sample_geometry)) = None"
    "next_tid (jstate (Journal_new sample_geometry)) = 1" "\<not> commit_servicer (Journal_new sample_geometry)"
    by (simp_all add: Journal_new_def sample_geometry_def)
  with sample_capacity[of 1] show eq: "sample_open = (Journal_new sample_geometry)\<lparr> jstate := (jstate (Journal_new sample_geometry))
     \<lparr> next_tid := 2, running := Some ((Transaction_new 0 1000 1)\<lparr> t_updates := 1, outstanding_credits := 1 \<rparr>) \<rparr> \<rparr>"
    and "admit_round 0 1000 (Journal_new sample_geometry) 1 = (Admitted 1, sample_open)"
    by (simp_all add: sample_open_def admit_round_def Let_def set_state_def tid_next_def Transaction_new_def)
qed

lemma sample_reachable: "reachable sample_geometry (sample_open, {#sample_handle#}, 0, 0)"
proof -
  have "pipeline_step (Journal_new sample_geometry, {#}, 0, 0) (sample_open, add_mset sample_handle {#}, 0, 0)"
    unfolding sample_handle_def by (rule step_admit[OF _ sample_admit]) (simp add: sample_max_credits)
  moreover have "mounted_journal sample_geometry (Journal_new sample_geometry)" by (simp add: mounted_journal_def)
  ultimately show ?thesis unfolding reachable_def by blast
qed

text \<open>The handle captures block 7 and closes, the transaction is staged, and a second handle opens.\<close>

definition sample_filled :: Journal where
  "sample_filled = snd (snd (get_create_access_live sample_open sample_handle 7))"

definition sample_idle :: Journal where
  "sample_idle = journal_stop sample_filled (sample_handle\<lparr> remaining := 0 \<rparr>)"

definition sample_staged :: Journal where
  "sample_staged = snd (advance_pipeline sample_idle 0 Forced)"

definition sample_next :: Journal where
  "sample_next = snd (admit_round 0 1000 sample_staged 1)"

lemma sample_txn_value:
  "sample_txn = \<lparr> t_tid = 1, expires_at = COMMIT_INTERVAL_JIFFIES 1000, t_updates = 0, outstanding_credits = 0,
     metadata = [(7, \<lparr> generation = 0, buffer = replicate BLOCK_SIZE 0 \<rparr>)], next_capture_generation = 1,
     t_revoked = [], t_ordered = [] \<rparr>"
  by (simp add: sample_txn_def capture_create_def Transaction_new_def mint_capture_generation_def bs_remove_def)

lemma sample_open_simps:
  "running (jstate sample_open) = Some ((Transaction_new 0 1000 1)\<lparr> t_updates := 1, outstanding_credits := 1 \<rparr>)"
  "locking (jstate sample_open) = None" "committing (jstate sample_open) = None" "next_tid (jstate sample_open) = 2"
  "geometry sample_open = sample_geometry" "\<not> aborted sample_open" "\<not> commit_servicer sample_open"
  "uncheckpointed (jstate sample_open) = []"
  by (simp_all add: sample_open_eq Journal_new_def)

lemma sample_open_active_for: "active_for (jstate sample_open) sample_handle =
    Ok ((Transaction_new 0 1000 1)\<lparr> t_updates := 1, outstanding_credits := 1 \<rparr>)"
  by (simp add: sample_open_simps active_for_def active_txn_mut_def sample_handle_def Transaction_new_def)

lemma sample_filled_eq:
  "get_create_access_live sample_open sample_handle 7 =
     (Ok (Some \<lparr> la_tid = 1, la_bid = 7, la_generation = 0 \<rparr>), sample_handle\<lparr> remaining := 0 \<rparr>, sample_filled)"
  "sample_filled = sample_open\<lparr> jstate := (jstate sample_open)\<lparr> running := Some (sample_txn\<lparr> t_updates := 1 \<rparr>) \<rparr> \<rparr>"
  unfolding sample_filled_def get_create_access_live_def sample_open_active_for
  by (simp_all add: finish_access_def is_captured_def bs_remove_def sample_open_simps
      charge_fresh_capture_def Let_def consume_reserved_credit_def spend_one_credit_def sample_txn_value capture_create_def
      mint_capture_generation_def put_active_def sample_handle_def Transaction_new_def set_state_def)

lemma sample_idle_eq:
  "sample_idle = note_credits_released (sample_open\<lparr> jstate := (jstate sample_open)\<lparr> running := Some sample_txn \<rparr> \<rparr>)"
  by (simp add: sample_idle_def journal_stop_def Let_def sample_filled_eq(2) active_txn_mut_def sample_handle_def
      set_state_def put_active_def release_handle_def sample_txn_value)

lemma sample_staged_eq:
  "advance_pipeline sample_idle 0 Forced = (Staged sample_txn, sample_staged)"
  "sample_staged = sample_idle\<lparr> jstate := stage_committing (jstate sample_open\<lparr> running := None \<rparr>) sample_txn \<rparr>"
  by (simp_all add: sample_staged_def advance_pipeline_def Let_def sample_idle_eq note_credits_released_def sample_open_simps
      committable_running_def has_durable_obligation_def has_recorded_work_def nr_metadata_blocks_def)
     (simp_all add: sample_txn_value)

lemma sample_steps:
  "reachable sample_geometry (sample_filled, {#sample_handle\<lparr> remaining := 0 \<rparr>#}, 0, 0)"
  "reachable sample_geometry (sample_idle, {#}, 0, 0)" "reachable sample_geometry (sample_staged, {#}, 0, 0)"
proof -
  show 1: "reachable sample_geometry (sample_filled, {#sample_handle\<lparr> remaining := 0 \<rparr>#}, 0, 0)"
    using reachable_step[OF sample_reachable step_create[OF _ sample_filled_eq(1)]] by simp
  show 2: "reachable sample_geometry (sample_idle, {#}, 0, 0)"
    using reachable_step[OF 1 step_stop[of "sample_handle\<lparr> remaining := 0 \<rparr>"]] by (simp add: sample_idle_def)
  show "reachable sample_geometry (sample_staged, {#}, 0, 0)"
    by (rule reachable_step[OF 2 step_advance[OF sample_staged_eq(1)]])
qed

lemma sample_next_eq:
  "admit_round 0 1000 sample_staged 1 = (Admitted 2, sample_next)"
  "committing (jstate sample_next) = Some (CommittingTxn_new sample_txn)" "\<exists>txn. active (jstate sample_next) = Some txn"
  using sample_capacity[of 2]
  by (simp_all add: sample_next_def admit_round_def Let_def sample_staged_eq(2) sample_idle_eq note_credits_released_def
      stage_committing_def sample_open_simps set_state_def Transaction_new_def active_def)

lemma sample_next_reachable:
  "reachable sample_geometry (sample_next, {#\<lparr> h_tid = 2, credits = 1, remaining = 1 \<rparr>#}, 0, 0)"
proof -
  have "1 \<le> max_credits (geometry sample_staged)"
    by (simp add: sample_staged_eq(2) sample_idle_eq sample_open_simps sample_max_credits)
  from reachable_step[OF sample_steps(3) step_admit[OF this sample_next_eq(1)]] show ?thesis .
qed

text \<open>The same transaction with two handles: the second one asks for a restart beyond the credit limit.  Its
  reservation is released, the restart is refused, and the stop at the end of the operation releases
  it again, while the first handle is still held.\<close>

definition sample_second :: Handle where
  "sample_second = \<lparr> h_tid = 1, credits = 1, remaining = 1 \<rparr>"

definition sample_both :: Journal where
  "sample_both = snd (admit_round 0 1000 sample_filled 1)"

definition sample_double :: Journal where
  "sample_double = journal_stop (restart_release sample_both sample_second) sample_second"

lemma sample_txn_capacity: "check_capacity sample_geometry (sample_txn\<lparr> t_updates := 1 \<rparr>) 1 = Ok ()"
proof -
  have "(n - Suc 0) div n = 0" for n :: nat by (cases n) simp_all
  then show ?thesis
    by (simp add: check_capacity_def err_if_def sample_max_credits reserved_metadata_blocks_def nr_metadata_blocks_def
        nr_revoke_blocks_def div_ceil_def sample_txn_value)
qed

lemma sample_both_eq:
  "admit_round 0 1000 sample_filled 1 = (Admitted 1, sample_both)"
  "sample_both = sample_filled\<lparr> jstate := (jstate sample_filled)\<lparr> running := Some (sample_txn\<lparr> t_updates := 2, outstanding_credits := 1 \<rparr>) \<rparr> \<rparr>"
proof -
  have "locking (jstate sample_filled) = None" "running (jstate sample_filled) = Some (sample_txn\<lparr> t_updates := 1 \<rparr>)"
    "geometry sample_filled = sample_geometry" "\<not> commit_servicer sample_filled" "t_tid sample_txn = 1" "outstanding_credits sample_txn = 0"
    by (simp_all add: sample_filled_eq(2) sample_open_simps sample_txn_value)
  with sample_txn_capacity show "admit_round 0 1000 sample_filled 1 = (Admitted 1, sample_both)"
    "sample_both = sample_filled\<lparr> jstate := (jstate sample_filled)\<lparr> running := Some (sample_txn\<lparr> t_updates := 2, outstanding_credits := 1 \<rparr>) \<rparr> \<rparr>"
    by (simp_all add: sample_both_def admit_round_def Let_def set_state_def)
qed

lemma sample_double_reachable:
  "reachable sample_geometry (sample_double, {#sample_handle\<lparr> remaining := 0 \<rparr>#}, 0, 1)"
proof -
  let ?h = "sample_handle\<lparr> remaining := 0 \<rparr>"
  have "1 \<le> max_credits (geometry sample_filled)" by (simp add: sample_filled_eq(2) sample_open_simps sample_max_credits)
  from reachable_step[OF sample_steps(1) step_admit[OF this sample_both_eq(1)]]
  have "reachable sample_geometry (sample_both, {#sample_second, ?h#}, 0, 0)" by (simp add: sample_second_def)
  from reachable_step[OF this step_refused[of sample_second]]
  have "reachable sample_geometry (restart_release sample_both sample_second, {#sample_second, ?h#}, 0, 1)" by simp
  from reachable_step[OF this step_stop[of sample_second]] show ?thesis by (simp add: sample_double_def)
qed

lemma sample_double_stages: "advance_pipeline sample_double 0 Forced = (Staged sample_txn, snd (advance_pipeline sample_double 0 Forced))"
  by (simp add: sample_double_def restart_release_def journal_stop_def Let_def sample_both_eq(2) sample_second_def active_txn_mut_def
      set_state_def put_active_def release_handle_def note_credits_released_def request_commit_for_def sample_filled_eq(2)
      advance_pipeline_def sample_open_simps committable_running_def has_durable_obligation_def has_recorded_work_def
      nr_metadata_blocks_def sample_txn_value split: option.split)

section \<open>The properties\<close>

text \<open>C17: reservations balance.  In every reachable interleaving of handle operations, commits,
  checkpoints and teardown in which no restart was refused after it released its handle, the transaction
  accepting captures counts exactly the held handles, holds exactly their unspent credits, and its captures
  and credits stay within the credit limit of the log, up to the captures that were refused a credit.  After
  a refused restart the handle is released a second time when it is stopped and the counters fall behind.\<close>

theorem pipeline_accounts_balance:
  assumes "reachable g (j, H, k, R)" "R = 0" "active (jstate j) = Some txn"
  shows "t_updates txn = size H \<and> outstanding_credits txn = sum_mset (image_mset remaining H) \<and>
    (\<forall>h\<in>#H. h_tid h = t_tid txn) \<and> nr_metadata_blocks txn + outstanding_credits txn \<le> max_credits (geometry j) + k"
proof -
  have "state_ok (geometry j) (jstate j) H k R" using reachable_ok[OF assms(1)] by simp
  from state_okD(3)[OF this assms(3)] assms(2) show ?thesis by (simp add: ledger_def accounts_def)
qed

theorem pipeline_accounts_balance_witness:
  "\<exists>txn. active (jstate sample_open) = Some txn \<and> t_updates txn = size {#sample_handle#} \<and> outstanding_credits txn = 1"
proof -
  obtain txn where txn: "active (jstate sample_open) = Some txn" by (simp add: sample_open_eq active_def)
  show ?thesis using pipeline_accounts_balance[OF sample_reachable refl txn] txn by (simp add: sample_handle_def)
qed

text \<open>C18: staging is quiescent.  When the pipeline stages a transaction for commit in a reachable state, its
  counter of open updates is zero, no transaction accepts captures any more, and the committing slot holds
  it with the newest id handed out.  When no restart was refused, no handle is held either.  The witness also
  shows the exception: after a refused restart the transaction is staged under a handle that is still held.\<close>

theorem staging_is_quiescent:
  assumes "reachable g (j, H, k, R)" "advance_pipeline j now cause = (Staged txn, j')"
  shows "(R = 0 \<longrightarrow> H = {#}) \<and> t_updates txn = 0 \<and> active (jstate j') = None \<and>
    committing (jstate j') = Some (CommittingTxn_new txn) \<and> tid_next (t_tid txn) = next_tid (jstate j')"
proof -
  have ok: "state_ok (geometry j) (jstate j) H k R" and ok': "state_ok (geometry j') (jstate j') H k R"
    using reachable_ok[OF assms(1)] pipeline_ok_advance(1)[OF _ assms(2), of H k R] by simp_all
  have H: "R = 0 \<longrightarrow> H = {#}" using pipeline_ok_advance(2)[OF _ assms(2), of H k R txn] ok by auto
  show ?thesis
    using assms(2)
  proof (cases rule: advance_pipeline_cases)
    case (stage t)
    have none: "active (jstate j') = None"
      using stage(5,6) state_okD(1)[OF ok] by (cases "locking (jstate j)") (auto simp: stage_committing_def active_def seats_ok_def)
    have "committing (jstate j') = Some (CommittingTxn_new txn)" using stage by (simp add: stage_committing_def)
    moreover have "t_tid txn = tid_prev (next_tid (jstate j'))"
      using ok' none calculation by (simp add: state_ok_def txns_ok_def CommittingTxn_new_def)
    ultimately show ?thesis using H none stage by (simp add: tid_prev_def tid_next_def)
  qed (use assms(2) in auto)
qed

theorem staging_is_quiescent_witness:
  "advance_pipeline sample_idle 0 Forced = (Staged sample_txn, sample_staged) \<and>
   committing (jstate sample_staged) = Some (CommittingTxn_new sample_txn) \<and>
   (\<exists>H j'. reachable sample_geometry (sample_double, H, 0, 1) \<and> H \<noteq> {#} \<and> advance_pipeline sample_double 0 Forced = (Staged sample_txn, j') \<and>
      active (jstate j') = None)"
proof -
  have "active (jstate (snd (advance_pipeline sample_double 0 Forced))) = None"
    using staging_is_quiescent[OF sample_double_reachable sample_double_stages] by simp
  moreover have "{#sample_handle\<lparr> remaining := 0 \<rparr>#} \<noteq> {#}" by simp
  ultimately have "\<exists>H j'. reachable sample_geometry (sample_double, H, 0, 1) \<and> H \<noteq> {#} \<and>
      advance_pipeline sample_double 0 Forced = (Staged sample_txn, j') \<and> active (jstate j') = None"
    using sample_double_reachable sample_double_stages by blast
  then show ?thesis using staging_is_quiescent[OF sample_steps(2) sample_staged_eq(1)] sample_staged_eq(1) by simp
qed

text \<open>C21: transaction ids are consecutive.  In every reachable state at most one of the two seats that accept
  captures is taken, the transaction in it has the newest id handed out, and a transaction in the committing
  slot has the id just before it, or the newest id when no transaction accepts captures.\<close>

theorem transaction_ids_consecutive:
  assumes "reachable g (j, H, k, R)"
  shows "(running (jstate j) = None \<or> locking (jstate j) = None) \<and>
    (\<forall>txn. active (jstate j) = Some txn \<longrightarrow> tid_next (t_tid txn) = next_tid (jstate j)) \<and>
    (\<forall>c. committing (jstate j) = Some c \<longrightarrow>
       (case active (jstate j) of
          Some txn \<Rightarrow> tid_next (t_tid (c_txn c)) = t_tid txn
        | None \<Rightarrow> tid_next (t_tid (c_txn c)) = next_tid (jstate j)))"
  using reachable_ok[OF assms]
  by (auto simp: state_ok_def txns_ok_def seats_ok_def tid_prev_def tid_next_def split: option.splits)

theorem transaction_ids_consecutive_witness:
  "(\<exists>txn. active (jstate sample_next) = Some txn \<and> t_tid txn = tid_next (t_tid sample_txn)) \<and>
   tid_next (t_tid sample_txn) = next_tid (jstate (start_commit_thread sample_staged))"
proof -
  obtain txn where txn: "active (jstate sample_next) = Some txn" using sample_next_eq(3) by blast
  have "t_tid txn = tid_next (t_tid sample_txn)"
    using transaction_ids_consecutive[OF sample_next_reachable] sample_next_eq(2) txn by (auto simp: CommittingTxn_new_def)
  moreover have "tid_next (t_tid sample_txn) = next_tid (jstate (start_commit_thread sample_staged))"
    using transaction_ids_consecutive[OF reachable_step[OF sample_steps(3) step_start]]
    by (simp add: start_commit_thread_def sample_staged_eq(2) stage_committing_def sample_open_simps active_def CommittingTxn_new_def)
  ultimately show ?thesis using txn by simp
qed

text \<open>Metadata reads are whole blocks.  In every reachable state, over a device with whole blocks, a
  metadata read that succeeds returns one block.\<close>

theorem metadata_reads_are_blocks:
  assumes "reachable g (j, H, k, R)" "\<forall>b. length (visible d b) = BLOCK_SIZE" "read_metadata_block (Some j) d bid = Ok bs"
  shows "length bs = BLOCK_SIZE"
proof -
  have ok: "state_ok (geometry j) (jstate j) H k R" using reachable_ok[OF assms(1)] by simp
  have "length bs = BLOCK_SIZE" if "active (jstate j) = Some txn" "buffer_bytes txn bid = Some bs" for txn bs
  proof -
    have "transaction_ok txn" using state_okD(3)[OF ok that(1)] by (simp add: ledger_def)
    then show ?thesis using that(2) by (auto simp: buffer_bytes_def transaction_ok_iff)
  qed
  then show ?thesis
    using assms(2,3) retained_image_sized[OF ok]
    by (auto simp: read_metadata_block_cached[OF state_okD(1)[OF ok]] cached_def read_block_def
        split: option.splits if_splits)
qed

theorem metadata_reads_are_blocks_witness:
  "\<exists>bs. read_metadata_block (Some sample_filled) (mounted sample_image) 7 = Ok bs \<and> length bs = BLOCK_SIZE"
proof -
  obtain bs where bs: "read_metadata_block (Some sample_filled) (mounted sample_image) 7 = Ok bs"
    by (simp add: read_metadata_block_def Let_def sample_filled_eq(2) buffer_bytes_def sample_txn_value)
  have "\<forall>b. length (visible (mounted sample_image) b) = BLOCK_SIZE" by (simp add: sample_image_def)
  from metadata_reads_are_blocks[OF sample_steps(1) this bs] show ?thesis using bs by blast
qed

text \<open>C20: the pipeline is invisible to readers.  Locking, parking and staging a transaction in a reachable
  state changes the result of no metadata read.\<close>

theorem pipeline_invisible_to_readers:
  assumes "reachable g (j, H, k, R)" "advance_pipeline j now cause = (s, j')"
  shows "read_metadata_block (Some j') d bid = read_metadata_block (Some j) d bid"
proof -
  have ok: "pipeline_ok (j, H, k, R)" using reachable_ok[OF assms(1)] .
  then have "seats_ok (jstate j)" "seats_ok (jstate j')"
    using pipeline_ok_advance(1)[OF ok assms(2)] by (simp_all add: state_ok_def)
  then show ?thesis using advance_pipeline_cached[OF ok assms(2), of bid] by (simp add: read_metadata_block_cached)
qed

theorem pipeline_invisible_to_readers_witness:
  "advance_pipeline sample_idle 0 Forced = (Staged sample_txn, sample_staged) \<and>
   read_metadata_block (Some sample_staged) (mounted sample_image) 7 = read_metadata_block (Some sample_idle) (mounted sample_image) 7"
  using pipeline_invisible_to_readers[OF sample_steps(2) sample_staged_eq(1)] sample_staged_eq(1) by simp

text \<open>C19: read your writes.  In a reachable state, once a handle obtained write access to a block, patching
  it succeeds, a read of the block then returns the patch applied to what a read returned before, and
  every other block reads as before.\<close>

theorem read_your_writes:
  assumes "reachable g (j, H, k, R)" "h \<in># H" "get_write_access_live j d h bid = (Ok a, h1, j1)"
  shows "\<exists>bs j2. read_metadata_block (Some j) d bid = Ok bs \<and> WriteAccess_patch j1 h1 a p = (Ok (), j2) \<and>
    read_metadata_block (Some j2) d bid = Ok (p bs) \<and>
    (\<forall>b. b \<noteq> bid \<longrightarrow> read_metadata_block (Some j2) d b = read_metadata_block (Some j) d b)"
proof -
  note w = get_write_access_cached[OF reachable_ok[OF assms(1)] assms(2,3)]
  obtain txn cap where t: "active (jstate j1) = Some txn" "t_tid txn = h_tid h" "bt_get (metadata txn) bid = Some cap"
    "a = Some \<lparr> la_tid = h_tid h, la_bid = bid, la_generation = generation cap \<rparr>" using w(4) by blast
  have "t_tid txn = h_tid h1" using t(2) w(3) by simp
  from patch_cached[OF w(2) t(1) this t(3), of "h_tid h" p] obtain j2 where j2:
    "WriteAccess_patch j1 h1 a p = (Ok (), j2)" "seats_ok (jstate j2)" "cached (jstate j2) bid = Some (p (buffer cap))"
    "cached (jstate j1) bid = Some (buffer cap)" "\<forall>b. b \<noteq> bid \<longrightarrow> cached (jstate j2) b = cached (jstate j1) b"
    using t(4) by blast
  then show ?thesis
    using w(1)[symmetric] by (auto simp: read_metadata_block_cached[OF w(2)] read_metadata_block_cached[OF j2(2)])
qed

theorem read_your_writes_witness:
  "\<exists>a h1 j1 j2. get_write_access_live sample_open (mounted sample_image) sample_handle 9 = (Ok a, h1, j1) \<and>
     WriteAccess_patch j1 h1 a (\<lambda>bs. 1 # tl bs) = (Ok (), j2) \<and>
     read_metadata_block (Some j2) (mounted sample_image) 9 = Ok (1 # tl (replicate BLOCK_SIZE 0))"
proof -
  obtain a h1 j1 where acc: "get_write_access_live sample_open (mounted sample_image) sample_handle 9 = (Ok a, h1, j1)"
    by (simp add: get_write_access_live_def active_txn_mut_def sample_open_simps capture_seed_def capture_write_def
        Let_def read_block_def mint_capture_generation_def finish_access_def is_captured_def charge_fresh_capture_def
        sample_handle_def Transaction_new_def)
  have "read_metadata_block (Some sample_open) (mounted sample_image) 9 = Ok (replicate BLOCK_SIZE 0)"
    by (simp add: read_metadata_block_def Let_def sample_open_simps buffer_bytes_def Transaction_new_def read_block_def sample_image_def)
  then show ?thesis
    using read_your_writes[OF sample_reachable _ acc, of "\<lambda>bs. 1 # tl bs"] acc by auto
qed

end
