(* ===== verification/Driver_Correct.thy ===== *)
theory Driver_Correct
  imports Replay_Spec Sample_Commit Pipeline_Correct
begin

text \<open>
  What the drivers of the pipeline promise: a checkpoint pass keeps the content recovery would
  restore, on a working device and across a crash; a commit retires its slot with a verdict; unmount
  brings every committed image home; an aborted journal is frozen; operation handles do not nest.
\<close>

section \<open>Checkpointing\<close>

text \<open>C7: a checkpoint pass writes home exactly what it retires.  On a working device whose log holds \<open>xs\<close>, a
  pass succeeds and retires a prefix \<open>zs\<close> of \<open>xs\<close> from the log.  The file-system blocks of the device
  then hold what they held before, overwritten by the images of \<open>zs\<close> that no revoke in the log
  suppresses, and nothing else: no block that only the remaining transactions wrote has changed, and no
  block with an unpublished revoke has.  What replaying the remaining transactions would leave in
  every file-system block is unchanged.  No retired transaction touches a block with an unpublished
  revoke, and without such revokes and without a target the pass empties the log.\<close>

theorem checkpoint_preserves_content:
  assumes "journal_log j d xs" "log_tracked j xs" "maxlen (geometry j) \<le> 2 ^ 31"
  shows "\<exists>zs us j' d'. xs = zs @ us \<and> checkpoint_advance j d target = (Ok (zs \<noteq> []), j', d') \<and>
    journal_log j' d' us \<and> log_tracked j' us \<and>
    (\<forall>x\<in>set zs. \<not> touches (unpublished_revokes (jstate j)) x) \<and>
    (unpublished_revokes (jstate j) = [] \<and> target = None \<longrightarrow> us = []) \<and>
    (\<forall>b. b \<notin> set (block_map (geometry j)) \<longrightarrow>
       visible d' b = apply_writes (replay_writes (collected (tail_tid (jstate j)) xs) (tail_tid (jstate j)) zs) (visible d) b) \<and>
    (\<forall>b. b \<notin> set (block_map (geometry j)) \<and>
       (b \<in> set (unpublished_revokes (jstate j)) \<or> (\<forall>x\<in>set zs. b \<notin> fst ` set (lt_writes x))) \<longrightarrow>
       visible d' b = visible d b) \<and>
    (\<forall>b. b \<notin> set (block_map (geometry j)) \<longrightarrow>
       recovered (visible d') (tail_tid (jstate j')) us b = recovered (visible d) (tail_tid (jstate j)) xs b)"
proof -
  obtain zs us j' d' where r: "xs = zs @ us" "checkpoint_advance j d target = (Ok (zs \<noteq> []), j', d')"
    "journal_log j' d' us" "log_tracked j' us" "\<forall>x\<in>set zs. \<not> touches (unpublished_revokes (jstate j)) x"
    "unpublished_revokes (jstate j) = [] \<and> target = None \<longrightarrow> us = []"
    "\<forall>b. b \<notin> set (block_map (geometry j)) \<longrightarrow>
       visible d' b = apply_writes (replay_writes (collected (tail_tid (jstate j)) xs) (tail_tid (jstate j)) zs) (visible d) b"
    "\<forall>b. b \<notin> set (block_map (geometry j)) \<longrightarrow>
       recovered (visible d') (tail_tid (jstate j')) us b = recovered (visible d) (tail_tid (jstate j)) xs b"
    using checkpoint_healthy[OF assms, of target] by (elim exE conjE)
  have "visible d' b = visible d b"
    if b: "b \<notin> set (block_map (geometry j))"
      "b \<in> set (unpublished_revokes (jstate j)) \<or> (\<forall>x\<in>set zs. b \<notin> fst ` set (lt_writes x))" for b
  proof -
    have "\<forall>x\<in>set zs. b \<notin> fst ` set (lt_writes x)" using b(2) r(5) untouched_blocks by blast
    then show ?thesis using r(7) b(1) replay_writes_untouched by simp
  qed
  with r show ?thesis by (intro exI conjI) (assumption | blast)+
qed

theorem checkpoint_preserves_content_witness:
  "\<exists>j1 m x j' d'. sample_commit = (Ok (Committed 1), j1, mounted m) \<and> lt_writes x = [(7, replicate BLOCK_SIZE 0)] \<and>
     checkpoint_advance j1 (mounted m) None = (Ok True, j', d') \<and> journal_log j' d' [] \<and> visible d' 7 = recovered m 1 [x] 7 \<and>
     (\<forall>b. b \<notin> set (block_map sample_geometry) \<and> b \<noteq> 7 \<longrightarrow> visible d' b = m b)"
proof -
  obtain j1 m x where s: "sample_commit = (Ok (Committed 1), j1, mounted m)" "lt_writes x = [(7, replicate BLOCK_SIZE 0)]"
    "journal_log j1 (mounted m) [x]" "log_tracked j1 [x]" "geometry j1 = sample_geometry"
    "unpublished_revokes (jstate j1) = []" "tail_tid (jstate j1) = 1"
    by (rule sample_committed)
  have "maxlen (geometry j1) \<le> 2 ^ 31" using s(5) by simp
  from checkpoint_preserves_content[OF s(3,4) this, of None] obtain zs us j' d'
    where r: "[x] = zs @ us" "checkpoint_advance j1 (mounted m) None = (Ok (zs \<noteq> []), j', d')" "journal_log j' d' us" "us = []"
      "\<forall>b. b \<notin> set (block_map (geometry j1)) \<and>
         (b \<in> set (unpublished_revokes (jstate j1)) \<or> (\<forall>x\<in>set zs. b \<notin> fst ` set (lt_writes x))) \<longrightarrow>
         visible d' b = visible (mounted m) b"
      "\<forall>b. b \<notin> set (block_map (geometry j1)) \<longrightarrow>
        recovered (visible d') (tail_tid (jstate j')) us b = recovered (visible (mounted m)) (tail_tid (jstate j1)) [x] b"
    using s(6) by (elim exE conjE) simp
  have z: "zs = [x]" using r(1,4) by simp
  have "checkpoint_advance j1 (mounted m) None = (Ok True, j', d')" "journal_log j' d' []" using r(1-4) by auto
  moreover have "visible d' 7 = recovered m 1 [x] 7" using spec[OF r(6), of 7] r(4) s(5,7) by simp
  moreover have "\<forall>b. b \<notin> set (block_map sample_geometry) \<and> b \<noteq> 7 \<longrightarrow> visible d' b = m b" using r(5) z s(2,5) by simp
  ultimately show ?thesis using s(1,2) by blast
qed

text \<open>C8: checkpointing is safe under power loss.  A pass on a device that stops completing flushes at
  any point, followed by a crash that keeps any part of the cached writes, leaves an image that
  recovers to exactly the file-system content the image before the pass recovers to.\<close>

theorem checkpoint_crash_safe:
  assumes "journal_log j (mounted m) xs" "log_tracked j xs" "log_ends j m xs" "maxlen (geometry j) \<le> 2 ^ 31"
    and "checkpoint_advance j (attached n m) target = (r, j', d')" "crash d' c" "geometry j0 = geometry j"
  shows "\<exists>j1 d1 j2 d2. recover j0 (mounted (durable c)) = Some (Ok (), j1, d1) \<and>
    recover j0 (mounted m) = Some (Ok (), j2, d2) \<and>
    (\<forall>b. b \<notin> set (block_map (geometry j)) \<longrightarrow> visible d1 b = visible d2 b)"
proof -
  note rec = recoverable_of_log[OF assms(1,3)]
  obtain t' us where us: "recoverable (geometry j) (durable c) t' us"
    "\<forall>b. b \<notin> set (block_map (geometry j)) \<longrightarrow> recovered (durable c) t' us b = recovered m (tail_tid (jstate j)) xs b"
    using checkpoint_crash_recoverable[OF rec assms(1,2,4-6)] by blast
  obtain j1 d1 where "recover j0 (mounted (durable c)) = Some (Ok (), j1, d1)"
    "\<forall>b. b \<notin> set (block_map (geometry j)) \<longrightarrow> visible d1 b = recovered (durable c) t' us b"
    using recover_recoverable[OF us(1) assms(7)] by blast
  moreover obtain j2 d2 where "recover j0 (mounted m) = Some (Ok (), j2, d2)"
    "\<forall>b. b \<notin> set (block_map (geometry j)) \<longrightarrow> visible d2 b = recovered m (tail_tid (jstate j)) xs b"
    using recover_recoverable[OF rec assms(7)] by blast
  ultimately show ?thesis using us(2) by auto
qed

theorem checkpoint_crash_safe_witness:
  "\<exists>j1 m r j' d' j2 d2 j3 d3. sample_commit = (Ok (Committed 1), j1, mounted m) \<and>
     checkpoint_advance j1 (attached (Some 1) m) None = (r, j', d') \<and>
     recover (Journal_new sample_geometry) (mounted (durable (drop_cache d'))) = Some (Ok (), j2, d2) \<and>
     recover (Journal_new sample_geometry) (mounted m) = Some (Ok (), j3, d3) \<and> visible d2 7 = visible d3 7"
proof -
  obtain j1 m x where s: "sample_commit = (Ok (Committed 1), j1, mounted m)"
    "journal_log j1 (mounted m) [x]" "log_tracked j1 [x]" "log_ends j1 m [x]" "geometry j1 = sample_geometry"
    by (rule sample_committed)
  obtain r j' d' where run: "checkpoint_advance j1 (attached (Some 1) m) None = (r, j', d')" by (metis prod_cases3)
  have "maxlen (geometry j1) \<le> 2 ^ 31" "geometry (Journal_new sample_geometry) = geometry j1" using s(5) by simp_all
  from checkpoint_crash_safe[OF s(2-4) this(1) run crash_drop_cache this(2)] obtain j2 d2 j3 d3
    where "recover (Journal_new sample_geometry) (mounted (durable (drop_cache d'))) = Some (Ok (), j2, d2)"
      "recover (Journal_new sample_geometry) (mounted m) = Some (Ok (), j3, d3)" "visible d2 7 = visible d3 7"
    using s(5) by auto
  then show ?thesis using s(1) run by blast
qed

section \<open>Committing a staged transaction\<close>

text \<open>C22: every commit reaches a verdict.  Committing the staged transaction, with its one inline drain
  of the log and whatever the device does, always empties the committing slot and leaves the running
  and locking seats alone; success publishes the transaction's own id as committed, and any failure
  leaves the journal aborted.\<close>

theorem commit_reaches_verdict:
  assumes "slot_holds j txn" "commit_staged clock j d txn = (r, j', d')"
  shows "committing (jstate j') = None \<and> running (jstate j') = running (jstate j) \<and> locking (jstate j') = locking (jstate j) \<and>
    (case r of Inl e \<Rightarrow> aborted j' | Inr t \<Rightarrow> t = t_tid txn \<and> committed_tid j' = t)"
  using commit_staged_verdict(1,2)[OF assms] commit_staged_verdict(3,4)[OF assms]
  by (auto simp: seat_view_def split: sum.split)

theorem commit_reaches_verdict_witness:
  "\<exists>r j' d'. commit_staged (\<lambda>_ _. (0, 0)) sample_journal ((mounted sample_image)\<lparr> bad_write := (\<lambda>b. b = 101) \<rparr>) sample_txn = (r, j', d') \<and>
     committing (jstate j') = None \<and> (case r of Inl e \<Rightarrow> aborted j' | Inr t \<Rightarrow> t = 1 \<and> committed_tid j' = 1)"
proof -
  obtain r j' d' where run: "commit_staged (\<lambda>_ _. (0, 0)) sample_journal ((mounted sample_image)\<lparr> bad_write := (\<lambda>b. b = 101) \<rparr>) sample_txn = (r, j', d')"
    by (metis prod_cases3)
  have "slot_holds sample_journal sample_txn" by (simp add: slot_holds_def sample_journal_def set_phase_def)
  from commit_reaches_verdict[OF this run] show ?thesis using run by (auto split: sum.splits)
qed

section \<open>Unmount\<close>

lemma journal_log_cong:
  assumes "geometry j' = geometry j" "head (jstate j') = head (jstate j)" "tail_block (jstate j') = tail_block (jstate j)"
    and "tail_tid (jstate j') = tail_tid (jstate j)"
  shows "journal_log j' d xs \<longleftrightarrow> journal_log j d xs"
  unfolding journal_log_def Let_def assms ..

lemma log_tracked_cong:
  assumes "tail_tid (jstate j') = tail_tid (jstate j)" "j_revoked (jstate j') = j_revoked (jstate j)" "committed_tid j' = committed_tid j"
  shows "log_tracked j' xs \<longleftrightarrow> log_tracked j xs"
  unfolding log_tracked_def assms ..

lemma clear_committing_fields:
  "geometry (clear_committing j t) = geometry j" "head (jstate (clear_committing j t)) = head (jstate j)"
  "tail_block (jstate (clear_committing j t)) = tail_block (jstate j)" "tail_tid (jstate (clear_committing j t)) = tail_tid (jstate j)"
  "j_revoked (jstate (clear_committing j t)) = j_revoked (jstate j)" "committed_tid (clear_committing j t) = committed_tid j"
  by (auto simp: clear_committing_def split: option.split)

lemma stage_committing_fields:
  "head (stage_committing st txn) = head st" "tail_block (stage_committing st txn) = tail_block st"
  "tail_tid (stage_committing st txn) = tail_tid st" "j_revoked (stage_committing st txn) = j_revoked st"
  "running (stage_committing st txn) = running st" "locking (stage_committing st txn) = locking st"
  by (simp_all add: stage_committing_def)

text \<open>The journal with the running transaction staged, as the unmount flush and the pipeline stage it.\<close>

abbreviation stage_running :: "Journal \<Rightarrow> Transaction \<Rightarrow> Journal" where
  "stage_running j txn \<equiv> j\<lparr> jstate := stage_committing ((jstate j)\<lparr> running := None \<rparr>) txn \<rparr>"

lemma stage_running_log:
  "journal_log (stage_running j txn) d xs \<longleftrightarrow> journal_log j d xs" "log_tracked (stage_running j txn) xs \<longleftrightarrow> log_tracked j xs"
  by (intro journal_log_cong log_tracked_cong; simp add: stage_committing_fields)+

lemma commit_staged_healthy:
  assumes "journal_log j d xs" "log_tracked j xs" "committable j xs txn" "maxlen (geometry j) \<le> 2 ^ 31"
    and "metadata txn \<noteq> []" "fits_layout (tag_layout (geometry j)) txn"
    and "worst_case_footprint (geometry j) (nr_metadata_blocks txn) (nr_revoke_blocks txn (tag_layout (geometry j)))
           \<le> free_log_blocks (geometry j) (head (jstate j)) (tail_block (jstate j))"
    and "length (block_map (geometry j)) < 2 ^ 32 - 1"
  shows "\<exists>j' d' x. commit_staged clock j d txn = (Ok (t_tid txn), j', d') \<and> holds_transaction x txn \<and>
    journal_log j' d' (xs @ [x]) \<and> log_tracked j' (xs @ [x]) \<and> geometry j' = geometry j \<and>
    tail_tid (jstate j') = (if tail_block (jstate j) = None then t_tid txn else tail_tid (jstate j)) \<and>
    (\<forall>b. b \<notin> set (block_map (geometry j)) \<longrightarrow> visible d' b = apply_writes (ordered_writes txn) (visible d) b)"
proof -
  obtain secs nsecs where c: "clock (t_tid txn) 0 = (secs, nsecs)" by fastforce
  obtain j1 d1 where run: "try_commit_transaction secs nsecs j d txn = (Ok (Committed (t_tid txn)), j1, d1)"
    using commit_succeeds_if_room[OF assms(1,3,5-8)] by blast
  obtain x where x: "holds_transaction x txn" "journal_log j1 d1 (xs @ [x])" "log_tracked j1 (xs @ [x])"
    using commit_tracked[OF assms(1-4) run] by blast
  obtain n bs where n: "j1 = committed_journal j txn n" "\<forall>b\<in>set bs. length b = BLOCK_SIZE"
    "d1 = committed_device (geometry j) d txn (head (jstate j)) bs (tail_block (jstate j) = None)"
    using commit_result[OF assms(1,3) run] by metis
  have h: "healthy (geometry j) d" "in_ring (geometry j) (head (jstate j))" using assms(1) by (auto simp: journal_log_def Let_def)
  have "commit_staged clock j d txn = (Ok (t_tid txn), clear_committing j1 (t_tid txn), d1)"
    by (simp add: commit_staged_def commit_or_drain_tail_def attempt_commit_def c run jd_bind_def Let_def)
  moreover have "journal_log (clear_committing j1 (t_tid txn)) d1 (xs @ [x])" "log_tracked (clear_committing j1 (t_tid txn)) (xs @ [x])"
    using x(2,3) journal_log_cong[of "clear_committing j1 (t_tid txn)" j1] log_tracked_cong[of "clear_committing j1 (t_tid txn)" j1]
    by (simp_all add: clear_committing_fields)
  moreover have "visible d1 b = apply_writes (ordered_writes txn) (visible d) b" if "b \<notin> set (block_map (geometry j))" for b
    unfolding n(3) using assms(3) by (intro committed_device_final[OF healthyD(1)[OF h(1)] h(2) that h(1) _ n(2)]) (simp add: committable_def)
  moreover have "geometry j1 = geometry j" "tail_tid (jstate j1) = (if tail_block (jstate j) = None then t_tid txn else tail_tid (jstate j))"
    using n(1) by (simp_all add: committed_journal_def Let_def set_phase_def)
  ultimately show ?thesis using x(1) by (intro exI[of _ "clear_committing j1 (t_tid txn)"] exI[of _ d1] exI[of _ x]) (simp add: clear_committing_fields)
qed

text \<open>With both seats and the slot empty there are no unpublished revokes, so the final checkpoint empties the log.\<close>

lemma checkpoint_settles:
  assumes "journal_log j d xs" "log_tracked j xs" "maxlen (geometry j) \<le> 2 ^ 31" "unpublished_revokes (jstate j) = []"
  shows "\<exists>j' d'. checkpoint j d = (Ok (), j', d') \<and> journal_log j' d' [] \<and>
    (\<forall>b. b \<notin> set (block_map (geometry j)) \<longrightarrow> visible d' b = recovered (visible d) (tail_tid (jstate j)) xs b)"
proof -
  obtain zs us :: "LoggedTxn list" and j' d' where "checkpoint_advance j d None = (Ok (zs \<noteq> []), j', d')" "journal_log j' d' us" "us = []"
    "\<forall>b. b \<notin> set (block_map (geometry j)) \<longrightarrow>
       recovered (visible d') (tail_tid (jstate j')) us b = recovered (visible d) (tail_tid (jstate j)) xs b"
    using checkpoint_healthy[OF assms(1-3), of None] assms(4) by (elim exE conjE) blast
  then show ?thesis by (intro exI[of _ j'] exI[of _ d']) (simp add: checkpoint_def jd_bind_def)
qed

text \<open>C9: unmount brings everything home.  Unmounting with one idle running transaction that fits the
  log, on a working device, succeeds: the log is then empty, every captured block holds its captured
  image on the device, and every file-system block holds what replaying the old log and the
  transaction over its ordered data gives.\<close>

theorem unmount_flush_settles:
  assumes "\<not> aborted j" "committing (jstate j) = None" "locking (jstate j) = None" "running (jstate j) = Some txn"
    and "t_updates txn = 0" "metadata txn \<noteq> []" "journal_log j d xs" "log_tracked j xs" "committable (stage_running j txn) xs txn"
    and "fits_layout (tag_layout (geometry j)) txn" "maxlen (geometry j) \<le> 2 ^ 31" "length (block_map (geometry j)) < 2 ^ 32 - 1"
    and "worst_case_footprint (geometry j) (nr_metadata_blocks txn) (nr_revoke_blocks txn (tag_layout (geometry j)))
           \<le> free_log_blocks (geometry j) (head (jstate j)) (tail_block (jstate j))"
  shows "\<exists>j' d' x. flush_on_unmount clock j d = (Ok (), j', d') \<and> journal_log j' d' [] \<and> holds_transaction x txn \<and>
    (\<forall>(b, cap)\<in>set (metadata txn). visible d' b = buffer cap) \<and>
    (\<forall>b. b \<notin> set (block_map (geometry j)) \<longrightarrow>
       visible d' b = recovered (apply_writes (ordered_writes txn) (visible d))
         (if tail_block (jstate j) = None then t_tid txn else tail_tid (jstate j)) (xs @ [x]) b)"
proof -
  let ?s = "stage_running j txn" and ?g = "geometry j"
  let ?t = "if tail_block (jstate j) = None then t_tid txn else tail_tid (jstate j)"
  have work: "has_durable_obligation ((jstate j)\<lparr> running := None \<rparr>) txn"
    using assms(6) by (simp add: has_durable_obligation_def has_recorded_work_def nr_metadata_blocks_def)
  have s: "journal_log ?s d xs" "log_tracked ?s xs" "geometry ?s = ?g" "head (jstate ?s) = head (jstate j)"
    "tail_block (jstate ?s) = tail_block (jstate j)" "tail_tid (jstate ?s) = tail_tid (jstate j)"
    using assms(7,8) by (simp_all add: stage_running_log stage_committing_fields)
  obtain j1 d1 x where c: "commit_staged clock ?s d txn = (Ok (t_tid txn), j1, d1)" "holds_transaction x txn"
    "journal_log j1 d1 (xs @ [x])" "log_tracked j1 (xs @ [x])" "geometry j1 = ?g" "tail_tid (jstate j1) = ?t"
    "\<forall>b. b \<notin> set (block_map ?g) \<longrightarrow> visible d1 b = apply_writes (ordered_writes txn) (visible d) b"
    using commit_staged_healthy[OF s(1,2) assms(9)] assms(6,10-13) unfolding s(3-6) by blast
  have "slot_holds ?s txn" using assms(9) by (simp add: slot_holds_def committable_def in_commit_def)
  from commit_staged_verdict(1,2)[OF this c(1)] have empty: "committing (jstate j1) = None" "running (jstate j1) = None" "locking (jstate j1) = None"
    by (simp_all add: seat_view_def stage_committing_fields assms(3))
  have last: "flush_seats clock j1 d1 = (Ok (), j1, d1)"
    by (subst flush_seats.simps) (simp add: take_unmount_seat_def empty)
  have flush: "flush_seats clock j d = (Ok (), j1, d1)"
    by (subst flush_seats.simps) (simp add: take_unmount_seat_def assms(2-5) work Let_def c(1) last)
  have "unpublished_revokes (jstate j1) = []" by (simp add: unpublished_revokes_def empty)
  then obtain j2 d2 where e: "checkpoint j1 d1 = (Ok (), j2, d2)" "journal_log j2 d2 []"
    "\<forall>b. b \<notin> set (block_map ?g) \<longrightarrow> visible d2 b = recovered (visible d1) ?t (xs @ [x]) b"
    using checkpoint_settles[OF c(3,4)] assms(11) unfolding c(5,6) by blast
  have "recovered (visible d1) ?t (xs @ [x]) b = recovered (apply_writes (ordered_writes txn) (visible d)) ?t (xs @ [x]) b"
    if "b \<notin> set (block_map ?g)" for b
    using c(7) that unfolding recovered_def by (intro apply_writes_at) simp
  moreover have len: "length (xs @ [x]) \<le> 2 ^ 31"
    using c(3,5) log_state_length[OF _ healthyD(1) assms(11)] by (fastforce simp: journal_log_def Let_def split: option.splits)
  moreover have "visible d2 b = buffer cap" if "(b, cap) \<in> set (metadata txn)" for b cap
    using e(3) recovered_captured[OF len c(2) _ that] that assms(9) by (fastforce simp: committable_def)
  ultimately show ?thesis using e flush c(2) assms(1)
    by (intro exI[of _ j2] exI[of _ d2] exI[of _ x]) (auto simp: flush_on_unmount_def jd_bind_def)
qed

text \<open>The sample journal before staging: the transaction is still in the running seat.\<close>

definition sample_running :: Journal where
  "sample_running = (Journal_new sample_geometry)\<lparr> jstate := (jstate (Journal_new sample_geometry))\<lparr> running := Some sample_txn \<rparr> \<rparr>"

lemma sample_running_fields:
  "\<not> aborted sample_running" "committing (jstate sample_running) = None" "locking (jstate sample_running) = None"
  "running (jstate sample_running) = Some sample_txn" "geometry sample_running = sample_geometry"
  "head (jstate sample_running) = 1" "tail_block (jstate sample_running) = None" "t_updates sample_txn = 0"
  by (simp_all add: sample_running_def Journal_new_def sample_geometry_def first_def sample_txn_def capture_create_def
      Transaction_new_def mint_capture_generation_def)

theorem unmount_flush_settles_witness:
  "\<exists>j' d'. flush_on_unmount (\<lambda>_ _. (0, 0)) sample_running (mounted sample_image) = (Ok (), j', d') \<and> journal_log j' d' [] \<and>
     visible d' 7 = replicate BLOCK_SIZE 0"
proof -
  have "journal_log sample_running (mounted sample_image) []"
    using sample_superblock sample_healthy by (simp add: journal_log_def Let_def sample_running_fields in_ring_def)
  moreover have "log_tracked sample_running []"
    by (simp add: log_tracked_def sample_running_def Journal_new_def RevokeTable_new_def)
  moreover have "committable (stage_running sample_running sample_txn) [] sample_txn"
    by (simp add: committable_def sample_txn_ok in_commit_def stage_committing_def sample_running_fields CommittingTxn_new_def)
  ultimately show ?thesis
    using unmount_flush_settles[of sample_running sample_txn "mounted sample_image" "[]" "\<lambda>_ _. (0, 0)"] sample_commit_room
    by (force simp: sample_running_fields fits_layout_def blocknr_fits_def free_log_blocks_def)
qed

section \<open>The drive loop\<close>

lemma checkpoint_loop_progress:
  assumes "checkpoint_loop g R U target hd0 c d log t ap = (Ok (log', t', ap', stopped), d')"
  shows "stopped \<Longrightarrow> tid_geq c t'" "stopped \<Longrightarrow> ap' \<Longrightarrow> (ap \<and> t' = t) \<or> unat (c - t') < unat (c - t)"
proof -
  have "(stopped \<longrightarrow> tid_geq c t') \<and> (stopped \<longrightarrow> ap' \<longrightarrow> (ap \<and> t' = t) \<or> unat (c - t') < unat (c - t))"
    using assms
  proof (induction g R U target hd0 c d log t ap arbitrary: log' t' ap' stopped d' rule: checkpoint_loop.induct)
    case (1 g R U target hd0 c d log t ap)
    show ?case
    proof (cases "tid_geq c t")
      case True
      note run = "1.prems"[unfolded checkpoint_loop.simps[of g R U target hd0 c d log t ap]]
      consider (stop) "t' = t" "ap' = ap" "stopped" | (go) log1 d1 where
          "(if U = [] then Ok False else chain_covers_unpublished g d log t U) = Ok False"
          "apply_log_transaction g d log t R = (Ok log1, d1)"
        using run True by (auto split: sum.splits bool.splits prod.splits if_splits)
      then show ?thesis
      proof cases
        case stop
        then show ?thesis using True by simp
      next
        case go
        show ?thesis
        proof (cases "case target of None \<Rightarrow> False | Some want \<Rightarrow> tid_geq c (tid_next t) \<and> free_log_blocks g hd0 (Some log1) \<ge> want")
          case halt: True
          then have "t' = tid_next t" "tid_geq c (tid_next t)" using run go True by (auto split: option.splits)
          then show ?thesis using tid_distance_next[OF True] True by simp
        next
          case False
          then have rec: "checkpoint_loop g R U target hd0 c d1 log1 (tid_next t) True = (Ok (log', t', ap', stopped), d')"
            using run go True by (simp add: Let_def)
          from "1.IH"[OF _ go(1) _ go(2)[symmetric] refl refl] have
            "stopped \<longrightarrow> tid_geq c t'" "stopped \<longrightarrow> ap' \<longrightarrow> t' = tid_next t \<or> unat (c - t') < unat (c - tid_next t)"
            using rec True False by auto
          moreover have "tid_geq c (tid_next t) \<or> \<not> stopped"
            using rec by (subst (asm) checkpoint_loop.simps) (auto split: if_splits)
          ultimately show ?thesis using True tid_distance_next[OF True] by auto
        qed
      qed
    qed (use "1.prems" in \<open>auto simp: checkpoint_loop.simps\<close>)
  qed
  then show "stopped \<Longrightarrow> tid_geq c t'" "stopped \<Longrightarrow> ap' \<Longrightarrow> (ap \<and> t' = t) \<or> unat (c - t') < unat (c - t)"
    by blast+
qed

text \<open>How much log a pass can still retire.\<close>

definition log_backlog :: "Journal \<Rightarrow> nat" where
  "log_backlog j =
     (if tail_block (jstate j) = None then 0 else Suc (unat (committed_tid j - tail_tid (jstate j))))"

lemma checkpoint_advance_backlog:
  assumes "checkpoint_advance j d target = (Ok True, j', d')"
  shows "log_backlog j' < log_backlog j"
proof -
  let ?st = "jstate j"
  obtain tail where tail: "tail_block ?st = Some tail" using assms by (cases "tail_block ?st") (simp_all add: checkpoint_advance_def Let_def)
  obtain log t stopped d1 where lp: "checkpoint_loop (geometry j) (j_revoked ?st) (unpublished_revokes ?st) target (head ?st)
      (committed_tid j) d tail (tail_tid ?st) False = (Ok (log, t, True, stopped), d1)"
    and j': "j' = j\<lparr> jstate := publish_checkpoint ?st log t stopped \<rparr>"
    using assms tail
    by (auto simp: checkpoint_advance_def Let_def jd_bind_eq_Ok with_device_def split: sum.splits prod.splits if_splits)
  show ?thesis
    using checkpoint_loop_progress(2)[OF lp] tail
    by (cases stopped) (simp_all add: log_backlog_def j' publish_checkpoint_def Let_def)
qed

lemma run_lazy_checkpoint_backlog:
  assumes "run_lazy_checkpoint j d = (Ok True, j', d')"
  shows "log_backlog j' < log_backlog j" "seat_view j' = seat_view j"
proof -
  let ?i = "j\<lparr> space_pressure := False \<rparr>"
  obtain target j1 where adv: "checkpoint_advance ?i d target = (Ok True, j1, d')" "j' = note_credits_released j1"
    using assms by (auto simp: run_lazy_checkpoint_def Let_def jd_bind_eq_Ok split: if_splits)
  have "log_backlog j' = log_backlog j1" "log_backlog ?i = log_backlog j" "seat_view j' = seat_view j1" "seat_view ?i = seat_view j"
    by (simp_all add: adv(2) log_backlog_def seat_view_def note_credits_released_def)
  then show "log_backlog j' < log_backlog j" "seat_view j' = seat_view j"
    using checkpoint_advance_backlog[OF adv(1)] seat_view_checkpoint[of ?i d target] adv(1) by simp_all
qed

lemma run_lazy_checkpoint_seats: "seat_view (fst (snd (run_lazy_checkpoint j d))) = seat_view j"
proof -
  have "seat_view (note_credits_released i) = seat_view i" "seat_view (i\<lparr> space_pressure := False \<rparr>) = seat_view i" for i
    by (simp_all add: seat_view_def note_credits_released_def)
  then show ?thesis
    unfolding run_lazy_checkpoint_def Let_def
    by (auto intro!: jd_bind_inv[where P = "\<lambda>i. seat_view i = seat_view j"] simp: seat_view_checkpoint)
qed

lemma commit_one_progress:
  assumes "commit_one clock now j d cause = (committed, j', d')"
  shows "committed \<Longrightarrow> seats (jstate j') < seats (jstate j)"
    "\<not> committed \<Longrightarrow> seats (jstate j') = seats (jstate j) \<and> log_backlog j' = log_backlog j"
proof -
  obtain s j1 where adv: "advance_pipeline j now cause = (s, j1)" by fastforce
  show "\<not> committed \<Longrightarrow> seats (jstate j') = seats (jstate j) \<and> log_backlog j' = log_backlog j"
    using assms adv by (cases s) (auto simp: commit_one_def advance_pipeline_def committable_running_def seats_def log_backlog_def Let_def
        split: option.splits if_splits prod.splits)
  assume c: committed
  then obtain txn where s: "s = Staged txn" using assms adv by (cases s) (auto simp: commit_one_def)
  have less: "seats (jstate j1) < seats (jstate j)"
    using adv s by (auto simp: advance_pipeline_def committable_running_def seats_def stage_committing_def Let_def split: option.splits if_splits)
  have "seat_view j' = seat_view (note_credits_released j1)"
    using seat_view_staged[of clock "note_credits_released j1" d txn] assms adv s by (auto simp: commit_one_def Let_def split: prod.splits)
  then show "seats (jstate j') < seats (jstate j)" using less by (simp add: seat_view_def seats_def note_credits_released_def)
qed

text \<open>The loop alone: each round either ends it or decreases the seats or the backlog.\<close>

lemma drive_pipeline_alone:
  assumes "\<forall>i\<ge>2 * n. env i = id"
  shows "\<exists>j' d'. drive_pipeline clock now env n j d = Some (j', d')"
  using assms
proof (induction "(seats (jstate j), log_backlog j)" arbitrary: n j d rule: wf_induct_rule[OF wf_lex_prod[OF wf_less_than wf_less_than]])
  case (1 j n d)
  have env: "env (2 * n) = id" "env (2 * n + 1) = id" using "1.prems" by simp_all
  obtain committed j1 d1 where c: "commit_one clock (now n) j d WhenDue = (committed, j1, d1)" by (metis prod_cases3)
  obtain r j2 d2 where k: "run_lazy_checkpoint j1 d1 = (r, j2, d2)" by (metis prod_cases3)
  note step = drive_pipeline.simps[of clock now env n j d, unfolded c env id_apply]
  have seats2: "seats (jstate j2) = seats (jstate j1)" using run_lazy_checkpoint_seats[of j1 d1] k by (simp add: seat_view_def seats_def)
  show ?case
  proof (cases "aborted j1 \<or> (\<not> committed \<and> r \<noteq> Ok True)")
    case True
    then show ?thesis using step k by (auto split: sum.splits)
  next
    case False
    then have less: "((seats (jstate j2), log_backlog j2), (seats (jstate j), log_backlog j)) \<in> less_than <*lex*> less_than"
      using commit_one_progress[OF c] run_lazy_checkpoint_backlog(1)[of j1 d1 j2 d2] k seats2 by (cases committed) auto
    have "\<forall>i\<ge>2 * Suc n. env i = id" using "1.prems" by simp
    from "1.hyps"[OF less this, of d2] show ?thesis using step k False by (auto split: sum.splits)
  qed
qed

text \<open>C10: the commit thread's drive loop ends.  Whatever the journal state, whatever the device does and
  whatever the timer reads in each round, and whatever other tasks do to the journal while the first
  rounds run, the loop that commits what is due and reclaims the log stops once the other tasks leave the
  journal alone: each commit then empties a seat, and each successful pass retires at least one logged
  transaction.\<close>

theorem drive_pipeline_terminates:
  assumes "\<forall>i\<ge>N. env i = id"
  shows "\<exists>j' d'. drive_pipeline clock now env n j d = Some (j', d')"
proof (induction "N - n" arbitrary: n j d)
  case 0
  then have "\<forall>i\<ge>2 * n. env i = id" using assms by simp
  then show ?case by (rule drive_pipeline_alone)
next
  case (Suc m)
  obtain committed j0 d1 where c: "commit_one clock (now n) j d WhenDue = (committed, j0, d1)" by (metis prod_cases3)
  obtain r j2 d2 where k: "run_lazy_checkpoint (env (2 * n) j0) d1 = (r, j2, d2)" by (metis prod_cases3)
  have "m = N - Suc n" using Suc.hyps(2) by simp
  from Suc.hyps(1)[OF this, of "env (2 * n + 1) j2" d2] show ?case
    using drive_pipeline.simps[of clock now env n j d] c k by (simp add: Let_def)
qed

text \<open>A due transaction, with another task requesting its commit while the first checkpoint runs.\<close>

theorem drive_pipeline_terminates_witness:
  "\<exists>j' d'. drive_pipeline (\<lambda>_ _. (0, 0)) id (\<lambda>i. if i = 1 then \<lambda>j. request_commit_for j 1 else id) 0 sample_running (mounted sample_image) =
     Some (j', d')"
  by (rule drive_pipeline_terminates[of 2]) simp

section \<open>An aborted journal\<close>

lemma drive_pipeline_aborted: "aborted j \<Longrightarrow> aborted (env (2 * n) j) \<Longrightarrow> drive_pipeline clock now env n j d = Some (env (2 * n) j, d)"
  by (subst drive_pipeline.simps) (simp add: commit_one_def advance_pipeline_def)

text \<open>C23: an aborted journal is frozen.  Once aborted, the commit driver and the commit thread do
  nothing of their own, no commit action or age deadline is ever due, every admission, new handle and durability
  wait for an uncommitted id fails with \<open>EIO\<close>, and unmounting reports \<open>EIO\<close> and writes nothing.\<close>

theorem aborted_journal_frozen:
  assumes "aborted j"
  shows "commit_one clock now j d cause = (False, j, d) \<and>
    (aborted (env 0 j) \<longrightarrow> drive_pipeline clock nows env 0 j d = Some (env 0 j, d)) \<and>
    poll_commit_action j now armed \<in> {None, Some Exit} \<and> age_deadline j key = (None, None) \<and>
    (n \<le> max_credits (geometry j) \<longrightarrow> journal_start now freq sched j n = Some (Err EIO, j)) \<and>
    (\<not> tid_geq (committed_tid j) target \<longrightarrow> poll_log_commit j target = Some (Err EIO)) \<and>
    fst (flush_on_unmount clock j d) = Err EIO \<and> snd (snd (flush_on_unmount clock j d)) = d"
  using assms
  by (simp add: commit_one_def advance_pipeline_def drive_pipeline_aborted poll_commit_action_def age_deadline_def
      poll_log_commit_def flush_on_unmount_def Let_def journal_start_def admit_def admit_loop.simps)

theorem aborted_journal_frozen_witness:
  "drive_pipeline (\<lambda>_ _. (0, 0)) id (\<lambda>_. id) 0 (abort_for_shutdown sample_running) (mounted sample_image) =
     Some (abort_for_shutdown sample_running, mounted sample_image) \<and>
   fst (flush_on_unmount (\<lambda>_ _. (0, 0)) (abort_for_shutdown sample_running) (mounted sample_image)) = Err EIO"
  using aborted_journal_frozen[of "abort_for_shutdown sample_running" _ _ _ _ "\<lambda>_. id"] by (simp add: abort_for_shutdown_def abort_def)

section \<open>Operation handles\<close>

text \<open>What other tasks do while a caller waits may not register or release the caller.\<close>

definition foreign :: "nat \<Rightarrow> (Journal \<Rightarrow> Journal) list \<Rightarrow> bool" where
  "foreign i sched \<longleftrightarrow> (\<forall>env\<in>set sched. \<forall>j. (i \<in> set (op_handle_owners (env j))) = (i \<in> set (op_handle_owners j)))"

lemma await_owner:
  "await poll sched j = Some (sched', r, j') \<Longrightarrow> foreign i sched \<Longrightarrow>
   foreign i sched' \<and> (i \<in> set (op_handle_owners j')) = (i \<in> set (op_handle_owners j))"
  by (induction poll sched j rule: await.induct) (auto simp: foreign_def split: option.splits)

lemma request_owner:
  "op_handle_owners (request_commit_for j t) = op_handle_owners j" "op_handle_owners (request_log_space j) = op_handle_owners j"
  "op_handle_owners (snd (admit_round now freq j n)) = op_handle_owners j"
  by (simp_all add: request_commit_for_def request_log_space_def request_commit_of_running_def admit_round_def set_state_def
      Let_def split: option.split prod.split)

lemma admit_loop_owner:
  "admit_loop now freq sched j n = Some (r, j') \<Longrightarrow> foreign i sched \<Longrightarrow>
   (i \<in> set (op_handle_owners j')) = (i \<in> set (op_handle_owners j))"
proof (induction now freq sched j n rule: admit_loop.induct)
  case (1 now freq sched j n)
  obtain a j1 where a: "admit_round now freq j n = (a, j1)" by fastforce
  then have own: "op_handle_owners j1 = op_handle_owners j" using request_owner(3)[of now freq j n] by simp
  show ?case
  proof (cases "aborted j")
    case False
    note run = "1.prems"(1)[unfolded admit_loop.simps[of now freq sched j n] a]
    show ?thesis
    proof (cases a)
      case (Admitted t)
      then show ?thesis using run False own by simp
    next
      case (WaitRoom t epoch)
      then obtain env rest sched' v j2 where w: "sched = env # rest"
        "await (\<lambda>x. poll_transaction_room x t epoch) rest (env (request_commit_for j1 t)) = Some (sched', v, j2)"
        using run False by (auto split: list.splits option.splits)
      then have o2: "foreign i sched'" "(i \<in> set (op_handle_owners j2)) = (i \<in> set (op_handle_owners j))"
        using await_owner[OF w(2), of i] "1.prems"(2) by (auto simp: foreign_def request_owner own)
      show ?thesis using run False w o2 WaitRoom "1.IH"(1)[OF False a[symmetric] WaitRoom w(1,2)]
        by (cases v) (auto split: sum.splits)
    next
      case (WaitSpace epoch)
      then obtain env rest sched' v j2 where w: "sched = env # rest"
        "await (\<lambda>x. poll_log_space x epoch) rest (env (request_log_space j1)) = Some (sched', v, j2)"
        using run False by (auto split: list.splits option.splits)
      then have o2: "foreign i sched'" "(i \<in> set (op_handle_owners j2)) = (i \<in> set (op_handle_owners j))"
        using await_owner[OF w(2), of i] "1.prems"(2) by (auto simp: foreign_def request_owner own)
      show ?thesis using run False w o2 WaitSpace "1.IH"(2)[OF False a[symmetric] WaitSpace w(1,2)]
        by (cases v) (auto split: sum.splits)
    qed
  qed (use "1.prems" in \<open>simp add: admit_loop.simps\<close>)
qed

lemma journal_start_owner:
  "journal_start now freq sched j n = Some (r, j') \<Longrightarrow> foreign i sched \<Longrightarrow>
   (i \<in> set (op_handle_owners j')) = (i \<in> set (op_handle_owners j))"
  by (auto simp: journal_start_def admit_def split: option.splits sum.splits if_splits dest: admit_loop_owner)

lemma journal_stop_owner: "op_handle_owners (journal_stop j h) = op_handle_owners j"
  by (simp add: journal_stop_def Let_def note_credits_released_def set_state_def split: option.split)

text \<open>C24: operation handles do not nest, and the owner registry is balanced.  A task that already holds
  a handle is refused with \<open>EDEADLK\<close> and nothing changes.  Otherwise, whatever other tasks do while
  the start waits, a successful start leaves the task registered until the handle is dropped and not
  longer, and a failed start leaves it unregistered.\<close>

theorem op_handles_do_not_nest:
  "(i \<in> set (op_handle_owners j) \<longrightarrow> OpHandle_start now freq sched (Some i) j n = Some (Err EDEADLK, j)) \<and>
   (i \<notin> set (op_handle_owners j) \<and> foreign i sched \<longrightarrow>
      (\<forall>op j'. OpHandle_start now freq sched (Some i) j n = Some (Ok op, j') \<longrightarrow>
         i \<in> set (op_handle_owners j') \<and> i \<notin> set (op_handle_owners (OpHandle_drop j' op))) \<and>
      (\<forall>e j'. OpHandle_start now freq sched (Some i) j n = Some (Err e, j') \<longrightarrow> i \<notin> set (op_handle_owners j')))"
  by (auto simp: OpHandle_start_def claim_op_handle_def OpHandle_drop_def release_op_handle_def journal_stop_owner
      split: option.splits sum.splits dest: journal_start_owner[where i = i])

theorem op_handles_do_not_nest_witness:
  "OpHandle_start 0 1000 [] (Some 3) ((Journal_new sample_geometry)\<lparr> op_handle_owners := [3] \<rparr>) 1 =
     Some (Err EDEADLK, (Journal_new sample_geometry)\<lparr> op_handle_owners := [3] \<rparr>)"
  using op_handles_do_not_nest[of 3 "(Journal_new sample_geometry)\<lparr> op_handle_owners := [3] \<rparr>" 0 1000 "[]" 1] by simp

end
