(* ===== verification/Handle_Limits.thy ===== *)
theory Handle_Limits
  imports Driver_Correct
begin

text \<open>
  The edges of the reservation protocol: transactions without captures, restarts that fail, captures
  that are refused, and captures on an aborted journal.
\<close>

text \<open>C33: a transaction without captures cannot commit.  A running transaction with no captured block but
  a revoke or a pinned freed run counts as a durable obligation and is staged, and its commit then
  fails and aborts the journal.\<close>

theorem uncaptured_commit_aborts:
  assumes "\<not> aborted j" "committing (jstate j) = None" "locking (jstate j) = None" "running (jstate j) = Some txn"
    and "t_updates txn = 0" "metadata txn = []" "t_revoked txn \<noteq> [] \<or> pins_charged_to (jstate j) (t_tid txn)"
  shows "\<exists>j' d'. commit_one clock now j d Forced = (True, j', d') \<and> aborted j' \<and> committing (jstate j') = None"
proof -
  let ?s = "note_credits_released (stage_running j txn)"
  have "has_durable_obligation (jstate j) txn" using assms(7) by (auto simp: has_durable_obligation_def has_recorded_work_def)
  then have adv: "advance_pipeline j now Forced = (Staged txn, stage_running j txn)"
    using assms(1-5) by (simp add: advance_pipeline_def committable_running_def Let_def)
  obtain r j' d' where run: "commit_staged clock ?s d txn = (r, j', d')" by (metis prod_cases3)
  have slot: "slot_holds ?s txn" by (simp add: slot_holds_def note_credits_released_def stage_committing_def CommittingTxn_new_def)
  have "\<exists>e. attempt_commit clock 0 ?s d txn = (Inl e, ?s, d)"
    using assms(6) by (simp add: attempt_commit_def case_prod_unfold try_commit_transaction_def Let_def build_descriptor_chain_def
        metadata_blocks_def split: sum.split)
  then have "\<exists>e. commit_or_drain_tail clock ?s d txn = (Inl e, ?s, d)"
    by (auto simp: commit_or_drain_tail_def jd_bind_def)
  then have "\<exists>e. r = Inl e" using run by (auto simp: commit_staged_def Let_def split: prod.splits)
  then have "aborted j'" "committing (jstate j') = None"
    using commit_staged_verdict(1)[OF slot run] commit_staged_verdict(4)[OF slot run] by auto
  then show ?thesis using run by (simp add: commit_one_def adv Let_def)
qed

theorem uncaptured_commit_aborts_witness:
  "\<exists>j' d'. commit_one (\<lambda>_ _. (0, 0)) 0
     (sample_running\<lparr> jstate := (jstate sample_running)\<lparr> running := Some ((Transaction_new 0 1000 1)\<lparr> t_revoked := [9] \<rparr>) \<rparr> \<rparr>)
     (mounted sample_image) Forced = (True, j', d') \<and> aborted j'"
proof -
  let ?t = "(Transaction_new 0 1000 1)\<lparr> t_revoked := [9] \<rparr>"
  have "t_updates ?t = 0" "metadata ?t = []" by (simp_all add: Transaction_new_def)
  then show ?thesis
    using uncaptured_commit_aborts[of "sample_running\<lparr> jstate := (jstate sample_running)\<lparr> running := Some ?t \<rparr> \<rparr>" ?t
        "\<lambda>_ _. (0, 0)" 0 "mounted sample_image"] by (auto simp: sample_running_fields)
qed

text \<open>C34: a failed restart gives the handle back twice.  When the re-admission of a restart is refused
  because the new reservation exceeds the credit limit, the handle keeps its transaction and its
  credits although both were already released, so stopping it afterwards releases them again: with
  a second handle open, the transaction looks idle while that handle is still live.\<close>

theorem failed_restart_releases_twice:
  assumes "\<not> aborted j" "running (jstate j) = Some txn" "t_tid txn = h_tid h" "t_updates txn = 2" "n > max_credits (geometry j)"
  shows "\<exists>j1 txn'. journal_restart now freq sched j h n = Some (Err ENOSPC, h, j1) \<and>
    running (jstate (journal_stop j1 h)) = Some txn' \<and> t_tid txn' = t_tid txn \<and> t_updates txn' = 0 \<and>
    outstanding_credits txn' = outstanding_credits txn - 2 * remaining h"
proof -
  let ?j = "restart_release j h"
  have fields: "geometry ?j = geometry j" "running (jstate ?j) = Some (release_handle txn h)"
    using assms(2,3) by (simp_all add: restart_release_def Let_def request_commit_for_def note_credits_released_def set_state_def
        active_txn_mut_def put_active_def)
  have "journal_restart now freq sched j h n = Some (Err ENOSPC, h, ?j)"
    using assms(1,5) fields(1) by (simp add: journal_restart_def admit_def)
  moreover have "running (jstate (journal_stop ?j h)) = Some (release_handle (release_handle txn h) h)"
    using fields(2) assms(3) by (simp add: journal_stop_def Let_def active_txn_mut_def put_active_def note_credits_released_def
        set_state_def release_handle_def)
  ultimately show ?thesis using assms(4) by (simp add: release_handle_def)
qed

theorem failed_restart_releases_twice_witness:
  "\<exists>j1 txn'. journal_restart 0 1000 []
      (sample_running\<lparr> jstate := (jstate sample_running)\<lparr> running := Some (sample_txn\<lparr> t_updates := 2 \<rparr>) \<rparr> \<rparr>) sample_handle 100 =
      Some (Err ENOSPC, sample_handle, j1) \<and> running (jstate (journal_stop j1 sample_handle)) = Some txn' \<and> t_updates txn' = 0"
proof -
  have "max_credits sample_geometry < 100"
    by (simp add: max_credits_def sample_geometry_def tag_layout_def tags_per_descriptor_def
        tag_area_end_def first_tag_offset_def format_consts BLOCK_SIZE_def maxlen_def first_def)
  then show ?thesis
    using failed_restart_releases_twice[of "sample_running\<lparr> jstate := (jstate sample_running)\<lparr> running := Some (sample_txn\<lparr> t_updates := 2 \<rparr>) \<rparr> \<rparr>"
        "sample_txn\<lparr> t_updates := 2 \<rparr>" sample_handle 100 0 1000 "[]"]
    by (auto simp: sample_running_fields sample_handle_def)
qed

text \<open>C35: a refused capture stays captured.  When a first capture is refused with \<open>ENOSPC\<close> because the
  transaction cannot grow, the block is nevertheless captured, so the transaction has one captured
  block more than before.\<close>

theorem refused_capture_stays:
  assumes "running (jstate j) = Some txn" "transaction_ok txn" "t_tid txn = h_tid h" "\<not> is_captured txn bid"
    and "get_create_access_live j h bid = (Err ENOSPC, h', j')"
  shows "\<exists>txn'. running (jstate j') = Some txn' \<and> is_captured txn' bid \<and> nr_metadata_blocks txn' = nr_metadata_blocks txn + 1 \<and>
    max_credits (geometry j) \<le> nr_metadata_blocks txn' + outstanding_credits txn' + nr_revoke_blocks txn' (tag_layout (geometry j))"
proof -
  obtain gen txn1 where cap: "capture_create txn bid = (gen, txn1)" by fastforce
  note n = capture_create_counts[OF assms(2) cap]
  have "is_captured txn1 bid"
    using cap assms(2,4) by (auto simp: capture_create_def is_captured_def mint_capture_generation_def Let_def transaction_ok_def)
  moreover have "charge_fresh_capture (geometry j) txn1 h = (Err ENOSPC, txn1, h)" "running (jstate j') = Some txn1"
    using assms(1,3,5) assms(4) cap
    by (auto simp: get_create_access_live_def active_for_def active_txn_mut_def finish_access_def and_then_def Let_def
        charge_fresh_capture_def try_grow_reservation_def put_active_def set_state_def split: sum.splits if_splits)
  moreover from this(1) have "max_credits (geometry j) \<le>
      nr_metadata_blocks txn1 + outstanding_credits txn1 + nr_revoke_blocks txn1 (tag_layout (geometry j))"
    by (auto simp: charge_fresh_capture_def try_grow_reservation_def reserved_metadata_blocks_def split: if_splits)
  ultimately show ?thesis using n(3) assms(4) by (intro exI[of _ txn1]) simp
qed

text \<open>A handle without credits next to a full transaction: the capture of block 7 is refused and stays.\<close>

definition sample_full_txn :: Transaction where
  "sample_full_txn = (Transaction_new 0 1000 1)\<lparr> t_updates := 2, outstanding_credits := 4 \<rparr>"

definition sample_full :: Journal where
  "sample_full = sample_running\<lparr> jstate := (jstate sample_running)\<lparr> running := Some sample_full_txn \<rparr> \<rparr>"

definition sample_poor_handle :: Handle where
  "sample_poor_handle = \<lparr> h_tid = 1, credits = 0, remaining = 0 \<rparr>"

theorem refused_capture_stays_witness:
  "\<exists>j' txn'. get_create_access_live sample_full sample_poor_handle 7 = (Err ENOSPC, sample_poor_handle, j') \<and>
     running (jstate j') = Some txn' \<and> is_captured txn' 7"
proof -
  have txn: "running (jstate sample_full) = Some sample_full_txn" "transaction_ok sample_full_txn"
    "t_tid sample_full_txn = h_tid sample_poor_handle" "\<not> is_captured sample_full_txn 7" "geometry sample_full = sample_geometry"
    by (simp_all add: sample_full_def sample_full_txn_def Transaction_new_def transaction_ok_def sample_poor_handle_def
        is_captured_def sample_running_fields bt_ok_def bs_ok_def)
  then have "\<exists>j'. get_create_access_live sample_full sample_poor_handle 7 = (Err ENOSPC, sample_poor_handle, j')"
    by (simp add: get_create_access_live_def active_for_def active_txn_mut_def finish_access_def and_then_def Let_def
        charge_fresh_capture_def try_grow_reservation_def case_prod_unfold sample_max_credits sample_poor_handle_def
        reserved_metadata_blocks_def nr_metadata_blocks_def sample_full_txn_def Transaction_new_def capture_create_def
        mint_capture_generation_def EXTEND_BATCH_BLOCKS_def)
  then obtain j' where "get_create_access_live sample_full sample_poor_handle 7 = (Err ENOSPC, sample_poor_handle, j')" by blast
  from refused_capture_stays[OF txn(1-4) this] this show ?thesis by blast
qed

text \<open>Captures do not look at the abort flag: they behave on an aborted journal as before the abort.\<close>

lemma captures_ignore_abort:
  "fst (get_write_access (abort j) d handle bid) = fst (get_write_access j d handle bid) \<and>
   fst (get_create_access (abort j) handle bid) = fst (get_create_access j handle bid)"
  by (simp add: get_write_access_def get_create_access_def get_write_access_live_def get_create_access_live_def
      finish_access_def abort_def Let_def case_prod_unfold split: option.split sum.split)

end
