(* ===== verification/Extent_Node.thy ===== *)
theory Extent_Node
  imports Bytes
begin

text \<open>
  The on-disk extent structures of \<open>inode/extent_manager/node.rs\<close> and their decoded forms: the
  12-byte node header, the interior index entry and the leaf extent, whose length field carries
  the unwritten mark as a bias.  Debug assertions are not modelled; arithmetic wraps at its width.
\<close>

unbundle bit_operations_syntax

type_synonym Iblock = u32

section \<open>Raw structures\<close>

definition EXTENT_MAGIC :: u16 where
  "EXTENT_MAGIC = 0xF30A"

definition MAX_WRITTEN_LEN :: u16 where
  "MAX_WRITTEN_LEN = 32768"

definition MAX_UNWRITTEN_LEN :: u16 where
  "MAX_UNWRITTEN_LEN = MAX_WRITTEN_LEN - 1"

definition ENTRY_SIZE :: nat where
  "ENTRY_SIZE = 12"

record RawExtentHeader =
  eh_magic :: u16
  eh_entries :: u16
  eh_max :: u16
  eh_depth :: u16
  eh_generation :: u32

record RawExtentIdx =
  ei_block :: u32
  ei_leaf_lo :: u32
  ei_leaf_hi :: u16
  ei_unused :: u16

record RawExtent =
  ee_block :: u32
  ee_len :: u16
  ee_start_hi :: u16
  ee_start_lo :: u32

definition RawExtentHeader_from_bytes :: "bytes \<Rightarrow> RawExtentHeader" where
  "RawExtentHeader_from_bytes b =
     \<lparr> eh_magic = word_of_le (slice 0 2 b), eh_entries = word_of_le (slice 2 2 b), eh_max = word_of_le (slice 4 2 b),
       eh_depth = word_of_le (slice 6 2 b), eh_generation = word_of_le (slice 8 4 b) \<rparr>"

definition RawExtentHeader_as_bytes :: "RawExtentHeader \<Rightarrow> bytes" where
  "RawExtentHeader_as_bytes h =
     le16 (eh_magic h) @ le16 (eh_entries h) @ le16 (eh_max h) @ le16 (eh_depth h) @ le32 (eh_generation h)"

definition RawExtentIdx_from_bytes :: "bytes \<Rightarrow> RawExtentIdx" where
  "RawExtentIdx_from_bytes b =
     \<lparr> ei_block = word_of_le (slice 0 4 b), ei_leaf_lo = word_of_le (slice 4 4 b), ei_leaf_hi = word_of_le (slice 8 2 b),
       ei_unused = word_of_le (slice 10 2 b) \<rparr>"

definition RawExtentIdx_as_bytes :: "RawExtentIdx \<Rightarrow> bytes" where
  "RawExtentIdx_as_bytes i = le32 (ei_block i) @ le32 (ei_leaf_lo i) @ le16 (ei_leaf_hi i) @ le16 (ei_unused i)"

definition RawExtent_from_bytes :: "bytes \<Rightarrow> RawExtent" where
  "RawExtent_from_bytes b =
     \<lparr> ee_block = word_of_le (slice 0 4 b), ee_len = word_of_le (slice 4 2 b), ee_start_hi = word_of_le (slice 6 2 b),
       ee_start_lo = word_of_le (slice 8 4 b) \<rparr>"

definition RawExtent_as_bytes :: "RawExtent \<Rightarrow> bytes" where
  "RawExtent_as_bytes e = le32 (ee_block e) @ le16 (ee_len e) @ le16 (ee_start_hi e) @ le32 (ee_start_lo e)"

section \<open>Decoded structures\<close>

record ExtentHeader =
  xh_entries :: u16
  xh_max :: u16
  xh_depth :: u16

definition ExtentHeader_is_leaf :: "ExtentHeader \<Rightarrow> bool" where
  "ExtentHeader_is_leaf h \<longleftrightarrow> xh_depth h = 0"

definition ExtentHeader_from_trusted :: "RawExtentHeader \<Rightarrow> ExtentHeader" where
  "ExtentHeader_from_trusted raw = \<lparr> xh_entries = eh_entries raw, xh_max = eh_max raw, xh_depth = eh_depth raw \<rparr>"

definition ExtentHeader_try_from :: "RawExtentHeader \<Rightarrow> ExtentHeader result" where
  "ExtentHeader_try_from raw =
     (if eh_magic raw \<noteq> EXTENT_MAGIC then Err EUCLEAN
      else if eh_entries raw > eh_max raw then Err EUCLEAN
      else if eh_depth raw > 5 then Err EUCLEAN
      else Ok \<lparr> xh_entries = eh_entries raw, xh_max = eh_max raw, xh_depth = eh_depth raw \<rparr>)"

record ExtentIdx =
  xi_block :: Iblock
  xi_leaf :: u64

definition ExtentIdx_from :: "RawExtentIdx \<Rightarrow> ExtentIdx" where
  "ExtentIdx_from raw =
     \<lparr> xi_block = ei_block raw, xi_leaf = ucast (ei_leaf_lo raw) OR push_bit 32 (ucast (ei_leaf_hi raw)) \<rparr>"

datatype ExtentKind = Written | Unwritten

definition is_unwritten :: "ExtentKind \<Rightarrow> bool" where
  "is_unwritten k \<longleftrightarrow> k = Unwritten"

record Extent =
  x_block :: Iblock
  x_len :: u16
  x_start :: u64
  x_kind :: ExtentKind

definition Extent_new :: "Iblock \<Rightarrow> u16 \<Rightarrow> u64 \<Rightarrow> ExtentKind \<Rightarrow> Extent" where
  "Extent_new block n start kind = \<lparr> x_block = block, x_len = n, x_start = start, x_kind = kind \<rparr>"

definition covers :: "Extent \<Rightarrow> Iblock \<Rightarrow> bool" where
  "covers e iblock \<longleftrightarrow> iblock \<ge> x_block e \<and> (ucast iblock :: u64) < ucast (x_block e) + ucast (x_len e)"

definition Extent_from :: "RawExtent \<Rightarrow> Extent" where
  "Extent_from raw =
     (let unwritten = ee_len raw > MAX_WRITTEN_LEN in
      \<lparr> x_block = ee_block raw,
        x_len = (if unwritten then ee_len raw - MAX_WRITTEN_LEN else ee_len raw),
        x_start = ucast (ee_start_lo raw) OR push_bit 32 (ucast (ee_start_hi raw)),
        x_kind = (if unwritten then Unwritten else Written) \<rparr>)"

definition RawExtent_from :: "Extent \<Rightarrow> RawExtent" where
  "RawExtent_from e =
     \<lparr> ee_block = x_block e,
       ee_len = (if is_unwritten (x_kind e) then x_len e + MAX_WRITTEN_LEN else x_len e),
       ee_start_hi = ucast (drop_bit 32 (x_start e)),
       ee_start_lo = ucast (x_start e) \<rparr>"

section \<open>Round trips\<close>

lemma raw_extent_lengths [simp, bytes_simps]:
  "length (RawExtentHeader_as_bytes h) = 12" "length (RawExtentIdx_as_bytes i) = 12" "length (RawExtent_as_bytes e) = 12"
  by (simp_all add: RawExtentHeader_as_bytes_def RawExtentIdx_as_bytes_def RawExtent_as_bytes_def)

lemma RawExtentHeader_round_trip [simp]: "RawExtentHeader_from_bytes (RawExtentHeader_as_bytes h) = h"
  by (simp add: RawExtentHeader_from_bytes_def RawExtentHeader_as_bytes_def)

lemma RawExtentIdx_round_trip [simp]: "RawExtentIdx_from_bytes (RawExtentIdx_as_bytes i) = i"
  by (simp add: RawExtentIdx_from_bytes_def RawExtentIdx_as_bytes_def)

lemma RawExtent_round_trip [simp]: "RawExtent_from_bytes (RawExtent_as_bytes e) = e"
  by (simp add: RawExtent_from_bytes_def RawExtent_as_bytes_def)

text \<open>A 48-bit block number survives the split into a low and a high half.\<close>

lemma split_48:
  fixes w :: u64
  assumes "w < 2 ^ 48"
  shows "ucast (ucast w :: u32) OR push_bit 32 (ucast (ucast (drop_bit 32 w) :: u16)) = w"
proof (rule bit_eqI)
  fix n
  have "take_bit 48 w = w" using assms by (simp add: take_bit_eq_mask less_mask_eq)
  then have "\<not> bit w n" if "48 \<le> n" using that by (metis bit_take_bit_iff linorder_not_less)
  then show "bit (ucast (ucast w :: u32) OR push_bit 32 (ucast (ucast (drop_bit 32 w) :: u16)) :: u64) n = bit w n"
    using bit_imp_le_length[of w n] by (cases "n < 48") (auto simp: bit_simps less_diff_conv2)
qed

text \<open>The extents the on-disk format can express.\<close>

definition encodable :: "Extent \<Rightarrow> bool" where
  "encodable e \<longleftrightarrow> x_start e < 2 ^ 48 \<and>
     (case x_kind e of Written \<Rightarrow> x_len e \<le> MAX_WRITTEN_LEN | Unwritten \<Rightarrow> 0 < x_len e \<and> x_len e \<le> MAX_UNWRITTEN_LEN)"

lemma Extent_round_trip:
  assumes "encodable e"
  shows "Extent_from (RawExtent_from e) = e"
proof -
  have start: "x_start e < 2 ^ 48" using assms by (simp add: encodable_def)
  have big: "\<not> x_len e > MAX_WRITTEN_LEN" if "x_kind e = Written" using assms that by (simp add: encodable_def not_less)
  have bias: "x_len e + MAX_WRITTEN_LEN > MAX_WRITTEN_LEN" if "x_kind e = Unwritten"
  proof -
    have "0 < unat (x_len e)" "unat (x_len e) \<le> 32767"
      using assms that by (auto simp: encodable_def MAX_UNWRITTEN_LEN_def MAX_WRITTEN_LEN_def word_less_nat_alt word_le_nat_alt)
    then show ?thesis by (simp add: MAX_WRITTEN_LEN_def word_less_nat_alt unat_word_ariths)
  qed
  show ?thesis
    using split_48[OF start] big bias
    by (cases "x_kind e") (simp_all add: Extent_from_def RawExtent_from_def is_unwritten_def Let_def)
qed

end
