(* ===== verification/Extent_Map.thy ===== *)
theory Extent_Map
  imports Extent_Node "HOL-Library.Multiset"
begin

text \<open>
  The list computations of the extent tree (\<open>inode/extent_manager/tree.rs\<close> and \<open>mod.rs\<close>): merging,
  converting unwritten ranges, the splits of truncation and hole punching, and hole planning.  An
  extent list stands for a partial map from logical blocks to physical blocks with a written mark;
  each computation is characterised by what it does to that map.
\<close>

section \<open>The computations\<close>

text \<open>\<open>block + len\<close> at the two widths the source uses.\<close>

definition end64 :: "Extent \<Rightarrow> u64" where
  "end64 e = ucast (x_block e) + ucast (x_len e)"

definition end32 :: "Extent \<Rightarrow> Iblock" where
  "end32 e = x_block e + ucast (x_len e)"

definition contiguous :: "Extent \<Rightarrow> Extent \<Rightarrow> bool" where
  "contiguous lst e \<longleftrightarrow>
     (let max_len = (if is_unwritten (x_kind lst) then ucast MAX_WRITTEN_LEN - 1 else ucast MAX_WRITTEN_LEN :: u32) in
      end64 lst = ucast (x_block e) \<and> x_start lst + ucast (x_len lst) = x_start e \<and>
      is_unwritten (x_kind lst) = is_unwritten (x_kind e) \<and> ucast (x_len lst) + ucast (x_len e) \<le> max_len)"

text \<open>The accumulator is the merged vector, last element first.\<close>

fun merge_loop :: "Extent list \<Rightarrow> Extent list \<Rightarrow> Extent list" where
  "merge_loop merged [] = rev merged"
| "merge_loop [] (e # es) = merge_loop [e] es"
| "merge_loop (lst # merged) (e # es) =
     (if contiguous lst e
      then merge_loop (Extent_new (x_block lst) (x_len lst + x_len e) (x_start lst) (x_kind lst) # merged) es
      else merge_loop (e # lst # merged) es)"

definition merge_extents :: "Extent list \<Rightarrow> Extent list" where
  "merge_extents es = merge_loop [] (sort_key x_block es)"

definition overlaps_range :: "Extent \<Rightarrow> Iblock \<Rightarrow> u64 \<Rightarrow> bool" where
  "overlaps_range e range_start range_end \<longleftrightarrow> ucast (x_block e) < range_end \<and> end64 e > ucast range_start"

definition convert_extent :: "Iblock \<Rightarrow> u64 \<Rightarrow> Extent \<Rightarrow> Extent list" where
  "convert_extent range_start range_end e =
     (let e_start = x_block e; e_end = end64 e in
      if \<not> is_unwritten (x_kind e) \<or> e_end \<le> ucast range_start \<or> ucast e_start \<ge> range_end then [e]
      else
        let ov_start = max e_start range_start; ov_end = ucast (min e_end range_end) :: Iblock in
        (if ov_start > e_start then [Extent_new e_start (ucast (ov_start - e_start)) (x_start e) Unwritten] else []) @
        [Extent_new ov_start (ucast (ov_end - ov_start)) (x_start e + ucast (ov_start - e_start)) Written] @
        (if ucast ov_end < e_end
         then [Extent_new ov_end (ucast (e_end - ucast ov_end)) (x_start e + ucast (ov_end - e_start)) Unwritten] else []))"

definition convert_extents :: "Iblock \<Rightarrow> u64 \<Rightarrow> Extent list \<Rightarrow> Extent list" where
  "convert_extents range_start range_end es = merge_extents (concat (map (convert_extent range_start range_end) es))"

text \<open>What truncation to \<open>keep_blocks\<close> keeps, splits and frees.\<close>

definition truncate_kept :: "Iblock \<Rightarrow> Extent list \<Rightarrow> Extent list" where
  "truncate_kept keep_blocks es = filter (\<lambda>e. end32 e \<le> keep_blocks) es"

definition truncate_straddler :: "Iblock \<Rightarrow> Extent list \<Rightarrow> Extent option" where
  "truncate_straddler keep_blocks es = find (\<lambda>e. x_block e < keep_blocks \<and> end32 e > keep_blocks) es"

definition sort_descending :: "Extent list \<Rightarrow> Extent list" where
  "sort_descending es = sort_key (\<lambda>e. - int (unat (x_block e))) es"

definition truncate_doomed :: "Iblock \<Rightarrow> Extent list \<Rightarrow> Extent list" where
  "truncate_doomed keep_blocks es = sort_descending (filter (\<lambda>e. x_block e \<ge> keep_blocks) es)"






text \<open>Hole planning by interval subtraction.\<close>

record HoleRun =
  hole_start :: Iblock
  hole_end :: Iblock

fun holes_loop :: "Iblock \<Rightarrow> Iblock \<Rightarrow> Extent list \<Rightarrow> HoleRun list" where
  "holes_loop stop cursor [] = (if cursor < stop then [\<lparr> hole_start = cursor, hole_end = stop \<rparr>] else [])"
| "holes_loop stop cursor (e # es) =
     (let e_start = x_block e; e_end = end32 e in
      if e_end \<le> cursor then holes_loop stop cursor es
      else if e_start \<ge> stop then (if cursor < stop then [\<lparr> hole_start = cursor, hole_end = stop \<rparr>] else [])
      else
        let cursor' = max cursor e_end in
        (if e_start > cursor then [\<lparr> hole_start = cursor, hole_end = min e_start stop \<rparr>] else []) @
        (if cursor' \<ge> stop then [] else holes_loop stop cursor' es))"

definition compute_holes :: "Extent list \<Rightarrow> Iblock \<Rightarrow> Iblock \<Rightarrow> HoleRun list" where
  "compute_holes es start stop = holes_loop stop start es"

section \<open>Extent lists as maps\<close>

definition lo :: "Extent \<Rightarrow> nat" where
  "lo e = unat (x_block e)"

definition hi :: "Extent \<Rightarrow> nat" where
  "hi e = unat (x_block e) + unat (x_len e)"

text \<open>Where extent \<open>e\<close> maps the logical block \<open>b\<close>.\<close>

definition ext_at :: "Extent \<Rightarrow> nat \<Rightarrow> (u64 \<times> ExtentKind) option" where
  "ext_at e b = (if lo e \<le> b \<and> b < hi e then Some (x_start e + word_of_nat (b - lo e), x_kind e) else None)"

fun ext_map :: "Extent list \<Rightarrow> nat \<Rightarrow> (u64 \<times> ExtentKind) option" where
  "ext_map [] b = None"
| "ext_map (e # es) b = (case ext_at e b of Some v \<Rightarrow> Some v | None \<Rightarrow> ext_map es b)"

text \<open>A well-formed extent: not empty, within the logical address space, encodable, and within the
  48-bit physical address space.\<close>

definition ext_ok :: "Extent \<Rightarrow> bool" where
  "ext_ok e \<longleftrightarrow> 0 < unat (x_len e) \<and> hi e < 2 ^ 32 \<and> unat (x_start e) + unat (x_len e) \<le> 2 ^ 48 \<and>
     unat (x_len e) \<le> (case x_kind e of Written \<Rightarrow> 32768 | Unwritten \<Rightarrow> 32767)"

definition apart :: "Extent \<Rightarrow> Extent \<Rightarrow> bool" where
  "apart x y \<longleftrightarrow> hi x \<le> lo y \<or> hi y \<le> lo x"

text \<open>Lists in any order without overlap, and lists in logical order.\<close>

definition extents_apart :: "Extent list \<Rightarrow> bool" where
  "extents_apart es \<longleftrightarrow> (\<forall>e\<in>set es. ext_ok e) \<and> sorted_wrt apart es"

definition extents_ok :: "Extent list \<Rightarrow> bool" where
  "extents_ok es \<longleftrightarrow> (\<forall>e\<in>set es. ext_ok e) \<and> sorted_wrt (\<lambda>x y. hi x \<le> lo y) es"

named_theorems extent_simps \<open>values of the extent arithmetic\<close>

lemma hi_bound: "hi e < 2 ^ 33"
  using unat_bound[of "x_block e"] unat_bound[of "x_len e"] by (simp add: hi_def)

lemma unat_end64 [extent_simps]: "unat (end64 e) = hi e"
proof -
  have "unat (ucast (x_block e) :: u64) = unat (x_block e)" "unat (ucast (x_len e) :: u64) = unat (x_len e)"
    by (simp_all add: unat_ucast_up)
  then show ?thesis using hi_bound[of e] unfolding end64_def hi_def by (subst unat_add_small) simp_all
qed

lemma unat_end32 [extent_simps]: "ext_ok e \<Longrightarrow> unat (end32 e) = hi e"
proof -
  assume "ext_ok e"
  moreover have "unat (ucast (x_len e) :: u32) = unat (x_len e)" by (simp add: unat_ucast_up)
  ultimately show ?thesis unfolding end32_def hi_def ext_ok_def by (subst unat_add_small) simp_all
qed

lemma lo_less_hi: "ext_ok e \<Longrightarrow> lo e < hi e"
  by (simp add: ext_ok_def lo_def hi_def)


lemma ext_at_iff: "ext_at e b = Some v \<longleftrightarrow> lo e \<le> b \<and> b < hi e \<and> v = (x_start e + word_of_nat (b - lo e), x_kind e)"
  by (auto simp: ext_at_def)

lemma ext_map_None: "ext_map es b = None \<longleftrightarrow> (\<forall>e\<in>set es. ext_at e b = None)"
  by (induction es) (auto split: option.split)

text \<open>Without overlap the order does not matter.\<close>

lemma ext_map_iff:
  assumes "sorted_wrt apart es"
  shows "ext_map es b = Some v \<longleftrightarrow> (\<exists>e\<in>set es. ext_at e b = Some v)"
  using assms
proof (induction es)
  case (Cons e es)
  then show ?case by (auto simp: ext_at_def apart_def split: option.split)
qed simp

lemma ext_map_cong:
  assumes "sorted_wrt apart es" "sorted_wrt apart es'" "set es = set es'"
  shows "ext_map es b = ext_map es' b"
proof (cases "ext_map es b")
  case None
  then show ?thesis using assms(3) by (metis ext_map_None)
next
  case (Some v)
  then show ?thesis using ext_map_iff[OF assms(1), of b v] ext_map_iff[OF assms(2), of b v] assms(3) by simp
qed

lemma ext_map_append: "ext_map (xs @ ys) b = (case ext_map xs b of Some v \<Rightarrow> Some v | None \<Rightarrow> ext_map ys b)"
  by (induction xs) (auto split: option.split)

lemma extents_ok_apart: "extents_ok es \<Longrightarrow> extents_apart es"
  by (auto simp: extents_ok_def extents_apart_def apart_def elim: sorted_wrt_mono_rel[rotated])

section \<open>Sorting and merging\<close>

lemma extents_ok_Cons [simp]:
  "extents_ok (e # es) \<longleftrightarrow> ext_ok e \<and> (\<forall>x\<in>set es. hi e \<le> lo x) \<and> extents_ok es"
  by (auto simp: extents_ok_def)

lemma extents_ok_Nil [simp]: "extents_ok []"
  by (simp add: extents_ok_def)

lemma extents_ok_append:
  "extents_ok (xs @ ys) \<longleftrightarrow> extents_ok xs \<and> extents_ok ys \<and> (\<forall>x\<in>set xs. \<forall>y\<in>set ys. hi x \<le> lo y)"
  by (auto simp: extents_ok_def sorted_wrt_append)

lemma extents_okD: "extents_ok es \<Longrightarrow> e \<in> set es \<Longrightarrow> ext_ok e"
  by (simp add: extents_ok_def)

lemma insort_extents_ok:
  assumes "extents_ok es" "ext_ok e" "\<forall>x\<in>set es. apart e x"
  shows "extents_ok (insort_key x_block e es)"
  using assms
proof (induction es)
  case (Cons y ys)
  then have y: "lo y < hi y" "lo e < hi e" "hi e \<le> lo y \<or> hi y \<le> lo e" by (auto simp: lo_less_hi apart_def)
  show ?case
  proof (cases "x_block e \<le> x_block y")
    case True
    then have "hi e \<le> lo y" using y by (simp add: lo_def word_le_nat_alt)
    then show ?thesis using Cons.prems True y(1) by force
  next
    case False
    then have "hi y \<le> lo e" using y by (auto simp: lo_def word_le_nat_alt)
    then show ?thesis using Cons False by (auto simp: set_insort_key)
  qed
qed simp

lemma sort_extents_ok:
  assumes "extents_apart es"
  shows "extents_ok (sort_key x_block es)" "ext_map (sort_key x_block es) b = ext_map es b"
proof -
  show *: "extents_ok (sort_key x_block es)"
    using assms
    by (induction es) (auto simp: extents_apart_def intro!: insort_extents_ok)
  show "ext_map (sort_key x_block es) b = ext_map es b"
    using extents_ok_apart[OF *] assms by (intro ext_map_cong) (auto simp: extents_apart_def)
qed

lemma sort_extents_sorted: "extents_ok es \<Longrightarrow> sort_key x_block es = es"
proof (induction es)
  case (Cons e es)
  then have "\<forall>x\<in>set es. x_block e \<le> x_block x"
    by (auto simp: word_le_nat_alt lo_def dest!: lo_less_hi)
  then show ?case using Cons by (simp add: insort_is_Cons)
qed simp

text \<open>Two contiguous extents and the one that replaces them.\<close>

lemma contiguous_merge:
  fixes l e :: Extent
  defines "m \<equiv> Extent_new (x_block l) (x_len l + x_len e) (x_start l) (x_kind l)"
  assumes "contiguous l e" "ext_ok l" "ext_ok e"
  shows "ext_ok m" "lo m = lo l" "hi m = hi e" "hi l = lo e"
    "ext_at m b = (case ext_at l b of Some v \<Rightarrow> Some v | None \<Rightarrow> ext_at e b)"
proof -
  have c: "end64 l = ucast (x_block e)" "x_start l + ucast (x_len l) = x_start e" "x_kind l = x_kind e"
    "ucast (x_len l) + ucast (x_len e) \<le> (if is_unwritten (x_kind l) then ucast MAX_WRITTEN_LEN - 1 else ucast MAX_WRITTEN_LEN :: u32)"
    using assms(2) by (cases "x_kind l"; cases "x_kind e"; simp add: contiguous_def Let_def is_unwritten_def)+
  show hl: "hi l = lo e" using arg_cong[OF c(1), of unat] by (simp add: unat_end64 unat_ucast_up lo_def)
  have u: "unat (ucast (x_len l) :: u32) = unat (x_len l)" "unat (ucast (x_len e) :: u32) = unat (x_len e)"
    by (simp_all add: unat_ucast_up)
  have small: "unat (x_len l) < 2 ^ 16" "unat (x_len e) < 2 ^ 16" using unat_bound[of "x_len l"] unat_bound[of "x_len e"] by simp_all
  have "unat (ucast (x_len l) + ucast (x_len e) :: u32) = unat (x_len l) + unat (x_len e)"
    using u small by (subst unat_add_small) simp_all
  then have sum: "unat (x_len l) + unat (x_len e) \<le> (case x_kind l of Written \<Rightarrow> 32768 | Unwritten \<Rightarrow> 32767)"
    using c(4) by (cases "x_kind l") (simp_all add: word_le_nat_alt is_unwritten_def MAX_WRITTEN_LEN_def)
  then have len: "unat (x_len l + x_len e) = unat (x_len l) + unat (x_len e)"
    by (intro unat_add_small) (simp split: ExtentKind.splits)
  show lm: "lo m = lo l" by (simp add: m_def Extent_new_def lo_def)
  show hm: "hi m = hi e" using hl by (simp add: m_def Extent_new_def hi_def lo_def len)
  have st: "unat (x_start e) = unat (x_start l) + unat (x_len l)"
  proof -
    have "unat (x_start l + ucast (x_len l)) = unat (x_start l) + unat (x_len l)"
      using assms(3) by (subst unat_add_small) (simp_all add: unat_ucast_up ext_ok_def)
    then show ?thesis using c(2) by simp
  qed
  show "ext_ok m" using assms(3,4) sum st hm by (auto simp: ext_ok_def m_def Extent_new_def len)
  have "x_start l + word_of_nat (b - lo l) = x_start e + word_of_nat (b - lo e)" if "lo e \<le> b" for b
  proof -
    have "b - lo l = unat (x_len l) + (b - lo e)" using that hl by (simp add: hi_def lo_def)
    then have "(word_of_nat (b - lo l) :: u64) = ucast (x_len l) + word_of_nat (b - lo e)" by (simp only: of_nat_add ucast_word_of_nat)
    then show ?thesis using c(2) by (simp add: add.assoc[symmetric])
  qed
  then show "ext_at m b = (case ext_at l b of Some v \<Rightarrow> Some v | None \<Rightarrow> ext_at e b)"
    using hl lm hm c(3) lo_less_hi[OF assms(3)] lo_less_hi[OF assms(4)] by (auto simp: ext_at_def m_def Extent_new_def)
qed

lemma merge_loop_ok:
  assumes "extents_ok (rev merged @ es)"
  shows "extents_ok (merge_loop merged es)" "ext_map (merge_loop merged es) b = ext_map (rev merged @ es) b"
proof -
  have "extents_ok (merge_loop merged es) \<and> ext_map (merge_loop merged es) b = ext_map (rev merged @ es) b"
    using assms
  proof (induction merged es rule: merge_loop.induct)
    case (3 lst merged e es)
    show ?case
    proof (cases "contiguous lst e")
      case True
      let ?m = "Extent_new (x_block lst) (x_len lst + x_len e) (x_start lst) (x_kind lst)"
      have ok: "ext_ok lst" "ext_ok e" using "3.prems" by (auto simp: extents_ok_append)
      note m = contiguous_merge[OF True ok]
      have "extents_ok (rev (?m # merged) @ es)"
        using "3.prems" m(1-3) by (auto simp: extents_ok_append)
      moreover have "ext_map (rev (?m # merged) @ es) b = ext_map (rev (lst # merged) @ e # es) b"
        by (simp add: ext_map_append m(5) split: option.split)
      ultimately show ?thesis using "3.IH"(1)[OF True] True by simp
    next
      case False
      then show ?thesis using "3.IH"(2)[OF False] "3.prems" by simp
    qed
  qed simp_all
  then show "extents_ok (merge_loop merged es)" "ext_map (merge_loop merged es) b = ext_map (rev merged @ es) b" by blast+
qed

lemma merge_extents_ok:
  assumes "extents_apart es"
  shows "extents_ok (merge_extents es)" "ext_map (merge_extents es) b = ext_map es b"
  using merge_loop_ok[of "[]" "sort_key x_block es"] sort_extents_ok[OF assms] by (simp_all add: merge_extents_def)

section \<open>Cutting extents\<close>

text \<open>A piece \<open>[a, c)\<close> of an extent with the same physical mapping, possibly marked written.\<close>

definition is_piece :: "Extent \<Rightarrow> Extent \<Rightarrow> nat \<Rightarrow> nat \<Rightarrow> ExtentKind \<Rightarrow> bool" where
  "is_piece s e a c k \<longleftrightarrow> ext_ok s \<and> lo s = a \<and> hi s = c \<and>
     (\<forall>b. ext_at s b = (if a \<le> b \<and> b < c then Some (x_start e + word_of_nat (b - lo e), k) else None))"

lemma piece:
  fixes e :: Extent
  assumes "ext_ok e" "lo e \<le> a" "a < c" "c \<le> hi e" "unat blk = a" "unat n = c - a" "start = x_start e + word_of_nat (a - lo e)"
    and "k = x_kind e \<or> k = Written"
  shows "is_piece (Extent_new blk n start k) e a c k"
proof -
  let ?s = "Extent_new blk n start k"
  have lo: "lo ?s = a" and hi: "hi ?s = c" using assms(3,5,6) by (simp_all add: Extent_new_def lo_def hi_def)
  have len: "c - a \<le> unat (x_len e) - (a - lo e)" "a - lo e < unat (x_len e)" using assms(2-4) by (simp_all add: hi_def lo_def)
  have bound: "unat (x_start e) + unat (x_len e) \<le> 2 ^ 48" "unat (x_len e) \<le> 32768" using assms(1)
    by (auto simp: ext_ok_def split: ExtentKind.splits)
  have "unat (word_of_nat (a - lo e) :: u64) = a - lo e"
    using len(2) bound(2) by (simp add: unsigned_of_nat take_bit_nat_eq_self_iff)
  then have "unat start = unat (x_start e) + (a - lo e)"
    unfolding assms(7) using len(2) bound by (subst unat_add_small) simp_all
  then have "ext_ok ?s"
    using assms(1,3,4,6,8) hi len bound by (auto simp: ext_ok_def Extent_new_def split: ExtentKind.splits)
  moreover have "(word_of_nat (a - lo e) :: u64) + word_of_nat (b - a) = word_of_nat (b - lo e)" if "a \<le> b" for b
    using that assms(2) by (simp add: of_nat_add[symmetric] del: of_nat_add)
  then have "ext_at ?s b = (if a \<le> b \<and> b < c then Some (x_start e + word_of_nat (b - lo e), k) else None)" for b
    using lo hi by (simp add: ext_at_def Extent_new_def assms(7) add.assoc)
  ultimately show ?thesis using lo hi by (simp add: is_piece_def)
qed

text \<open>Replacing every extent by pieces of itself.\<close>

definition pieces_of ::
    "(nat \<Rightarrow> u64 \<times> ExtentKind \<Rightarrow> (u64 \<times> ExtentKind) option) \<Rightarrow> Extent \<Rightarrow> Extent list \<Rightarrow> bool" where
  "pieces_of G e ps \<longleftrightarrow> extents_ok ps \<and> (\<forall>x\<in>set ps. lo e \<le> lo x \<and> hi x \<le> hi e) \<and>
     (\<forall>b. ext_map ps b = Option.bind (ext_at e b) (G b))"

lemma concat_pieces:
  assumes "extents_ok es" "\<forall>e\<in>set es. pieces_of G e (f e)"
  shows "extents_ok (concat (map f es))" "ext_map (concat (map f es)) b = Option.bind (ext_map es b) (G b)"
    "\<forall>x\<in>set (concat (map f es)). \<exists>e\<in>set es. lo e \<le> lo x \<and> hi x \<le> hi e"
proof -
  have "extents_ok (concat (map f es)) \<and> (\<forall>x\<in>set (concat (map f es)). \<exists>e\<in>set es. lo e \<le> lo x \<and> hi x \<le> hi e) \<and>
      ext_map (concat (map f es)) b = Option.bind (ext_map es b) (G b)"
    using assms
  proof (induction es)
    case (Cons e es)
    then have IH: "extents_ok (concat (map f es))" "\<forall>x\<in>set (concat (map f es)). \<exists>e\<in>set es. lo e \<le> lo x \<and> hi x \<le> hi e"
      "ext_map (concat (map f es)) b = Option.bind (ext_map es b) (G b)" by auto
    have e: "extents_ok (f e)" "\<forall>x\<in>set (f e). lo e \<le> lo x \<and> hi x \<le> hi e" "ext_map (f e) b = Option.bind (ext_at e b) (G b)"
      "\<forall>x\<in>set es. hi e \<le> lo x" using Cons.prems by (auto simp: pieces_of_def)
    have "\<forall>x\<in>set (f e). \<forall>y\<in>set (concat (map f es)). hi x \<le> lo y" using e(2,4) IH(2) by (meson le_trans)
    then have "extents_ok (concat (map f (e # es)))" using e(1) IH(1) by (auto simp: extents_ok_append)
    moreover have "ext_map es b = None" if "ext_at e b \<noteq> None"
      using that e(4) by (auto simp: ext_map_None ext_at_def split: if_splits)
    ultimately show ?case using e(2,3) IH(2,3) by (cases "ext_at e b") (auto simp: ext_map_append split: option.splits)
  qed simp
  then show "extents_ok (concat (map f es))" "ext_map (concat (map f es)) b = Option.bind (ext_map es b) (G b)"
    "\<forall>x\<in>set (concat (map f es)). \<exists>e\<in>set es. lo e \<le> lo x \<and> hi x \<le> hi e" by blast+
qed

text \<open>The middle of a cut: the words the source computes, as numbers.\<close>

lemma word_max_min:
  "unat (max a b) = max (unat a) (unat b)" "unat (min a b) = min (unat a) (unat b)" for a b :: "'a::len word"
  by (simp_all add: max_def min_def word_le_nat_alt)

lemma ext_ok_bounds:
  "ext_ok e \<Longrightarrow> hi e < 2 ^ 32" "ext_ok e \<Longrightarrow> hi e - lo e \<le> 32768" "ext_ok e \<Longrightarrow> lo e < hi e"
  by (auto simp: ext_ok_def hi_def lo_def split: ExtentKind.splits)

lemma head_piece:
  assumes "ext_ok e" "unat os = a" "lo e < a" "a \<le> hi e"
  shows "is_piece (Extent_new (x_block e) (ucast (os - x_block e)) (x_start e) (x_kind e)) e (lo e) a (x_kind e)"
proof -
  have lb: "unat (x_block e) = lo e" by (simp add: lo_def)
  have "unat (ucast (os - x_block e) :: u16) = a - lo e"
    using assms ext_ok_bounds[OF assms(1)] by (intro ucast_diff(1)[OF assms(2) lb]) simp_all
  from piece[OF assms(1) order_refl assms(3,4) lb this _ disjI1[OF refl], of "x_start e"] show ?thesis by simp
qed

lemma middle_piece:
  assumes "ext_ok e" "unat os = a" "lo e \<le> a" "a < c" "c \<le> hi e" "unat n = c - a" "k = x_kind e \<or> k = Written"
  shows "is_piece (Extent_new os n (x_start e + ucast (os - x_block e)) k) e a c k"
proof -
  have lb: "unat (x_block e) = lo e" by (simp add: lo_def)
  have "(ucast (os - x_block e) :: u64) = word_of_nat (a - lo e)"
    using assms ext_ok_bounds[OF assms(1)] by (intro ucast_diff(2)[OF assms(2) lb]) simp_all
  then show ?thesis using piece[OF assms(1,3-5,2,6) _ assms(7)] by simp
qed

lemma tail_piece:
  assumes "ext_ok e" "unat oe = c" "lo e \<le> c" "c < hi e"
  shows "is_piece (Extent_new oe (ucast (end64 e - ucast oe)) (x_start e + ucast (oe - x_block e)) (x_kind e)) e c (hi e) (x_kind e)"
proof -
  have "unat (ucast oe :: u64) = c" using assms(2) by (simp add: unat_ucast_up)
  then have "unat (ucast (end64 e - ucast oe) :: u16) = hi e - c"
    using assms ext_ok_bounds[OF assms(1)] by (intro ucast_diff(1)[OF unat_end64]) simp_all
  from middle_piece[OF assms(1-4) order_refl this disjI1[OF refl]] show ?thesis .
qed

definition written_in :: "nat \<Rightarrow> nat \<Rightarrow> nat \<Rightarrow> u64 \<times> ExtentKind \<Rightarrow> u64 \<times> ExtentKind" where
  "written_in a c b v = (fst v, if a \<le> b \<and> b < c then Written else snd v)"

lemma convert_extent_pieces:
  assumes "ext_ok e" "unat rs < unat re"
  shows "pieces_of (\<lambda>b v. Some (written_in (unat rs) (unat re) b v)) e (convert_extent rs re e)"
proof (cases "\<not> is_unwritten (x_kind e) \<or> end64 e \<le> ucast rs \<or> ucast (x_block e) \<ge> re")
  case True
  then have "hi e \<le> unat rs \<or> unat re \<le> lo e \<or> x_kind e = Written"
    by (cases "x_kind e") (auto simp: word_le_nat_alt unat_end64 unat_ucast_up lo_def is_unwritten_def)
  then show ?thesis
    using True assms(1) by (auto simp: pieces_of_def convert_extent_def Let_def ext_at_def written_in_def)
next
  case False
  define a where "a = max (lo e) (unat rs)"
  define c where "c = min (hi e) (unat re)"
  have kind: "x_kind e = Unwritten" using False by (cases "x_kind e") (simp_all add: is_unwritten_def)
  have ov: "unat rs < hi e" "lo e < unat re" using False by (auto simp: word_le_nat_alt unat_end64 unat_ucast_up lo_def)
  note b = ext_ok_bounds[OF assms(1)]
  define os where "os = max (x_block e) rs"
  define oe where "oe = (ucast (min (end64 e) re) :: Iblock)"
  have os: "unat os = a" by (simp add: os_def word_max_min lo_def a_def)
  have oe: "unat oe = c" unfolding oe_def c_def using b by (subst unat_ucast_small) (simp_all add: word_max_min unat_end64 min_less_iff_disj)
  have ac: "a < c" "lo e \<le> a" "c \<le> hi e" using ov b assms(2) by (auto simp: a_def c_def)
  define H where "H = Extent_new (x_block e) (ucast (os - x_block e)) (x_start e) Unwritten"
  define M where "M = Extent_new os (ucast (oe - os)) (x_start e + ucast (os - x_block e)) Written"
  define T where "T = Extent_new oe (ucast (end64 e - ucast oe)) (x_start e + ucast (oe - x_block e)) Unwritten"
  have H: "is_piece H e (lo e) a Unwritten" if "lo e < a" using head_piece[OF assms(1) os that] ac kind by (simp add: H_def)
  have "unat (ucast (oe - os) :: u16) = c - a" using ac b by (intro ucast_diff(1)[OF oe os]) simp_all
  then have M: "is_piece M e a c Written" unfolding M_def using ac by (intro middle_piece[OF assms(1) os]) simp_all
  have T: "is_piece T e c (hi e) Unwritten" if "c < hi e" using tail_piece[OF assms(1) oe _ that] ac kind by (simp add: T_def)
  have pieces: "convert_extent rs re e = (if lo e < a then [H] else []) @ [M] @ (if c < hi e then [T] else [])"
    using False os oe by (simp add: convert_extent_def Let_def os_def[symmetric] oe_def[symmetric] word_less_nat_alt
        unat_ucast_up unat_end64 lo_def[symmetric] H_def M_def T_def)
  have "(unat rs \<le> b \<and> b < unat re) \<longleftrightarrow> a \<le> b \<and> b < c" if "lo e \<le> b" "b < hi e" for b using that by (auto simp: a_def c_def)
  then have "ext_map (convert_extent rs re e) b = Option.bind (ext_at e b) (\<lambda>v. Some (written_in (unat rs) (unat re) b v))" for b
    unfolding pieces using H M T ac kind
    by (cases "lo e < a"; cases "c < hi e") (auto simp: is_piece_def ext_at_def[of e] written_in_def)
  moreover have "extents_ok (convert_extent rs re e)" "\<forall>x\<in>set (convert_extent rs re e). lo e \<le> lo x \<and> hi x \<le> hi e"
    unfolding pieces using H M T ac by (auto simp: is_piece_def)
  ultimately show ?thesis by (simp add: pieces_of_def)
qed

lemma convert_extents_ok:
  assumes "extents_ok es" "unat rs < unat re"
  shows "extents_ok (convert_extents rs re es)"
    "ext_map (convert_extents rs re es) b = map_option (written_in (unat rs) (unat re) b) (ext_map es b)"
proof -
  have pieces: "\<forall>e\<in>set es. pieces_of (\<lambda>b v. Some (written_in (unat rs) (unat re) b v)) e (convert_extent rs re e)"
    using convert_extent_pieces[OF _ assms(2)] extents_okD[OF assms(1)] by blast
  note c = concat_pieces[OF assms(1) pieces]
  show "extents_ok (convert_extents rs re es)"
    "ext_map (convert_extents rs re es) b = map_option (written_in (unat rs) (unat re) b) (ext_map es b)"
    using merge_extents_ok[OF extents_ok_apart[OF c(1)]] c(2)[of b] by (cases "ext_map es b"; simp add: convert_extents_def)+
qed

section \<open>Punching holes\<close>




section \<open>Truncating\<close>

lemma sort_descending_rev: "extents_ok es \<Longrightarrow> sort_descending es = rev es"
proof -
  assume ok: "extents_ok es"
  let ?f = "\<lambda>e. - int (unat (x_block e))"
  have "sorted_wrt (\<lambda>x y. lo x < lo y) es"
    using ok lo_less_hi unfolding extents_ok_def by (auto intro: sorted_wrt_mono_rel[of es "\<lambda>x y. hi x \<le> lo y"] dest: lo_less_hi order.strict_trans2)
  then have "sorted (map ?f (rev es))" "inj_on ?f (set es)"
  proof -
    assume s: "sorted_wrt (\<lambda>x y. lo x < lo y) es"
    show "sorted (map ?f (rev es))"
      using s by (auto simp: sorted_wrt_map sorted_wrt_rev lo_def word_less_nat_alt[symmetric] word_less_alt elim: sorted_wrt_mono_rel[rotated])
    show "inj_on ?f (set es)"
    proof -
      have "distinct (map lo es)" using s strict_sorted_iff[of "map lo es"] by (simp add: sorted_wrt_map)
      then have "inj_on lo (set es)" by (simp add: distinct_map)
      then show ?thesis unfolding inj_on_def lo_def by (simp only: neg_equal_iff_equal of_nat_eq_iff)
    qed
  qed
  then show ?thesis unfolding sort_descending_def by (intro sort_key_inj_key_eq) simp_all
qed

text \<open>Truncation cuts a sorted list into a kept prefix, at most one straddling extent and a doomed
  suffix, which is freed from its high end.\<close>

definition truncation :: "Iblock \<Rightarrow> Extent list \<Rightarrow> Extent list \<Rightarrow> Extent option \<Rightarrow> Extent list \<Rightarrow> bool" where
  "truncation k es ks s ds \<longleftrightarrow> es = ks @ (case s of None \<Rightarrow> [] | Some x \<Rightarrow> [x]) @ ds \<and>
     truncate_kept k es = ks \<and> truncate_straddler k es = s \<and> filter (\<lambda>e. x_block e \<ge> k) es = ds \<and>
     (\<forall>x\<in>set ks. hi x \<le> unat k) \<and> (\<forall>x. s = Some x \<longrightarrow> lo x < unat k \<and> unat k < hi x) \<and> (\<forall>x\<in>set ds. unat k \<le> lo x)"

lemma truncation_exists: "extents_ok es \<Longrightarrow> \<exists>ks s ds. truncation k es ks s ds"
proof (induction es)
  case (Cons e es)
  have e: "ext_ok e" "lo e < hi e" "\<forall>x\<in>set es. hi e \<le> lo x \<and> lo x < hi x \<and> ext_ok x" "extents_ok es"
    using Cons.prems by (auto simp: extents_ok_def lo_less_hi)
  have conv: "ext_ok x \<Longrightarrow> (end32 x \<le> k) = (hi x \<le> unat k)" "(k \<le> x_block x) = (unat k \<le> lo x)"
    "(x_block x < k) = (lo x < unat k)" "ext_ok x \<Longrightarrow> (k < end32 x) = (unat k < hi x)" for x
    by (simp_all add: word_le_nat_alt word_less_nat_alt unat_end32 lo_def)
  show ?case
  proof (cases "hi e \<le> unat k")
    case True
    obtain ks s ds where IH: "truncation k es ks s ds" using Cons.IH[OF e(4)] by blast
    have "truncation k (e # es) (e # ks) s ds"
      using IH True e(2) conv(1,4)[OF e(1)] conv(2,3)[of e] by (auto simp: truncation_def truncate_kept_def truncate_straddler_def)
    then show ?thesis by blast
  next
    case False
    then have later: "\<forall>x\<in>set es. unat k \<le> lo x \<and> \<not> hi x \<le> unat k \<and> \<not> lo x < unat k" using e by force
    have rest: "filter (\<lambda>e. end32 e \<le> k) es = []" "filter (\<lambda>e. k \<le> x_block e) es = es"
      "find (\<lambda>e. x_block e < k \<and> k < end32 e) es = None"
      using later e(3) conv by (auto simp: filter_empty_conv find_None_iff)
    have "truncation k (e # es) [] (if lo e < unat k then Some e else None) (if lo e < unat k then es else e # es)"
      using False later rest conv(1,4)[OF e(1)] conv(2,3)[of e]
      by (auto simp: truncation_def truncate_kept_def truncate_straddler_def)
    then show ?thesis by blast
  qed
next
  case Nil
  show ?case by (intro exI[of _ "[]"] exI[of _ None]) (simp add: truncation_def truncate_kept_def truncate_straddler_def)
qed

lemma truncation_doomed: "extents_ok es \<Longrightarrow> truncation k es ks s ds \<Longrightarrow> truncate_doomed k es = rev ds"
  by (auto simp: truncation_def truncate_doomed_def extents_ok_append sort_descending_rev)

section \<open>Planning holes\<close>

definition in_hole :: "HoleRun \<Rightarrow> nat \<Rightarrow> bool" where
  "in_hole h b \<longleftrightarrow> unat (hole_start h) \<le> b \<and> b < unat (hole_end h)"

lemma holes_loop_ok:
  assumes "extents_ok es"
  shows "(\<exists>h\<in>set (holes_loop stop cur es). in_hole h b) \<longleftrightarrow> unat cur \<le> b \<and> b < unat stop \<and> ext_map es b = None"
    "sorted_wrt (\<lambda>x y. unat (hole_end x) < unat (hole_start y)) (holes_loop stop cur es) \<and>
     (\<forall>h\<in>set (holes_loop stop cur es). cur \<le> hole_start h \<and> hole_start h < hole_end h)"
proof -
  show "(\<exists>h\<in>set (holes_loop stop cur es). in_hole h b) \<longleftrightarrow> unat cur \<le> b \<and> b < unat stop \<and> ext_map es b = None"
    using assms
  proof (induction es arbitrary: cur)
    case (Cons e es)
    then have e: "ext_ok e" "lo e < hi e" "unat (end32 e) = hi e" "\<forall>x\<in>set es. hi e \<le> lo x" "extents_ok es"
      by (auto simp: lo_less_hi unat_end32)
    have none: "ext_map es b = None" if "b < hi e" using that e(4) by (auto simp: ext_map_None ext_at_def)
    note words = word_le_nat_alt word_less_nat_alt word_max_min lo_def in_hole_def ext_at_def
    consider (past) "hi e \<le> unat cur" | (beyond) "unat cur < hi e" "unat stop \<le> lo e" | (cut) "unat cur < hi e" "lo e < unat stop" by linarith
    then show ?case
    proof cases
      case past
      then show ?thesis using Cons.IH[OF e(5), of cur] e(2,3) by (auto simp: words)
    next
      case beyond
      then show ?thesis using e(2,3) none by (auto simp: words)
    next
      case cut
      then show ?thesis using Cons.IH[OF e(5), of "max cur (end32 e)"] e(2,3) none by (auto simp: Let_def words)
    qed
  qed (auto simp: in_hole_def word_less_nat_alt)
  show "sorted_wrt (\<lambda>x y. unat (hole_end x) < unat (hole_start y)) (holes_loop stop cur es) \<and>
     (\<forall>h\<in>set (holes_loop stop cur es). cur \<le> hole_start h \<and> hole_start h < hole_end h)"
    using assms
  proof (induction es arbitrary: cur)
    case (Cons e es)
    then have e: "lo e < hi e" "unat (end32 e) = hi e" "extents_ok es" by (auto simp: lo_less_hi unat_end32)
    show ?case
      using Cons.IH[OF e(3), of cur] Cons.IH[OF e(3), of "max cur (end32 e)"] e(1,2)
      by (force simp: Let_def word_le_nat_alt word_less_nat_alt word_max_min lo_def)
  qed simp
qed

lemma compute_holes_ok:
  assumes "extents_ok es"
  shows "(\<exists>h\<in>set (compute_holes es start stop). in_hole h b) \<longleftrightarrow> unat start \<le> b \<and> b < unat stop \<and> ext_map es b = None"
    "sorted_wrt (\<lambda>x y. unat (hole_end x) < unat (hole_start y)) (compute_holes es start stop)"
    "h \<in> set (compute_holes es start stop) \<Longrightarrow> hole_start h < hole_end h"
  using holes_loop_ok[OF assms] by (auto simp: compute_holes_def)

section \<open>Properties\<close>

text \<open>C38: converting a range to written changes nothing else.  After the conversion of
  \<open>[range_start, range_end)\<close> the extents are again well formed and in order, every mapped block keeps
  its physical block, the blocks of the range become written and all others keep their kind.\<close>

theorem conversion_marks_written:
  assumes "extents_ok es" "unat range_start < unat range_end"
  shows "extents_ok (convert_extents range_start range_end es) \<and>
    (\<forall>b. ext_map (convert_extents range_start range_end es) b =
       (case ext_map es b of
          None \<Rightarrow> None
        | Some (p, k) \<Rightarrow> Some (p, if unat range_start \<le> b \<and> b < unat range_end then Written else k)))"
  using convert_extents_ok[OF assms] by (auto simp: written_in_def split: option.split)

theorem conversion_marks_written_witness:
  "ext_map (convert_extents 12 14 [Extent_new 10 6 1000 Unwritten]) 13 = Some (1003, Written) \<and>
   ext_map (convert_extents 12 14 [Extent_new 10 6 1000 Unwritten]) 14 = Some (1004, Unwritten)"
proof -
  let ?es = "[Extent_new 10 6 1000 Unwritten]"
  have ok: "extents_ok ?es" "unat (12 :: Iblock) < unat (14 :: u64)"
    by (simp_all add: ext_ok_def hi_def Extent_new_def)
  have "ext_map ?es 13 = Some (1003, Unwritten)" "ext_map ?es 14 = Some (1004, Unwritten)"
    by (simp_all add: ext_at_def lo_def hi_def Extent_new_def)
  then show ?thesis using conversion_marks_written[OF ok] by auto
qed







text \<open>C40: hole planning is exact.  The runs planned over \<open>[start, stop)\<close> are not empty, in order and
  separated, and a block lies in one of them exactly when it is in the range and no extent maps it.\<close>

theorem holes_are_exact:
  assumes "extents_ok es"
  shows "(\<forall>b. (\<exists>h\<in>set (compute_holes es start stop). in_hole h b) \<longleftrightarrow>
      unat start \<le> b \<and> b < unat stop \<and> ext_map es b = None) \<and>
    sorted_wrt (\<lambda>x y. unat (hole_end x) < unat (hole_start y)) (compute_holes es start stop) \<and>
    (\<forall>h\<in>set (compute_holes es start stop). hole_start h < hole_end h)"
  using compute_holes_ok[OF assms] by blast

theorem holes_are_exact_witness:
  "\<exists>h\<in>set (compute_holes [Extent_new 10 6 1000 Written] 8 20). in_hole h 17"
proof -
  let ?es = "[Extent_new 10 6 1000 Written]"
  have ok: "extents_ok ?es" by (simp add: ext_ok_def hi_def Extent_new_def)
  have "ext_map ?es 17 = None" by (simp add: ext_at_def lo_def hi_def Extent_new_def)
  then show ?thesis using holes_are_exact[OF ok, of 8 20] by simp
qed

end
