(* ===== verification/Metadata_Io.thy ===== *)
theory Metadata_Io
  imports Journal_Driver
begin

text \<open>
  How the file system's own code reaches its metadata: every change goes through the write
  access and the patch of \<open>journal/mod.rs\<close> under the operation's handle, every read through
  \<open>read_metadata_block\<close>.  The record \<open>MetaIo\<close> holds what such an operation touches besides
  its own structures: the mounted journal, the operation's handle and the device.  A volume
  without a journal has neither journal nor handle, and its captures do nothing.
\<close>

section \<open>Sequencing\<close>

text \<open>State passing with the early return of Rust's \<open>?\<close> operator: the state reached so far stays.\<close>

definition st_bind :: "'a result \<times> 's \<Rightarrow> ('a \<Rightarrow> 's \<Rightarrow> 'b result \<times> 's) \<Rightarrow> 'b result \<times> 's" where
  "st_bind m f = (case m of (Inl e, s) \<Rightarrow> (Inl e, s) | (Inr v, s) \<Rightarrow> f v s)"

lemma st_bind_Ok [simp]: "st_bind (Inr v, s) f = f v s"
  by (simp add: st_bind_def)

lemma st_bind_Err [simp]: "st_bind (Inl e, s) f = (Inl e, s)"
  by (simp add: st_bind_def)

lemma st_bind_eq_Ok:
  "st_bind m f = (Inr v, s') \<longleftrightarrow> (\<exists>u s1. m = (Inr u, s1) \<and> f u s1 = (Inr v, s'))"
  by (cases m; cases "fst m") (auto simp: st_bind_def)

lemma st_bind_eq_Err:
  "st_bind m f = (Inl e, s') \<longleftrightarrow> m = (Inl e, s') \<or> (\<exists>u s1. m = (Inr u, s1) \<and> f u s1 = (Inl e, s'))"
  by (cases m; cases "fst m") (auto simp: st_bind_def)

lemma st_bind_inv:
  assumes "P (snd m)" "\<And>v s. m = (Inr v, s) \<Longrightarrow> P s \<Longrightarrow> P (snd (f v s))"
  shows "P (snd (st_bind m f))"
  using assms by (cases m; cases "fst m") (auto simp: st_bind_def)

section \<open>Captures and reads of an operation\<close>

record MetaIo =
  io_journal :: "Journal option"
  io_handle :: "Handle option"
  io_dev :: device

definition io_write_access :: "MetaIo \<Rightarrow> Ext4Bid \<Rightarrow> WriteAccess result \<times> MetaIo" where
  "io_write_access io bid =
     (case io_handle io of
        None \<Rightarrow> (Ok None, io)
      | Some h \<Rightarrow>
          (case io_journal io of
             None \<Rightarrow> (Err EIO, io)
           | Some j \<Rightarrow>
               let (r, h', j') = get_write_access j (io_dev io) (Some h) bid in
               (r, io\<lparr> io_handle := h', io_journal := Some j' \<rparr>)))"

definition io_create_access :: "MetaIo \<Rightarrow> Ext4Bid \<Rightarrow> WriteAccess result \<times> MetaIo" where
  "io_create_access io bid =
     (case io_handle io of
        None \<Rightarrow> (Ok None, io)
      | Some h \<Rightarrow>
          (case io_journal io of
             None \<Rightarrow> (Err EIO, io)
           | Some j \<Rightarrow>
               let (r, h', j') = get_create_access j (Some h) bid in
               (r, io\<lparr> io_handle := h', io_journal := Some j' \<rparr>)))"

definition io_patch :: "MetaIo \<Rightarrow> WriteAccess \<Rightarrow> (bytes \<Rightarrow> bytes) \<Rightarrow> unit result \<times> MetaIo" where
  "io_patch io a f =
     (case (io_handle io, io_journal io) of
        (Some h, Some j) \<Rightarrow> let (r, j') = WriteAccess_patch j h a f in (r, io\<lparr> io_journal := Some j' \<rparr>)
      | (Some h, None) \<Rightarrow> (if is_live a then Err EIO else Ok (), io)
      | (None, _) \<Rightarrow> (Ok (), io))"

text \<open>\<open>get_write_access(handle, bid)?.patch(f)\<close>.\<close>

definition io_update :: "MetaIo \<Rightarrow> Ext4Bid \<Rightarrow> (bytes \<Rightarrow> bytes) \<Rightarrow> unit result \<times> MetaIo" where
  "io_update io bid f = st_bind (io_write_access io bid) (\<lambda>a io1. io_patch io1 a f)"

definition io_read :: "MetaIo \<Rightarrow> Ext4Bid \<Rightarrow> bytes result" where
  "io_read io bid = read_metadata_block (io_journal io) (io_dev io) bid"

definition io_pin_freed_run :: "MetaIo \<Rightarrow> Ext4Bid \<Rightarrow> u32 \<Rightarrow> unit result \<times> MetaIo" where
  "io_pin_freed_run io start cnt =
     (case io_handle io of
        None \<Rightarrow> (Ok (), io)
      | Some h \<Rightarrow>
          if cnt = 0 then (Ok (), io)
          else (case io_journal io of
                  None \<Rightarrow> (Err EIO, io)
                | Some j \<Rightarrow> let (r, j') = pin_freed_run j (Some h) start cnt in (r, io\<lparr> io_journal := Some j' \<rparr>)))"

definition io_discharge :: "MetaIo \<Rightarrow> Ext4Bid \<Rightarrow> u32 \<Rightarrow> unit result \<times> MetaIo" where
  "io_discharge io start cnt =
     (case io_handle io of
        None \<Rightarrow> (Ok (), io)
      | Some h \<Rightarrow>
          (case io_journal io of
             None \<Rightarrow> (Err EIO, io)
           | Some j \<Rightarrow> let (r, j') = discharge j h start cnt in (r, io\<lparr> io_journal := Some j' \<rparr>)))"

text \<open>\<open>Handle::abort_journal_on_fs_error\<close>, called only under a handle.\<close>

definition abort_journal_on_fs_error :: "MetaIo \<Rightarrow> MetaIo" where
  "abort_journal_on_fs_error io =
     (case (io_handle io, io_journal io) of
        (Some h, Some j) \<Rightarrow> let (j', d') = abort_for_fs_error j (io_dev io) in io\<lparr> io_journal := Some j', io_dev := d' \<rparr>
      | _ \<Rightarrow> io)"

lemma io_update_no_handle: "io_handle io = None \<Longrightarrow> io_update io bid f = (Ok (), io)"
  by (simp add: io_update_def io_write_access_def io_patch_def)

end
