(* ===== verification/Super_Block.thy ===== *)
theory Super_Block
  imports Metadata_Io
begin

text \<open>
  The ext4 superblock: the feature words of \<open>feature.rs\<close>, and from \<open>super_block.rs\<close> the raw
  1024-byte structure, its validating parse \<open>SuperBlock::try_from\<close>, its checksum, the free
  counters, the geometry functions and the capture that writes the in-memory values back.
  \<open>RawSuperBlock\<close> is a \<open>repr(C)\<close> structure without padding, so it is its byte image and a
  field is the slice at the field's offset.
\<close>

unbundle bit_operations_syntax

section \<open>Feature words\<close>

definition COMPAT_HAS_JOURNAL :: u32 where "COMPAT_HAS_JOURNAL = 0x4"
definition COMPAT_DIR_INDEX :: u32 where "COMPAT_DIR_INDEX = 0x20"
definition COMPAT_ALL :: u32 where "COMPAT_ALL = 0x3F"

definition INCOMPAT_FILETYPE :: u32 where "INCOMPAT_FILETYPE = 0x2"
definition INCOMPAT_RECOVER :: u32 where "INCOMPAT_RECOVER = 0x4"
definition INCOMPAT_EXTENTS :: u32 where "INCOMPAT_EXTENTS = 0x40"
definition INCOMPAT_IS_64BIT :: u32 where "INCOMPAT_IS_64BIT = 0x80"
definition INCOMPAT_FLEX_BG :: u32 where "INCOMPAT_FLEX_BG = 0x200"
definition INCOMPAT_ALL :: u32 where "INCOMPAT_ALL = 0x3F7DF"

definition RO_COMPAT_SPARSE_SUPER :: u32 where "RO_COMPAT_SPARSE_SUPER = 0x1"
definition RO_COMPAT_LARGE_FILE :: u32 where "RO_COMPAT_LARGE_FILE = 0x2"
definition RO_COMPAT_HUGE_FILE :: u32 where "RO_COMPAT_HUGE_FILE = 0x8"
definition RO_COMPAT_DIR_NLINK :: u32 where "RO_COMPAT_DIR_NLINK = 0x20"
definition RO_COMPAT_EXTRA_ISIZE :: u32 where "RO_COMPAT_EXTRA_ISIZE = 0x40"
definition RO_COMPAT_METADATA_CSUM :: u32 where "RO_COMPAT_METADATA_CSUM = 0x400"
definition RO_COMPAT_ALL :: u32 where "RO_COMPAT_ALL = 0xA77B"

definition EXT4_INCOMPAT_SUPP :: u32 where
  "EXT4_INCOMPAT_SUPP = INCOMPAT_FILETYPE OR INCOMPAT_EXTENTS OR INCOMPAT_RECOVER OR INCOMPAT_FLEX_BG OR INCOMPAT_IS_64BIT"

definition EXT4_RO_COMPAT_SUPP :: u32 where
  "EXT4_RO_COMPAT_SUPP = RO_COMPAT_SPARSE_SUPER OR RO_COMPAT_LARGE_FILE OR RO_COMPAT_HUGE_FILE OR
     RO_COMPAT_DIR_NLINK OR RO_COMPAT_EXTRA_ISIZE OR RO_COMPAT_METADATA_CSUM"

text \<open>\<open>contains\<close> of a \<open>bitflags\<close> set.\<close>

definition has_flags :: "'a::len word \<Rightarrow> 'a word \<Rightarrow> bool" where
  "has_flags w f \<longleftrightarrow> w AND f = f"

lemmas feature_defs =
  COMPAT_HAS_JOURNAL_def COMPAT_DIR_INDEX_def COMPAT_ALL_def INCOMPAT_FILETYPE_def INCOMPAT_RECOVER_def
  INCOMPAT_EXTENTS_def INCOMPAT_IS_64BIT_def INCOMPAT_FLEX_BG_def INCOMPAT_ALL_def RO_COMPAT_SPARSE_SUPER_def
  RO_COMPAT_LARGE_FILE_def RO_COMPAT_HUGE_FILE_def RO_COMPAT_DIR_NLINK_def RO_COMPAT_EXTRA_ISIZE_def
  RO_COMPAT_METADATA_CSUM_def RO_COMPAT_ALL_def EXT4_INCOMPAT_SUPP_def EXT4_RO_COMPAT_SUPP_def

section \<open>The raw superblock\<close>

definition MAGIC_NUM :: u16 where "MAGIC_NUM = 0xEF53"
definition SUPER_BLOCK_OFFSET :: nat where "SUPER_BLOCK_OFFSET = 1024"
definition SUPER_BLOCK_SIZE :: nat where "SUPER_BLOCK_SIZE = 1024"
definition SUPERBLOCK_BID :: Ext4Bid where "SUPERBLOCK_BID = word_of_nat (SUPER_BLOCK_OFFSET div BLOCK_SIZE)"
definition MIN_DESC_SIZE :: u16 where "MIN_DESC_SIZE = 32"
definition MIN_DESC_SIZE_64BIT :: u16 where "MIN_DESC_SIZE_64BIT = 64"
definition MAX_DESC_SIZE :: u16 where "MAX_DESC_SIZE = 64"
definition EXT2_FLAGS_UNSIGNED_HASH :: u32 where "EXT2_FLAGS_UNSIGNED_HASH = 2"
definition S_CHECKSUM_OFFSET :: nat where "S_CHECKSUM_OFFSET = 0x3FC"
definition S_CHECKSUM_TYPE_OFFSET :: nat where "S_CHECKSUM_TYPE_OFFSET = 0x175"
definition CHECKSUM_TYPE_CRC32C :: u8 where "CHECKSUM_TYPE_CRC32C = 1"

type_synonym RawSuperBlock = bytes

definition field16 :: "nat \<Rightarrow> bytes \<Rightarrow> u16" where "field16 off raw = word_of_le (slice off 2 raw)"
definition field32 :: "nat \<Rightarrow> bytes \<Rightarrow> u32" where "field32 off raw = word_of_le (slice off 4 raw)"

definition s_inodes_count :: nat where "s_inodes_count = 0"
definition s_blocks_count :: nat where "s_blocks_count = 4"
definition s_r_blocks_count :: nat where "s_r_blocks_count = 8"
definition s_free_blocks_count :: nat where "s_free_blocks_count = 12"
definition s_free_inodes_count :: nat where "s_free_inodes_count = 16"
definition s_first_data_block :: nat where "s_first_data_block = 20"
definition s_log_block_size :: nat where "s_log_block_size = 24"
definition s_log_frag_size :: nat where "s_log_frag_size = 28"
definition s_blocks_per_group :: nat where "s_blocks_per_group = 32"
definition s_inodes_per_group :: nat where "s_inodes_per_group = 40"
definition s_magic :: nat where "s_magic = 56"
definition s_state :: nat where "s_state = 58"
definition s_errors :: nat where "s_errors = 60"
definition s_creator_os :: nat where "s_creator_os = 72"
definition s_rev_level :: nat where "s_rev_level = 76"
definition s_first_ino :: nat where "s_first_ino = 84"
definition s_inode_size :: nat where "s_inode_size = 88"
definition s_compat :: nat where "s_compat = 92"
definition s_incompat :: nat where "s_incompat = 96"
definition s_ro_compat :: nat where "s_ro_compat = 100"
definition s_fs_uuid :: nat where "s_fs_uuid = 104"
definition s_reserved_gdt_blocks :: nat where "s_reserved_gdt_blocks = 206"
definition s_journal_ino :: nat where "s_journal_ino = 224"
definition s_journal_dev :: nat where "s_journal_dev = 228"
definition s_last_orphan :: nat where "s_last_orphan = 232"
definition s_hash_seed :: nat where "s_hash_seed = 236"
definition s_desc_size :: nat where "s_desc_size = 254"
definition s_blocks_count_hi :: nat where "s_blocks_count_hi = 0x150"
definition s_free_blocks_count_hi :: nat where "s_free_blocks_count_hi = 0x158"
definition s_flags :: nat where "s_flags = 0x160"

lemmas sb_offsets =
  s_inodes_count_def s_blocks_count_def s_r_blocks_count_def s_free_blocks_count_def s_free_inodes_count_def
  s_first_data_block_def s_log_block_size_def s_log_frag_size_def s_blocks_per_group_def s_inodes_per_group_def
  s_magic_def s_state_def s_errors_def s_creator_os_def s_rev_level_def s_first_ino_def s_inode_size_def
  s_compat_def s_incompat_def s_ro_compat_def s_fs_uuid_def s_reserved_gdt_blocks_def s_journal_ino_def
  s_journal_dev_def s_last_orphan_def s_hash_seed_def s_desc_size_def s_blocks_count_hi_def
  s_free_blocks_count_hi_def s_flags_def S_CHECKSUM_OFFSET_def S_CHECKSUM_TYPE_OFFSET_def

section \<open>The validated superblock\<close>

datatype RevLevel = GoodOld | Dynamic

definition RevLevel_try_from :: "u32 \<Rightarrow> RevLevel option" where
  "RevLevel_try_from w = (if w = 0 then Some GoodOld else if w = 1 then Some Dynamic else None)"

datatype ErrorsBehavior = ErrContinue | RemountReadonly | ErrPanic

definition ErrorsBehavior_try_from :: "u16 \<Rightarrow> ErrorsBehavior option" where
  "ErrorsBehavior_try_from w =
     (if w = 1 then Some ErrContinue else if w = 2 then Some RemountReadonly
      else if w = 3 then Some ErrPanic else None)"

datatype OsId = Linux | Hurd | Masix | FreeBSD | Lites

definition OsId_try_from :: "u32 \<Rightarrow> OsId option" where
  "OsId_try_from w =
     (if w = 0 then Some Linux else if w = 1 then Some Hurd else if w = 2 then Some Masix
      else if w = 3 then Some FreeBSD else if w = 4 then Some Lites else None)"

definition FsState_ALL :: u16 where "FsState_ALL = 7"

record SuperBlock =
  sb_inodes_count :: u32
  sb_blocks_count :: u64
  sb_free_blocks_count :: u64
  sb_free_inodes_count :: u32
  sb_first_data_block :: Ext4Bid
  sb_block_size :: nat
  sb_nr_blocks_per_group :: u32
  sb_nr_block_groups :: u32
  sb_nr_inodes_per_group :: u32
  sb_nr_inode_table_blocks_per_group :: u32
  sb_inode_size :: nat
  sb_desc_size :: u16
  sb_first_ino :: u32
  sb_rev_level :: RevLevel
  sb_state :: u16
  sb_feature_compat :: u32
  sb_feature_incompat :: u32
  sb_feature_ro_compat :: u32
  sb_uuid :: bytes
  sb_last_orphan :: "u32 option"
  sb_reserved_blocks_count :: u32
  sb_reserved_gdt_blocks :: u32
  sb_journal_ino :: u32
  sb_journal_dev :: u32
  sb_hash_seed :: "u32 list"
  sb_hash_unsigned :: bool

definition superblock_checksum :: "RawSuperBlock \<Rightarrow> u32" where
  "superblock_checksum raw = crc32c (NOT 0) (take S_CHECKSUM_OFFSET raw)"

definition verify_superblock_checksum :: "RawSuperBlock \<Rightarrow> unit result" where
  "verify_superblock_checksum raw =
     (if raw ! S_CHECKSUM_TYPE_OFFSET \<noteq> CHECKSUM_TYPE_CRC32C then Err EUCLEAN
      else if field32 S_CHECKSUM_OFFSET raw \<noteq> superblock_checksum raw then Err EUCLEAN
      else Ok ())"

definition parse_desc_size :: "u16 \<Rightarrow> bool \<Rightarrow> u16 result" where
  "parse_desc_size raw has_64bit =
     (if \<not> has_64bit then
        (if raw \<noteq> 0 \<and> raw \<noteq> MIN_DESC_SIZE then Err EINVAL else Ok MIN_DESC_SIZE)
      else if raw < MIN_DESC_SIZE_64BIT \<or> raw > MAX_DESC_SIZE \<or> \<not> (\<exists>k<16. raw = 2 ^ k) then Err EINVAL
      else Ok raw)"

definition splice_count_hi :: "u32 \<Rightarrow> u32 \<Rightarrow> bool \<Rightarrow> u64 result" where
  "splice_count_hi lo hi has_64bit =
     (if \<not> has_64bit then (if hi \<noteq> 0 then Err EINVAL else Ok (ucast lo))
      else Ok (ucast lo OR push_bit 32 (ucast hi)))"

text \<open>The size of \<open>RawInode\<close>.\<close>

definition RAW_INODE_SIZE :: nat where "RAW_INODE_SIZE = 256"

definition is_power_of_two :: "nat \<Rightarrow> bool" where
  "is_power_of_two n \<longleftrightarrow> (\<exists>k<64. n = 2 ^ k)"

text \<open>The first inode and the inode size the revision level gives.\<close>

definition inode_layout :: "RawSuperBlock \<Rightarrow> RevLevel \<Rightarrow> (u32 \<times> nat) result" where
  "inode_layout raw level =
     (case level of
        GoodOld \<Rightarrow> Ok (11, 128)
      | Dynamic \<Rightarrow>
          let inode_size = unat (field16 s_inode_size raw) in
          if inode_size > BLOCK_SIZE \<or> \<not> is_power_of_two inode_size then Err EINVAL
          else Ok (field32 s_first_ino raw, inode_size))"

text \<open>The group geometry checks, from the group sizes to the free counters.\<close>

definition check_group_sizes :: "RawSuperBlock \<Rightarrow> nat \<Rightarrow> u32 result" where
  "check_group_sizes raw inode_size =
     (let ipg = field32 s_inodes_per_group raw;
          bpg = field32 s_blocks_per_group raw;
          inodes_per_block = word_of_nat (BLOCK_SIZE div inode_size);
          max_bits = word_of_nat BLOCK_SIZE * 8
      in if ipg = 0 \<or> bpg = 0 then Err EINVAL
         else if ipg < inodes_per_block \<or> ipg > max_bits then Err EINVAL
         else if bpg > max_bits then Err EINVAL
         else let itb = ipg div inodes_per_block in
           if bpg \<le> itb + 3 then Err EINVAL else Ok itb)"

definition check_counts :: "RawSuperBlock \<Rightarrow> bool \<Rightarrow> (u64 \<times> u64 \<times> u32) result" where
  "check_counts raw is_64bit =
     (let ipg = field32 s_inodes_per_group raw;
          bpg = field32 s_blocks_per_group raw in
      and_then (splice_count_hi (field32 s_blocks_count raw) (field32 s_blocks_count_hi raw) is_64bit) (\<lambda>blocks_count.
      and_then (splice_count_hi (field32 s_free_blocks_count raw) (field32 s_free_blocks_count_hi raw) is_64bit) (\<lambda>free_blocks_count.
      let first_data_block = (ucast (field32 s_first_data_block raw) :: u64) in
      if blocks_count \<le> first_data_block + 1 then Err EINVAL
      else let groups64 = (blocks_count - first_data_block - 1) div ucast bpg + 1 in
        if groups64 > 0xFFFFFFFF then Err EINVAL
        else let groups = (ucast groups64 :: u32);
                 max_inodes = (ucast groups :: u64) * ucast ipg;
                 min_inodes = ((ucast groups :: u64) - 1) * ucast ipg;
                 inodes_count = (ucast (field32 s_inodes_count raw) :: u64)
          in if inodes_count \<le> min_inodes \<or> inodes_count > max_inodes then Err EINVAL
             else if free_blocks_count > blocks_count then Err EINVAL
             else if field32 s_free_inodes_count raw > field32 s_inodes_count raw then Err EINVAL
             else Ok (blocks_count, free_blocks_count, groups))))"

text \<open>The structure an accepted parse builds.\<close>

definition SuperBlock_build ::
    "RawSuperBlock \<Rightarrow> RevLevel \<Rightarrow> u32 \<times> nat \<Rightarrow> u16 \<Rightarrow> u32 \<Rightarrow> u64 \<times> u64 \<times> u32 \<Rightarrow> SuperBlock" where
  "SuperBlock_build raw level layout desc_size itb counts =
     (case (layout, counts) of ((first_ino, inode_size), (blocks_count, free_blocks_count, groups)) \<Rightarrow>
     \<lparr> sb_inodes_count = field32 s_inodes_count raw,
       sb_blocks_count = blocks_count,
       sb_free_blocks_count = free_blocks_count,
       sb_free_inodes_count = field32 s_free_inodes_count raw,
       sb_first_data_block = ucast (field32 s_first_data_block raw),
       sb_block_size = BLOCK_SIZE,
       sb_nr_blocks_per_group = field32 s_blocks_per_group raw,
       sb_nr_block_groups = groups,
       sb_nr_inodes_per_group = field32 s_inodes_per_group raw,
       sb_nr_inode_table_blocks_per_group = itb,
       sb_inode_size = inode_size,
       sb_desc_size = desc_size,
       sb_first_ino = first_ino,
       sb_rev_level = level,
       sb_state = field16 s_state raw AND FsState_ALL,
       sb_feature_compat = field32 s_compat raw AND COMPAT_ALL,
       sb_feature_incompat = field32 s_incompat raw AND INCOMPAT_ALL,
       sb_feature_ro_compat = field32 s_ro_compat raw AND RO_COMPAT_ALL,
       sb_uuid = slice s_fs_uuid 16 raw,
       sb_last_orphan = (if field32 s_last_orphan raw \<noteq> 0 then Some (field32 s_last_orphan raw) else None),
       sb_reserved_blocks_count = field32 s_r_blocks_count raw,
       sb_reserved_gdt_blocks = ucast (field16 s_reserved_gdt_blocks raw),
       sb_journal_ino = field32 s_journal_ino raw,
       sb_journal_dev = field32 s_journal_dev raw,
       sb_hash_seed = map (\<lambda>i. field32 (s_hash_seed + 4 * i) raw) [0..<4],
       sb_hash_unsigned = (field32 s_flags raw AND EXT2_FLAGS_UNSIGNED_HASH \<noteq> 0) \<rparr>)"

definition SuperBlock_try_from :: "RawSuperBlock \<Rightarrow> SuperBlock result" where
  "SuperBlock_try_from raw =
     (if field16 s_magic raw \<noteq> MAGIC_NUM then Err EINVAL
      else if field32 s_log_block_size raw \<noteq> 2 then Err EINVAL
      else if field32 s_log_frag_size raw \<noteq> field32 s_log_block_size raw then Err EINVAL
      else if ErrorsBehavior_try_from (field16 s_errors raw) \<noteq> Some ErrContinue then Err EINVAL
      else if OsId_try_from (field32 s_creator_os raw) \<noteq> Some Linux then Err EINVAL
      else case RevLevel_try_from (field32 s_rev_level raw) of
        None \<Rightarrow> Err EINVAL
      | Some level \<Rightarrow>
        and_then (inode_layout raw level) (\<lambda>(first_ino, inode_size).
        if inode_size < RAW_INODE_SIZE then Err EINVAL
        else if field32 s_incompat raw AND NOT EXT4_INCOMPAT_SUPP \<noteq> 0 then Err EINVAL
        else let incompat = field32 s_incompat raw AND INCOMPAT_ALL;
                 is_64bit = has_flags incompat INCOMPAT_IS_64BIT in
          if \<not> has_flags incompat INCOMPAT_EXTENTS then Err EINVAL
          else and_then (parse_desc_size (field16 s_desc_size raw) is_64bit) (\<lambda>desc_size.
            if field32 s_ro_compat raw AND NOT EXT4_RO_COMPAT_SUPP \<noteq> 0 then Err EROFS
            else let ro_compat = field32 s_ro_compat raw AND RO_COMPAT_ALL in
              and_then (if has_flags ro_compat RO_COMPAT_METADATA_CSUM then verify_superblock_checksum raw else Ok ()) (\<lambda>_.
              and_then (check_group_sizes raw inode_size) (\<lambda>itb.
              and_then (check_counts raw is_64bit) (\<lambda>(blocks_count, free_blocks_count, groups).
              Ok (SuperBlock_build raw level (first_ino, inode_size) desc_size itb (blocks_count, free_blocks_count, groups))))))))"

section \<open>Counters and flags\<close>

definition dec_free_blocks :: "SuperBlock \<Rightarrow> u64 \<Rightarrow> unit result \<times> SuperBlock" where
  "dec_free_blocks sb n =
     (if sb_free_blocks_count sb < n then (Err EIO, sb)
      else (Ok (), sb\<lparr> sb_free_blocks_count := sb_free_blocks_count sb - n \<rparr>))"

definition inc_free_blocks :: "SuperBlock \<Rightarrow> u64 \<Rightarrow> unit result \<times> SuperBlock" where
  "inc_free_blocks sb n =
     (let new_count = sb_free_blocks_count sb + n in
      if new_count < n then (Err EIO, sb)
      else if new_count > sb_blocks_count sb then (Err EIO, sb)
      else (Ok (), sb\<lparr> sb_free_blocks_count := new_count \<rparr>))"

definition dec_free_inodes :: "SuperBlock \<Rightarrow> unit result \<times> SuperBlock" where
  "dec_free_inodes sb =
     (if sb_free_inodes_count sb < 1 then (Err EIO, sb)
      else (Ok (), sb\<lparr> sb_free_inodes_count := sb_free_inodes_count sb - 1 \<rparr>))"

definition inc_free_inodes :: "SuperBlock \<Rightarrow> unit result \<times> SuperBlock" where
  "inc_free_inodes sb =
     (let new_count = sb_free_inodes_count sb + 1 in
      if new_count < 1 then (Err EIO, sb)
      else if new_count > sb_inodes_count sb then (Err EIO, sb)
      else (Ok (), sb\<lparr> sb_free_inodes_count := new_count \<rparr>))"

definition set_last_orphan :: "SuperBlock \<Rightarrow> u32 option \<Rightarrow> SuperBlock" where
  "set_last_orphan sb new_head = sb\<lparr> sb_last_orphan := new_head \<rparr>"

definition has_metadata_csum :: "SuperBlock \<Rightarrow> bool" where
  "has_metadata_csum sb = has_flags (sb_feature_ro_compat sb) RO_COMPAT_METADATA_CSUM"

definition metadata_csum_seed :: "SuperBlock \<Rightarrow> FsCsumSeed" where
  "metadata_csum_seed sb = FsCsumSeed (crc32c (NOT 0) (sb_uuid sb))"

definition clear_recover :: "SuperBlock \<Rightarrow> SuperBlock" where
  "clear_recover sb = sb\<lparr> sb_feature_incompat := sb_feature_incompat sb AND NOT INCOMPAT_RECOVER \<rparr>"

definition set_recover :: "SuperBlock \<Rightarrow> SuperBlock" where
  "set_recover sb = sb\<lparr> sb_feature_incompat := sb_feature_incompat sb OR INCOMPAT_RECOVER \<rparr>"

definition has_dir_index :: "SuperBlock \<Rightarrow> bool" where
  "has_dir_index sb = has_flags (sb_feature_compat sb) COMPAT_DIR_INDEX"

definition needs_recovery :: "SuperBlock \<Rightarrow> bool" where
  "needs_recovery sb \<longleftrightarrow> has_flags (sb_feature_incompat sb) INCOMPAT_RECOVER \<or> sb_last_orphan sb \<noteq> None"

section \<open>Overhead\<close>

text \<open>The division loop of \<open>is_power_of\<close>.  Every round at least halves a 32-bit value when the
  base is two or more, so 32 rounds reach the end.\<close>

fun is_power_of_loop :: "nat \<Rightarrow> u32 \<Rightarrow> u32 \<Rightarrow> bool" where
  "is_power_of_loop 0 left base = (left = base)"
| "is_power_of_loop (Suc fuel) left base =
     (if left > base
      then (if left mod base \<noteq> 0 then False else is_power_of_loop fuel (left div base) base)
      else left = base)"

definition is_power_of :: "u32 \<Rightarrow> u32 \<Rightarrow> bool" where
  "is_power_of val base = is_power_of_loop 32 val base"

definition bg_has_super :: "SuperBlock \<Rightarrow> u32 \<Rightarrow> bool" where
  "bg_has_super sb g =
     (if g \<le> 1 then True
      else if \<not> has_flags (sb_feature_ro_compat sb) RO_COMPAT_SPARSE_SUPER then True
      else if g mod 2 = 0 then False
      else is_power_of g 3 \<or> is_power_of g 5 \<or> is_power_of g 7)"

definition div_ceil_u64 :: "u64 \<Rightarrow> u64 \<Rightarrow> u64" where
  "div_ceil_u64 a b = a div b + (if a mod b \<noteq> 0 then 1 else 0)"

definition metadata_overhead :: "SuperBlock \<Rightarrow> u64" where
  "metadata_overhead sb =
     (let desc_per_block = word_of_nat (sb_block_size sb div unat (sb_desc_size sb)) :: u64;
          gdt_blocks = div_ceil_u64 (ucast (sb_nr_block_groups sb)) desc_per_block;
          per_group_data = ucast (sb_nr_inode_table_blocks_per_group sb) + 2;
          per_super_group = 1 + gdt_blocks + ucast (sb_reserved_gdt_blocks sb);
          groups_with_super = word_of_nat (length (filter (\<lambda>g. bg_has_super sb (word_of_nat g)) [0..<unat (sb_nr_block_groups sb)]))
      in sb_first_data_block sb + per_group_data * ucast (sb_nr_block_groups sb) + per_super_group * groups_with_super)"

section \<open>Writing the superblock back\<close>

definition write_free_blocks_count :: "SuperBlock \<Rightarrow> RawSuperBlock \<Rightarrow> RawSuperBlock" where
  "write_free_blocks_count sb raw =
     (let cnt = sb_free_blocks_count sb;
          raw1 = splice s_free_blocks_count (le32 (ucast cnt)) raw
      in if has_flags (sb_feature_incompat sb) INCOMPAT_IS_64BIT
         then splice s_free_blocks_count_hi (le32 (ucast (drop_bit 32 cnt))) raw1
         else raw1)"

text \<open>The patch closure of \<open>journal_capture\<close>, on the raw superblock inside the block.\<close>

definition stamp_super_block :: "SuperBlock \<Rightarrow> u32 option \<Rightarrow> RawSuperBlock \<Rightarrow> RawSuperBlock" where
  "stamp_super_block sb last_orphan raw =
     (let raw1 = write_free_blocks_count sb raw;
          raw2 = splice s_free_inodes_count (le32 (sb_free_inodes_count sb)) raw1;
          raw3 = splice s_last_orphan (le32 (case last_orphan of None \<Rightarrow> 0 | Some ino \<Rightarrow> ino)) raw2
      in if has_metadata_csum sb then splice S_CHECKSUM_OFFSET (le32 (superblock_checksum raw3)) raw3
         else raw3)"

definition SuperBlock_journal_capture :: "SuperBlock \<Rightarrow> u32 option \<Rightarrow> MetaIo \<Rightarrow> unit result \<times> MetaIo" where
  "SuperBlock_journal_capture sb last_orphan io =
     io_update io SUPERBLOCK_BID (\<lambda>buf.
       splice SUPER_BLOCK_OFFSET
         (stamp_super_block sb last_orphan (slice SUPER_BLOCK_OFFSET SUPER_BLOCK_SIZE buf)) buf)"

section \<open>What an accepted superblock promises\<close>

text \<open>The geometry the rest of the file system computes with, in natural numbers: groups of at
  most \<open>BLOCK_SIZE * 8\<close> blocks and inodes that cover the volume, the last one possibly partial.\<close>

definition sb_ok :: "SuperBlock \<Rightarrow> bool" where
  "sb_ok sb \<longleftrightarrow>
     sb_block_size sb = BLOCK_SIZE \<and>
     0 < unat (sb_nr_blocks_per_group sb) \<and> unat (sb_nr_blocks_per_group sb) \<le> 8 * BLOCK_SIZE \<and>
     0 < unat (sb_nr_inodes_per_group sb) \<and> unat (sb_nr_inodes_per_group sb) \<le> 8 * BLOCK_SIZE \<and>
     0 < unat (sb_nr_block_groups sb) \<and>
     unat (sb_first_data_block sb) + (unat (sb_nr_block_groups sb) - 1) * unat (sb_nr_blocks_per_group sb) < unat (sb_blocks_count sb) \<and>
     unat (sb_blocks_count sb) \<le> unat (sb_first_data_block sb) + unat (sb_nr_block_groups sb) * unat (sb_nr_blocks_per_group sb) \<and>
     (unat (sb_nr_block_groups sb) - 1) * unat (sb_nr_inodes_per_group sb) < unat (sb_inodes_count sb) \<and>
     unat (sb_inodes_count sb) \<le> unat (sb_nr_block_groups sb) * unat (sb_nr_inodes_per_group sb) \<and>
     sb_free_blocks_count sb \<le> sb_blocks_count sb \<and> sb_free_inodes_count sb \<le> sb_inodes_count sb \<and>
     sb_desc_size sb \<in> {32, 64} \<and>
     RAW_INODE_SIZE \<le> sb_inode_size sb \<and> sb_inode_size sb dvd BLOCK_SIZE"

lemma check_counts_ok:
  assumes "check_counts raw w64 = Ok (nb, nf, ng)" "0 < field32 s_blocks_per_group raw"
  defines "bpg \<equiv> unat (field32 s_blocks_per_group raw)" and "ipg \<equiv> unat (field32 s_inodes_per_group raw)"
    and "fdb \<equiv> unat (field32 s_first_data_block raw)"
  shows "0 < unat ng" "fdb + (unat ng - 1) * bpg < unat nb" "unat nb \<le> fdb + unat ng * bpg"
    "(unat ng - 1) * ipg < unat (field32 s_inodes_count raw)" "unat (field32 s_inodes_count raw) \<le> unat ng * ipg"
    "nf \<le> nb" "field32 s_free_inodes_count raw \<le> field32 s_inodes_count raw"
    "splice_count_hi (field32 s_blocks_count raw) (field32 s_blocks_count_hi raw) w64 = Ok nb"
    "splice_count_hi (field32 s_free_blocks_count raw) (field32 s_free_blocks_count_hi raw) w64 = Ok nf"
proof -
  let ?bpg = "field32 s_blocks_per_group raw" and ?ipg = "field32 s_inodes_per_group raw"
    and ?fdb = "field32 s_first_data_block raw" and ?ic = "field32 s_inodes_count raw"
  let ?g64 = "(nb - ucast ?fdb - 1) div ucast ?bpg + 1"
  have c: "\<not> nb \<le> ucast ?fdb + 1" "\<not> ?g64 > 0xFFFFFFFF" "ng = ucast ?g64"
    "\<not> (ucast ?ic :: u64) \<le> ((ucast ng :: u64) - 1) * ucast ?ipg" "\<not> (ucast ?ic :: u64) > (ucast ng :: u64) * ucast ?ipg"
    and rest: "nf \<le> nb" "field32 s_free_inodes_count raw \<le> ?ic"
    "splice_count_hi (field32 s_blocks_count raw) (field32 s_blocks_count_hi raw) w64 = Ok nb"
    "splice_count_hi (field32 s_free_blocks_count raw) (field32 s_free_blocks_count_hi raw) w64 = Ok nf"
    using assms(1) by (auto simp: check_counts_def Let_def not_less split: if_splits)
  show "nf \<le> nb" "field32 s_free_inodes_count raw \<le> ?ic"
    "splice_count_hi (field32 s_blocks_count raw) (field32 s_blocks_count_hi raw) w64 = Ok nb"
    "splice_count_hi (field32 s_free_blocks_count raw) (field32 s_free_blocks_count_hi raw) w64 = Ok nf"
    by (fact rest)+
  have up: "unat (ucast w :: u64) = unat w" for w :: u32 by (simp add: unat_ucast_up)
  have fdb1: "unat ((ucast ?fdb :: u64) + 1) = fdb + 1" 
    unfolding fdb_def using unat_bound[of ?fdb] by (simp add: unat_word_ariths up)
  have b: "fdb + 1 < unat nb" using c(1) fdb1 by (simp add: not_le word_less_nat_alt)
  have sub: "unat (nb - ucast ?fdb - 1) = unat nb - fdb - 1"
  proof -
    have d: "unat (nb - ucast ?fdb) = unat nb - fdb"
      using b by (subst unat_sub_small) (simp_all add: word_le_nat_alt up fdb_def)
    then have "1 \<le> nb - ucast ?fdb" using b unfolding word_le_nat_alt d by simp
    then show ?thesis using d by (simp add: unat_sub_small)
  qed
  have bpg: "0 < bpg" using assms(2) by (simp add: bpg_def word_less_nat_alt)
  have q: "unat ((nb - ucast ?fdb - 1) div ucast ?bpg) = (unat nb - fdb - 1) div bpg"
    by (simp add: unat_div sub up bpg_def)
  have g: "unat ?g64 = (unat nb - fdb - 1) div bpg + 1"
  proof -
    have "(unat nb - fdb - 1) div bpg + 1 \<le> unat nb"
      using div_le_dividend[of "unat nb - fdb - 1" bpg] b by linarith
    then have "(unat nb - fdb - 1) div bpg + 1 < 2 ^ 64" using unat_bound[of nb] by simp
    then show ?thesis by (subst unat_add_small) (simp_all add: q)
  qed
  have g32: "unat ng = (unat nb - fdb - 1) div bpg + 1"
    using c(2) unfolding c(3) by (subst unat_ucast_small) (simp_all add: g word_less_nat_alt)
  define k n where "k = (unat nb - fdb - 1) div bpg" and "n = unat nb - fdb - 1"
  have n: "unat nb = n + fdb + 1" using b by (simp add: n_def)
  have k: "unat ng = k + 1" using g32 by (simp add: k_def)
  have kn: "k * bpg \<le> n" unfolding k_def n_def[symmetric] by simp
  have nk: "n < (k + 1) * bpg" unfolding k_def n_def[symmetric]
    using dividend_less_div_times[OF bpg, of n] by (simp add: add.commute)
  show "0 < unat ng" "fdb + (unat ng - 1) * bpg < unat nb" "unat nb \<le> fdb + unat ng * bpg"
    using kn nk by (simp_all add: k n)
  have m: "unat (ucast ng * ucast ?ipg :: u64) = unat ng * ipg"
    using mult_strict_mono'[OF unat_bound[of ng] unat_bound[of ?ipg]]
    by (subst unat_mult_small) (simp_all add: up ipg_def)
  have m': "unat ((ucast ng - 1) * ucast ?ipg :: u64) = (unat ng - 1) * ipg"
  proof -
    have d: "unat (ucast ng - 1 :: u64) = unat ng - 1"
      using k by (subst unat_sub_small) (simp_all add: word_le_nat_alt up)
    have "(unat ng - 1) * ipg < 2 ^ 64"
      using mult_strict_mono'[of "unat ng - 1" "2 ^ 32" ipg "2 ^ 32"] unat_bound[of ng] unat_bound[of ?ipg] by (simp add: ipg_def)
    then show ?thesis using d by (subst unat_mult_small) (simp_all add: up ipg_def)
  qed
  show "(unat ng - 1) * ipg < unat ?ic" "unat ?ic \<le> unat ng * ipg"
    using c(4,5) by (simp_all add: not_le not_less word_less_nat_alt word_le_nat_alt m m' up)
qed

lemma check_group_sizes_ok:
  assumes "check_group_sizes raw isz = Ok itb"
  shows "0 < field32 s_inodes_per_group raw" "0 < field32 s_blocks_per_group raw"
    "unat (field32 s_inodes_per_group raw) \<le> 8 * BLOCK_SIZE" "unat (field32 s_blocks_per_group raw) \<le> 8 * BLOCK_SIZE"
  using assms
  by (auto simp: check_group_sizes_def Let_def BLOCK_SIZE_def not_less word_le_nat_alt word_neq_0_conv split: if_splits)

lemma parse_desc_size_ok: "parse_desc_size raw w64 = Ok d \<Longrightarrow> d \<in> {32, 64}"
  by (auto simp: parse_desc_size_def MIN_DESC_SIZE_def MIN_DESC_SIZE_64BIT_def MAX_DESC_SIZE_def split: if_splits)

lemma power_of_two_dvd_block:
  assumes "is_power_of_two n" "n \<le> BLOCK_SIZE"
  shows "n dvd BLOCK_SIZE"
proof -
  obtain k where k: "n = 2 ^ k" using assms(1) by (auto simp: is_power_of_two_def)
  have "(2::nat) ^ k \<le> 2 ^ 12" using assms(2) by (simp add: k BLOCK_SIZE_def)
  then have "k \<le> 12" using power_increasing_iff[of "2::nat" k 12] by linarith
  then have "(2::nat) ^ k dvd 2 ^ 12" by (rule le_imp_power_dvd)
  then show ?thesis by (simp add: k BLOCK_SIZE_def)
qed

lemma inode_layout_ok:
  assumes "inode_layout raw level = Ok (ino, isz)"
  shows "isz dvd BLOCK_SIZE"
  using assms power_of_two_dvd_block by (auto simp: inode_layout_def Let_def BLOCK_SIZE_def split: RevLevel.splits if_splits)

text \<open>The outcome of every stage of an accepted parse.\<close>

abbreviation raw_64bit :: "RawSuperBlock \<Rightarrow> bool" where
  "raw_64bit raw \<equiv> has_flags (field32 s_incompat raw AND INCOMPAT_ALL) INCOMPAT_IS_64BIT"

definition raw_accepted :: "RawSuperBlock \<Rightarrow> bool" where
  "raw_accepted raw \<longleftrightarrow>
     field16 s_magic raw = MAGIC_NUM \<and> field32 s_log_block_size raw = 2 \<and> field32 s_log_frag_size raw = 2 \<and>
     ErrorsBehavior_try_from (field16 s_errors raw) = Some ErrContinue \<and> OsId_try_from (field32 s_creator_os raw) = Some Linux \<and>
     field32 s_incompat raw AND NOT EXT4_INCOMPAT_SUPP = 0 \<and> has_flags (field32 s_incompat raw AND INCOMPAT_ALL) INCOMPAT_EXTENTS \<and>
     field32 s_ro_compat raw AND NOT EXT4_RO_COMPAT_SUPP = 0"

lemma try_from_stages:
  assumes "SuperBlock_try_from raw = Ok sb"
  obtains level ino isz d itb nb nf ng where
    "raw_accepted raw" "RevLevel_try_from (field32 s_rev_level raw) = Some level" "inode_layout raw level = Ok (ino, isz)"
    "RAW_INODE_SIZE \<le> isz" "parse_desc_size (field16 s_desc_size raw) (raw_64bit raw) = Ok d"
    "has_flags (field32 s_ro_compat raw AND RO_COMPAT_ALL) RO_COMPAT_METADATA_CSUM \<longrightarrow> verify_superblock_checksum raw = Ok ()"
    "check_group_sizes raw isz = Ok itb" "check_counts raw (raw_64bit raw) = Ok (nb, nf, ng)"
    "sb = SuperBlock_build raw level (ino, isz) d itb (nb, nf, ng)"
  using assms unfolding SuperBlock_try_from_def raw_accepted_def Let_def
  by (auto simp: not_less split: if_split_asm option.split_asm)

lemma try_from_accepts:
  assumes "raw_accepted raw" "RevLevel_try_from (field32 s_rev_level raw) = Some level" "inode_layout raw level = Ok (ino, isz)"
    and "RAW_INODE_SIZE \<le> isz" "parse_desc_size (field16 s_desc_size raw) (raw_64bit raw) = Ok d"
    and "has_flags (field32 s_ro_compat raw AND RO_COMPAT_ALL) RO_COMPAT_METADATA_CSUM \<longrightarrow> verify_superblock_checksum raw = Ok ()"
    and "check_group_sizes raw isz = Ok itb" "check_counts raw (raw_64bit raw) = Ok (nb, nf, ng)"
  shows "SuperBlock_try_from raw = Ok (SuperBlock_build raw level (ino, isz) d itb (nb, nf, ng))"
  using assms unfolding SuperBlock_try_from_def raw_accepted_def Let_def by (simp del: and_then_eq_Inr)

lemma try_from_ok:
  assumes "SuperBlock_try_from raw = Ok sb"
  shows "sb_ok sb"
proof -
  obtain level ino isz d itb nb nf ng where st: "inode_layout raw level = Ok (ino, isz)" "RAW_INODE_SIZE \<le> isz"
    "parse_desc_size (field16 s_desc_size raw) (raw_64bit raw) = Ok d"
    "check_group_sizes raw isz = Ok itb" "check_counts raw (raw_64bit raw) = Ok (nb, nf, ng)"
    and sb: "sb = SuperBlock_build raw level (ino, isz) d itb (nb, nf, ng)"
    using assms by (rule try_from_stages)
  note g = check_group_sizes_ok[OF st(4)]
  note c = check_counts_ok[OF st(5) g(2)]
  show ?thesis unfolding sb_ok_def sb SuperBlock_build_def
    using g c st(2) parse_desc_size_ok[OF st(3)] inode_layout_ok[OF st(1)]
    by (auto simp: unat_ucast_up word_less_nat_alt)
qed

section \<open>Writing back and parsing\<close>

lemma length_write_free_blocks_count [simp]:
  "length raw = 1024 \<Longrightarrow> length (write_free_blocks_count sb raw) = 1024"
  by (simp add: write_free_blocks_count_def Let_def sb_offsets)

lemma length_stamp_super_block [simp]:
  "length raw = 1024 \<Longrightarrow> length (stamp_super_block sb lo raw) = 1024"
  by (simp add: stamp_super_block_def Let_def sb_offsets)

text \<open>The bytes a capture leaves alone.\<close>

lemma stamp_slice_other:
  assumes "length raw = 1024"
    and "off + n \<le> 12 \<or> 20 \<le> off \<and> off + n \<le> 232 \<or> 236 \<le> off \<and> off + n \<le> 0x158 \<or> 0x15C \<le> off \<and> off + n \<le> 0x3FC"
  shows "slice off n (stamp_super_block sb lo raw) = slice off n raw"
  using assms
  by (auto simp: stamp_super_block_def write_free_blocks_count_def Let_def sb_offsets bytes_simps)

lemma stamp_field32_other:
  assumes "length raw = 1024"
    and "off + 4 \<le> 12 \<or> 20 \<le> off \<and> off + 4 \<le> 232 \<or> 236 \<le> off \<and> off + 4 \<le> 0x158 \<or> 0x15C \<le> off \<and> off + 4 \<le> 0x3FC"
  shows "field32 off (stamp_super_block sb lo raw) = field32 off raw"
  unfolding field32_def using assms by (subst stamp_slice_other) auto

lemma stamp_field16_other:
  assumes "length raw = 1024" "20 \<le> off \<and> off + 2 \<le> 232 \<or> 236 \<le> off \<and> off + 2 \<le> 0x158"
  shows "field16 off (stamp_super_block sb lo raw) = field16 off raw"
  unfolding field16_def using assms by (subst stamp_slice_other) auto

lemma stamp_free_inodes:
  "length raw = 1024 \<Longrightarrow> field32 s_free_inodes_count (stamp_super_block sb lo raw) = sb_free_inodes_count sb"
  by (simp add: field32_def stamp_super_block_def Let_def sb_offsets slice_splice_before)

lemma stamp_last_orphan:
  "length raw = 1024 \<Longrightarrow>
     field32 s_last_orphan (stamp_super_block sb lo raw) = (case lo of None \<Rightarrow> 0 | Some ino \<Rightarrow> ino)"
  by (simp add: field32_def stamp_super_block_def Let_def sb_offsets slice_splice_before)

lemma stamp_free_blocks:
  assumes "length raw = 1024"
  shows "field32 s_free_blocks_count (stamp_super_block sb lo raw) = ucast (sb_free_blocks_count sb)"
    "field32 s_free_blocks_count_hi (stamp_super_block sb lo raw) =
       (if has_flags (sb_feature_incompat sb) INCOMPAT_IS_64BIT then ucast (drop_bit 32 (sb_free_blocks_count sb))
        else field32 s_free_blocks_count_hi raw)"
  using assms
  by (simp_all add: field32_def stamp_super_block_def write_free_blocks_count_def Let_def sb_offsets
      slice_splice_before slice_splice_after)

lemma slice_one: "k < length xs \<Longrightarrow> slice k 1 xs = [xs ! k]"
  by (cases "drop k xs") (auto simp: slice_def hd_drop_conv_nth[symmetric])

lemma stamp_checksum_verifies:
  assumes "length raw = 1024" "has_metadata_csum sb"
    and "raw ! S_CHECKSUM_TYPE_OFFSET = CHECKSUM_TYPE_CRC32C"
  shows "verify_superblock_checksum (stamp_super_block sb lo raw) = Ok ()"
proof -
  let ?r = "stamp_super_block sb lo raw"
  have "[?r ! 0x175] = [raw ! 0x175]"
    using stamp_slice_other[OF assms(1), of "0x175" 1 sb lo] assms(1) by (simp add: slice_one del: One_nat_def)
  then have "?r ! 0x175 = raw ! 0x175" by simp
  moreover have "field32 S_CHECKSUM_OFFSET ?r = superblock_checksum ?r"
    using assms(1,2)
    by (simp add: field32_def superblock_checksum_def stamp_super_block_def Let_def sb_offsets take_splice)
  ultimately show ?thesis
    using assms(3) by (simp add: verify_superblock_checksum_def S_CHECKSUM_TYPE_OFFSET_def)
qed

lemma splice_count_round_trip:
  assumes "w64 \<or> (hi = 0 \<and> unat n < 2 ^ 32)"
  shows "splice_count_hi (ucast n) (if w64 then ucast (drop_bit 32 n) else hi) w64 = Ok n"
proof (cases w64)
  case True
  have "ucast (ucast n :: u32) OR push_bit 32 (ucast (ucast (drop_bit 32 n) :: u32)) = n"
    by (rule bit_word_eqI) (auto simp: bit_simps)
  with True show ?thesis by (simp add: splice_count_hi_def)
next
  case False
  then have "ucast (ucast n :: u32) = n" using assms by (simp add: word_unat_eq_iff unat_ucast_up unat_ucast_small)
  with False show ?thesis using assms by (simp add: splice_count_hi_def)
qed

lemma check_counts_free:
  assumes "check_counts raw w = Ok (nb, nf0, ng)"
    and "field32 s_blocks_per_group r = field32 s_blocks_per_group raw" "field32 s_inodes_per_group r = field32 s_inodes_per_group raw"
    and "field32 s_blocks_count r = field32 s_blocks_count raw" "field32 s_blocks_count_hi r = field32 s_blocks_count_hi raw"
    and "field32 s_first_data_block r = field32 s_first_data_block raw" "field32 s_inodes_count r = field32 s_inodes_count raw"
    and "splice_count_hi (field32 s_free_blocks_count r) (field32 s_free_blocks_count_hi r) w = Ok nf"
    and "nf \<le> nb" "field32 s_free_inodes_count r \<le> field32 s_inodes_count raw"
  shows "check_counts r w = Ok (nb, nf, ng)"
proof -
  define g64 where "g64 b = (b - ucast (field32 s_first_data_block raw) - 1) div ucast (field32 s_blocks_per_group raw) + (1 :: u64)" for b
  define few where "few b \<longleftrightarrow> b \<le> ucast (field32 s_first_data_block raw) + (1 :: u64)" for b
  define out where "out g \<longleftrightarrow> (ucast (field32 s_inodes_count raw) :: u64) \<le> ((ucast g :: u64) - 1) * ucast (field32 s_inodes_per_group raw) \<or>
    (ucast (field32 s_inodes_count raw) :: u64) > (ucast g :: u64) * ucast (field32 s_inodes_per_group raw)" for g :: u32
  have old: "splice_count_hi (field32 s_blocks_count raw) (field32 s_blocks_count_hi raw) w = Ok nb" "\<not> few nb"
    "\<not> g64 nb > 0xFFFFFFFF" "ng = ucast (g64 nb)" "\<not> out ng"
    using assms(1) unfolding check_counts_def Let_def g64_def[symmetric] few_def[symmetric] out_def[symmetric]
    by (auto split: if_splits)
  show ?thesis
    unfolding check_counts_def Let_def assms(2-7) g64_def[symmetric] few_def[symmetric] out_def[symmetric]
    using old assms(8-10) by (simp add: not_less del: and_then_eq_Inr)
qed

text \<open>A capture is read back as the in-memory superblock it was taken from.\<close>

lemma stamp_try_from:
  assumes "length raw = 1024" "SuperBlock_try_from raw = Ok sb0"
    and "sb = sb0\<lparr> sb_free_blocks_count := nf, sb_free_inodes_count := ni \<rparr>"
    and "nf \<le> sb_blocks_count sb0" "ni \<le> sb_inodes_count sb0" "lo \<noteq> Some 0"
  shows "SuperBlock_try_from (stamp_super_block sb lo raw) = Ok (sb\<lparr> sb_last_orphan := lo \<rparr>)"
proof -
  let ?r = "stamp_super_block sb lo raw" and ?w = "raw_64bit raw"
  note f = stamp_field32_other[OF assms(1)] stamp_field16_other[OF assms(1)] stamp_slice_other[OF assms(1)]
  obtain level ino isz d itb nb nf0 ng where st: "raw_accepted raw"
    "RevLevel_try_from (field32 s_rev_level raw) = Some level" "inode_layout raw level = Ok (ino, isz)" "RAW_INODE_SIZE \<le> isz"
    "parse_desc_size (field16 s_desc_size raw) ?w = Ok d"
    "has_flags (field32 s_ro_compat raw AND RO_COMPAT_ALL) RO_COMPAT_METADATA_CSUM \<longrightarrow> verify_superblock_checksum raw = Ok ()"
    "check_group_sizes raw isz = Ok itb" "check_counts raw ?w = Ok (nb, nf0, ng)"
    and build: "sb0 = SuperBlock_build raw level (ino, isz) d itb (nb, nf0, ng)"
    using assms(2) by (rule try_from_stages)
  have sb0: "sb_blocks_count sb0 = nb" "sb_inodes_count sb0 = field32 s_inodes_count raw" 
    "sb_feature_incompat sb0 = field32 s_incompat raw AND INCOMPAT_ALL" "sb_feature_ro_compat sb0 = field32 s_ro_compat raw AND RO_COMPAT_ALL"
    by (simp_all add: build SuperBlock_build_def)
  have layout: "inode_layout ?r level = inode_layout raw level" for level
    by (cases level) (simp_all add: inode_layout_def Let_def f sb_offsets)
  have sizes: "check_group_sizes ?r isz = check_group_sizes raw isz" for isz
    by (simp add: check_group_sizes_def Let_def f sb_offsets)
  note c = check_counts_ok[OF st(8) check_group_sizes_ok(2)[OF st(7)]]
  have "?w \<or> (field32 s_free_blocks_count_hi raw = 0 \<and> unat nf < 2 ^ 32)"
  proof (cases ?w)
    case False
    then have "nb = ucast (field32 s_blocks_count raw)" "field32 s_free_blocks_count_hi raw = 0"
      using c(8,9) by (auto simp: splice_count_hi_def split: if_splits)
    then show ?thesis using assms(4) unat_bound[of "field32 s_blocks_count raw"] by (simp add: sb0 word_le_nat_alt unat_ucast_up)
  qed simp
  note free = splice_count_round_trip[OF this]
  have fs: "field16 s_magic ?r = field16 s_magic raw" "field32 s_log_block_size ?r = field32 s_log_block_size raw"
    "field32 s_log_frag_size ?r = field32 s_log_frag_size raw" "field16 s_errors ?r = field16 s_errors raw"
    "field32 s_creator_os ?r = field32 s_creator_os raw" "field32 s_rev_level ?r = field32 s_rev_level raw"
    "field32 s_incompat ?r = field32 s_incompat raw" "field16 s_desc_size ?r = field16 s_desc_size raw"
    "field32 s_ro_compat ?r = field32 s_ro_compat raw" "field32 s_inodes_count ?r = field32 s_inodes_count raw"
    "field32 s_first_data_block ?r = field32 s_first_data_block raw" "field32 s_blocks_per_group ?r = field32 s_blocks_per_group raw"
    "field32 s_inodes_per_group ?r = field32 s_inodes_per_group raw" "field16 s_state ?r = field16 s_state raw"
    "field32 s_compat ?r = field32 s_compat raw" "slice s_fs_uuid 16 ?r = slice s_fs_uuid 16 raw"
    "field32 s_r_blocks_count ?r = field32 s_r_blocks_count raw" "field16 s_reserved_gdt_blocks ?r = field16 s_reserved_gdt_blocks raw"
    "field32 s_journal_ino ?r = field32 s_journal_ino raw" "field32 s_journal_dev ?r = field32 s_journal_dev raw"
    "field32 s_blocks_count ?r = field32 s_blocks_count raw" "field32 s_blocks_count_hi ?r = field32 s_blocks_count_hi raw"
    "field32 s_flags ?r = field32 s_flags raw"
    by (simp_all add: f sb_offsets)
  have "splice_count_hi (field32 s_free_blocks_count ?r) (field32 s_free_blocks_count_hi ?r) ?w = Ok nf"
    using free by (cases ?w) (simp_all add: stamp_free_blocks[OF assms(1)] assms(3) sb0)
  then have counts: "check_counts ?r ?w = Ok (nb, nf, ng)"
    using assms(4,5) by (intro check_counts_free[OF st(8)] fs) (simp_all add: sb0 stamp_free_inodes[OF assms(1)] assms(3))
  have csum: "verify_superblock_checksum ?r = Ok ()" if "has_flags (field32 s_ro_compat raw AND RO_COMPAT_ALL) RO_COMPAT_METADATA_CSUM"
    using that st(6) by (intro stamp_checksum_verifies assms(1))
      (auto simp: has_metadata_csum_def assms(3) sb0 verify_superblock_checksum_def split: if_splits)
  have orphan: "(if field32 s_last_orphan ?r \<noteq> 0 then Some (field32 s_last_orphan ?r) else None) = lo"
    using assms(6) unfolding stamp_last_orphan[OF assms(1)] by (cases lo) simp_all
  have seed: "map (\<lambda>i. field32 (s_hash_seed + 4 * i) ?r) [0..<4] = map (\<lambda>i. field32 (s_hash_seed + 4 * i) raw) [0..<4]"
    by (simp add: f sb_offsets)
  have "raw_accepted ?r" using st(1) by (simp add: raw_accepted_def fs)
  then have "SuperBlock_try_from ?r = Ok (SuperBlock_build ?r level (ino, isz) d itb (nb, nf, ng))"
    using st csum counts by (intro try_from_accepts) (simp_all add: fs layout sizes)
  also have "SuperBlock_build ?r level (ino, isz) d itb (nb, nf, ng) =
    (SuperBlock_build raw level (ino, isz) d itb (nb, nf, ng))\<lparr> sb_free_inodes_count := sb_free_inodes_count sb, sb_last_orphan := lo \<rparr>"
    unfolding SuperBlock_build_def prod.case fs seed orphan stamp_free_inodes[OF assms(1)] by simp
  also have "\<dots> = sb\<lparr> sb_last_orphan := lo \<rparr>"
    by (simp add: assms(3) build SuperBlock_build_def)
  finally show ?thesis .
qed

section \<open>The sparse-super test\<close>

lemma is_power_of_loop_iff:
  assumes "2 \<le> unat base" "unat w < unat base * 2 ^ fuel"
  shows "is_power_of_loop fuel w base \<longleftrightarrow> (\<exists>k\<ge>1. unat w = unat base ^ k)"
  using assms(2)
proof (induction fuel arbitrary: w)
  case 0
  have "unat w \<noteq> unat base ^ k" if "k \<ge> 1" for k
    using 0 self_le_power[of "unat base" k] assms(1) that by auto
  then show ?case using 0 by auto
next
  case (Suc fuel)
  have small: "unat w = unat base ^ k \<Longrightarrow> k \<ge> 1 \<Longrightarrow> unat base \<le> unat w" for k
    using self_le_power[of "unat base" k] assms(1) by simp
  show ?case
  proof (cases "base < w")
    case False
    then have "unat w \<le> unat base" by (simp add: word_less_nat_alt)
    then have "(\<exists>k\<ge>1. unat w = unat base ^ k) \<longleftrightarrow> unat w = unat base"
      using small by (metis le_antisym order_refl power_one_right)
    then show ?thesis using False by (simp add: word_unat_eq_iff)
  next
    case True
    show ?thesis
    proof (cases "w mod base = 0")
      case False
      then have "\<not> unat base dvd unat w" by (simp add: dvd_eq_mod_eq_0 word_unat_eq_iff unat_mod)
      moreover have "unat base dvd unat base ^ k" if "k \<ge> 1" for k using that by (simp add: dvd_power)
      ultimately show ?thesis using True False by (metis is_power_of_loop.simps(2))
    next
      case dvd: True
      have d: "unat (w div base) = unat w div unat base" by (rule unat_div)
      have m: "unat w = unat base * (unat w div unat base)"
        using dvd by (metis unat_0 unat_mod mult_div_mod_eq add.right_neutral)
      have "unat base * (unat w div unat base) < unat base * (2 * 2 ^ fuel)" using Suc.prems m by simp
      then have "unat w div unat base < 2 * 2 ^ fuel" by simp
      also have "\<dots> \<le> unat base * 2 ^ fuel" using assms(1) by simp
      finally have IH: "is_power_of_loop fuel (w div base) base \<longleftrightarrow> (\<exists>k\<ge>1. unat w div unat base = unat base ^ k)"
        using Suc.IH[of "w div base"] d by simp
      have "(\<exists>k\<ge>1. unat w div unat base = unat base ^ k) \<longleftrightarrow> (\<exists>k\<ge>1. unat w = unat base ^ k)"
      proof
        assume "\<exists>k\<ge>1. unat w div unat base = unat base ^ k"
        then obtain k where "k \<ge> 1" "unat w div unat base = unat base ^ k" by blast
        then have "unat w = unat base ^ Suc k" using m by simp
        then show "\<exists>k\<ge>1. unat w = unat base ^ k" by (intro exI[of _ "Suc k"]) simp
      next
        assume "\<exists>k\<ge>1. unat w = unat base ^ k"
        then obtain k where k: "k \<ge> 1" "unat w = unat base ^ k" by blast
        then obtain k' where k': "k = Suc k'" by (cases k) auto
        have "k' \<noteq> 0" using True k k' by (cases "k' = 0") (simp_all add: word_less_nat_alt)
        moreover have "unat w div unat base = unat base ^ k'" using k k' assms(1) by simp
        ultimately show "\<exists>k\<ge>1. unat w div unat base = unat base ^ k" by (intro exI[of _ k']) simp
      qed
      then show ?thesis using True dvd IH by simp
    qed
  qed
qed

text \<open>The bound of 32 rounds loses nothing: the test decides the powers of its base.\<close>

lemma is_power_of_iff: "2 \<le> unat base \<Longrightarrow> is_power_of w base \<longleftrightarrow> (\<exists>k\<ge>1. unat w = unat base ^ k)"
  unfolding is_power_of_def using unat_bound[of w] by (intro is_power_of_loop_iff) simp_all

section \<open>A sample superblock\<close>

definition sample_byte :: "nat \<Rightarrow> u8" where
  "sample_byte i = (if i = 0 \<or> i = 40 then 32 else if i = 4 then 100 else if i = 12 then 50 else if i = 16 then 20
     else if i = 24 \<or> i = 28 then 2 else if i = 33 then 0x80 else if i = 56 then 0x53 else if i = 57 then 0xEF
     else if i = 60 \<or> i = 76 \<or> i = 89 then 1 else if i = 96 then 0x40 else 0)"

definition sample_raw :: bytes where
  "sample_raw = map sample_byte [0..<1024]"

lemma slice_Cons_nth: "off < length xs \<Longrightarrow> slice off (Suc n) xs = xs ! off # slice (Suc off) n xs"
  by (simp add: slice_def Cons_nth_drop_Suc[symmetric])

lemma sample32: "off + 4 \<le> 1024 \<Longrightarrow>
    field32 off sample_raw = word_of_le [sample_byte off, sample_byte (off + 1), sample_byte (off + 2), sample_byte (off + 3)]"
  by (simp add: field32_def sample_raw_def eval_nat_numeral slice_Cons_nth slice_def[of _ 0] del: upt_Suc)

lemma sample16: "off + 2 \<le> 1024 \<Longrightarrow> field16 off sample_raw = word_of_le [sample_byte off, sample_byte (off + 1)]"
  by (simp add: field16_def sample_raw_def eval_nat_numeral slice_Cons_nth slice_def[of _ 0] del: upt_Suc)

lemma sample_len: "length sample_raw = 1024"
  by (simp add: sample_raw_def)

lemma sample_fields: 
  "field32 s_inodes_count sample_raw = 32" "field32 s_blocks_count sample_raw = 100" "field32 s_free_blocks_count sample_raw = 50"
  "field32 s_free_inodes_count sample_raw = 20" "field32 s_log_block_size sample_raw = 2" "field32 s_log_frag_size sample_raw = 2"
  "field32 s_blocks_per_group sample_raw = 32768" "field32 s_inodes_per_group sample_raw = 32" "field16 s_magic sample_raw = MAGIC_NUM"
  "field16 s_errors sample_raw = 1" "field32 s_rev_level sample_raw = 1" "field16 s_inode_size sample_raw = 256"
  "field32 s_incompat sample_raw = INCOMPAT_EXTENTS" 
  "field32 s_creator_os sample_raw = 0" "field16 s_desc_size sample_raw = 0"  "field32 s_ro_compat sample_raw = 0"
  "field32 s_blocks_count_hi sample_raw = 0" "field32 s_free_blocks_count_hi sample_raw = 0" "field32 s_first_data_block sample_raw = 0"
  by (simp_all add: sample32 sample16 sb_offsets sample_byte_def MAGIC_NUM_def INCOMPAT_EXTENTS_def)

lemma sample_parses: "\<exists>sb. SuperBlock_try_from sample_raw = Ok sb \<and> sb_blocks_count sb = 100 \<and> sb_inodes_count sb = 32"
proof -
  have "raw_accepted sample_raw" by (simp add: raw_accepted_def sample_fields feature_defs has_flags_def ErrorsBehavior_try_from_def OsId_try_from_def)
  moreover have "RevLevel_try_from (field32 s_rev_level sample_raw) = Some Dynamic" by (simp add: RevLevel_try_from_def sample_fields)
  moreover have "is_power_of_two 256" by (auto simp: is_power_of_two_def intro!: exI[of _ 8])
  then have "inode_layout sample_raw Dynamic = Ok (field32 s_first_ino sample_raw, 256)" by (simp add: inode_layout_def sample_fields BLOCK_SIZE_def)
  moreover have "RAW_INODE_SIZE \<le> 256" by (simp add: RAW_INODE_SIZE_def)
  moreover have w: "\<not> raw_64bit sample_raw" by (simp add: sample_fields feature_defs has_flags_def)
  moreover have "parse_desc_size (field16 s_desc_size sample_raw) False = Ok 32" by (simp add: parse_desc_size_def sample_fields MIN_DESC_SIZE_def)
  moreover have "has_flags (field32 s_ro_compat sample_raw AND RO_COMPAT_ALL) RO_COMPAT_METADATA_CSUM \<longrightarrow> verify_superblock_checksum sample_raw = Ok ()"
    by (simp add: sample_fields has_flags_def feature_defs)
  moreover have "check_group_sizes sample_raw 256 = Ok 2" by (simp add: check_group_sizes_def sample_fields BLOCK_SIZE_def Let_def)
  moreover have "check_counts sample_raw False = Ok (100, 50, 1)" by (simp add: check_counts_def sample_fields splice_count_hi_def Let_def word_le_nat_alt word_less_nat_alt)
  ultimately have "SuperBlock_try_from sample_raw =
      Ok (SuperBlock_build sample_raw Dynamic (field32 s_first_ino sample_raw, 256) 32 2 (100, 50, 1))"
    by (intro try_from_accepts) simp_all
  then show ?thesis by (simp add: SuperBlock_build_def sample_fields)
qed

section \<open>Properties\<close>

text \<open>C37: superblock captures are read back.  Patching an accepted raw superblock with in-memory free
  counters that do not exceed the totals, and with a new orphan head, gives a raw superblock that is
  accepted again, checksum included, and parses to exactly the in-memory values.\<close>

theorem superblock_round_trip:
  assumes "length raw = SUPER_BLOCK_SIZE" "SuperBlock_try_from raw = Ok sb"
    and "free_blocks \<le> sb_blocks_count sb" "free_inodes \<le> sb_inodes_count sb" "last_orphan \<noteq> Some 0"
  shows "SuperBlock_try_from
      (stamp_super_block (sb\<lparr> sb_free_blocks_count := free_blocks, sb_free_inodes_count := free_inodes \<rparr>) last_orphan raw) =
    Ok (sb\<lparr> sb_free_blocks_count := free_blocks, sb_free_inodes_count := free_inodes, sb_last_orphan := last_orphan \<rparr>)"
  using stamp_try_from[OF _ assms(2) refl assms(3-5)] assms(1) by (simp add: SUPER_BLOCK_SIZE_def)

theorem superblock_round_trip_witness:
  "\<exists>sb. SuperBlock_try_from sample_raw = Ok sb \<and>
     SuperBlock_try_from (stamp_super_block (sb\<lparr> sb_free_blocks_count := 40, sb_free_inodes_count := 19 \<rparr>) (Some 12) sample_raw) =
       Ok (sb\<lparr> sb_free_blocks_count := 40, sb_free_inodes_count := 19, sb_last_orphan := Some 12 \<rparr>)"
proof -
  obtain sb where sb: "SuperBlock_try_from sample_raw = Ok sb" "sb_blocks_count sb = 100" "sb_inodes_count sb = 32"
    using sample_parses by blast
  have "length sample_raw = SUPER_BLOCK_SIZE" by (simp add: sample_len SUPER_BLOCK_SIZE_def)
  from superblock_round_trip[OF this sb(1), of 40 19 "Some 12"] show ?thesis using sb by auto
qed

end
