(* ===== verification/Id_Bitmap.thy ===== *)
theory Id_Bitmap
  imports Bytes
begin

text \<open>
  The identifier bitmap of \<open>kernel/src/fs/utils/id_bitmap.rs\<close>: one block of bits, least significant
  bit first, with a cursor to the first clear bit.  The \<open>u16\<close> identifiers are natural numbers here;
  the one addition that can leave sixteen bits is checked in the source and written out.
\<close>

unbundle bit_operations_syntax

section \<open>Bits of a buffer\<close>

definition get_bit :: "bytes \<Rightarrow> nat \<Rightarrow> bool" where
  "get_bit buf i = bit (buf ! (i div 8)) (i mod 8)"

definition put_bit :: "bytes \<Rightarrow> nat \<Rightarrow> bool \<Rightarrow> bytes" where
  "put_bit buf i v =
     buf[i div 8 := (if v then set_bit (i mod 8) (buf ! (i div 8)) else unset_bit (i mod 8) (buf ! (i div 8)))]"

fun put_bits :: "bytes \<Rightarrow> nat list \<Rightarrow> bool \<Rightarrow> bytes" where
  "put_bits buf [] v = buf"
| "put_bits buf (i # is) v = put_bits (put_bit buf i v) is v"

lemma length_put_bit [simp]: "length (put_bit buf i v) = length buf"
  by (simp add: put_bit_def)

lemma length_put_bits [simp]: "length (put_bits buf is v) = length buf"
  by (induction buf "is" v rule: put_bits.induct) simp_all

lemma get_put_bit:
  assumes "i < 8 * length buf"
  shows "get_bit (put_bit buf i v) j = (if j = i then v else get_bit buf j)"
proof (cases "j div 8 = i div 8")
  case True
  have len: "i div 8 < length buf" using assms by (simp add: less_mult_imp_div_less mult.commute)
  have "j = i \<longleftrightarrow> j mod 8 = i mod 8" using True by (metis div_mult_mod_eq)
  then show ?thesis
    using True len by (auto simp: get_bit_def put_bit_def bit_set_bit_iff bit_unset_bit_iff)
next
  case False
  then have "j \<noteq> i" by auto
  then show ?thesis using False by (simp add: get_bit_def put_bit_def)
qed

lemma get_put_bits:
  "\<forall>i\<in>set is. i < 8 * length buf \<Longrightarrow> get_bit (put_bits buf is v) j = (if j \<in> set is then v else get_bit buf j)"
  by (induction buf "is" v rule: put_bits.induct) (simp_all add: get_put_bit)

section \<open>The bitmap\<close>

record IdBitmap =
  bm_buf :: bytes
  first_available_id :: nat
  bm_len :: nat

definition IdBitmap_capacity :: nat where
  "IdBitmap_capacity = BLOCK_SIZE * 8"

text \<open>\<open>(from..to).find(clear).unwrap_or(to)\<close>.\<close>

definition find_clear :: "bytes \<Rightarrow> nat \<Rightarrow> nat \<Rightarrow> nat" where
  "find_clear buf lower upper = (case find (\<lambda>i. \<not> get_bit buf i) [lower..<upper] of Some i \<Rightarrow> i | None \<Rightarrow> upper)"

definition IdBitmap_from_buf :: "bytes \<Rightarrow> nat \<Rightarrow> IdBitmap" where
  "IdBitmap_from_buf buf n = \<lparr> bm_buf = buf, first_available_id = find_clear buf 0 n, bm_len = n \<rparr>"

definition is_allocated :: "IdBitmap \<Rightarrow> nat \<Rightarrow> bool" where
  "is_allocated bm i = get_bit (bm_buf bm) i"

definition IdBitmap_alloc :: "IdBitmap \<Rightarrow> nat option \<times> IdBitmap" where
  "IdBitmap_alloc bm =
     (if first_available_id bm < bm_len bm
      then let i = first_available_id bm; buf = put_bit (bm_buf bm) i True in
           (Some i, bm\<lparr> bm_buf := buf, first_available_id := find_clear buf (i + 1) (bm_len bm) \<rparr>)
      else (None, bm))"

text \<open>The scan keeps a run \<open>[s, e)\<close> of clear bits and restarts behind a set bit.\<close>

function scan_run :: "bytes \<Rightarrow> nat \<Rightarrow> nat \<Rightarrow> nat \<Rightarrow> nat \<Rightarrow> nat \<times> nat" where
  "scan_run buf n cnt s e =
     (if e - s < cnt \<and> e < n
      then (if \<not> get_bit buf e then scan_run buf n cnt s (e + 1) else scan_run buf n cnt (e + 1) (e + 1))
      else (s, e))"
  by pat_completeness auto
termination by (relation "measure (\<lambda>(_, n, _, _, e). n - e)") auto

declare scan_run.simps [simp del]

definition alloc_consecutive :: "IdBitmap \<Rightarrow> nat \<Rightarrow> (nat \<times> nat) option \<times> IdBitmap" where
  "alloc_consecutive bm cnt =
     (if cnt = 0 then (None, bm)
      else if first_available_id bm + cnt \<ge> 2 ^ 16 \<or> first_available_id bm + cnt > bm_len bm then (None, bm)
      else
        let fa = first_available_id bm; (s, e) = scan_run (bm_buf bm) (bm_len bm) cnt fa (fa + 1) in
        if e - s < cnt then (None, bm)
        else
          let buf = put_bits (bm_buf bm) [s..<e] True in
          (Some (s, e),
           bm\<lparr> bm_buf := buf,
               first_available_id := (if get_bit buf fa then find_clear buf e (bm_len bm) else fa) \<rparr>))"

definition IdBitmap_free :: "IdBitmap \<Rightarrow> nat \<Rightarrow> IdBitmap" where
  "IdBitmap_free bm i =
     bm\<lparr> bm_buf := put_bit (bm_buf bm) i False, first_available_id := min i (first_available_id bm) \<rparr>"

definition free_consecutive :: "IdBitmap \<Rightarrow> nat \<Rightarrow> nat \<Rightarrow> IdBitmap" where
  "free_consecutive bm s e =
     (if e \<le> s then bm
      else bm\<lparr> bm_buf := put_bits (bm_buf bm) [s..<e] False, first_available_id := min s (first_available_id bm) \<rparr>)"

section \<open>The invariant\<close>

text \<open>The cursor is the first clear bit, or the length when there is none.\<close>

definition bitmap_ok :: "IdBitmap \<Rightarrow> bool" where
  "bitmap_ok bm \<longleftrightarrow> bm_len bm \<le> 8 * length (bm_buf bm) \<and> bm_len bm < 2 ^ 16 \<and> first_available_id bm \<le> bm_len bm \<and>
     (\<forall>i<first_available_id bm. is_allocated bm i) \<and>
     (first_available_id bm < bm_len bm \<longrightarrow> \<not> is_allocated bm (first_available_id bm))"

lemma find_clear_props:
  assumes "lower \<le> upper"
  shows "lower \<le> find_clear buf lower upper" "find_clear buf lower upper \<le> upper"
    "lower \<le> i \<Longrightarrow> i < find_clear buf lower upper \<Longrightarrow> get_bit buf i"
    "find_clear buf lower upper < upper \<Longrightarrow> \<not> get_bit buf (find_clear buf lower upper)"
proof -
  have "lower \<le> find_clear buf lower upper \<and> find_clear buf lower upper \<le> upper \<and>
      (\<forall>i. lower \<le> i \<longrightarrow> i < find_clear buf lower upper \<longrightarrow> get_bit buf i) \<and>
      (find_clear buf lower upper < upper \<longrightarrow> \<not> get_bit buf (find_clear buf lower upper))"
  proof (cases "find (\<lambda>i. \<not> get_bit buf i) [lower..<upper]")
    case None
    then have "find_clear buf lower upper = upper" "\<forall>i. lower \<le> i \<longrightarrow> i < upper \<longrightarrow> get_bit buf i"
      by (simp add: find_clear_def) (use None in \<open>auto simp: find_None_iff\<close>)
    then show ?thesis using assms by simp
  next
    case (Some k)
    then obtain m where m: "m < upper - lower" "\<not> get_bit buf (lower + m)" "k = lower + m" "\<forall>j<m. get_bit buf (lower + j)"
      by (auto simp: find_Some_iff)
    have "get_bit buf i" if "lower \<le> i" "i < k" for i using m(3,4) that by (metis add_diff_inverse_nat add_less_cancel_left not_le)
    then show ?thesis using Some m assms by (auto simp: find_clear_def)
  qed
  then show "lower \<le> find_clear buf lower upper" "find_clear buf lower upper \<le> upper"
    "lower \<le> i \<Longrightarrow> i < find_clear buf lower upper \<Longrightarrow> get_bit buf i"
    "find_clear buf lower upper < upper \<Longrightarrow> \<not> get_bit buf (find_clear buf lower upper)" by blast+
qed

lemma from_buf_ok: "n \<le> 8 * length buf \<Longrightarrow> n < 2 ^ 16 \<Longrightarrow> bitmap_ok (IdBitmap_from_buf buf n)"
  using find_clear_props[where lower = 0 and upper = n and buf = buf] by (simp add: bitmap_ok_def IdBitmap_from_buf_def is_allocated_def)

lemma is_allocated_from_buf [simp]: "is_allocated (IdBitmap_from_buf buf n) i = get_bit buf i"
  by (simp add: is_allocated_def IdBitmap_from_buf_def)

text \<open>The scan finds the first run of clear bits that is long enough, if there is one.\<close>

definition clear_run :: "bytes \<Rightarrow> nat \<Rightarrow> nat \<Rightarrow> bool" where
  "clear_run buf s e \<longleftrightarrow> (\<forall>i. s \<le> i \<longrightarrow> i < e \<longrightarrow> \<not> get_bit buf i)"

lemma scan_run_spec:
  assumes "s \<le> e" "e \<le> n" "e - s \<le> cnt" "0 < cnt" "clear_run buf s e" "scan_run buf n cnt s e = (s', e')"
    and "\<forall>a. first \<le> a \<longrightarrow> a < s \<longrightarrow> \<not> (a + cnt \<le> n \<and> clear_run buf a (a + cnt))" "first \<le> s"
  shows "s' \<le> e'" "e' \<le> n" "clear_run buf s' e'" "e' - s' \<le> cnt" "first \<le> s'"
    "\<forall>a. first \<le> a \<longrightarrow> a < s' \<longrightarrow> \<not> (a + cnt \<le> n \<and> clear_run buf a (a + cnt))" "e' - s' < cnt \<Longrightarrow> e' = n"
proof -
  have "s' \<le> e' \<and> e' \<le> n \<and> clear_run buf s' e' \<and> e' - s' \<le> cnt \<and> first \<le> s' \<and>
    (\<forall>a. first \<le> a \<longrightarrow> a < s' \<longrightarrow> \<not> (a + cnt \<le> n \<and> clear_run buf a (a + cnt))) \<and> (e' - s' < cnt \<longrightarrow> e' = n)"
    using assms
  proof (induction buf n cnt s e rule: scan_run.induct)
    case (1 buf n cnt s e)
    show ?case
    proof (cases "e - s < cnt \<and> e < n")
      case go: True
      show ?thesis
      proof (cases "get_bit buf e")
        case True
        have run: "scan_run buf n cnt (e + 1) (e + 1) = (s', e')" using "1.prems"(6) go True by (subst (asm) scan_run.simps) simp
        have "\<not> clear_run buf a (a + cnt)" if "s \<le> a" "a < e + 1" for a
          using that go True by (auto simp: clear_run_def intro!: exI[of _ e])
        then have "\<forall>a. first \<le> a \<longrightarrow> a < e + 1 \<longrightarrow> \<not> (a + cnt \<le> n \<and> clear_run buf a (a + cnt))"
          using "1.prems"(7) by (metis not_le)
        then show ?thesis using "1.IH"(2)[OF go] True run "1.prems" go by (auto simp: clear_run_def)
      next
        case False
        have run: "scan_run buf n cnt s (e + 1) = (s', e')" using "1.prems"(6) go False by (subst (asm) scan_run.simps) simp
        have "clear_run buf s (e + 1)" using "1.prems"(5) False by (auto simp: clear_run_def less_Suc_eq)
        then show ?thesis using "1.IH"(1)[OF go False] run "1.prems" go by auto
      qed
    next
      case False
      then have "s' = s" "e' = e" using "1.prems"(6) by (subst (asm) scan_run.simps; simp)+
      then show ?thesis using "1.prems" False by auto
    qed
  qed
  then show "s' \<le> e'" "e' \<le> n" "clear_run buf s' e'" "e' - s' \<le> cnt" "first \<le> s'"
    "\<forall>a. first \<le> a \<longrightarrow> a < s' \<longrightarrow> \<not> (a + cnt \<le> n \<and> clear_run buf a (a + cnt))" "e' - s' < cnt \<Longrightarrow> e' = n" by blast+
qed

lemma alloc_consecutive_Some:
  assumes "bitmap_ok bm" "alloc_consecutive bm cnt = (Some (s, e), bm')"
  shows "e = s + cnt" "e \<le> bm_len bm" "0 < cnt" "\<forall>i. s \<le> i \<longrightarrow> i < e \<longrightarrow> \<not> is_allocated bm i"
    "is_allocated bm' i \<longleftrightarrow> (s \<le> i \<and> i < e) \<or> is_allocated bm i" "bm_len bm' = bm_len bm" "length (bm_buf bm') = length (bm_buf bm)"
    "\<forall>a < s. \<not> clear_run (bm_buf bm) a (a + cnt)" "bitmap_ok bm'"
proof -
  let ?fa = "first_available_id bm" and ?buf = "bm_buf bm" and ?n = "bm_len bm"
  note ok = assms(1)[unfolded bitmap_ok_def is_allocated_def]
  have c: "0 < cnt" "?fa + cnt \<le> ?n" using assms(2) by (auto simp: alloc_consecutive_def split: if_splits)
  obtain s0 e0 where sc: "scan_run ?buf ?n cnt ?fa (?fa + 1) = (s0, e0)" by fastforce
  define buf where "buf = put_bits ?buf [s..<e] True"
  have se: "s0 = s" "e0 = e" "\<not> e - s < cnt"
    and bm': "bm' = bm\<lparr> bm_buf := buf, first_available_id := (if get_bit buf ?fa then find_clear buf e ?n else ?fa) \<rparr>"
    using assms(2) c sc by (auto simp: alloc_consecutive_def Let_def buf_def split: if_splits)
  have start: "clear_run ?buf ?fa (?fa + 1)" using ok c by (auto simp: clear_run_def less_Suc_eq)
  have pre: "?fa \<le> ?fa + 1" "?fa + 1 \<le> ?n" "?fa + 1 - ?fa \<le> cnt" "\<forall>a\<ge>?fa. a < ?fa \<longrightarrow> \<not> (a + cnt \<le> ?n \<and> clear_run ?buf a (a + cnt))" "?fa \<le> ?fa"
    using c by auto
  note sp = scan_run_spec[OF pre(1-3) c(1) start sc[unfolded se] pre(4-5)]
  show e: "e = s + cnt" "e \<le> ?n" using sp(1,2,4) se(3) by linarith+
  show "0 < cnt" by (rule c(1))
  have cl: "clear_run ?buf s e" "?fa \<le> s" "\<forall>a. ?fa \<le> a \<longrightarrow> a < s \<longrightarrow> \<not> (a + cnt \<le> ?n \<and> clear_run ?buf a (a + cnt))"
    using sp by blast+
  show "\<forall>i. s \<le> i \<longrightarrow> i < e \<longrightarrow> \<not> is_allocated bm i" using cl(1) by (simp add: clear_run_def is_allocated_def)
  have get: "get_bit buf j = (if s \<le> j \<and> j < e then True else get_bit ?buf j)" for j
    unfolding buf_def using e ok by (subst get_put_bits) auto
  show "is_allocated bm' i \<longleftrightarrow> (s \<le> i \<and> i < e) \<or> is_allocated bm i" using get[of i] by (auto simp: bm' is_allocated_def)
  show "bm_len bm' = bm_len bm" "length (bm_buf bm') = length ?buf" by (simp_all add: bm' buf_def)
  show "\<forall>a < s. \<not> clear_run ?buf a (a + cnt)"
  proof (intro allI impI)
    fix a assume "a < s"
    show "\<not> clear_run ?buf a (a + cnt)"
    proof (cases "a < ?fa")
      case True
      then show ?thesis using ok c(1) by (auto simp: clear_run_def)
    next
      case False
      then show ?thesis using cl(3) \<open>a < s\<close> e by auto
    qed
  qed
  note fc = find_clear_props[where lower = e and upper = ?n and buf = buf, OF e(2)]
  have "\<forall>i<find_clear buf e ?n. get_bit buf i" if "get_bit buf ?fa"
  proof (intro allI impI)
    fix i assume i: "i < find_clear buf e ?n"
    have "?fa = s" using that get[of ?fa] ok c cl(2) by (auto split: if_splits)
    then show "get_bit buf i" using i get[of i] ok fc(3)[of i] by (cases "i < e"; cases "i < s") auto
  qed
  then show "bitmap_ok bm'" using ok get fc e cl(2) by (auto simp: bitmap_ok_def is_allocated_def bm' buf_def)
qed

lemma alloc_consecutive_None:
  assumes "bitmap_ok bm" "alloc_consecutive bm cnt = (None, bm')" "0 < cnt"
  shows "bm' = bm" "a + cnt \<le> bm_len bm \<Longrightarrow> \<not> clear_run (bm_buf bm) a (a + cnt)"
proof -
  let ?fa = "first_available_id bm" and ?buf = "bm_buf bm" and ?n = "bm_len bm"
  note ok = assms(1)[unfolded bitmap_ok_def is_allocated_def]
  show "bm' = bm" using assms(2) by (auto simp: alloc_consecutive_def Let_def split: if_splits prod.splits)
  assume a: "a + cnt \<le> ?n"
  show "\<not> clear_run ?buf a (a + cnt)"
  proof
    assume run: "clear_run ?buf a (a + cnt)"
    then have "\<not> get_bit ?buf a" using assms(3) by (simp add: clear_run_def)
    then have fa: "?fa \<le> a" using ok linorder_not_le by blast
    then have c: "?fa + cnt \<le> ?n" "?fa < ?n" using a assms(3) by auto
    obtain s e where sc: "scan_run ?buf ?n cnt ?fa (?fa + 1) = (s, e)" by fastforce
    have "e - s < cnt" using assms(2,3) c ok sc by (auto simp: alloc_consecutive_def Let_def split: if_splits)
    moreover have start: "clear_run ?buf ?fa (?fa + 1)" using ok c by (auto simp: clear_run_def less_Suc_eq)
    have pre: "?fa \<le> ?fa + 1" "?fa + 1 \<le> ?n" "?fa + 1 - ?fa \<le> cnt" "\<forall>a\<ge>?fa. a < ?fa \<longrightarrow> \<not> (a + cnt \<le> ?n \<and> clear_run ?buf a (a + cnt))" "?fa \<le> ?fa"
      using c assms(3) by auto
    note sp = scan_run_spec[OF pre(1-3) assms(3) start sc pre(4-5)]
    ultimately have "e = ?n" "\<forall>a. ?fa \<le> a \<longrightarrow> a < s \<longrightarrow> \<not> (a + cnt \<le> ?n \<and> clear_run ?buf a (a + cnt))"
      using sp by blast+
    moreover have "a < s" using calculation(1) a \<open>e - s < cnt\<close> by linarith
    ultimately show False using run a fa by blast
  qed
qed

lemma free_consecutive_ok:
  assumes "bitmap_ok bm" "e \<le> bm_len bm"
  shows "bitmap_ok (free_consecutive bm s e)" "is_allocated (free_consecutive bm s e) i \<longleftrightarrow> is_allocated bm i \<and> \<not> (s \<le> i \<and> i < e)"
    "bm_len (free_consecutive bm s e) = bm_len bm" "length (bm_buf (free_consecutive bm s e)) = length (bm_buf bm)"
proof -
  have get: "get_bit (put_bits (bm_buf bm) [s..<e] False) j = (if s \<le> j \<and> j < e then False else get_bit (bm_buf bm) j)" for j
    using assms by (subst get_put_bits) (auto simp: bitmap_ok_def)
  show "is_allocated (free_consecutive bm s e) i \<longleftrightarrow> is_allocated bm i \<and> \<not> (s \<le> i \<and> i < e)"
    "bm_len (free_consecutive bm s e) = bm_len bm" "length (bm_buf (free_consecutive bm s e)) = length (bm_buf bm)"
    by (auto simp: free_consecutive_def is_allocated_def get)
  show "bitmap_ok (free_consecutive bm s e)"
    using assms by (auto simp: bitmap_ok_def free_consecutive_def is_allocated_def get min_def)
qed

lemma IdBitmap_free_eq: "IdBitmap_free bm i = free_consecutive bm i (i + 1)"
  by (simp add: IdBitmap_free_def free_consecutive_def)

section \<open>Counting\<close>

definition free_ids :: "IdBitmap \<Rightarrow> nat set" where
  "free_ids bm = {i. i < bm_len bm \<and> \<not> is_allocated bm i}"

lemma finite_free_ids [simp]: "finite (free_ids bm)"
  by (simp add: free_ids_def)

lemma alloc_consecutive_free_ids:
  assumes "bitmap_ok bm" "alloc_consecutive bm cnt = (Some (s, e), bm')"
  shows "free_ids bm' = free_ids bm - {s..<e}" "{s..<e} \<subseteq> free_ids bm" "card (free_ids bm') + cnt = card (free_ids bm)"
proof -
  note a = alloc_consecutive_Some[OF assms]
  show *: "free_ids bm' = free_ids bm - {s..<e}" "{s..<e} \<subseteq> free_ids bm" using a by (auto simp: free_ids_def)
  show "card (free_ids bm') + cnt = card (free_ids bm)"
    using card_mono[OF finite_free_ids *(2)] a(1) unfolding *(1) by (subst card_Diff_subset[OF _ *(2)]) auto
qed

lemma free_consecutive_free_ids:
  assumes "bitmap_ok bm" "e \<le> bm_len bm"
  shows "free_ids (free_consecutive bm s e) = free_ids bm \<union> {s..<e}"
  using free_consecutive_ok[OF assms] assms(2) by (auto simp: free_ids_def)

section \<open>The allocator contract\<close>

text \<open>What a client that probes for runs relies on: a granted run was free and is the only change, a
  refusal changes nothing, a release frees exactly its range.\<close>

definition covered :: "(nat \<times> nat) list \<Rightarrow> nat \<Rightarrow> bool" where
  "covered rs i \<longleftrightarrow> (\<exists>r\<in>set rs. fst r \<le> i \<and> i < snd r)"

lemma covered_Nil [simp]: "\<not> covered [] i"
  by (simp add: covered_def)

lemma covered_Cons [simp]: "covered (r # rs) i \<longleftrightarrow> (fst r \<le> i \<and> i < snd r) \<or> covered rs i"
  by (auto simp: covered_def)

lemma covered_append [simp]: "covered (rs @ rs') i \<longleftrightarrow> covered rs i \<or> covered rs' i"
  by (auto simp: covered_def)

locale run_allocator =
  fixes alloc :: "'b \<Rightarrow> nat \<Rightarrow> (nat \<times> nat) option \<times> 'b"
    and release :: "'b \<Rightarrow> nat \<Rightarrow> nat \<Rightarrow> 'b"
    and used :: "'b \<Rightarrow> nat \<Rightarrow> bool"
    and capacity :: "'b \<Rightarrow> nat"
    and inv :: "'b \<Rightarrow> bool"
  assumes granted: "inv b \<Longrightarrow> alloc b n = (Some (s, e), b') \<Longrightarrow>
      inv b' \<and> capacity b' = capacity b \<and> 0 < n \<and> e = s + n \<and> e \<le> capacity b \<and>
      (\<forall>i. s \<le> i \<and> i < e \<longrightarrow> \<not> used b i) \<and> (\<forall>i. used b' i \<longleftrightarrow> used b i \<or> (s \<le> i \<and> i < e))"
    and refused: "inv b \<Longrightarrow> alloc b n = (None, b') \<Longrightarrow> b' = b"
    and released: "inv b \<Longrightarrow> e \<le> capacity b \<Longrightarrow>
      inv (release b s e) \<and> capacity (release b s e) = capacity b \<and>
      (\<forall>i. used (release b s e) i \<longleftrightarrow> used b i \<and> \<not> (s \<le> i \<and> i < e))"
begin

text \<open>A client holds runs: the allocator's content is the original one and the held runs, which were
  free and do not overlap.\<close>

definition holding :: "'b \<Rightarrow> 'b \<Rightarrow> (nat \<times> nat) list \<Rightarrow> bool" where
  "holding b0 b held \<longleftrightarrow> inv b \<and> capacity b = capacity b0 \<and> (\<forall>r\<in>set held. snd r \<le> capacity b0) \<and>
     (\<forall>i. used b i \<longleftrightarrow> used b0 i \<or> covered held i) \<and> (\<forall>i. covered held i \<longrightarrow> \<not> used b0 i)"

lemma holding_start: "inv b \<Longrightarrow> holding b b []"
  by (simp add: holding_def)

lemma holding_alloc:
  assumes "holding b0 b held" "alloc b n = (Some r, b')"
  shows "holding b0 b' (held @ [r])" "\<not> covered held i \<or> \<not> (fst r \<le> i \<and> i < snd r)" "snd r = fst r + n" "0 < n"
    "fst r \<le> i \<Longrightarrow> i < snd r \<Longrightarrow> \<not> used b0 i"
proof -
  obtain s e where r: "r = (s, e)" by fastforce
  have b: "inv b" using assms(1) by (simp add: holding_def)
  note g = granted[OF b assms(2)[unfolded r]]
  show "holding b0 b' (held @ [r])" "\<not> covered held i \<or> \<not> (fst r \<le> i \<and> i < snd r)" "snd r = fst r + n" "0 < n"
    "fst r \<le> i \<Longrightarrow> i < snd r \<Longrightarrow> \<not> used b0 i"
    using g assms(1) by (auto simp: holding_def r)
qed

lemma release_all:
  assumes "inv b" "\<forall>r\<in>set rs. snd r \<le> capacity b"
  defines "b' \<equiv> foldl (\<lambda>b (s, e). release b s e) b rs"
  shows "inv b' \<and> capacity b' = capacity b \<and> (\<forall>i. used b' i \<longleftrightarrow> used b i \<and> \<not> covered rs i)"
  using assms(1,2) unfolding b'_def
proof (induction rs arbitrary: b)
  case (Cons r rs)
  obtain s e where r: "r = (s, e)" by fastforce
  note rel = released[of b e s]
  have "inv (release b s e)" "capacity (release b s e) = capacity b" using rel Cons.prems by (auto simp: r)
  then show ?case using Cons.IH[of "release b s e"] rel Cons.prems by (auto simp: r)
qed simp

lemma holding_released:
  assumes "holding b0 b (held @ [r])" "\<And>i. \<not> covered held i \<or> \<not> (fst r \<le> i \<and> i < snd r)"
  defines "b' \<equiv> foldl (\<lambda>b (s, e). release b s e) b held"
  shows "inv b' \<and> capacity b' = capacity b0 \<and> (\<forall>i. used b' i \<longleftrightarrow> used b0 i \<or> (fst r \<le> i \<and> i < snd r))"
proof -
  have h: "inv b" "\<forall>x\<in>set held. snd x \<le> capacity b" "capacity b = capacity b0" using assms(1) by (simp_all add: holding_def)
  have u: "used b i \<longleftrightarrow> used b0 i \<or> covered held i \<or> (fst r \<le> i \<and> i < snd r)" "covered held i \<longrightarrow> \<not> used b0 i" for i
    using assms(1) by (simp_all add: holding_def)
  show ?thesis using release_all[OF h(1,2)] h(3) u(2) assms(2) unfolding b'_def u(1) by (metis (no_types, lifting))
qed

lemma holding_dropped:
  assumes "holding b0 b held"
  defines "b' \<equiv> foldl (\<lambda>b (s, e). release b s e) b held"
  shows "inv b' \<and> capacity b' = capacity b0 \<and> (\<forall>i. used b' i \<longleftrightarrow> used b0 i)"
proof -
  have h: "inv b" "\<forall>x\<in>set held. snd x \<le> capacity b" "capacity b = capacity b0" using assms(1) by (simp_all add: holding_def)
  have u: "used b i \<longleftrightarrow> used b0 i \<or> covered held i" "covered held i \<longrightarrow> \<not> used b0 i" for i
    using assms(1) by (simp_all add: holding_def)
  show ?thesis using release_all[OF h(1,2)] h(3) u(2) unfolding b'_def u(1) by auto
qed

end

text \<open>A bitmap of one block.\<close>

definition block_bitmap_ok :: "IdBitmap \<Rightarrow> bool" where
  "block_bitmap_ok bm \<longleftrightarrow> bitmap_ok bm \<and> length (bm_buf bm) = BLOCK_SIZE"

interpretation bmap: run_allocator alloc_consecutive free_consecutive is_allocated bm_len block_bitmap_ok
proof
  show "block_bitmap_ok b \<Longrightarrow> alloc_consecutive b n = (Some (s, e), b') \<Longrightarrow>
      block_bitmap_ok b' \<and> bm_len b' = bm_len b \<and> 0 < n \<and> e = s + n \<and> e \<le> bm_len b \<and>
      (\<forall>i. s \<le> i \<and> i < e \<longrightarrow> \<not> is_allocated b i) \<and> (\<forall>i. is_allocated b' i \<longleftrightarrow> is_allocated b i \<or> (s \<le> i \<and> i < e))"
    for b b' n s e
  proof -
    assume "block_bitmap_ok b" and al: "alloc_consecutive b n = (Some (s, e), b')"
    then have ok: "bitmap_ok b" "length (bm_buf b) = BLOCK_SIZE" by (simp_all add: block_bitmap_ok_def)
    note a = alloc_consecutive_Some[OF ok(1) al]
    show ?thesis unfolding block_bitmap_ok_def using a(1-4,6,7,9) a(5) ok(2) by metis
  qed
  show "block_bitmap_ok b \<Longrightarrow> alloc_consecutive b n = (None, b') \<Longrightarrow> b' = b" for b b' n
    by (auto simp: alloc_consecutive_def Let_def split: if_splits prod.splits)
  show "block_bitmap_ok b \<Longrightarrow> e \<le> bm_len b \<Longrightarrow>
      block_bitmap_ok (free_consecutive b s e) \<and> bm_len (free_consecutive b s e) = bm_len b \<and>
      (\<forall>i. is_allocated (free_consecutive b s e) i \<longleftrightarrow> is_allocated b i \<and> \<not> (s \<le> i \<and> i < e))" for b s e
    using free_consecutive_ok[of b e s] unfolding block_bitmap_ok_def by simp
qed

section \<open>Properties\<close>

text \<open>C36: the bitmap allocates first fit.  A request for \<open>cnt\<close> consecutive identifiers succeeds exactly
  when the bitmap has a clear run of that length; it then returns the lowest such run, marks exactly its
  identifiers, and keeps the cursor invariant; a refused request changes nothing.\<close>

theorem alloc_consecutive_first_fit:
  assumes "bitmap_ok bm" "0 < cnt"
  shows "case alloc_consecutive bm cnt of
      (None, bm') \<Rightarrow> bm' = bm \<and> (\<forall>a. a + cnt \<le> bm_len bm \<longrightarrow> \<not> clear_run (bm_buf bm) a (a + cnt))
    | (Some (s, e), bm') \<Rightarrow>
        e = s + cnt \<and> e \<le> bm_len bm \<and> clear_run (bm_buf bm) s e \<and> (\<forall>a < s. \<not> clear_run (bm_buf bm) a (a + cnt)) \<and>
        (\<forall>i. is_allocated bm' i \<longleftrightarrow> (s \<le> i \<and> i < e) \<or> is_allocated bm i) \<and> bitmap_ok bm'"
proof (cases "alloc_consecutive bm cnt")
  case (Pair r bm')
  show ?thesis
  proof (cases r)
    case None
    then show ?thesis using Pair alloc_consecutive_None[OF assms(1) _ assms(2), of bm'] by simp
  next
    case (Some se)
    obtain s e where se: "se = (s, e)" by fastforce
    have "alloc_consecutive bm cnt = (Some (s, e), bm')" using Pair Some se by simp
    note a = alloc_consecutive_Some[OF assms(1) this]
    have "clear_run (bm_buf bm) s e" using a(4) by (simp add: clear_run_def is_allocated_def)
    then show ?thesis unfolding Pair Some se prod.case option.case using a(1,2,8,9) a(5) by blast
  qed
qed

theorem alloc_consecutive_first_fit_witness:
  "bitmap_ok (IdBitmap_from_buf [0x0B, 0xF0] 16) \<and>
   \<not> clear_run [0x0B, 0xF0] 0 3 \<and> fst (alloc_consecutive (IdBitmap_from_buf [0x0B, 0xF0] 16) 3) = Some (4, 7)"
proof -
  let ?bm = "IdBitmap_from_buf [0x0B, 0xF0] 16"
  have ok: "bitmap_ok ?bm" by (rule from_buf_ok) simp_all
  have "find_clear [0x0B, 0xF0] 0 16 = 2" by (simp add: find_clear_def get_bit_def upt_rec bit_numeral_rec)
  moreover have "scan_run [0x0B, 0xF0] 16 3 2 3 = (4, 7)"
    by (simp add: scan_run.simps[of "[0x0B, 0xF0]"] get_bit_def bit_numeral_rec)
  ultimately have r: "fst (alloc_consecutive ?bm 3) = Some (4, 7)"
    by (simp add: alloc_consecutive_def IdBitmap_from_buf_def Let_def)
  obtain bm' where "alloc_consecutive ?bm 3 = (Some (4, 7), bm')" using r by (cases "alloc_consecutive ?bm 3") simp
  then have "\<forall>a < 4. \<not> clear_run (bm_buf ?bm) a (a + 3)" using alloc_consecutive_first_fit[OF ok, of 3] by simp
  then have "\<not> clear_run (bm_buf ?bm) 0 (0 + 3)" by (rule allE[of _ 0]) simp
  then have "\<not> clear_run [0x0B, 0xF0] 0 3" by (simp add: IdBitmap_from_buf_def)
  then show ?thesis using ok r by simp
qed

end
