(* ===== verification/Block_Group.thy ===== *)
theory Block_Group
  imports Super_Block Id_Bitmap
begin

text \<open>
  Block groups, from \<open>block_group.rs\<close>: the 32- and 64-byte group descriptors with their checksums,
  loading a group from the device, and the allocation and release of blocks and inodes against its
  bitmaps, every change captured under the operation's handle.  \<open>Dirty\<close> of \<open>utils.rs\<close> is a value with
  its flag.  An operation returns the group and the metadata access state it reached, also when it
  fails.  The per-group cache of live inode objects has no model here.
\<close>

unbundle bit_operations_syntax

section \<open>Dirty values\<close>

record 'a Dirty =
  dirty_val :: 'a
  is_dirty :: bool

definition Dirty_new :: "'a \<Rightarrow> 'a Dirty" where
  "Dirty_new v = \<lparr> dirty_val = v, is_dirty = False \<rparr>"

definition clear_dirty :: "'a Dirty \<Rightarrow> 'a Dirty" where
  "clear_dirty d = d\<lparr> is_dirty := False \<rparr>"

definition deref_mut :: "('a \<Rightarrow> 'a) \<Rightarrow> 'a Dirty \<Rightarrow> 'a Dirty" where
  "deref_mut f d = \<lparr> dirty_val = f (dirty_val d), is_dirty = True \<rparr>"

section \<open>Group descriptors\<close>

definition BG_INODE_UNINIT :: u16 where "BG_INODE_UNINIT = 0x0001"
definition BG_BLOCK_UNINIT :: u16 where "BG_BLOCK_UNINIT = 0x0002"

record RawBlockGroup =
  block_bitmap_lo :: u32
  inode_bitmap_lo :: u32
  inode_table_lo :: u32
  free_blocks_count_lo :: u16
  free_inodes_count_lo :: u16
  used_dirs_count_lo :: u16
  bg_flags :: u16
  exclude_bitmap_lo :: u32
  block_bitmap_csum_lo :: u16
  inode_bitmap_csum_lo :: u16
  itable_unused_lo :: u16
  bg_checksum :: u16

record RawBlockGroupHi =
  block_bitmap_hi :: u32
  inode_bitmap_hi :: u32
  inode_table_hi :: u32
  free_blocks_count_hi :: u16
  free_inodes_count_hi :: u16
  used_dirs_count_hi :: u16
  itable_unused_hi :: u16
  exclude_bitmap_hi :: u32
  block_bitmap_csum_hi :: u16
  inode_bitmap_csum_hi :: u16
  bg_reserved :: u32

definition RawBlockGroup_from_bytes :: "bytes \<Rightarrow> RawBlockGroup" where
  "RawBlockGroup_from_bytes bs =
     \<lparr> block_bitmap_lo = field32 0 bs, inode_bitmap_lo = field32 4 bs, inode_table_lo = field32 8 bs,
       free_blocks_count_lo = field16 12 bs, free_inodes_count_lo = field16 14 bs, used_dirs_count_lo = field16 16 bs,
       bg_flags = field16 18 bs, exclude_bitmap_lo = field32 20 bs, block_bitmap_csum_lo = field16 24 bs,
       inode_bitmap_csum_lo = field16 26 bs, itable_unused_lo = field16 28 bs, bg_checksum = field16 30 bs \<rparr>"

definition RawBlockGroup_as_bytes :: "RawBlockGroup \<Rightarrow> bytes" where
  "RawBlockGroup_as_bytes r =
     le32 (block_bitmap_lo r) @ le32 (inode_bitmap_lo r) @ le32 (inode_table_lo r) @ le16 (free_blocks_count_lo r) @
     le16 (free_inodes_count_lo r) @ le16 (used_dirs_count_lo r) @ le16 (bg_flags r) @ le32 (exclude_bitmap_lo r) @
     le16 (block_bitmap_csum_lo r) @ le16 (inode_bitmap_csum_lo r) @ le16 (itable_unused_lo r) @ le16 (bg_checksum r)"

definition RawBlockGroupHi_from_bytes :: "bytes \<Rightarrow> RawBlockGroupHi" where
  "RawBlockGroupHi_from_bytes bs =
     \<lparr> block_bitmap_hi = field32 0 bs, inode_bitmap_hi = field32 4 bs, inode_table_hi = field32 8 bs,
       free_blocks_count_hi = field16 12 bs, free_inodes_count_hi = field16 14 bs, used_dirs_count_hi = field16 16 bs,
       itable_unused_hi = field16 18 bs, exclude_bitmap_hi = field32 20 bs, block_bitmap_csum_hi = field16 24 bs,
       inode_bitmap_csum_hi = field16 26 bs, bg_reserved = field32 28 bs \<rparr>"

definition RawBlockGroupHi_as_bytes :: "RawBlockGroupHi \<Rightarrow> bytes" where
  "RawBlockGroupHi_as_bytes r =
     le32 (block_bitmap_hi r) @ le32 (inode_bitmap_hi r) @ le32 (inode_table_hi r) @ le16 (free_blocks_count_hi r) @
     le16 (free_inodes_count_hi r) @ le16 (used_dirs_count_hi r) @ le16 (itable_unused_hi r) @ le32 (exclude_bitmap_hi r) @
     le16 (block_bitmap_csum_hi r) @ le16 (inode_bitmap_csum_hi r) @ le32 (bg_reserved r)"

record BlockGroupDesc =
  gd_block_bitmap_bid :: Ext4Bid
  gd_inode_bitmap_bid :: Ext4Bid
  gd_inode_table_bid :: Ext4Bid
  gd_free_blocks_count :: u32
  gd_free_inodes_count :: u32
  gd_used_dirs_count :: u32
  gd_flags :: u16
  gd_itable_unused :: u32

definition BlockGroupDesc_from_raw :: "RawBlockGroup \<Rightarrow> RawBlockGroupHi option \<Rightarrow> BlockGroupDesc" where
  "BlockGroupDesc_from_raw lo hi =
     (let (bb_hi, ib_hi, it_hi) = (case hi of
            Some h \<Rightarrow> (block_bitmap_hi h, inode_bitmap_hi h, inode_table_hi h)
          | None \<Rightarrow> (0, 0, 0));
          unused_hi = (case hi of Some h \<Rightarrow> itable_unused_hi h | None \<Rightarrow> 0)
      in \<lparr> gd_block_bitmap_bid = ucast (block_bitmap_lo lo) OR push_bit 32 (ucast bb_hi),
           gd_inode_bitmap_bid = ucast (inode_bitmap_lo lo) OR push_bit 32 (ucast ib_hi),
           gd_inode_table_bid = ucast (inode_table_lo lo) OR push_bit 32 (ucast it_hi),
           gd_free_blocks_count = ucast (free_blocks_count_lo lo),
           gd_free_inodes_count = ucast (free_inodes_count_lo lo),
           gd_used_dirs_count = ucast (used_dirs_count_lo lo),
           gd_flags = bg_flags lo,
           gd_itable_unused = ucast (itable_unused_lo lo) OR push_bit 16 (ucast unused_hi) \<rparr>)"

definition BG_CHECKSUM_OFFSET :: nat where "BG_CHECKSUM_OFFSET = 30"

definition group_desc_checksum :: "RawBlockGroup \<Rightarrow> RawBlockGroupHi option \<Rightarrow> u32 \<Rightarrow> FsCsumSeed \<Rightarrow> u16" where
  "group_desc_checksum lo hi g seed =
     (let c1 = crc32c (FsCsumSeed_get seed) (le32 g);
          c2 = crc32c c1 (take BG_CHECKSUM_OFFSET (RawBlockGroup_as_bytes lo));
          c3 = crc32c c2 [0, 0];
          c4 = (case hi of Some h \<Rightarrow> crc32c c3 (RawBlockGroupHi_as_bytes h) | None \<Rightarrow> c3)
      in ucast (c4 AND 0xFFFF))"

definition bitmap_checksum :: "FsCsumSeed \<Rightarrow> bytes \<Rightarrow> nat \<Rightarrow> u32" where
  "bitmap_checksum seed bitmap n = crc32c (FsCsumSeed_get seed) (take n bitmap)"

definition stamp_checksums ::
    "RawBlockGroup \<Rightarrow> RawBlockGroupHi option \<Rightarrow> u32 \<Rightarrow> FsCsumSeed \<Rightarrow> u32 \<Rightarrow> u32 \<Rightarrow> RawBlockGroup \<times> RawBlockGroupHi option" where
  "stamp_checksums lo hi g seed bb_csum ib_csum =
     (let lo1 = lo\<lparr> block_bitmap_csum_lo := ucast bb_csum, inode_bitmap_csum_lo := ucast ib_csum \<rparr>;
          hi1 = map_option (\<lambda>h. h\<lparr> block_bitmap_csum_hi := ucast (drop_bit 16 bb_csum),
                                    inode_bitmap_csum_hi := ucast (drop_bit 16 ib_csum) \<rparr>) hi
      in (lo1\<lparr> bg_checksum := group_desc_checksum lo1 hi1 g seed \<rparr>, hi1))"

definition verify_group_desc_checksum ::
    "RawBlockGroup \<Rightarrow> RawBlockGroupHi option \<Rightarrow> u32 \<Rightarrow> FsCsumSeed \<Rightarrow> unit result" where
  "verify_group_desc_checksum lo hi g seed = err_if (bg_checksum lo \<noteq> group_desc_checksum lo hi g seed) EUCLEAN"

definition update_raw_desc :: "BlockGroupDesc \<Rightarrow> RawBlockGroup \<Rightarrow> RawBlockGroup" where
  "update_raw_desc desc raw =
     raw\<lparr> free_blocks_count_lo := ucast (gd_free_blocks_count desc), free_inodes_count_lo := ucast (gd_free_inodes_count desc),
          used_dirs_count_lo := ucast (gd_used_dirs_count desc), bg_flags := gd_flags desc,
          itable_unused_lo := ucast (gd_itable_unused desc) \<rparr>"

definition patch_into :: "BlockGroupDesc \<Rightarrow> nat \<Rightarrow> bytes \<Rightarrow> bytes" where
  "patch_into desc desc_offset buf =
     (let off = desc_offset mod BLOCK_SIZE in
      splice off (RawBlockGroup_as_bytes (update_raw_desc desc (RawBlockGroup_from_bytes (slice off 32 buf)))) buf)"

definition is_block_uninit :: "BlockGroupDesc \<Rightarrow> bool" where
  "is_block_uninit desc \<longleftrightarrow> gd_flags desc AND BG_BLOCK_UNINIT \<noteq> 0"

definition is_inode_uninit :: "BlockGroupDesc \<Rightarrow> bool" where
  "is_inode_uninit desc \<longleftrightarrow> gd_flags desc AND BG_INODE_UNINIT \<noteq> 0"

section \<open>Groups\<close>

record BlockGroup =
  group_idx :: nat
  bg_desc :: "BlockGroupDesc Dirty"
  block_bitmap :: "IdBitmap Dirty"
  inode_bitmap :: "IdBitmap Dirty"
  first_block :: Ext4Bid
  last_block :: Ext4Bid
  nr_inode_table_blocks_per_group :: u32
  nr_inodes_per_group :: u32
  nr_blocks_per_group :: u32
  bg_inode_size :: nat
  bg_desc_size :: u16
  desc_offset :: nat
  bg_csum_seed :: "FsCsumSeed option"

datatype GroupBlockAlloc = Allocated Ext4Bid Ext4Bid | NoFit bool

text \<open>Byte reads and writes of the device within one block, as the group descriptors are: both sizes
  divide the block.  An unaligned write reads the sector it preserves first.\<close>

definition read_val :: "device \<Rightarrow> nat \<Rightarrow> nat \<Rightarrow> bytes result" where
  "read_val d off n = and_then (read_block d (word_of_nat (off div BLOCK_SIZE))) (\<lambda>b. Ok (slice (off mod BLOCK_SIZE) n b))"

definition write_val :: "device \<Rightarrow> nat \<Rightarrow> bytes \<Rightarrow> unit result \<times> device" where
  "write_val d off bs =
     (let bid = word_of_nat (off div BLOCK_SIZE) in
      case read_block d bid of
        Inl e \<Rightarrow> (Inl e, d)
      | Inr b \<Rightarrow> write_block d bid (splice (off mod BLOCK_SIZE) bs b))"

definition read_desc :: "device \<Rightarrow> nat \<Rightarrow> u16 \<Rightarrow> u32 \<Rightarrow> FsCsumSeed option \<Rightarrow> BlockGroupDesc result" where
  "read_desc d off desc_size g seed_opt =
     (if unat desc_size \<ge> 64 then
        and_then (read_val d off 64) (\<lambda>bs.
          let lo = RawBlockGroup_from_bytes bs; hi = RawBlockGroupHi_from_bytes (drop 32 bs) in
          and_then (case seed_opt of Some seed \<Rightarrow> verify_group_desc_checksum lo (Some hi) g seed | None \<Rightarrow> Ok ()) (\<lambda>_.
          Ok (BlockGroupDesc_from_raw lo (Some hi))))
      else
        and_then (read_val d off 32) (\<lambda>bs.
          let lo = RawBlockGroup_from_bytes bs in
          and_then (case seed_opt of Some seed \<Rightarrow> verify_group_desc_checksum lo None g seed | None \<Rightarrow> Ok ()) (\<lambda>_.
          Ok (BlockGroupDesc_from_raw lo None))))"

definition load_block_bitmap :: "device \<Rightarrow> Ext4Bid \<Rightarrow> Ext4Bid \<Rightarrow> BlockGroupDesc \<Rightarrow> IdBitmap result" where
  "load_block_bitmap d fst_blk lst_blk desc =
     (let group_size = ucast (lst_blk - fst_blk + 1) :: u32;
          capacity = unat (ucast group_size :: u16) in
      if is_block_uninit desc then
        if group_size < gd_free_blocks_count desc then Err EUCLEAN
        else
          let overhead = group_size - gd_free_blocks_count desc;
              bm0 = IdBitmap_from_buf (replicate BLOCK_SIZE 0) capacity;
              bm = (if overhead > 0 then snd (alloc_consecutive bm0 (unat (ucast overhead :: u16))) else bm0)
          in if (\<exists>bid \<in> set [gd_block_bitmap_bid desc, gd_inode_bitmap_bid desc, gd_inode_table_bid desc].
                   fst_blk \<le> bid \<and> bid \<le> lst_blk \<and> bid - fst_blk \<ge> ucast overhead)
             then Err EUCLEAN else Ok bm
      else and_then (read_block d (gd_block_bitmap_bid desc)) (\<lambda>buf. Ok (IdBitmap_from_buf buf capacity)))"

definition load_inode_bitmap :: "device \<Rightarrow> u32 \<Rightarrow> BlockGroupDesc \<Rightarrow> IdBitmap result" where
  "load_inode_bitmap d inodes_per_group desc =
     (let capacity = unat (ucast (min inodes_per_group (word_of_nat IdBitmap_capacity)) :: u16) in
      if is_inode_uninit desc then Ok (IdBitmap_from_buf (replicate BLOCK_SIZE 0) capacity)
      else and_then (read_block d (gd_inode_bitmap_bid desc)) (\<lambda>buf. Ok (IdBitmap_from_buf buf capacity)))"

definition group_first_block :: "SuperBlock \<Rightarrow> nat \<Rightarrow> Ext4Bid" where
  "group_first_block sb idx = sb_first_data_block sb + word_of_nat idx * ucast (sb_nr_blocks_per_group sb)"

definition group_last_block :: "SuperBlock \<Rightarrow> nat \<Rightarrow> Ext4Bid" where
  "group_last_block sb idx =
     (if idx = unat (sb_nr_block_groups sb) - 1 then sb_blocks_count sb - 1
      else group_first_block sb idx + ucast (sb_nr_blocks_per_group sb) - 1)"

definition BlockGroup_load :: "device \<Rightarrow> nat \<Rightarrow> SuperBlock \<Rightarrow> nat \<Rightarrow> BlockGroup result" where
  "BlockGroup_load d idx sb gdt_base_offset =
     (let desc_size = sb_desc_size sb;
          off = gdt_base_offset + idx * unat desc_size;
          seed_opt = (if has_metadata_csum sb then Some (metadata_csum_seed sb) else None) in
      and_then (read_desc d off desc_size (word_of_nat idx) seed_opt) (\<lambda>desc.
      let fst_blk = group_first_block sb idx; lst_blk = group_last_block sb idx in
      and_then (load_block_bitmap d fst_blk lst_blk desc) (\<lambda>bb.
      and_then (load_inode_bitmap d (sb_nr_inodes_per_group sb) desc) (\<lambda>ib.
      Ok \<lparr> group_idx = idx, bg_desc = Dirty_new desc, block_bitmap = Dirty_new bb, inode_bitmap = Dirty_new ib,
           first_block = fst_blk, last_block = lst_blk,
           nr_inode_table_blocks_per_group = sb_nr_inode_table_blocks_per_group sb,
           nr_inodes_per_group = sb_nr_inodes_per_group sb, nr_blocks_per_group = sb_nr_blocks_per_group sb,
           bg_inode_size = sb_inode_size sb, bg_desc_size = desc_size, desc_offset = off, bg_csum_seed = seed_opt \<rparr>))))"

definition reload_metadata :: "BlockGroup \<Rightarrow> device \<Rightarrow> BlockGroup result" where
  "reload_metadata g d =
     and_then (read_desc d (desc_offset g) (bg_desc_size g) (word_of_nat (group_idx g)) (bg_csum_seed g)) (\<lambda>desc.
     and_then (load_block_bitmap d (first_block g) (last_block g) desc) (\<lambda>bb.
     and_then (load_inode_bitmap d (nr_inodes_per_group g) desc) (\<lambda>ib.
     Ok (g\<lparr> bg_desc := Dirty_new desc, block_bitmap := Dirty_new bb, inode_bitmap := Dirty_new ib \<rparr>))))"

section \<open>Stamping descriptors\<close>

text \<open>\<open>u32::div_ceil\<close> of the inode bitmap's checksum length.\<close>

definition bits_to_bytes :: "nat \<Rightarrow> nat" where
  "bits_to_bytes n = (n + 7) div 8"

definition stamp_desc_csum :: "BlockGroup \<Rightarrow> RawBlockGroup \<Rightarrow> RawBlockGroupHi option \<Rightarrow> RawBlockGroup \<times> RawBlockGroupHi option" where
  "stamp_desc_csum g lo hi =
     (case bg_csum_seed g of
        None \<Rightarrow> (lo, hi)
      | Some seed \<Rightarrow>
          let bb_len = unat (nr_blocks_per_group g div 8);
              ib_len = bits_to_bytes (unat (nr_inodes_per_group g));
              bb_csum = bitmap_checksum seed (bm_buf (dirty_val (block_bitmap g))) bb_len;
              ib_csum = bitmap_checksum seed (bm_buf (dirty_val (inode_bitmap g))) ib_len
          in stamp_checksums lo hi (word_of_nat (group_idx g)) seed bb_csum ib_csum)"

definition stamp_desc_csum_in_block :: "BlockGroup \<Rightarrow> bytes \<Rightarrow> bytes" where
  "stamp_desc_csum_in_block g block =
     (if bg_csum_seed g = None then block
      else
        let off = desc_offset g mod BLOCK_SIZE;
            lo = RawBlockGroup_from_bytes (slice off 32 block) in
        if unat (bg_desc_size g) \<ge> 64 then
          let hi_start = off + 32;
              hi = RawBlockGroupHi_from_bytes (slice hi_start 32 block);
              (lo1, hi1) = stamp_desc_csum g lo (Some hi);
              block1 = splice off (RawBlockGroup_as_bytes lo1) block
          in (case hi1 of Some h \<Rightarrow> splice hi_start (RawBlockGroupHi_as_bytes h) block1 | None \<Rightarrow> block1)
        else
          let (lo1, _) = stamp_desc_csum g lo None in splice off (RawBlockGroup_as_bytes lo1) block)"

text \<open>The descriptor capture that ends every allocation and release.\<close>

definition capture_desc :: "BlockGroup \<Rightarrow> MetaIo \<Rightarrow> unit result \<times> MetaIo" where
  "capture_desc g io =
     io_update io (word_of_nat (desc_offset g div BLOCK_SIZE))
       (\<lambda>buf. stamp_desc_csum_in_block g (patch_into (dirty_val (bg_desc g)) (desc_offset g) buf))"

section \<open>System zone\<close>

definition ranges_overlap :: "Ext4Bid \<times> Ext4Bid \<Rightarrow> Ext4Bid \<times> Ext4Bid \<Rightarrow> bool" where
  "ranges_overlap a b \<longleftrightarrow> fst a < snd a \<and> fst b < snd b \<and> fst a < snd b \<and> fst b < snd a"

definition overlaps_system_zone_with :: "BlockGroup \<Rightarrow> BlockGroupDesc \<Rightarrow> Ext4Bid \<times> Ext4Bid \<Rightarrow> bool" where
  "overlaps_system_zone_with g desc rng \<longleftrightarrow>
     (if \<not> fst rng < snd rng then False
      else ranges_overlap rng (gd_block_bitmap_bid desc, gd_block_bitmap_bid desc + 1) \<or>
           ranges_overlap rng (gd_inode_bitmap_bid desc, gd_inode_bitmap_bid desc + 1) \<or>
           ranges_overlap rng (gd_inode_table_bid desc, gd_inode_table_bid desc + ucast (nr_inode_table_blocks_per_group g)))"

section \<open>Allocating blocks\<close>

text \<open>This group's slice of the pinned freed runs, as ranges of group-local bits.\<close>

definition pinned_bits :: "BlockGroup \<Rightarrow> (Ext4Bid \<times> u32) list \<Rightarrow> (nat \<times> nat) list" where
  "pinned_bits g pinned_runs =
     concat (map (\<lambda>(run_start, run_len).
       let l = max run_start (first_block g);
           h = min (run_start + ucast run_len) (last_block g + 1) in
       if l < h then [(unat (ucast (l - first_block g) :: u16), unat (ucast (h - first_block g) :: u16))] else []) pinned_runs)"

definition hits_pin :: "(nat \<times> nat) list \<Rightarrow> nat \<times> nat \<Rightarrow> bool" where
  "hits_pin pins cand \<longleftrightarrow> (\<exists>pin \<in> set pins. fst pin < snd cand \<and> fst cand < snd pin)"

text \<open>The inner loop: candidates that overlap a pinned run are held so that the next request moves on.
  Every round marks at least one more bit, so one more round than the bitmap has bits reaches the end.\<close>

fun hold_pinned ::
    "nat \<Rightarrow> nat \<Rightarrow> (nat \<times> nat) list \<Rightarrow> IdBitmap \<Rightarrow> (nat \<times> nat) list \<Rightarrow> (nat \<times> nat) option \<times> (nat \<times> nat) list \<times> IdBitmap" where
  "hold_pinned 0 req pins bm held = (None, held, bm)"
| "hold_pinned (Suc fuel) req pins bm held =
     (case alloc_consecutive bm req of
        (None, bm') \<Rightarrow> (None, held, bm')
      | (Some cand, bm') \<Rightarrow>
          if hits_pin pins cand then hold_pinned fuel req pins bm' (held @ [cand]) else (Some cand, held, bm'))"

text \<open>The outer loop halves the request until a candidate is found.\<close>

function search_run ::
    "nat \<Rightarrow> (nat \<times> nat) list \<Rightarrow> IdBitmap \<Rightarrow> (nat \<times> nat) list \<Rightarrow> (nat \<times> nat) option \<times> (nat \<times> nat) list \<times> IdBitmap" where
  "search_run req pins bm held =
     (if req = 0 then (None, held, bm)
      else case hold_pinned (bm_len bm + 1) req pins bm held of
             (Some cand, held', bm') \<Rightarrow> (Some cand, held', bm')
           | (None, held', bm') \<Rightarrow> search_run (req div 2) pins bm' held')"
  by pat_completeness auto
termination by (relation "measure (\<lambda>(req, _). req)") auto

declare search_run.simps [simp del]

definition release_held :: "(nat \<times> nat) list \<Rightarrow> IdBitmap \<Rightarrow> IdBitmap" where
  "release_held held bm = foldl (\<lambda>b (s, e). free_consecutive b s e) bm held"

definition with_io :: "BlockGroup \<Rightarrow> 'a result \<times> MetaIo \<Rightarrow> 'a result \<times> BlockGroup \<times> MetaIo" where
  "with_io g m = (fst m, g, snd m)"

definition requested_count :: "BlockGroup \<Rightarrow> u32 \<Rightarrow> u64 \<Rightarrow> nat" where
  "requested_count g cnt sb_free_blocks =
     unat (ucast (min (min (min cnt (ucast (last_block g - first_block g + 1))) (gd_free_blocks_count (dirty_val (bg_desc g))))
                   (ucast (min sb_free_blocks 0xFFFFFFFF))) :: u16)"

definition BlockGroup_alloc_blocks ::
    "BlockGroup \<Rightarrow> MetaIo \<Rightarrow> u32 \<Rightarrow> u64 \<Rightarrow> (Ext4Bid \<times> u32) list \<Rightarrow> GroupBlockAlloc result \<times> BlockGroup \<times> MetaIo" where
  "BlockGroup_alloc_blocks g io cnt sb_free_blocks pinned_runs =
     (let pins = pinned_bits g pinned_runs;
          req = requested_count g cnt sb_free_blocks;
          desc = dirty_val (bg_desc g)
      in st_bind (with_io g (io_write_access io (gd_block_bitmap_bid desc))) (\<lambda>bitmap_access (g, io).
         let (found, held, bm) = search_run req pins (dirty_val (block_bitmap g)) [];
             g1 = (if req > 0 then g\<lparr> block_bitmap := deref_mut (\<lambda>_. release_held held bm) (block_bitmap g) \<rparr> else g)
         in case found of
              None \<Rightarrow>
                if gd_free_blocks_count desc > 0 \<and> pins = [] then (Err EIO, g1, io)
                else (Ok (NoFit (pins \<noteq> [])), g1, io)
            | Some (s, e) \<Rightarrow>
                let alloc_count = word_of_nat (e - s) :: u32;
                    start_bid = first_block g + word_of_nat s;
                    end_bid = first_block g + word_of_nat s + ucast alloc_count
                in if overlaps_system_zone_with g desc (start_bid, end_bid) \<or> gd_free_blocks_count desc < alloc_count \<or>
                      sb_free_blocks < ucast alloc_count
                   then (Err EIO, g1\<lparr> block_bitmap := deref_mut (\<lambda>b. free_consecutive b s e) (block_bitmap g1) \<rparr>, io)
                   else
                     let g2 = g1\<lparr> bg_desc := deref_mut (\<lambda>desc.
                           let desc1 = desc\<lparr> gd_free_blocks_count := gd_free_blocks_count desc - alloc_count \<rparr> in
                           if is_block_uninit desc1 then desc1\<lparr> gd_flags := gd_flags desc1 AND NOT BG_BLOCK_UNINIT \<rparr> else desc1)
                           (bg_desc g1) \<rparr>
                     in st_bind (with_io g2 (io_patch io bitmap_access (\<lambda>_. bm_buf (dirty_val (block_bitmap g2))))) (\<lambda>_ (g2, io).
                        st_bind (with_io g2 (capture_desc g2 io)) (\<lambda>_ s2.
                        (Ok (Allocated (first_block g + word_of_nat s) (first_block g + word_of_nat e)), s2)))))"

section \<open>Freeing blocks\<close>

text \<open>The bit loop: bits already clear are only reported, a bit past the bitmap panics.\<close>

fun free_bits :: "IdBitmap \<Rightarrow> nat list \<Rightarrow> nat \<Rightarrow> (IdBitmap \<times> nat) option" where
  "free_bits bm [] freed = Some (bm, freed)"
| "free_bits bm (i # is) freed =
     (if i \<ge> bm_len bm then None
      else if \<not> is_allocated bm i then free_bits bm is freed
      else free_bits (IdBitmap_free bm i) is (freed + 1))"

definition BlockGroup_free_blocks :: "BlockGroup \<Rightarrow> MetaIo \<Rightarrow> u32 \<Rightarrow> u32 \<Rightarrow> u32 result \<times> BlockGroup \<times> MetaIo" where
  "BlockGroup_free_blocks g io start_bit end_bit =
     (let desc = dirty_val (bg_desc g) in
      if overlaps_system_zone_with g desc (first_block g + ucast start_bit, first_block g + ucast end_bit)
      then (Err EIO, g, abort_journal_on_fs_error io)
      else st_bind (with_io g (io_write_access io (gd_block_bitmap_bid desc))) (\<lambda>bitmap_access (g, io).
        let range_start = unat (ucast start_bit :: u16); range_end = unat (ucast (start_bit + (end_bit - start_bit)) :: u16) in
        case free_bits (dirty_val (block_bitmap g)) [range_start..<range_end] 0 of
          None \<Rightarrow> (Err PANIC, g, io)
        | Some (bm, freed) \<Rightarrow>
            let g1 = (if freed > 0 then g\<lparr> block_bitmap := deref_mut (\<lambda>_. bm) (block_bitmap g) \<rparr> else g);
                actually_freed = word_of_nat freed :: u32;
                new_free = gd_free_blocks_count desc + actually_freed
            in if new_free < actually_freed then (Err EIO, g1, io)
               else
                 let g2 = g1\<lparr> bg_desc := deref_mut (\<lambda>desc. desc\<lparr> gd_free_blocks_count := new_free \<rparr>) (bg_desc g1) \<rparr>
                 in st_bind (with_io g2 (io_patch io bitmap_access (\<lambda>_. bm_buf (dirty_val (block_bitmap g2))))) (\<lambda>_ (g2, io).
                    st_bind (with_io g2 (capture_desc g2 io)) (\<lambda>_ s2. (Ok actually_freed, s2)))))"

section \<open>Inodes\<close>

datatype InodeType = Unknown | NamedPipe | CharDevice | Dir | BlockDevice | File | SymLink | Socket

definition is_directory :: "InodeType \<Rightarrow> bool" where
  "is_directory t \<longleftrightarrow> t = Dir"

definition leading_zeros8 :: "u8 \<Rightarrow> nat" where
  "leading_zeros8 b = length (takeWhile (\<lambda>i. \<not> bit b i) (rev [0..<8]))"

definition rposition_nonzero :: "bytes \<Rightarrow> nat option" where
  "rposition_nonzero bs = find (\<lambda>i. bs ! i \<noteq> 0) (rev [0..<length bs])"

definition itable_unused_from_bitmap :: "IdBitmap \<Rightarrow> u32 \<Rightarrow> u32" where
  "itable_unused_from_bitmap bm inodes_per_group =
     (let nbytes = bits_to_bytes (unat inodes_per_group);
          top = (case rposition_nonzero (take nbytes (bm_buf bm)) of
                   None \<Rightarrow> 0
                 | Some i \<Rightarrow> i * 8 + (8 - leading_zeros8 (bm_buf bm ! i)));
          high_water = min top (unat inodes_per_group)
      in inodes_per_group - word_of_nat high_water)"

definition inode_idx_in_group :: "BlockGroup \<Rightarrow> u32 \<Rightarrow> nat" where
  "inode_idx_in_group g ino = unat (ucast ((ino - 1) mod nr_inodes_per_group g) :: u16)"

definition BlockGroup_is_inode_allocated :: "BlockGroup \<Rightarrow> u32 \<Rightarrow> bool" where
  "BlockGroup_is_inode_allocated g ino = is_allocated (dirty_val (inode_bitmap g)) (inode_idx_in_group g ino)"

definition BlockGroup_alloc_ino :: "BlockGroup \<Rightarrow> MetaIo \<Rightarrow> InodeType \<Rightarrow> u32 option result \<times> BlockGroup \<times> MetaIo" where
  "BlockGroup_alloc_ino g io type =
     (let desc = dirty_val (bg_desc g) in
      if gd_free_inodes_count desc = 0 then (Ok None, g, io)
      else if is_inode_uninit desc then (Ok None, g, io)
      else if is_directory type \<and> gd_used_dirs_count desc = 0xFFFF then (Err EIO, g, io)
      else st_bind (with_io g (io_write_access io (gd_inode_bitmap_bid desc))) (\<lambda>bitmap_access (g, io).
        let (found, bm) = alloc_consecutive (dirty_val (inode_bitmap g)) 1;
            g1 = g\<lparr> inode_bitmap := deref_mut (\<lambda>_. bm) (inode_bitmap g) \<rparr>
        in case found of
             None \<Rightarrow> (Err EIO, g1, io)
           | Some (s, _) \<Rightarrow>
               let g2 = g1\<lparr> bg_desc := deref_mut (\<lambda>desc.
                     desc\<lparr> gd_free_inodes_count := gd_free_inodes_count desc - 1,
                           gd_used_dirs_count := (if is_directory type then gd_used_dirs_count desc + 1 else gd_used_dirs_count desc),
                           gd_itable_unused := itable_unused_from_bitmap bm (nr_inodes_per_group g) \<rparr>) (bg_desc g1) \<rparr>
               in st_bind (with_io g2 (io_patch io bitmap_access (\<lambda>_. bm_buf (dirty_val (inode_bitmap g2))))) (\<lambda>_ (g2, io).
                  st_bind (with_io g2 (capture_desc g2 io)) (\<lambda>_ s2. (Ok (Some (word_of_nat s)), s2)))))"

definition BlockGroup_free_inode :: "BlockGroup \<Rightarrow> MetaIo \<Rightarrow> u32 \<Rightarrow> InodeType \<Rightarrow> bool result \<times> BlockGroup \<times> MetaIo" where
  "BlockGroup_free_inode g io group_local_idx type =
     (let desc = dirty_val (bg_desc g); inode_bit = unat (ucast group_local_idx :: u16) in
      if inode_bit \<ge> bm_len (dirty_val (inode_bitmap g)) then (Err PANIC, g, io)
      else if \<not> is_allocated (dirty_val (inode_bitmap g)) inode_bit then (Ok False, g, io)
      else st_bind (with_io g (io_write_access io (gd_inode_bitmap_bid desc))) (\<lambda>bitmap_access (g, io).
        if gd_free_inodes_count desc + 1 < 1 then (Err EIO, g, io)
        else if is_directory type \<and> gd_used_dirs_count desc < 1 then (Err EIO, g, io)
        else
          let bm = IdBitmap_free (dirty_val (inode_bitmap g)) inode_bit;
              g1 = g\<lparr> inode_bitmap := deref_mut (\<lambda>_. bm) (inode_bitmap g),
                      bg_desc := deref_mut (\<lambda>desc.
                        desc\<lparr> gd_free_inodes_count := gd_free_inodes_count desc + 1,
                              gd_used_dirs_count := (if is_directory type then gd_used_dirs_count desc - 1 else gd_used_dirs_count desc),
                              gd_itable_unused := itable_unused_from_bitmap bm (nr_inodes_per_group g) \<rparr>) (bg_desc g) \<rparr>
          in st_bind (with_io g1 (io_patch io bitmap_access (\<lambda>_. bm_buf bm))) (\<lambda>_ (g1, io).
             st_bind (with_io g1 (capture_desc g1 io)) (\<lambda>_ s2. (Ok True, s2)))))"

section \<open>Direct write-back\<close>

text \<open>\<open>sync_metadata\<close>: bitmaps first, then the descriptor, each cleared of its dirty flag only after a
  successful write.\<close>

definition sync_bitmap :: "device \<Rightarrow> Ext4Bid \<Rightarrow> IdBitmap Dirty \<Rightarrow> unit result \<times> IdBitmap Dirty \<times> device" where
  "sync_bitmap d bid bm =
     (if is_dirty bm then
        (case write_block d bid (bm_buf (dirty_val bm)) of
           (Inl e, d') \<Rightarrow> (Err EIO, bm, d')
         | (Inr _, d') \<Rightarrow> (Ok (), clear_dirty bm, d'))
      else (Ok (), bm, d))"

definition sync_desc :: "BlockGroup \<Rightarrow> device \<Rightarrow> unit result \<times> device" where
  "sync_desc g d =
     (let off = desc_offset g; desc = dirty_val (bg_desc g) in
      if unat (bg_desc_size g) \<ge> 64 \<and> bg_csum_seed g \<noteq> None then
        (case read_val d off 64 of
           Inl e \<Rightarrow> (Err EIO, d)
         | Inr bs \<Rightarrow>
             let (lo, hi) = stamp_desc_csum g (update_raw_desc desc (RawBlockGroup_from_bytes bs))
                   (Some (RawBlockGroupHi_from_bytes (drop 32 bs)))
             in write_val d off (RawBlockGroup_as_bytes lo @ (case hi of Some h \<Rightarrow> RawBlockGroupHi_as_bytes h | None \<Rightarrow> [])))
      else
        (case read_val d off 32 of
           Inl e \<Rightarrow> (Err EIO, d)
         | Inr bs \<Rightarrow>
             let (lo, _) = stamp_desc_csum g (update_raw_desc desc (RawBlockGroup_from_bytes bs)) None
             in write_val d off (RawBlockGroup_as_bytes lo)))"

definition BlockGroup_sync_metadata :: "BlockGroup \<Rightarrow> device \<Rightarrow> unit result \<times> BlockGroup \<times> device" where
  "BlockGroup_sync_metadata g d =
     (case sync_bitmap d (gd_block_bitmap_bid (dirty_val (bg_desc g))) (block_bitmap g) of
        (Inl e, bb, d1) \<Rightarrow> (Inl e, g, d1)
      | (Inr _, bb, d1) \<Rightarrow>
          let g1 = g\<lparr> block_bitmap := bb \<rparr> in
          (case sync_bitmap d1 (gd_inode_bitmap_bid (dirty_val (bg_desc g))) (inode_bitmap g1) of
             (Inl e, ib, d2) \<Rightarrow> (Inl e, g1, d2)
           | (Inr _, ib, d2) \<Rightarrow>
               let g2 = g1\<lparr> inode_bitmap := ib \<rparr> in
               if is_dirty (bg_desc g2) then
                 (case sync_desc g2 d2 of
                    (Inl e, d3) \<Rightarrow> (Inl e, g2, d3)
                  | (Inr _, d3) \<Rightarrow> (Ok (), g2\<lparr> bg_desc := clear_dirty (bg_desc g2) \<rparr>, d3))
               else (Ok (), g2, d2)))"

end
