(* ===== verification/Group_Alloc.thy ===== *)
theory Group_Alloc
  imports Block_Group
begin

text \<open>
  Correctness of the block-group operations of \<open>Block_Group\<close>: the group invariant, the search for an
  unpinned run on top of the bitmap's allocator contract, and the effect of allocating and freeing
  blocks and inodes on the set of free blocks and on the counters.
\<close>

section \<open>The search for a run\<close>

lemma hold_pinned_spec:
  assumes "bmap.holding b0 b held" "hold_pinned fuel req pins b held = (r, held', b')"
  shows "case r of
      None \<Rightarrow> bmap.holding b0 b' held'
    | Some c \<Rightarrow> bmap.holding b0 b' (held' @ [c]) \<and> (\<forall>i. \<not> covered held' i \<or> \<not> (fst c \<le> i \<and> i < snd c)) \<and>
        \<not> hits_pin pins c \<and> snd c = fst c + req \<and> 0 < req"
  using assms
proof (induction fuel arbitrary: b held)
  case 0
  then show ?case by auto
next
  case (Suc fuel)
  obtain f b1 where al: "alloc_consecutive b req = (f, b1)" by fastforce
  have inv: "block_bitmap_ok b" using Suc.prems(1) by (simp add: bmap.holding_def)
  show ?case
  proof (cases f)
    case None
    then show ?thesis using Suc.prems al bmap.refused[OF inv, of req b1] by auto
  next
    case (Some c)
    note h = bmap.holding_alloc[OF Suc.prems(1) al[unfolded Some]]
    show ?thesis
    proof (cases "hits_pin pins c")
      case True
      then show ?thesis using Suc.IH[OF h(1)] Suc.prems(2) al Some by simp
    next
      case False
      then have "r = Some c" "held' = held" "b' = b1" using Suc.prems(2) al Some by simp_all
      then show ?thesis using h(1,3,4) h(2) False by auto
    qed
  qed
qed

lemma search_run_spec:
  assumes "bmap.holding b0 b held" "search_run req pins b held = (r, held', b')"
  shows "case r of
      None \<Rightarrow> bmap.holding b0 b' held'
    | Some c \<Rightarrow> bmap.holding b0 b' (held' @ [c]) \<and> (\<forall>i. \<not> covered held' i \<or> \<not> (fst c \<le> i \<and> i < snd c)) \<and>
        \<not> hits_pin pins c \<and> fst c < snd c \<and> snd c \<le> fst c + req"
  using assms
proof (induction req pins b held rule: search_run.induct)
  case (1 req pins b held)
  show ?case
  proof (cases "req = 0")
    case True
    then show ?thesis using "1.prems" by (auto simp: search_run.simps[of 0])
  next
    case False
    obtain r1 h1 b1 where hp: "hold_pinned (bm_len b + 1) req pins b held = (r1, h1, b1)" by (metis prod_cases3)
    note sp = hold_pinned_spec[OF "1.prems"(1) hp]
    show ?thesis
    proof (cases r1)
      case None
      then have "search_run (req div 2) pins b1 h1 = (r, held', b')" "bmap.holding b0 b1 h1"
        using "1.prems"(2) hp False sp by (simp_all add: search_run.simps[of req])
      from "1.IH"[OF False hp[symmetric] None refl this(2,1)]
      show ?thesis by (auto split: option.splits)
    next
      case (Some c)
      then show ?thesis using "1.prems"(2) hp False sp by (auto simp: search_run.simps[of req])
    qed
  qed
qed

text \<open>The round bound of \<open>hold_pinned\<close> suffices: with more rounds than free bits it only stops because
  the bitmap refuses the request.\<close>

lemma hold_pinned_enough:
  assumes "block_bitmap_ok b" "card (free_ids b) < fuel" "hold_pinned fuel req pins b held = (None, held', b')"
  shows "alloc_consecutive b' req = (None, b')"
  using assms
proof (induction fuel arbitrary: b held)
  case (Suc fuel)
  obtain f b1 where al: "alloc_consecutive b req = (f, b1)" by fastforce
  have ok: "bitmap_ok b" using Suc.prems(1) by (simp add: block_bitmap_ok_def)
  show ?case
  proof (cases f)
    case None
    then have "b1 = b" using bmap.refused[OF Suc.prems(1)] al by simp
    then show ?thesis using Suc.prems(3) al None by simp
  next
    case (Some c)
    obtain s e where c: "c = (s, e)" by fastforce
    note g = bmap.granted[OF Suc.prems(1) al[unfolded Some c]]
    have "card (free_ids b1) + req = card (free_ids b)" using alloc_consecutive_free_ids(3)[OF ok al[unfolded Some c]] .
    then have "card (free_ids b1) < fuel" using g Suc.prems(2) by linarith
    moreover have "hold_pinned fuel req pins b1 (held @ [c]) = (None, held', b')"
      using Suc.prems(3) al Some by (simp split: if_splits)
    ultimately show ?thesis using Suc.IH[of b1] g by blast
  qed
qed simp

lemma card_free_ids_le: "card (free_ids b) \<le> bm_len b"
proof -
  have "free_ids b \<subseteq> {..<bm_len b}" by (auto simp: free_ids_def)
  from card_mono[OF _ this] show ?thesis by simp
qed

text \<open>Without pinned runs a group with a free block always grants a run.\<close>

lemma search_run_complete:
  assumes "block_bitmap_ok b" "free_ids b \<noteq> {}" "0 < req" "search_run req [] b held = (r, held', b')"
  shows "r \<noteq> None"
  using assms
proof (induction req arbitrary: rule: less_induct)
  case (less req)
  obtain f b1 where al: "alloc_consecutive b req = (f, b1)" by fastforce
  have ok: "bitmap_ok b" using less.prems(1) by (simp add: block_bitmap_ok_def)
  show ?case
  proof (cases f)
    case (Some c)
    then show ?thesis using less.prems(3,4) al by (auto simp: search_run.simps[of req] hits_pin_def)
  next
    case None
    have b1: "b1 = b" using bmap.refused[OF less.prems(1)] al None by simp
    have "req \<noteq> 1"
    proof
      assume "req = 1"
      obtain i where "i < bm_len b" "\<not> is_allocated b i" using less.prems(2) by (auto simp: free_ids_def)
      then have "clear_run (bm_buf b) i (i + 1)" "i + 1 \<le> bm_len b" by (auto simp: clear_run_def is_allocated_def less_Suc_eq)
      then show False using alloc_consecutive_None(2)[OF ok al[unfolded None] less.prems(3)] \<open>req = 1\<close> by blast
    qed
    then have "0 < req div 2" "req div 2 < req" using less.prems(3) by auto
    moreover have "search_run (req div 2) [] b held = (r, held', b')"
      using less.prems(3,4) al None b1 by (simp add: search_run.simps[of req])
    ultimately show ?thesis using less.IH less.prems(1,2) by blast
  qed
qed

section \<open>The group invariant\<close>

text \<open>The geometry of a loaded group, bitmaps that cover it, and counters that count their clear bits.\<close>

definition group_size :: "BlockGroup \<Rightarrow> nat" where
  "group_size g = unat (last_block g) - unat (first_block g) + 1"

abbreviation bb :: "BlockGroup \<Rightarrow> IdBitmap" where "bb g \<equiv> dirty_val (block_bitmap g)"
abbreviation ib :: "BlockGroup \<Rightarrow> IdBitmap" where "ib g \<equiv> dirty_val (inode_bitmap g)"
abbreviation gdesc :: "BlockGroup \<Rightarrow> BlockGroupDesc" where "gdesc g \<equiv> dirty_val (bg_desc g)"

definition group_ok :: "BlockGroup \<Rightarrow> bool" where
  "group_ok g \<longleftrightarrow>
     unat (first_block g) \<le> unat (last_block g) \<and> unat (last_block g) + 1 < 2 ^ 64 \<and> group_size g \<le> 8 * BLOCK_SIZE \<and>
     block_bitmap_ok (bb g) \<and> bm_len (bb g) = group_size g \<and> unat (gd_free_blocks_count (gdesc g)) = card (free_ids (bb g)) \<and>
     block_bitmap_ok (ib g) \<and> bm_len (ib g) = unat (nr_inodes_per_group g) \<and> unat (nr_inodes_per_group g) \<le> 8 * BLOCK_SIZE \<and>
     unat (gd_free_inodes_count (gdesc g)) = card (free_ids (ib g))"

text \<open>The free blocks of a group, by their number on the device.\<close>

definition free_blocks_of :: "BlockGroup \<Rightarrow> nat set" where
  "free_blocks_of g = (\<lambda>i. unat (first_block g) + i) ` free_ids (bb g)"

lemma free_blocks_of_iff:
  "group_ok g \<Longrightarrow> b \<in> free_blocks_of g \<longleftrightarrow>
     unat (first_block g) \<le> b \<and> b \<le> unat (last_block g) \<and> \<not> is_allocated (bb g) (b - unat (first_block g))"
  by (auto simp: free_blocks_of_def free_ids_def group_ok_def group_size_def image_iff intro!: exI[of _ "b - unat (first_block g)"])

lemma card_free_blocks_of: "card (free_blocks_of g) = card (free_ids (bb g))"
  unfolding free_blocks_of_def by (rule card_image) (simp add: inj_on_def)

lemma finite_free_blocks_of [simp]: "finite (free_blocks_of g)"
  by (simp add: free_blocks_of_def)

text \<open>Operations change a group only in its descriptor counters and bitmaps.\<close>

definition same_place :: "BlockGroup \<Rightarrow> BlockGroup \<Rightarrow> bool" where
  "same_place g g' \<longleftrightarrow> group_idx g' = group_idx g \<and> first_block g' = first_block g \<and> last_block g' = last_block g \<and>
     nr_inode_table_blocks_per_group g' = nr_inode_table_blocks_per_group g \<and> nr_inodes_per_group g' = nr_inodes_per_group g \<and>
     nr_blocks_per_group g' = nr_blocks_per_group g \<and> bg_inode_size g' = bg_inode_size g \<and> bg_desc_size g' = bg_desc_size g \<and>
     desc_offset g' = desc_offset g \<and> bg_csum_seed g' = bg_csum_seed g \<and>
     gd_block_bitmap_bid (gdesc g') = gd_block_bitmap_bid (gdesc g) \<and> gd_inode_bitmap_bid (gdesc g') = gd_inode_bitmap_bid (gdesc g) \<and>
     gd_inode_table_bid (gdesc g') = gd_inode_table_bid (gdesc g)"

lemma same_place_refl [simp]: "same_place g g"
  by (simp add: same_place_def)

lemma same_place_trans: "same_place g g1 \<Longrightarrow> same_place g1 g2 \<Longrightarrow> same_place g g2"
  by (simp add: same_place_def)

text \<open>A bitmap with the same bits has the same free identifiers.\<close>

lemma free_ids_cong: "bm_len b' = bm_len b \<Longrightarrow> (\<And>i. is_allocated b' i \<longleftrightarrow> is_allocated b i) \<Longrightarrow> free_ids b' = free_ids b"
  by (simp add: free_ids_def)

lemma group_ok_same_bits:
  assumes "group_ok g" "block_bitmap_ok b" "bm_len b = bm_len (bb g)" "\<And>i. is_allocated b i \<longleftrightarrow> is_allocated (bb g) i"
  defines "g' \<equiv> g\<lparr> block_bitmap := deref_mut (\<lambda>_. b) (block_bitmap g) \<rparr>"
  shows "group_ok g'" "free_blocks_of g' = free_blocks_of g" "same_place g g'"
proof -
  have "free_ids b = free_ids (bb g)" using assms(3,4) by (rule free_ids_cong)
  then show "group_ok g'" "free_blocks_of g' = free_blocks_of g" "same_place g g'"
    using assms(1-3) by (simp_all add: g'_def group_ok_def group_size_def deref_mut_def free_blocks_of_def same_place_def)
qed

section \<open>Allocating\<close>

definition pinned_block :: "(Ext4Bid \<times> u32) list \<Rightarrow> nat \<Rightarrow> bool" where
  "pinned_block pins b \<longleftrightarrow> (\<exists>(st, n) \<in> set pins. unat st \<le> b \<and> b < unat st + unat n)"

definition pins_ok :: "(Ext4Bid \<times> u32) list \<Rightarrow> bool" where
  "pins_ok pins \<longleftrightarrow> (\<forall>(st, n) \<in> set pins. unat st + unat n < 2 ^ 64)"

text \<open>The range one pinned run contributes, and its meaning.\<close>

definition pin_range :: "BlockGroup \<Rightarrow> Ext4Bid \<Rightarrow> u32 \<Rightarrow> (nat \<times> nat) list" where
  "pin_range g st n =
     (let l = max st (first_block g); h = min (st + ucast n) (last_block g + 1) in
      if l < h then [(unat (ucast (l - first_block g) :: u16), unat (ucast (h - first_block g) :: u16))] else [])"

lemma pinned_bits_pin_range: "pinned_bits g pins = concat (map (\<lambda>(st, n). pin_range g st n) pins)"
  by (simp add: pinned_bits_def pin_range_def)

lemma pin_range_iff:
  assumes "group_ok g" "unat st + unat n < 2 ^ 64"
  shows "(\<exists>p\<in>set (pin_range g st n). fst p \<le> i \<and> i < snd p) \<longleftrightarrow>
      i < group_size g \<and> unat st \<le> unat (first_block g) + i \<and> unat (first_block g) + i < unat st + unat n"
    "p \<in> set (pin_range g st n) \<Longrightarrow> fst p < snd p"
proof -
  define F L where "F = unat (first_block g)" and "L = unat (last_block g)"
  have gs: "F \<le> L" "L + 1 < 2 ^ 64" "group_size g = L - F + 1" "L - F + 1 \<le> 32768"
    using assms(1) by (simp_all add: group_ok_def group_size_def F_def L_def BLOCK_SIZE_def)
  define l h where "l = max st (first_block g)" and "h = min (st + ucast n) (last_block g + 1)"
  have l: "unat l = max (unat st) F" by (simp add: l_def F_def max_def word_le_nat_alt)
  have sn: "unat (st + ucast n) = unat st + unat n" using assms(2) by (subst unat_add_small) (simp_all add: unat_ucast_up)
  have "unat (last_block g + 1) = L + 1" using gs by (subst unat_add_small) (simp_all add: L_def)
  then have h: "unat h = min (unat st + unat n) (L + 1)" using sn by (simp add: h_def min_def word_le_nat_alt)
  have F: "unat (first_block g) = F" by (simp add: F_def)
  have "((\<exists>p\<in>set (pin_range g st n). fst p \<le> i \<and> i < snd p) \<longleftrightarrow>
      i < group_size g \<and> unat st \<le> F + i \<and> F + i < unat st + unat n) \<and> (p \<in> set (pin_range g st n) \<longrightarrow> fst p < snd p)"
  proof (cases "l < h")
    case True
    then have lh: "unat l < unat h" by (simp add: word_less_nat_alt)
    have bounds: "F \<le> unat l" "unat h \<le> L + 1" "unat l - F < 2 ^ LENGTH(16)" "unat h - F < 2 ^ LENGTH(16)"
      using lh l h gs by (simp_all, linarith+)
    have "unat (ucast (l - first_block g) :: u16) = unat l - F" by (rule ucast_diff(1)[OF refl F bounds(1,3)])
    moreover have "unat (ucast (h - first_block g) :: u16) = unat h - F"
      using lh bounds(1) by (intro ucast_diff(1)[OF refl F _ bounds(4)]) simp
    ultimately have pr: "pin_range g st n = [(unat l - F, unat h - F)]"
      using True by (simp only: pin_range_def Let_def l_def[symmetric] h_def[symmetric] if_True)
    have "(unat l - F \<le> i \<and> i < unat h - F) \<longleftrightarrow> (i < L - F + 1 \<and> unat st \<le> F + i \<and> F + i < unat st + unat n)"
      using gs(1) unfolding l h by (cases "unat st \<le> F"; cases "unat st + unat n \<le> L + 1") (auto simp: max_def min_def)
    moreover have "unat l - F < unat h - F" using lh bounds(1) by simp
    ultimately show ?thesis unfolding pr gs(3) by (auto simp only: list.set bex_simps fst_conv snd_conv singleton_iff simp_thms)
  next
    case False
    then have "unat h \<le> unat l" by (simp add: word_less_nat_alt)
    then have "\<not> (i < L - F + 1 \<and> unat st \<le> F + i \<and> F + i < unat st + unat n)"
      using gs(1) unfolding l h by (cases "unat st \<le> F"; cases "unat st + unat n \<le> L + 1") (auto simp: max_def min_def)
    moreover have pr: "pin_range g st n = []"
      using False by (simp only: pin_range_def Let_def l_def[symmetric] h_def[symmetric] if_False)
    ultimately show ?thesis unfolding pr gs(3) by simp
  qed
  then show "(\<exists>p\<in>set (pin_range g st n). fst p \<le> i \<and> i < snd p) \<longleftrightarrow>
      i < group_size g \<and> unat st \<le> unat (first_block g) + i \<and> unat (first_block g) + i < unat st + unat n"
    "p \<in> set (pin_range g st n) \<Longrightarrow> fst p < snd p" by (simp_all add: F)
qed

text \<open>The group-local pinned ranges are the pinned blocks of the group.\<close>

lemma pinned_bits_iff:
  assumes "group_ok g" "pins_ok pins"
  shows "(\<exists>p\<in>set (pinned_bits g pins). fst p \<le> i \<and> i < snd p) \<longleftrightarrow>
    i < group_size g \<and> pinned_block pins (unat (first_block g) + i)"
proof -
  have "(\<exists>p\<in>set (pinned_bits g pins). fst p \<le> i \<and> i < snd p) \<longleftrightarrow>
      (\<exists>x\<in>set pins. \<exists>p\<in>set (pin_range g (fst x) (snd x)). fst p \<le> i \<and> i < snd p)"
    by (auto simp: pinned_bits_pin_range split_beta)
  also have "\<dots> \<longleftrightarrow> (\<exists>x\<in>set pins. i < group_size g \<and> unat (fst x) \<le> unat (first_block g) + i \<and>
      unat (first_block g) + i < unat (fst x) + unat (snd x))"
    using pin_range_iff(1)[OF assms(1)] assms(2) by (auto simp: pins_ok_def split_beta)
  also have "\<dots> \<longleftrightarrow> i < group_size g \<and> pinned_block pins (unat (first_block g) + i)"
    by (auto simp: pinned_block_def split_beta)
  finally show ?thesis .
qed

lemma pinned_bits_empty_iff:
  assumes "group_ok g" "pins_ok pins"
  shows "pinned_bits g pins = [] \<longleftrightarrow> \<not> (\<exists>b. pinned_block pins b \<and> unat (first_block g) \<le> b \<and> b \<le> unat (last_block g))"
proof -
  have ne: "fst p < snd p" if "p \<in> set (pinned_bits g pins)" for p
    using that pin_range_iff(2)[OF assms(1)] assms(2) by (fastforce simp: pinned_bits_pin_range pins_ok_def split_beta)
  have gs: "group_size g = unat (last_block g) - unat (first_block g) + 1" by (simp add: group_size_def)
  show ?thesis
  proof
    assume "pinned_bits g pins = []"
    then have "\<not> (b - unat (first_block g) < group_size g \<and> pinned_block pins (unat (first_block g) + (b - unat (first_block g))))" for b
      using pinned_bits_iff[OF assms, of "b - unat (first_block g)"] by simp
    from this[unfolded gs] have "\<not> pinned_block pins b" if "unat (first_block g) \<le> b" "b \<le> unat (last_block g)" for b
      using that by (metis diff_le_mono le_add_diff_inverse le_imp_less_Suc Suc_eq_plus1)
    then show "\<not> (\<exists>b. pinned_block pins b \<and> unat (first_block g) \<le> b \<and> b \<le> unat (last_block g))" by blast
  next
    assume no: "\<not> (\<exists>b. pinned_block pins b \<and> unat (first_block g) \<le> b \<and> b \<le> unat (last_block g))"
    show "pinned_bits g pins = []"
    proof (rule ccontr)
      assume "pinned_bits g pins \<noteq> []"
      then obtain p where p: "p \<in> set (pinned_bits g pins)" by (cases "pinned_bits g pins") auto
      then have "fst p < group_size g \<and> pinned_block pins (unat (first_block g) + fst p)"
        using pinned_bits_iff[OF assms, of "fst p"] ne[OF p] by blast
      moreover have "unat (first_block g) \<le> unat (last_block g)" using assms(1) by (simp add: group_ok_def word_le_nat_alt)
      ultimately have "pinned_block pins (unat (first_block g) + fst p)" "unat (first_block g) + fst p \<le> unat (last_block g)" by (auto simp: gs)
      then show False using no le_add1 by blast
    qed
  qed
qed

definition in_system_zone :: "BlockGroup \<Rightarrow> nat \<Rightarrow> bool" where
  "in_system_zone g b \<longleftrightarrow> b = unat (gd_block_bitmap_bid (gdesc g)) \<or> b = unat (gd_inode_bitmap_bid (gdesc g)) \<or>
     (unat (gd_inode_table_bid (gdesc g)) \<le> b \<and> b < unat (gd_inode_table_bid (gdesc g)) + unat (nr_inode_table_blocks_per_group g))"

text \<open>The descriptor's block numbers leave room above them, as on any volume.\<close>

definition zone_ok :: "BlockGroup \<Rightarrow> bool" where
  "zone_ok g \<longleftrightarrow> unat (gd_block_bitmap_bid (gdesc g)) + 1 < 2 ^ 64 \<and> unat (gd_inode_bitmap_bid (gdesc g)) + 1 < 2 ^ 64 \<and>
     unat (gd_inode_table_bid (gdesc g)) + unat (nr_inode_table_blocks_per_group g) < 2 ^ 64"

lemma overlaps_system_zone_iff:
  assumes "zone_ok g" "fst rng < snd rng"
  shows "overlaps_system_zone_with g (gdesc g) rng \<longleftrightarrow> (\<exists>b. unat (fst rng) \<le> b \<and> b < unat (snd rng) \<and> in_system_zone g b)"
proof -
  have one: "ranges_overlap rng (x, x + n) \<longleftrightarrow> (\<exists>b. unat (fst rng) \<le> b \<and> b < unat (snd rng) \<and> unat x \<le> b \<and> b < unat x + unat n)"
    if "unat x + unat n < 2 ^ 64" for x n :: u64
  proof -
    have "unat (x + n) = unat x + unat n" using that by (subst unat_add_small) simp_all
    then have "ranges_overlap rng (x, x + n) \<longleftrightarrow> unat x < unat x + unat n \<and> unat (fst rng) < unat x + unat n \<and> unat x < unat (snd rng)"
      using assms(2) by (simp add: ranges_overlap_def word_less_nat_alt)
    also have "\<dots> \<longleftrightarrow> (\<exists>b. unat (fst rng) \<le> b \<and> b < unat (snd rng) \<and> unat x \<le> b \<and> b < unat x + unat n)"
      using assms(2) by (auto simp: word_less_nat_alt intro!: exI[of _ "max (unat x) (unat (fst rng))"])
    finally show ?thesis .
  qed
  have z: "unat (gd_block_bitmap_bid (gdesc g)) + unat (1 :: u64) < 2 ^ 64" "unat (gd_inode_bitmap_bid (gdesc g)) + unat (1 :: u64) < 2 ^ 64"
    "unat (gd_inode_table_bid (gdesc g)) + unat (ucast (nr_inode_table_blocks_per_group g) :: u64) < 2 ^ 64"
    using assms(1) by (simp_all add: zone_ok_def unat_ucast_up)
  have eq: "unat x \<le> b \<and> b < unat x + unat (1 :: u64) \<longleftrightarrow> b = unat x" for x :: u64 and b by auto
  show ?thesis
    unfolding overlaps_system_zone_with_def one[OF z(1)] one[OF z(2)] one[OF z(3)] eq in_system_zone_def
    using assms(2) by (auto simp: unat_ucast_up)
qed

text \<open>The outcome of a search, after the held runs are released.\<close>

lemma search_released:
  assumes "block_bitmap_ok b" "search_run req pins b [] = (r, held, bm)"
  defines "b' \<equiv> release_held held bm"
  shows "block_bitmap_ok b'" "bm_len b' = bm_len b"
    "r = None \<Longrightarrow> is_allocated b' i \<longleftrightarrow> is_allocated b i"
    "r = Some (s, e) \<Longrightarrow> is_allocated b' i \<longleftrightarrow> is_allocated b i \<or> (s \<le> i \<and> i < e)"
    "r = Some (s, e) \<Longrightarrow> s < e \<and> e \<le> bm_len b \<and> e \<le> s + req \<and> \<not> hits_pin pins (s, e)"
    "r = Some (s, e) \<Longrightarrow> s \<le> i \<Longrightarrow> i < e \<Longrightarrow> \<not> is_allocated b i"
proof -
  note sp = search_run_spec[OF bmap.holding_start[OF assms(1)] assms(2)]
  have none: "block_bitmap_ok b' \<and> bm_len b' = bm_len b \<and> (\<forall>i. is_allocated b' i \<longleftrightarrow> is_allocated b i)" if "r = None"
    using bmap.holding_dropped[of b bm held] sp that by (simp add: b'_def release_held_def)
  have some: "block_bitmap_ok b' \<and> bm_len b' = bm_len b \<and> (\<forall>i. is_allocated b' i \<longleftrightarrow> is_allocated b i \<or> (fst c \<le> i \<and> i < snd c))"
    and run: "fst c < snd c \<and> snd c \<le> bm_len b \<and> snd c \<le> fst c + req \<and> \<not> hits_pin pins c"
      "\<forall>i. fst c \<le> i \<and> i < snd c \<longrightarrow> \<not> is_allocated b i" if "r = Some c" for c
    using bmap.holding_released[of b bm held c] sp that
    by (auto simp: b'_def release_held_def bmap.holding_def)
  show "block_bitmap_ok b'" "bm_len b' = bm_len b" using none some by (cases r; simp)+
  show "r = None \<Longrightarrow> is_allocated b' i \<longleftrightarrow> is_allocated b i" using none by simp
  show "r = Some (s, e) \<Longrightarrow> is_allocated b' i \<longleftrightarrow> is_allocated b i \<or> (s \<le> i \<and> i < e)" using some[of "(s, e)"] by simp
  show "r = Some (s, e) \<Longrightarrow> s < e \<and> e \<le> bm_len b \<and> e \<le> s + req \<and> \<not> hits_pin pins (s, e)" using run(1)[of "(s, e)"] by simp
  show "r = Some (s, e) \<Longrightarrow> s \<le> i \<Longrightarrow> i < e \<Longrightarrow> \<not> is_allocated b i" using run(2)[of "(s, e)"] by simp
qed

lemma requested_count_le: "requested_count g cnt sbf \<le> unat cnt"
proof -
  have "unat (ucast (w :: u32) :: u16) \<le> unat w" for w
    by (simp add: unsigned_ucast_eq take_bit_nat_eq_self take_bit_nat_less_eq_self)
  then have "requested_count g cnt sbf \<le> unat (min (min (min cnt (ucast (last_block g - first_block g + 1))) (gd_free_blocks_count (gdesc g)))
                   (ucast (min sbf 0xFFFFFFFF)))"
    unfolding requested_count_def .
  also have "\<dots> \<le> unat cnt" unfolding word_le_nat_alt[symmetric] by (meson min.cobounded1 order_trans)
  finally show ?thesis .
qed

text \<open>Taking a free run \<open>[s, e)\<close> of local bits out of a group.\<close>

lemma group_take_run:
  assumes "group_ok g" "block_bitmap_ok b" "bm_len b = bm_len (bb g)" "\<And>i. is_allocated b i \<longleftrightarrow> is_allocated (bb g) i \<or> (s \<le> i \<and> i < e)"
    and "s < e" "e \<le> bm_len (bb g)" "\<And>i. s \<le> i \<Longrightarrow> i < e \<Longrightarrow> \<not> is_allocated (bb g) i"
  defines "taken \<equiv> {unat (first_block g) + s ..< unat (first_block g) + e}"
  shows "card (free_ids b) + (e - s) = card (free_ids (bb g))"
    "(\<lambda>i. unat (first_block g) + i) ` free_ids b = free_blocks_of g - taken" "taken \<subseteq> free_blocks_of g"
proof -
  have ids: "free_ids b = free_ids (bb g) - {s..<e}" "{s..<e} \<subseteq> free_ids (bb g)"
    using assms(3-7) by (auto simp: free_ids_def)
  show "card (free_ids b) + (e - s) = card (free_ids (bb g))"
    using card_mono[OF finite_free_ids ids(2)] unfolding ids(1) by (subst card_Diff_subset[OF _ ids(2)]) auto
  have img: "taken = (\<lambda>i. unat (first_block g) + i) ` {s..<e}" unfolding taken_def by (simp add: image_add_atLeastLessThan add.commute)
  show "taken \<subseteq> free_blocks_of g" unfolding img free_blocks_of_def using ids(2) by (rule image_mono)
  show "(\<lambda>i. unat (first_block g) + i) ` free_ids b = free_blocks_of g - taken"
    unfolding ids(1) free_blocks_of_def img by (rule image_set_diff) (simp add: inj_on_def)
qed

lemma group_run_words:
  assumes "group_ok g" "s \<le> e" "e \<le> bm_len (bb g)"
  shows "unat (first_block g + word_of_nat s) = unat (first_block g) + s" "unat (first_block g + word_of_nat e) = unat (first_block g) + e"
    "unat (word_of_nat (e - s) :: u32) = e - s" "first_block g + word_of_nat s + ucast (word_of_nat (e - s) :: u32) = first_block g + word_of_nat e"
proof -
  have b: "unat (first_block g) + e < 2 ^ 64" "e \<le> 32768"
    using assms by (auto simp: group_ok_def group_size_def BLOCK_SIZE_def)
  then show "unat (first_block g + word_of_nat s) = unat (first_block g) + s" "unat (first_block g + word_of_nat e) = unat (first_block g) + e"
    using assms(2) by (subst unat_add_small; simp add: unat_word_of_nat_small)+
  show c: "unat (word_of_nat (e - s) :: u32) = e - s" using b by (simp add: unat_word_of_nat_small)
  have "ucast (word_of_nat (e - s) :: u32) = (word_of_nat (e - s) :: u64)" unfolding ucast_word_of_nat c ..
  then show "first_block g + word_of_nat s + ucast (word_of_nat (e - s) :: u32) = first_block g + word_of_nat e"
    using assms(2) by (simp add: of_nat_diff)
qed

text \<open>What an allocation may do to its group: it takes a set of free blocks, and only a granted run or
  a failed capture leaves it non-empty.\<close>

definition alloc_outcome ::
    "BlockGroup \<Rightarrow> u32 \<Rightarrow> (Ext4Bid \<times> u32) list \<Rightarrow> GroupBlockAlloc result \<Rightarrow> BlockGroup \<Rightarrow> nat set \<Rightarrow> bool" where
  "alloc_outcome g cnt pins r g' taken \<longleftrightarrow>
     group_ok g' \<and> same_place g g' \<and> taken \<subseteq> free_blocks_of g \<and> free_blocks_of g' = free_blocks_of g - taken \<and>
     (\<forall>b\<in>taken. \<not> pinned_block pins b \<and> \<not> in_system_zone g b) \<and> card taken \<le> unat cnt \<and>
     (case r of
        Inr (Allocated a z) \<Rightarrow> a < z \<and> taken = {unat a..<unat z}
      | Inr (NoFit pinned) \<Rightarrow> taken = {} \<and> (pinned \<longleftrightarrow> (\<exists>b. pinned_block pins b \<and> unat (first_block g) \<le> b \<and> b \<le> unat (last_block g))) \<and>
          (\<not> pinned \<longrightarrow> free_blocks_of g = {})
      | Inl _ \<Rightarrow> True)"

lemma alloc_blocks_outcome:
  assumes "group_ok g" "zone_ok g" "pins_ok pins" "BlockGroup_alloc_blocks g io cnt sbf pins = (r, g', io')"
  shows "\<exists>taken. alloc_outcome g cnt pins r g' taken"
proof -
  obtain a io1 where acc: "io_write_access io (gd_block_bitmap_bid (gdesc g)) = (a, io1)" by fastforce
  show ?thesis
  proof (cases a)
    case (Inl err)
    then have "r = Inl err" "g' = g" using assms(4) acc by (simp_all add: BlockGroup_alloc_blocks_def with_io_def Let_def)
    then have "alloc_outcome g cnt pins r g' {}" using assms(1) by (simp add: alloc_outcome_def)
    then show ?thesis ..
  next
    case (Inr access)
    let ?req = "requested_count g cnt sbf" and ?pins = "pinned_bits g pins"
    obtain found held bm where sr: "search_run ?req ?pins (bb g) [] = (found, held, bm)" by (metis prod_cases3)
    have bok: "block_bitmap_ok (bb g)" using assms(1) by (simp add: group_ok_def)
    define b1 where "b1 = release_held held bm"
    note rel = search_released[OF bok sr, folded b1_def]
    define g1 where "g1 = (if ?req > 0 then g\<lparr> block_bitmap := deref_mut (\<lambda>_. b1) (block_bitmap g) \<rparr> else g)"
    show ?thesis
    proof (cases found)
      case None
      have g1: "group_ok g1" "free_blocks_of g1 = free_blocks_of g" "same_place g g1"
        using group_ok_same_bits[OF assms(1) rel(1,2) rel(3)[OF None]] assms(1) by (simp_all add: g1_def)
      have "g' = g1 \<and> (r = Err EIO \<or> r = Ok (NoFit (?pins \<noteq> [])) \<and> (?pins = [] \<longrightarrow> gd_free_blocks_count (gdesc g) = 0))"
        using assms(4) acc Inr sr None
        by (auto simp: BlockGroup_alloc_blocks_def with_io_def Let_def g1_def b1_def word_neq_0_conv split: if_splits)
      moreover have "free_blocks_of g = {}" if "gd_free_blocks_count (gdesc g) = 0"
        using assms(1) that by (simp add: group_ok_def free_blocks_of_def)
      ultimately have "alloc_outcome g cnt pins r g' {}"
        using g1 pinned_bits_empty_iff[OF assms(1,3)] by (auto simp: alloc_outcome_def)
      then show ?thesis ..
    next
      case (Some c)
      obtain s e where c: "c = (s, e)" by fastforce
      note f = Some[unfolded c]
      note run = rel(5)[OF f]
      have se: "s \<le> e" "e \<le> bm_len (bb g)" "0 < ?req" using run by auto
      note w = group_run_words[OF assms(1) se(1,2)]
      let ?n = "word_of_nat (e - s) :: u32" and ?taken = "{unat (first_block g) + s ..< unat (first_block g) + e}"
      note take = group_take_run[OF assms(1) rel(1,2) rel(4)[OF f] _ se(2) rel(6)[OF f]]
      have g1: "g1 = g\<lparr> block_bitmap := deref_mut (\<lambda>_. b1) (block_bitmap g) \<rparr>" using se(3) by (simp add: g1_def)
      define bad where "bad \<longleftrightarrow> overlaps_system_zone_with g (gdesc g) (first_block g + word_of_nat s, first_block g + word_of_nat e) \<or>
        gd_free_blocks_count (gdesc g) < ?n \<or> sbf < ucast ?n"
      define g2 where "g2 = g1\<lparr> bg_desc := deref_mut (\<lambda>desc.
                           let desc1 = desc\<lparr> gd_free_blocks_count := gd_free_blocks_count desc - ?n \<rparr> in
                           if is_block_uninit desc1 then desc1\<lparr> gd_flags := gd_flags desc1 AND NOT BG_BLOCK_UNINIT \<rparr> else desc1)
                           (bg_desc g1) \<rparr>"
      show ?thesis
      proof (cases bad)
        case True
        define b2 where "b2 = free_consecutive b1 s e"
        have "r = Err EIO" "g' = g\<lparr> block_bitmap := deref_mut (\<lambda>_. b2) (block_bitmap g) \<rparr>"
          using assms(4) acc Inr sr f True se(3) unfolding bad_def w(4)[symmetric]
          by (auto simp: BlockGroup_alloc_blocks_def with_io_def Let_def b1_def b2_def deref_mut_def)
        moreover have "block_bitmap_ok b2" "bm_len b2 = bm_len (bb g)" "\<And>i. is_allocated b2 i \<longleftrightarrow> is_allocated (bb g) i"
          using bmap.released[OF rel(1), of e s] rel(2) rel(4)[OF f] rel(6)[OF f] se(2) by (auto simp: b2_def)
        from group_ok_same_bits[OF assms(1) this] have "group_ok (g\<lparr> block_bitmap := deref_mut (\<lambda>_. b2) (block_bitmap g) \<rparr>)"
          "free_blocks_of (g\<lparr> block_bitmap := deref_mut (\<lambda>_. b2) (block_bitmap g) \<rparr>) = free_blocks_of g"
          "same_place g (g\<lparr> block_bitmap := deref_mut (\<lambda>_. b2) (block_bitmap g) \<rparr>)" .
        ultimately have "alloc_outcome g cnt pins r g' {}" by (simp add: alloc_outcome_def)
        then show ?thesis ..
      next
        case False
        have res: "g' = g2" "r = Ok (Allocated (first_block g + word_of_nat s) (first_block g + word_of_nat e)) \<or> isl r"
          using assms(4) acc Inr sr f False se(3) unfolding bad_def
          by (auto simp: w(4) BlockGroup_alloc_blocks_def with_io_def Let_def b1_def g2_def g1 st_bind_def split: prod.splits sum.splits)
        have run_lt: "s < e" using run by simp
        note take = take[OF run_lt]
        have d2: "bb g2 = b1" "ib g2 = ib g" "gd_free_blocks_count (gdesc g2) = gd_free_blocks_count (gdesc g) - ?n"
          "gd_free_inodes_count (gdesc g2) = gd_free_inodes_count (gdesc g)" "same_place g g2"
          by (simp_all add: g2_def g1 deref_mut_def Let_def same_place_def)
        have "unat (gd_free_blocks_count (gdesc g2)) = card (free_ids b1)"
          using False assms(1) take(1) unfolding d2(3) bad_def by (subst unat_sub_small) (simp_all add: w(3) group_ok_def not_less)
        then have ok: "group_ok g2" using assms(1) rel(1,2) d2 by (simp add: group_ok_def group_size_def same_place_def)
        have free: "free_blocks_of g2 = free_blocks_of g - ?taken" using take(2) d2(1,5) by (simp add: free_blocks_of_def same_place_def)
        have lt: "first_block g + word_of_nat s < first_block g + word_of_nat e" using run_lt by (simp add: word_less_nat_alt w)
        have zone: "\<not> in_system_zone g b" if "b \<in> ?taken" for b
          using False overlaps_system_zone_iff[OF assms(2), of "(first_block g + word_of_nat s, first_block g + word_of_nat e)"] lt that
          unfolding bad_def by (auto simp: w)
        have pin: "\<not> pinned_block pins b" if "b \<in> ?taken" for b
        proof
          assume p: "pinned_block pins b"
          define i where "i = b - unat (first_block g)"
          have i: "s \<le> i" "i < e" "b = unat (first_block g) + i" using that by (auto simp: i_def)
          have "i < group_size g" using i se(2) assms(1) by (simp add: group_ok_def)
          then obtain q where "q \<in> set ?pins" "fst q \<le> i" "i < snd q" using pinned_bits_iff[OF assms(1,3), of i] p i(3) by blast
          then have "hits_pin ?pins (s, e)" using i unfolding hits_pin_def by (intro bexI[of _ q]) simp_all
          then show False using run by simp
        qed
        have "card ?taken \<le> unat cnt" using run requested_count_le[of g cnt sbf] by (simp, linarith)
        then have "alloc_outcome g cnt pins r g' ?taken"
          using res ok free take(3) zone pin lt d2(5) by (auto simp: alloc_outcome_def w split: sum.split)
        then show ?thesis ..
      qed
    qed
  qed
qed

end
