(* ===== verification/Group_Free.thy ===== *)
theory Group_Free
  imports Group_Alloc
begin

text \<open>
  The other three operations of a block group: freeing a run of blocks, allocating an inode and
  freeing one.  Each keeps the group's invariant, so that its counters stay the number of clear
  bits, and each is described by the set of identifiers whose state it changes.
\<close>

section \<open>Clearing bits\<close>

lemma free_bits_ok:
  assumes "block_bitmap_ok b" "\<forall>i\<in>set is. i < bm_len b" "distinct is"
  shows "\<exists>b'. free_bits b is n = Some (b', n + card {i \<in> set is. is_allocated b i}) \<and> block_bitmap_ok b' \<and>
    bm_len b' = bm_len b \<and> (\<forall>i. is_allocated b' i \<longleftrightarrow> is_allocated b i \<and> i \<notin> set is)"
  using assms
proof (induction "is" arbitrary: b n)
  case (Cons i "is")
  show ?case
  proof (cases "is_allocated b i")
    case False
    have "{k \<in> set (i # is). is_allocated b k} = {k \<in> set is. is_allocated b k}" using False by auto
    moreover obtain b' where "free_bits b is n = Some (b', n + card {k \<in> set is. is_allocated b k})" "block_bitmap_ok b'"
        "bm_len b' = bm_len b" "\<forall>k. is_allocated b' k \<longleftrightarrow> is_allocated b k \<and> k \<notin> set is"
      using Cons.IH[of b n] Cons.prems by auto
    ultimately show ?thesis using False Cons.prems by (intro exI[of _ b']) auto
  next
    case True
    define b1 where "b1 = IdBitmap_free b i"
    have b1: "block_bitmap_ok b1" "bm_len b1 = bm_len b" "\<And>k. is_allocated b1 k \<longleftrightarrow> is_allocated b k \<and> k \<noteq> i"
      using bmap.released[OF Cons.prems(1), of "i + 1" i] Cons.prems(2) unfolding b1_def IdBitmap_free_eq by auto
    obtain b' where b': "free_bits b1 is (n + 1) = Some (b', n + 1 + card {k \<in> set is. is_allocated b1 k})" "block_bitmap_ok b'"
        "bm_len b' = bm_len b1" "\<forall>k. is_allocated b' k \<longleftrightarrow> is_allocated b1 k \<and> k \<notin> set is"
      using Cons.IH[of b1 "n + 1"] Cons.prems b1 by auto
    have "{k \<in> set is. is_allocated b1 k} = {k \<in> set is. is_allocated b k}" using b1(3) Cons.prems(3) by auto
    moreover have "{k \<in> set (i # is). is_allocated b k} = insert i {k \<in> set is. is_allocated b k}" using True by auto
    ultimately have "n + 1 + card {k \<in> set is. is_allocated b1 k} = n + card {k \<in> set (i # is). is_allocated b k}"
      using Cons.prems(3) by simp
    then show ?thesis using b' b1 True Cons.prems by (intro exI[of _ b']) (auto simp: b1_def[symmetric])
  qed
qed auto

section \<open>Freeing a run\<close>

definition free_outcome :: "BlockGroup \<Rightarrow> nat set \<Rightarrow> u32 result \<Rightarrow> BlockGroup \<Rightarrow> nat set \<Rightarrow> bool" where
  "free_outcome g run r g' freed \<longleftrightarrow>
     group_ok g' \<and> same_place g g' \<and> freed \<subseteq> run \<and> free_blocks_of g' = free_blocks_of g \<union> freed \<and>
     (case r of Inr n \<Rightarrow> freed = run \<and> unat n = card (run - free_blocks_of g) \<and> (\<forall>b\<in>run. \<not> in_system_zone g b) | Inl _ \<Rightarrow> True)"

lemma free_run_ids:
  assumes "group_ok g" "block_bitmap_ok b" "bm_len b = bm_len (bb g)" "\<And>i. is_allocated b i \<longleftrightarrow> is_allocated (bb g) i \<and> \<not> (s \<le> i \<and> i < e)"
    and "e \<le> bm_len (bb g)"
  defines "run \<equiv> {unat (first_block g) + s ..< unat (first_block g) + e}"
  shows "card (free_ids b) = card (free_ids (bb g)) + card {i \<in> {s..<e}. is_allocated (bb g) i}"
    "(\<lambda>i. unat (first_block g) + i) ` free_ids b = free_blocks_of g \<union> run"
    "card {i \<in> {s..<e}. is_allocated (bb g) i} = card (run - free_blocks_of g)"
proof -
  have mem: "i \<in> free_ids b \<longleftrightarrow> i \<in> free_ids (bb g) \<or> (s \<le> i \<and> i < e)" for i
    using assms(3,5) assms(4)[of i] by (auto simp: free_ids_def)
  have ids: "free_ids b = free_ids (bb g) \<union> {s..<e}" by (rule set_eqI) (simp only: mem Un_iff atLeastLessThan_iff)
  have ids2: "free_ids b = free_ids (bb g) \<union> {i \<in> {s..<e}. is_allocated (bb g) i}"
    using assms(5) unfolding ids by (auto simp: free_ids_def)
  have ids3: "free_ids (bb g) \<inter> {i \<in> {s..<e}. is_allocated (bb g) i} = {}" by (auto simp: free_ids_def)
  show "card (free_ids b) = card (free_ids (bb g)) + card {i \<in> {s..<e}. is_allocated (bb g) i}"
    unfolding ids2 by (rule card_Un_disjoint[OF _ _ ids3]) simp_all
  have img: "run = (\<lambda>i. unat (first_block g) + i) ` {s..<e}" unfolding run_def by (simp add: image_add_atLeastLessThan add.commute)
  show "(\<lambda>i. unat (first_block g) + i) ` free_ids b = free_blocks_of g \<union> run" unfolding ids image_Un free_blocks_of_def img ..
  have "{s..<e} - free_ids (bb g) = {i \<in> {s..<e}. is_allocated (bb g) i}" using assms(5) by (auto simp: free_ids_def)
  moreover have "run - free_blocks_of g = (\<lambda>i. unat (first_block g) + i) ` ({s..<e} - free_ids (bb g))"
    unfolding img free_blocks_of_def by (rule image_set_diff[symmetric]) (simp add: inj_on_def)
  ultimately have "run - free_blocks_of g = (\<lambda>i. unat (first_block g) + i) ` {i \<in> {s..<e}. is_allocated (bb g) i}" by simp
  then show "card {i \<in> {s..<e}. is_allocated (bb g) i} = card (run - free_blocks_of g)" by (simp add: card_image inj_on_def)
qed

lemma group_count_small: "group_ok g \<Longrightarrow> card (free_ids (bb g)) \<le> 32768"
  using card_free_ids_le[of "bb g"] by (simp add: group_ok_def BLOCK_SIZE_def)

lemma free_blocks_outcome:
  assumes "group_ok g" "zone_ok g" "BlockGroup_free_blocks g io st (st + n) = (r, g', io')"
    and "0 < unat n" "unat st + unat n \<le> group_size g"
  defines "run \<equiv> {unat (first_block g) + unat st ..< unat (first_block g) + unat st + unat n}"
  shows "\<exists>freed. free_outcome g run r g' freed"
proof -
  have gs: "group_size g = bm_len (bb g)" "bm_len (bb g) \<le> 32768" "unat (last_block g) + 1 < 2 ^ 64" "block_bitmap_ok (bb g)"
    "unat (first_block g) \<le> unat (last_block g)"
    using assms(1) by (simp_all add: group_ok_def BLOCK_SIZE_def)
  have sn: "unat (st + n) = unat st + unat n" using assms(5) gs by (intro unat_add_small) simp
  have wst: "unat (first_block g + ucast st) = unat (first_block g) + unat st"
    and wen: "unat (first_block g + ucast (st + n)) = unat (first_block g) + unat st + unat n"
    using assms(5) gs by (subst unat_add_small; simp add: unat_ucast_up sn group_size_def)+
  have none: "free_outcome g run (Inl e) g {}" for e using assms(1) by (simp add: free_outcome_def)
  let ?zone = "overlaps_system_zone_with g (gdesc g) (first_block g + ucast st, first_block g + ucast (st + n))"
  show ?thesis
  proof (cases ?zone)
    case True
    then have "r = Inl EIO" "g' = g" using assms(3) by (simp_all add: BlockGroup_free_blocks_def Let_def)
    then show ?thesis using none by blast
  next
    case False
    obtain a io1 where acc: "io_write_access io (gd_block_bitmap_bid (gdesc g)) = (a, io1)" by fastforce
    show ?thesis
    proof (cases a)
      case (Inl err)
      then have "r = Inl err" "g' = g" using assms(3) acc False by (simp_all add: BlockGroup_free_blocks_def with_io_def Let_def)
      then show ?thesis using none by blast
    next
      case (Inr access)
      have rs: "unat (ucast st :: u16) = unat st" "unat (ucast (st + n) :: u16) = unat st + unat n"
        using assms(5) gs sn by (simp_all add: unat_ucast_small)
      obtain b where b: "free_bits (bb g) [unat st..<unat st + unat n] 0 =
            Some (b, card {i \<in> {unat st..<unat st + unat n}. is_allocated (bb g) i})" "block_bitmap_ok b" "bm_len b = bm_len (bb g)"
          "\<And>i. is_allocated b i \<longleftrightarrow> is_allocated (bb g) i \<and> \<not> (unat st \<le> i \<and> i < unat st + unat n)"
        using free_bits_ok[OF gs(4), of "[unat st..<unat st + unat n]" 0] assms(5) gs(1) by auto
      define k where "k = card {i \<in> {unat st..<unat st + unat n}. is_allocated (bb g) i}"
      note ids = free_run_ids[OF assms(1) b(2,3,4) assms(5)[unfolded gs(1)], folded k_def]
      have kb: "k + card (free_ids (bb g)) \<le> 32768" using ids(1) card_free_ids_le[of b] b(3) gs(2) by simp
      have wk: "unat (word_of_nat k :: u32) = k" using kb by (simp add: unat_word_of_nat_small)
      have cnt: "unat (gd_free_blocks_count (gdesc g)) = card (free_ids (bb g))" using assms(1) by (simp add: group_ok_def)
      have new: "unat (gd_free_blocks_count (gdesc g) + word_of_nat k) = card (free_ids b)"
        using kb ids(1) by (subst unat_add_small) (simp_all add: wk cnt)
      have noovf: "\<not> gd_free_blocks_count (gdesc g) + word_of_nat k < word_of_nat k"
        using new ids(1) by (simp add: word_less_nat_alt wk)
      define g1 where "g1 = (if k > 0 then g\<lparr> block_bitmap := deref_mut (\<lambda>_. b) (block_bitmap g) \<rparr> else g)"
      define g2 where "g2 = g1\<lparr> bg_desc := deref_mut (\<lambda>desc. desc\<lparr> gd_free_blocks_count := gd_free_blocks_count (gdesc g) + word_of_nat k \<rparr>) (bg_desc g1) \<rparr>"
      have res: "g' = g2" "r = Ok (word_of_nat k) \<or> isl r"
        using assms(3) acc Inr False b(1) noovf unfolding k_def[symmetric]
        by (auto simp: BlockGroup_free_blocks_def with_io_def Let_def rs k_def[symmetric] g1_def[symmetric] g2_def[symmetric] st_bind_def
            split: prod.splits sum.splits)
      have same: "\<And>i. is_allocated b i \<longleftrightarrow> is_allocated (bb g) i" if "k = 0"
      proof -
        have "{i \<in> {unat st..<unat st + unat n}. is_allocated (bb g) i} = {}" using that unfolding k_def by simp
        then show "is_allocated b i \<longleftrightarrow> is_allocated (bb g) i" for i using b(4)[of i] by auto
      qed
      have fb: "free_ids (bb g2) = free_ids b" "block_bitmap_ok (bb g2)" "bm_len (bb g2) = bm_len (bb g)"
        using b(2,3) gs(4) free_ids_cong[OF b(3)] same by (auto simp: g2_def g1_def deref_mut_def)
      have pl: "same_place g g2" "ib g2 = ib g" "gd_free_inodes_count (gdesc g2) = gd_free_inodes_count (gdesc g)"
        "gd_free_blocks_count (gdesc g2) = gd_free_blocks_count (gdesc g) + word_of_nat k"
        by (simp_all add: g2_def g1_def deref_mut_def same_place_def)
      have "group_ok g2" using assms(1) fb pl new by (simp add: group_ok_def group_size_def same_place_def)
      moreover have "free_blocks_of g2 = free_blocks_of g \<union> run"
        using ids(2) fb(1) pl(1) unfolding free_blocks_of_def[of g2] run_def same_place_def by (simp add: add.assoc)
      moreover have "\<not> in_system_zone g x" if "x \<in> run" for x
      proof -
        have "first_block g + ucast st < first_block g + ucast (st + n)" using assms(4) by (simp add: word_less_nat_alt wst wen)
        then show ?thesis using False that overlaps_system_zone_iff[OF assms(2), of "(first_block g + ucast st, first_block g + ucast (st + n))"]
          by (auto simp: wst wen run_def)
      qed
      ultimately have "free_outcome g run r g' run"
        using res pl(1) ids(3) wk by (auto simp: free_outcome_def run_def add.assoc split: sum.split)
      then show ?thesis ..
    qed
  qed
qed

section \<open>Inodes\<close>

definition free_inos_of :: "BlockGroup \<Rightarrow> nat set" where
  "free_inos_of g = free_ids (ib g)"

text \<open>An inode operation leaves the block side alone and changes the free inodes and their counter together.\<close>

definition ino_change :: "BlockGroup \<Rightarrow> BlockGroup \<Rightarrow> nat set \<Rightarrow> bool" where
  "ino_change g g' free' \<longleftrightarrow>
     group_ok g' \<and> same_place g g' \<and> free_blocks_of g' = free_blocks_of g \<and> free_inos_of g' = free'"

lemma ino_change_refl: "group_ok g \<Longrightarrow> ino_change g g (free_inos_of g)"
  by (simp add: ino_change_def)

lemma ino_changeI:
  assumes "group_ok g" "block_bitmap g' = block_bitmap g" "same_place g g'" "gd_free_blocks_count (gdesc g') = gd_free_blocks_count (gdesc g)"
    and "block_bitmap_ok (ib g')" "bm_len (ib g') = bm_len (ib g)" "free_ids (ib g') = free'"
    and "unat (gd_free_inodes_count (gdesc g')) = card free'"
  shows "ino_change g g' free'"
  using assms by (simp add: ino_change_def group_ok_def group_size_def same_place_def free_blocks_of_def free_inos_of_def)

definition alloc_ino_outcome :: "BlockGroup \<Rightarrow> u32 option result \<Rightarrow> BlockGroup \<Rightarrow> bool" where
  "alloc_ino_outcome g r g' \<longleftrightarrow>
     (case r of
        Inr (Some i) \<Rightarrow> unat i \<in> free_inos_of g \<and> ino_change g g' (free_inos_of g - {unat i})
      | Inr None \<Rightarrow> ino_change g g' (free_inos_of g)
      | Inl _ \<Rightarrow> \<exists>i. ino_change g g' (free_inos_of g - {i}))"

lemma group_inodes:
  assumes "group_ok g"
  shows "block_bitmap_ok (ib g)" "bm_len (ib g) \<le> 32768" "unat (gd_free_inodes_count (gdesc g)) = card (free_ids (ib g))"
  using assms by (auto simp: group_ok_def BLOCK_SIZE_def)

lemma alloc_ino_group:
  assumes "group_ok g" "BlockGroup_alloc_ino g io type = (r, g', io')"
  shows "alloc_ino_outcome g r g'"
proof -
  let ?d = "gdesc g"
  note gi = group_inodes[OF assms(1)]
  have same: "ino_change g g (free_inos_of g - {bm_len (ib g)})"
    using assms(1) by (simp add: ino_change_def free_inos_of_def free_ids_def)
  consider (full) "gd_free_inodes_count ?d = 0 \<or> is_inode_uninit ?d"
    | (dirs) "\<not> (gd_free_inodes_count ?d = 0 \<or> is_inode_uninit ?d)" "is_directory type \<and> gd_used_dirs_count ?d = 0xFFFF"
    | (go) "\<not> (gd_free_inodes_count ?d = 0 \<or> is_inode_uninit ?d)" "\<not> (is_directory type \<and> gd_used_dirs_count ?d = 0xFFFF)" by blast
  then show ?thesis
  proof cases
    case full
    then have "r = Ok None" "g' = g" using assms(2) by (auto simp: BlockGroup_alloc_ino_def Let_def split: if_splits)
    then show ?thesis using ino_change_refl[OF assms(1)] by (simp add: alloc_ino_outcome_def)
  next
    case dirs
    then have "r = Inl EIO" "g' = g" using assms(2) by (auto simp: BlockGroup_alloc_ino_def Let_def split: if_splits)
    then show ?thesis using same by (auto simp: alloc_ino_outcome_def)
  next
    case go
    note gate = if_not_P[OF go(2)]
    obtain a io1 where acc: "io_write_access io (gd_inode_bitmap_bid ?d) = (a, io1)" by fastforce
    show ?thesis
    proof (cases a)
      case (Inl err)
      then have "r = Inl err" "g' = g" using assms(2) acc go(1) by (simp_all add: BlockGroup_alloc_ino_def with_io_def Let_def gate)
      then show ?thesis using same by (auto simp: alloc_ino_outcome_def)
    next
      case (Inr access)
      obtain found b where al: "alloc_consecutive (ib g) 1 = (found, b)" by fastforce
      show ?thesis
      proof (cases found)
        case None
        then have b: "b = ib g" using bmap.refused[OF gi(1)] al by simp
        have r: "r = Inl EIO" "g' = g\<lparr> inode_bitmap := deref_mut (\<lambda>_. ib g) (inode_bitmap g) \<rparr>"
          using assms(2) acc Inr go(1) al None by (simp_all add: BlockGroup_alloc_ino_def with_io_def Let_def b gate)
        have "ino_change g g' (free_inos_of g - {bm_len (ib g)})"
          using assms(1) gi unfolding r(2)
          by (intro ino_changeI) (simp_all add: deref_mut_def same_place_def free_inos_of_def free_ids_def)
        then show ?thesis using r(1) by (auto simp: alloc_ino_outcome_def)
      next
        case (Some c)
        obtain s e where c: "c = (s, e)" by fastforce
        note gr = bmap.granted[OF gi(1) al[unfolded Some c]]
        have e: "e = s + 1" "s < bm_len (ib g)" "block_bitmap_ok b" "bm_len b = bm_len (ib g)" using gr by auto
        have free: "s \<in> free_ids (ib g)" "free_ids b = free_ids (ib g) - {s}" using gr e by (auto simp: free_ids_def)
        define g2 where "g2 = (g\<lparr> inode_bitmap := deref_mut (\<lambda>_. b) (inode_bitmap g) \<rparr>)\<lparr> bg_desc := deref_mut (\<lambda>desc.
                     desc\<lparr> gd_free_inodes_count := gd_free_inodes_count desc - 1,
                           gd_used_dirs_count := (if is_directory type then gd_used_dirs_count desc + 1 else gd_used_dirs_count desc),
                           gd_itable_unused := itable_unused_from_bitmap b (nr_inodes_per_group g) \<rparr>) (bg_desc g) \<rparr>"
        have res: "g' = g2" "r = Ok (Some (word_of_nat s)) \<or> isl r"
          using assms(2) acc Inr go(1) al Some c
          by (auto simp: BlockGroup_alloc_ino_def gate with_io_def Let_def g2_def st_bind_def split: prod.splits sum.splits)
        have "unat (gd_free_inodes_count ?d - 1) = card (free_ids (ib g)) - 1"
          using go(1) gi(3) by (subst unat_sub_small) (simp_all add: word_le_nat_alt unat_gt_0 Suc_le_eq flip: gi(3))
        then have "ino_change g g2 (free_ids (ib g) - {s})"
          using assms(1) e free by (intro ino_changeI) (simp_all add: g2_def deref_mut_def same_place_def)
        then show ?thesis using res free(1) e(2) gi(2)
          by (auto simp: alloc_ino_outcome_def free_inos_of_def unat_word_of_nat_small split: sum.split)
      qed
    qed
  qed
qed

definition free_ino_outcome :: "BlockGroup \<Rightarrow> nat \<Rightarrow> bool result \<Rightarrow> BlockGroup \<Rightarrow> bool" where
  "free_ino_outcome g i r g' \<longleftrightarrow>
     (case r of
        Inr was \<Rightarrow> was = (i \<notin> free_inos_of g) \<and> ino_change g g' (insert i (free_inos_of g))
      | Inl _ \<Rightarrow> ino_change g g' (free_inos_of g) \<or> ino_change g g' (insert i (free_inos_of g)))"

lemma free_ino_group:
  assumes "group_ok g" "BlockGroup_free_inode g io idx type = (r, g', io')" "unat idx < unat (nr_inodes_per_group g)"
  shows "free_ino_outcome g (unat idx) r g'"
proof -
  let ?d = "gdesc g" and ?i = "unat idx"
  note gi = group_inodes[OF assms(1)]
  have len: "?i < bm_len (ib g)" using assms(1,3) by (simp add: group_ok_def)
  have bit: "unat (ucast idx :: u16) = ?i" using len gi(2) by (simp add: unat_ucast_small)
  note refl = ino_change_refl[OF assms(1)]
  show ?thesis
  proof (cases "is_allocated (ib g) ?i")
    case False
    then have "r = Ok False" "g' = g" using assms(2) len by (simp_all add: BlockGroup_free_inode_def Let_def bit)
    moreover have "?i \<in> free_inos_of g" using False len by (simp add: free_inos_of_def free_ids_def)
    ultimately show ?thesis using refl by (simp add: free_ino_outcome_def insert_absorb)
  next
    case True
    obtain a io1 where acc: "io_write_access io (gd_inode_bitmap_bid ?d) = (a, io1)" by fastforce
    show ?thesis
    proof (cases a)
      case (Inl err)
      then have "r = Inl err" "g' = g" using assms(2) acc True len by (simp_all add: BlockGroup_free_inode_def with_io_def Let_def bit)
      then show ?thesis using refl by (simp add: free_ino_outcome_def)
    next
      case (Inr access)
      show ?thesis
      proof (cases "gd_free_inodes_count ?d + 1 < 1 \<or> is_directory type \<and> gd_used_dirs_count ?d < 1")
        case bad: True
        then have "r = Inl EIO" "g' = g"
          using assms(2) acc True len Inr by (auto simp: BlockGroup_free_inode_def with_io_def Let_def bit split: if_splits)
        then show ?thesis using refl by (simp add: free_ino_outcome_def)
      next
        case good: False
        define b where "b = IdBitmap_free (ib g) ?i"
        have len1: "?i + 1 \<le> bm_len (ib g)" using len by simp
        have b: "block_bitmap_ok b" "bm_len b = bm_len (ib g)" "\<And>k. is_allocated b k \<longleftrightarrow> is_allocated (ib g) k \<and> k \<noteq> ?i"
          using bmap.released[OF gi(1) len1, of ?i] unfolding b_def IdBitmap_free_eq by (simp_all, linarith)
        have "k \<in> free_ids b \<longleftrightarrow> k = ?i \<or> k \<in> free_ids (ib g)" for k
          using b(2) b(3)[of k] len by (cases "k = ?i") (auto simp: free_ids_def)
        then have ids1: "free_ids b = insert ?i (free_ids (ib g))" by (simp only: set_eq_iff insert_iff simp_thms)
        have "?i \<notin> free_ids (ib g)" using True by (simp add: free_ids_def)
        note ids = ids1 this
        define g1 where "g1 = g\<lparr> inode_bitmap := deref_mut (\<lambda>_. b) (inode_bitmap g),
                      bg_desc := deref_mut (\<lambda>desc.
                        desc\<lparr> gd_free_inodes_count := gd_free_inodes_count desc + 1,
                              gd_used_dirs_count := (if is_directory type then gd_used_dirs_count desc - 1 else gd_used_dirs_count desc),
                              gd_itable_unused := itable_unused_from_bitmap b (nr_inodes_per_group g) \<rparr>) (bg_desc g) \<rparr>"
        have res: "g' = g1" "r = Ok True \<or> isl r"
          using assms(2) acc True len Inr good
          by (auto simp: BlockGroup_free_inode_def with_io_def Let_def bit b_def g1_def st_bind_def split: prod.splits sum.splits)
        have "card (free_ids b) \<le> 32768" using card_free_ids_le[of b] b(2) gi(2) by simp
        then have "unat (gd_free_inodes_count ?d + 1) = card (free_ids b)"
          using gi(3) ids by (subst unat_add_small) simp_all
        then have "ino_change g g1 (insert ?i (free_ids (ib g)))"
          using assms(1) b(1,2) ids(1) by (intro ino_changeI) (simp_all add: g1_def deref_mut_def same_place_def)
        then show ?thesis using res ids(2) by (auto simp: free_ino_outcome_def free_inos_of_def split: sum.split)
      qed
    qed
  qed
qed

end
