(* ===== verification/Raw_Inode.thy ===== *)
theory Raw_Inode
  imports Block_Group Extent_Node
begin

text \<open>
  The on-disk inode and its decoded descriptor, from \<open>inode/mod.rs\<close>: the 256-byte \<open>RawInode\<close>,
  the validated \<open>InodeDesc\<close>, the timestamp and device-number encodings, the two conversions
  between them and the inode checksum.  The lemmas show which descriptors survive a trip through
  their on-disk form.
\<close>

section \<open>Inode types and permissions\<close>

fun InodeType_bits :: "InodeType \<Rightarrow> u16" where
  "InodeType_bits Unknown = 0x0000"
| "InodeType_bits NamedPipe = 0x1000"
| "InodeType_bits CharDevice = 0x2000"
| "InodeType_bits Dir = 0x4000"
| "InodeType_bits BlockDevice = 0x6000"
| "InodeType_bits File = 0x8000"
| "InodeType_bits SymLink = 0xA000"
| "InodeType_bits Socket = 0xC000"

definition from_raw_mode :: "u16 \<Rightarrow> InodeType result" where
  "from_raw_mode mode0 =
     (let mode = mode0 AND 0xF000 in
      if mode = 0 then Ok File
      else case find (\<lambda>t. InodeType_bits t = mode AND 0xF000)
                  [Unknown, NamedPipe, CharDevice, Dir, BlockDevice, File, SymLink, Socket] of
             None \<Rightarrow> Err EINVAL
           | Some t \<Rightarrow> Ok t)"

definition FilePerm_from_bits_truncate :: "u16 \<Rightarrow> u16" where
  "FilePerm_from_bits_truncate bits = bits AND 0xFFF"

section \<open>Timestamps\<close>

text \<open>\<open>core::time::Duration\<close>: whole seconds and nanoseconds below one second.\<close>

record Duration =
  dur_secs :: u64
  dur_nanos :: u32

definition NANOS_PER_SEC :: nat where "NANOS_PER_SEC = 1000000000"

definition Duration_new :: "u64 \<Rightarrow> u32 \<Rightarrow> Duration" where
  "Duration_new secs nanos =
     (if unat nanos < NANOS_PER_SEC then \<lparr> dur_secs = secs, dur_nanos = nanos \<rparr>
      else \<lparr> dur_secs = secs + word_of_nat (unat nanos div NANOS_PER_SEC),
             dur_nanos = word_of_nat (unat nanos mod NANOS_PER_SEC) \<rparr>)"

definition decode_time :: "u32 \<Rightarrow> u32 \<Rightarrow> Duration" where
  "decode_time secs extra =
     (let epoch = uint (extra AND 0x3);
          nsec = drop_bit 2 extra;
          s = sint secs + epoch * 2 ^ 32
      in Duration_new (if s < 0 then 0 else word_of_int s) nsec)"

definition encode_time :: "Duration \<Rightarrow> u32 \<times> u32" where
  "encode_time t =
     (let secs = min (dur_secs t) (2 ^ 34 - 1);
          epoch = drop_bit 32 secs AND 0x3
      in (ucast secs, ucast epoch OR push_bit 2 (dur_nanos t)))"

text \<open>\<open>i_dtime\<close>: the deletion time, or the successor on the orphan chain.\<close>

datatype Dtime = Time Duration | OrphanNext "u32 option"

fun Dtime_to_raw :: "Dtime \<Rightarrow> u32" where
  "Dtime_to_raw (Time t) = (if dur_secs t > 0xFFFFFFFF then 0xFFFFFFFF else ucast (dur_secs t))"
| "Dtime_to_raw (OrphanNext nxt) = (case nxt of Some ino \<Rightarrow> ino | None \<Rightarrow> 0)"

section \<open>Device numbers\<close>

definition decode_device_numbers :: "u64 \<Rightarrow> u32 \<times> u32" where
  "decode_device_numbers raw =
     (ucast (drop_bit 32 raw AND 0xFFFFF000 OR drop_bit 8 raw AND 0xFFF),
      ucast (drop_bit 12 raw AND 0xFFFFFF00 OR raw AND 0xFF))"

definition encode_device_numbers :: "u32 \<Rightarrow> u32 \<Rightarrow> u64" where
  "encode_device_numbers major minor =
     push_bit 32 (ucast major AND 0xFFFFF000) OR push_bit 8 (ucast major AND 0xFFF) OR
     push_bit 12 (ucast minor AND 0xFFFFFF00) OR (ucast minor AND 0xFF)"

definition RAW_BLOCK_PTRS_LEN :: nat where "RAW_BLOCK_PTRS_LEN = 15"

definition encode_device_block :: "u64 \<Rightarrow> u32 list" where
  "encode_device_block device_id =
     (let (major, minor) = decode_device_numbers device_id;
          block = replicate RAW_BLOCK_PTRS_LEN 0
      in if major < 256 \<and> minor < 256 then block[0 := push_bit 8 major OR minor]
         else block[1 := minor AND 0xFF OR push_bit 8 major OR push_bit 12 (minor AND NOT 0xFF)])"

definition decode_device_block :: "u32 list \<Rightarrow> u64" where
  "decode_device_block block =
     (let (major, minor) =
            (if block ! 0 \<noteq> 0 then (drop_bit 8 (block ! 0) AND 0xFF, block ! 0 AND 0xFF)
             else let dev = block ! 1 in
                  (drop_bit 8 (dev AND 0xFFF00), dev AND 0xFF OR drop_bit 12 dev AND 0xFFF00))
      in encode_device_numbers major minor)"

section \<open>The on-disk inode\<close>

record RawInode =
  ri_mode :: u16
  ri_uid :: u16
  ri_size_lo :: u32
  ri_atime :: u32
  ri_ctime :: u32
  ri_mtime :: u32
  ri_dtime :: u32
  ri_gid :: u16
  ri_link_count :: u16
  ri_sector_count :: u32
  ri_flags :: u32
  ri_osd1 :: u32
  ri_block :: "u32 list"
  ri_generation :: u32
  ri_file_acl_lo :: u32
  ri_size_high :: u32
  ri_obso_faddr :: u32
  ri_blocks_high :: u16
  ri_file_acl_high :: u16
  ri_uid_high :: u16
  ri_gid_high :: u16
  ri_checksum_lo :: u16
  ri_osd2_reserved :: u16
  ri_extra_isize :: u16
  ri_checksum_hi :: u16
  ri_ctime_extra :: u32
  ri_mtime_extra :: u32
  ri_atime_extra :: u32
  ri_crtime :: u32
  ri_crtime_extra :: u32
  ri_version_hi :: u32
  ri_projid :: u32
  ri_tail :: bytes

definition RawInode_as_bytes :: "RawInode \<Rightarrow> bytes" where
  "RawInode_as_bytes r =
     le16 (ri_mode r) @ le16 (ri_uid r) @ le32 (ri_size_lo r) @ le32 (ri_atime r) @ le32 (ri_ctime r) @
     le32 (ri_mtime r) @ le32 (ri_dtime r) @ le16 (ri_gid r) @ le16 (ri_link_count r) @ le32 (ri_sector_count r) @
     le32 (ri_flags r) @ le32 (ri_osd1 r) @ concat (map le32 (ri_block r)) @ le32 (ri_generation r) @
     le32 (ri_file_acl_lo r) @ le32 (ri_size_high r) @ le32 (ri_obso_faddr r) @ le16 (ri_blocks_high r) @
     le16 (ri_file_acl_high r) @ le16 (ri_uid_high r) @ le16 (ri_gid_high r) @ le16 (ri_checksum_lo r) @
     le16 (ri_osd2_reserved r) @ le16 (ri_extra_isize r) @ le16 (ri_checksum_hi r) @ le32 (ri_ctime_extra r) @
     le32 (ri_mtime_extra r) @ le32 (ri_atime_extra r) @ le32 (ri_crtime r) @ le32 (ri_crtime_extra r) @
     le32 (ri_version_hi r) @ le32 (ri_projid r) @ ri_tail r"

definition RawInode_from_bytes :: "bytes \<Rightarrow> RawInode" where
  "RawInode_from_bytes bs =
     \<lparr> ri_mode = field16 0 bs, ri_uid = field16 2 bs, ri_size_lo = field32 4 bs, ri_atime = field32 8 bs,
       ri_ctime = field32 12 bs, ri_mtime = field32 16 bs, ri_dtime = field32 20 bs, ri_gid = field16 24 bs,
       ri_link_count = field16 26 bs, ri_sector_count = field32 28 bs, ri_flags = field32 32 bs,
       ri_osd1 = field32 36 bs, ri_block = map (\<lambda>i. field32 (40 + 4 * i) bs) [0..<RAW_BLOCK_PTRS_LEN],
       ri_generation = field32 100 bs, ri_file_acl_lo = field32 104 bs, ri_size_high = field32 108 bs,
       ri_obso_faddr = field32 112 bs, ri_blocks_high = field16 116 bs, ri_file_acl_high = field16 118 bs,
       ri_uid_high = field16 120 bs, ri_gid_high = field16 122 bs, ri_checksum_lo = field16 124 bs,
       ri_osd2_reserved = field16 126 bs, ri_extra_isize = field16 128 bs, ri_checksum_hi = field16 130 bs,
       ri_ctime_extra = field32 132 bs, ri_mtime_extra = field32 136 bs, ri_atime_extra = field32 140 bs,
       ri_crtime = field32 144 bs, ri_crtime_extra = field32 148 bs, ri_version_hi = field32 152 bs,
       ri_projid = field32 156 bs, ri_tail = slice 160 96 bs \<rparr>"

section \<open>The decoded descriptor\<close>

definition FileFlags_EXTENTS :: u32 where "FileFlags_EXTENTS = push_bit 19 1"

text \<open>The named flag bits: 0 to 7, 12, 18, 19, 21 and 28.\<close>

definition FileFlags_ALL :: u32 where "FileFlags_ALL = 0x102C10FF"

record InodeDesc =
  ds_type :: InodeType
  ds_perm :: u16
  ds_uid :: u32
  ds_gid :: u32
  ds_size :: u64
  ds_atime :: Duration
  ds_ctime :: Duration
  ds_mtime :: Duration
  ds_crtime :: Duration
  ds_dtime :: Dtime
  ds_link_count :: u16
  ds_sector_count :: u64
  ds_flags :: u32
  ds_file_acl :: u64
  ds_generation :: u32
  ds_block :: "u32 list"

definition INLINE_MAX :: nat where "INLINE_MAX = 4"

text \<open>The root of the empty extent tree.\<close>

definition empty_root :: "u32 list" where
  "empty_root = (replicate RAW_BLOCK_PTRS_LEN 0)[0 := ucast EXTENT_MAGIC, 1 := word_of_nat INLINE_MAX]"

datatype InodeSeed = ExtentRoot | Device u64 | NoSeed

definition InodeDesc_new ::
    "InodeType \<Rightarrow> u16 \<Rightarrow> u32 \<Rightarrow> u32 \<Rightarrow> u16 \<Rightarrow> u32 \<Rightarrow> Duration \<Rightarrow> InodeSeed \<Rightarrow> InodeDesc" where
  "InodeDesc_new type perm uid gid links gen now seed =
     (let (flags, block) = (case seed of
            ExtentRoot \<Rightarrow> (FileFlags_EXTENTS, empty_root)
          | Device device_id \<Rightarrow> (0, encode_device_block device_id)
          | NoSeed \<Rightarrow> (0, replicate RAW_BLOCK_PTRS_LEN 0))
      in \<lparr> ds_type = type, ds_perm = perm, ds_uid = uid, ds_gid = gid, ds_size = 0, ds_atime = now, ds_ctime = now,
           ds_mtime = now, ds_crtime = now, ds_dtime = Time \<lparr> dur_secs = 0, dur_nanos = 0 \<rparr>, ds_link_count = links,
           ds_sector_count = 0, ds_flags = flags, ds_file_acl = 0, ds_generation = gen, ds_block = block \<rparr>)"

definition device_id :: "InodeDesc \<Rightarrow> u64 option" where
  "device_id d = (case ds_type d of
       CharDevice \<Rightarrow> Some (decode_device_block (ds_block d))
     | BlockDevice \<Rightarrow> Some (decode_device_block (ds_block d))
     | _ \<Rightarrow> None)"

definition inc_link_count :: "InodeDesc \<Rightarrow> u16 \<Rightarrow> InodeDesc" where
  "inc_link_count d n = d\<lparr> ds_link_count := ds_link_count d + n \<rparr>"

text \<open>Saturating at zero.\<close>

definition dec_link_count :: "InodeDesc \<Rightarrow> u16 \<Rightarrow> InodeDesc" where
  "dec_link_count d n = d\<lparr> ds_link_count := (if ds_link_count d < n then 0 else ds_link_count d - n) \<rparr>"

definition set_dtime :: "InodeDesc \<Rightarrow> Duration \<Rightarrow> InodeDesc" where
  "set_dtime d t = d\<lparr> ds_dtime := Time t \<rparr>"

definition set_orphan_next :: "InodeDesc \<Rightarrow> u32 option \<Rightarrow> InodeDesc" where
  "set_orphan_next d nxt = d\<lparr> ds_dtime := OrphanNext nxt \<rparr>"

definition to_raw_inode :: "InodeDesc \<Rightarrow> u32 list \<Rightarrow> RawInode" where
  "to_raw_inode d root =
     (let (mtime_secs, mtime_extra) = encode_time (ds_mtime d);
          (ctime_secs, ctime_extra) = encode_time (ds_ctime d);
          (atime_secs, atime_extra) = encode_time (ds_atime d);
          (crtime_secs, crtime_extra) = encode_time (ds_crtime d)
      in \<lparr> ri_mode = InodeType_bits (ds_type d) OR ds_perm d AND 0xFFF, ri_uid = ucast (ds_uid d),
           ri_size_lo = ucast (ds_size d), ri_atime = atime_secs, ri_ctime = ctime_secs, ri_mtime = mtime_secs,
           ri_dtime = Dtime_to_raw (ds_dtime d), ri_gid = ucast (ds_gid d), ri_link_count = ds_link_count d,
           ri_sector_count = ucast (ds_sector_count d), ri_flags = ds_flags d, ri_osd1 = 0, ri_block = root,
           ri_generation = ds_generation d, ri_file_acl_lo = 0,
           ri_size_high = (if ds_type d = File then ucast (drop_bit 32 (ds_size d)) else 0), ri_obso_faddr = 0,
           ri_blocks_high = ucast (drop_bit 32 (ds_sector_count d)), ri_file_acl_high = 0,
           ri_uid_high = ucast (drop_bit 16 (ds_uid d)), ri_gid_high = ucast (drop_bit 16 (ds_gid d)),
           ri_checksum_lo = 0, ri_osd2_reserved = 0, ri_extra_isize = 32, ri_checksum_hi = 0,
           ri_ctime_extra = ctime_extra, ri_mtime_extra = mtime_extra, ri_atime_extra = atime_extra,
           ri_crtime = crtime_secs, ri_crtime_extra = crtime_extra, ri_version_hi = 0, ri_projid = 0,
           ri_tail = replicate 96 0 \<rparr>)"

definition InodeDesc_try_from :: "RawInode \<Rightarrow> InodeDesc result" where
  "InodeDesc_try_from raw =
     (if ri_link_count raw = 0 then Err ESTALE
      else case from_raw_mode (ri_mode raw) of
        Inl _ \<Rightarrow> Err EUCLEAN
      | Inr type \<Rightarrow>
          let size = ucast (ri_size_lo raw) OR (if type = File then push_bit 32 (ucast (ri_size_high raw)) else 0) in
          if type = SymLink \<and> size \<ge> (4096 :: u64) then Err EUCLEAN
          else if size > 0x7FFFFFFFFFFFFFFF then Err EUCLEAN
          else Ok \<lparr> ds_type = type, ds_perm = FilePerm_from_bits_truncate (ri_mode raw),
                    ds_uid = ucast (ri_uid raw) OR push_bit 16 (ucast (ri_uid_high raw)),
                    ds_gid = ucast (ri_gid raw) OR push_bit 16 (ucast (ri_gid_high raw)),
                    ds_size = size,
                    ds_atime = decode_time (ri_atime raw) (ri_atime_extra raw),
                    ds_ctime = decode_time (ri_ctime raw) (ri_ctime_extra raw),
                    ds_mtime = decode_time (ri_mtime raw) (ri_mtime_extra raw),
                    ds_crtime = decode_time (ri_crtime raw) (ri_crtime_extra raw),
                    ds_dtime = Time \<lparr> dur_secs = ucast (ri_dtime raw), dur_nanos = 0 \<rparr>,
                    ds_link_count = ri_link_count raw,
                    ds_sector_count = ucast (ri_sector_count raw) OR push_bit 32 (ucast (ri_blocks_high raw)),
                    ds_flags = ri_flags raw AND FileFlags_ALL,
                    ds_file_acl = ucast (ri_file_acl_lo raw) OR push_bit 32 (ucast (ri_file_acl_high raw)),
                    ds_generation = ri_generation raw, ds_block = ri_block raw \<rparr>)"

section \<open>The inode checksum\<close>

definition I_CHECKSUM_LO_OFFSET :: nat where "I_CHECKSUM_LO_OFFSET = 0x7C"
definition I_CHECKSUM_HI_OFFSET :: nat where "I_CHECKSUM_HI_OFFSET = 0x82"

text \<open>\<open>&xs[s..e]\<close>, which panics out of range: an inode larger than \<open>RawInode\<close> reaches that branch.\<close>

definition index_range :: "'a list \<Rightarrow> nat \<Rightarrow> nat \<Rightarrow> 'a list result" where
  "index_range xs s e = (if s \<le> e \<and> e \<le> length xs then Ok (slice s (e - s) xs) else Err PANIC)"

definition inode_checksum :: "RawInode \<Rightarrow> InodeCsumSeed \<Rightarrow> nat \<Rightarrow> u32 result" where
  "inode_checksum raw seed inode_size =
     (let bs = RawInode_as_bytes raw;
          c1 = crc32c (InodeCsumSeed_get seed) (take I_CHECKSUM_LO_OFFSET bs);
          c2 = crc32c c1 [0, 0]
      in if inode_size > 128 then
           let c3 = crc32c c2 (slice (I_CHECKSUM_LO_OFFSET + 2) (I_CHECKSUM_HI_OFFSET - (I_CHECKSUM_LO_OFFSET + 2)) bs);
               c4 = crc32c c3 [0, 0]
           in and_then (index_range bs (I_CHECKSUM_HI_OFFSET + 2) inode_size) (\<lambda>rest. Ok (crc32c c4 rest))
         else and_then (index_range bs (I_CHECKSUM_LO_OFFSET + 2) inode_size) (\<lambda>rest. Ok (crc32c c2 rest)))"

definition verify_inode_checksum :: "RawInode \<Rightarrow> InodeCsumSeed \<Rightarrow> nat \<Rightarrow> unit result" where
  "verify_inode_checksum raw seed inode_size =
     and_then (inode_checksum raw seed inode_size) (\<lambda>crc.
      if ri_checksum_lo raw \<noteq> ucast (crc AND 0xFFFF) then Err EUCLEAN
      else if inode_size > 128 \<and> ri_checksum_hi raw \<noteq> ucast (drop_bit 16 crc AND 0xFFFF) then Err EUCLEAN
      else Ok ())"

definition stamp_inode_checksum :: "RawInode \<Rightarrow> InodeCsumSeed \<Rightarrow> nat \<Rightarrow> RawInode result" where
  "stamp_inode_checksum raw seed inode_size =
     and_then (inode_checksum raw seed inode_size) (\<lambda>crc.
      let raw1 = raw\<lparr> ri_checksum_lo := ucast (crc AND 0xFFFF) \<rparr>
      in Ok (if inode_size > 128 then raw1\<lparr> ri_checksum_hi := ucast (drop_bit 16 crc AND 0xFFFF) \<rparr> else raw1))"

section \<open>Reading an inode\<close>

text \<open>\<open>BlockGroup::read_inode_desc\<close>; the journal and the device are those of \<open>MetaIo\<close>.\<close>

definition BlockGroup_read_inode_desc :: "BlockGroup \<Rightarrow> MetaIo \<Rightarrow> u32 \<Rightarrow> InodeDesc result" where
  "BlockGroup_read_inode_desc g io ino =
     (let idx = inode_idx_in_group g ino;
          byte_off = idx * bg_inode_size g;
          block_bid = gd_inode_table_bid (dirty_val (bg_desc g)) + word_of_nat (byte_off div BLOCK_SIZE);
          off_in_block = byte_off mod BLOCK_SIZE
      in and_then (io_read io block_bid) (\<lambda>block.
         and_then (index_range block off_in_block (off_in_block + RAW_INODE_SIZE)) (\<lambda>bs.
         let raw = RawInode_from_bytes bs in
         and_then (case bg_csum_seed g of
                     None \<Rightarrow> Ok ()
                   | Some seed \<Rightarrow> verify_inode_checksum raw (derive_inode seed ino (ri_generation raw)) (bg_inode_size g))
           (\<lambda>_. InodeDesc_try_from raw))))"

section \<open>Round trips\<close>

lemma field_append:
  "length xs \<le> off \<Longrightarrow> field16 off (xs @ ys) = field16 (off - length xs) ys"
  "length xs \<le> off \<Longrightarrow> field32 off (xs @ ys) = field32 (off - length xs) ys"
  by (simp_all add: field16_def field32_def)

lemma field_here:
  "field16 0 (le16 a @ ys) = a" "field32 0 (le32 b @ ys) = b"
  by (simp_all add: field16_def field32_def)

lemma field_words:
  "i < length ws \<Longrightarrow> field32 (4 * i) (concat (map le32 ws) @ ys) = ws ! i"
proof (induction ws arbitrary: i)
  case (Cons w ws)
  then show ?case by (cases i) (simp_all add: field_here field_append)
qed simp

lemma length_concat_le32 [simp]: "length (concat (map le32 ws)) = 4 * length ws"
  by (induction ws) simp_all

definition raw_inode_ok :: "RawInode \<Rightarrow> bool" where
  "raw_inode_ok r \<longleftrightarrow> length (ri_block r) = RAW_BLOCK_PTRS_LEN \<and> length (ri_tail r) = 96"

lemma length_RawInode [simp]: "raw_inode_ok r \<Longrightarrow> length (RawInode_as_bytes r) = RAW_INODE_SIZE"
  by (simp add: RawInode_as_bytes_def raw_inode_ok_def RAW_INODE_SIZE_def RAW_BLOCK_PTRS_LEN_def)

lemma RawInode_round_trip:
  assumes "raw_inode_ok r"
  shows "RawInode_from_bytes (RawInode_as_bytes r) = r"
proof -
  have len: "length (ri_block r) = 15" "length (ri_tail r) = 96"
    using assms by (simp_all add: raw_inode_ok_def RAW_BLOCK_PTRS_LEN_def)
  have blk: "map (\<lambda>i. field32 (40 + 4 * i) (RawInode_as_bytes r)) [0..<RAW_BLOCK_PTRS_LEN] = ri_block r"
    by (rule nth_equalityI) (simp_all add: len RAW_BLOCK_PTRS_LEN_def RawInode_as_bytes_def field_append field_words)
  show ?thesis
    unfolding RawInode_from_bytes_def blk
    by (rule RawInode.equality) (simp_all add: RawInode_as_bytes_def len field_append field_here)
qed

section \<open>Timestamps on disk\<close>

lemma and_3_take_bit: "w AND 3 = take_bit 2 w" for w :: "'a::len word"
  by (simp add: take_bit_eq_mask mask_numeral)

lemma sint_u32: "sint (w :: u32) = uint w - (if bit w 31 then 2 ^ 32 else 0)"
proof -
  have "sint w = take_bit 32 (uint w) - 2 ^ 32 * of_bool (bit (uint w) 31)"
    by (simp add: sint_uint signed_take_bit_eq_take_bit_minus)
  moreover have "take_bit 32 (uint w) = uint w" by (rule take_bit_int_eq_self) (use uint_bounded[of w] in simp_all)
  moreover have "bit (uint w) 31 \<longleftrightarrow> bit w 31" by (simp add: bit_uint_iff)
  ultimately show ?thesis by simp
qed

lemma uint_less_power: "unat w < 2 ^ n \<Longrightarrow> uint w < 2 ^ n"
  by (metis of_nat_less_iff of_nat_numeral of_nat_power of_nat_unat)

lemma unat_less_power: "uint w < 2 ^ n \<Longrightarrow> unat w < 2 ^ n"
  by (metis of_nat_less_iff of_nat_numeral of_nat_power of_nat_unat)

lemma not_bit_small:
  assumes "unat (w :: 'a::len word) < 2 ^ n" "n \<le> i"
  shows "\<not> bit w i"
proof -
  have "unat w < 2 ^ i" using assms by (meson less_le_trans one_le_numeral power_increasing)
  then have "\<not> bit (unat w) i" by (simp add: bit_iff_odd)
  then show ?thesis by (auto simp: bit_unsigned_iff dest: bit_imp_le_length)
qed

definition time_ok :: "Duration \<Rightarrow> bool" where
  "time_ok t \<longleftrightarrow> unat (dur_nanos t) < NANOS_PER_SEC"

lemma encode_time_parts:
  assumes "time_ok t" "unat (dur_secs t) < 2 ^ 34"
  shows "fst (encode_time t) = ucast (dur_secs t)"
    "uint (snd (encode_time t) AND 3) = uint (dur_secs t) div 2 ^ 32"
    "drop_bit 2 (snd (encode_time t)) = dur_nanos t"
proof -
  let ?s = "dur_secs t" and ?n = "dur_nanos t"
  have "min ?s (2 ^ 34 - 1) = ?s" using assms(2) by (simp add: min_def word_le_nat_alt)
  then have enc: "encode_time t = (ucast ?s, ucast (take_bit 2 (drop_bit 32 ?s)) OR push_bit 2 ?n)"
    by (simp add: encode_time_def Let_def and_3_take_bit)
  show "fst (encode_time t) = ucast ?s" by (simp add: enc)
  have "snd (encode_time t) AND 3 = ucast (take_bit 2 (drop_bit 32 ?s))"
    by (rule bit_word_eqI) (auto simp: enc and_3_take_bit bit_simps)
  moreover have "uint ?s < 2 ^ 34" using assms(2) by (rule uint_less_power)
  then have "uint ?s div 2 ^ 32 mod 4 = uint ?s div 2 ^ 32"
    by (intro mod_pos_pos_trivial) (auto simp: pos_imp_zdiv_nonneg_iff)
  then have "uint (ucast (take_bit 2 (drop_bit 32 ?s)) :: u32) = uint ?s div 2 ^ 32"
    by (simp add: unsigned_ucast_eq take_bit_eq_mod drop_bit_eq_div uint_div uint_mod)
  ultimately show "uint (snd (encode_time t) AND 3) = uint ?s div 2 ^ 32" by simp
  have "unat ?n < 2 ^ 30" using assms(1) by (simp add: time_ok_def NANOS_PER_SEC_def)
  then have "\<not> bit ?n i" if "30 \<le> i" for i using that by (rule not_bit_small)
  then have "i < 30" if "bit ?n i" for i using that not_less by blast
  then show "drop_bit 2 (snd (encode_time t)) = ?n"
    by (intro bit_word_eqI) (auto simp: enc bit_simps)
qed

text \<open>What a timestamp reads back as: with bit 31 of its seconds set it comes back \<open>2 ^ 32\<close> seconds
  early, or as the epoch.\<close>

lemma decode_encode_time:
  assumes "time_ok t" "unat (dur_secs t) < 2 ^ 34"
  shows "decode_time (fst (encode_time t)) (snd (encode_time t)) =
    t\<lparr> dur_secs := (if bit (dur_secs t) 31 then if unat (dur_secs t) < 2 ^ 32 then 0 else dur_secs t - 2 ^ 32 else dur_secs t) \<rparr>"
proof -
  let ?s = "dur_secs t"
  note parts = encode_time_parts[OF assms]
  have "uint (ucast ?s :: u32) = uint ?s mod 2 ^ 32" by (simp add: unsigned_ucast_eq take_bit_eq_mod)
  moreover have "bit (ucast ?s :: u32) 31 \<longleftrightarrow> bit ?s 31" by (simp add: bit_simps)
  ultimately have s: "sint (ucast ?s :: u32) + uint ?s div 2 ^ 32 * 2 ^ 32 = uint ?s - (if bit ?s 31 then 2 ^ 32 else 0)"
    by (simp add: sint_u32)
  have n: "Duration_new x (dur_nanos t) = t\<lparr> dur_secs := x \<rparr>" for x
    using assms(1) by (simp add: Duration_new_def time_ok_def)
  have lt: "uint ?s < 2 ^ 32 \<longleftrightarrow> unat ?s < 2 ^ 32" using uint_less_power unat_less_power by blast
  show ?thesis
    unfolding decode_time_def Let_def parts s n lt[symmetric] by (simp add: word_of_int_uint)
qed

definition storable_time :: "Duration \<Rightarrow> bool" where
  "storable_time t \<longleftrightarrow> unat (dur_secs t) < 2 ^ 34 \<and> \<not> bit (dur_secs t) 31"

lemma decode_encode_clamped:
  assumes "time_ok t" "2 ^ 34 \<le> unat (dur_secs t)"
  shows "decode_time (fst (encode_time t)) (snd (encode_time t)) \<noteq> t"
proof -
  define c where "c = t\<lparr> dur_secs := 2 ^ 34 - 1 \<rparr>"
  have "encode_time t = encode_time c" using assms(2) by (simp add: encode_time_def c_def min_def word_le_nat_alt)
  moreover have "decode_time (fst (encode_time c)) (snd (encode_time c)) =
      c\<lparr> dur_secs := (if bit (dur_secs c) 31 then if unat (dur_secs c) < 2 ^ 32 then 0 else dur_secs c - 2 ^ 32 else dur_secs c) \<rparr>"
    using assms(1) by (intro decode_encode_time) (simp_all add: time_ok_def c_def)
  ultimately have "dur_secs (decode_time (fst (encode_time t)) (snd (encode_time t))) \<in> {0, 2 ^ 34 - 1 - 2 ^ 32, 2 ^ 34 - 1}"
    by (auto simp: c_def)
  then show ?thesis using assms(2) by auto
qed

lemma time_round_trip_iff:
  assumes "time_ok t"
  shows "decode_time (fst (encode_time t)) (snd (encode_time t)) = t \<longleftrightarrow> storable_time t"
proof (cases "unat (dur_secs t) < 2 ^ 34")
  case True
  have "dur_secs t \<noteq> 0" if "bit (dur_secs t) 31" using that by auto
  moreover have "dur_secs t - 2 ^ 32 \<noteq> dur_secs t" by simp
  ultimately show ?thesis
    unfolding decode_encode_time[OF assms True] storable_time_def using True
    by (auto intro!: Duration.equality dest: arg_cong[where f = dur_secs])
next
  case False
  then show ?thesis using decode_encode_clamped[OF assms] by (simp add: storable_time_def)
qed

section \<open>Device numbers on disk\<close>

lemma device_masks:
  "(0xFFFFF000 :: 'a::len word) = push_bit 12 (mask 20)" "(0xFFF :: 'a word) = mask 12"
  "(0xFFFFFF00 :: 'a word) = push_bit 8 (mask 24)" "(0xFF :: 'a word) = mask 8" "(0xFFF00 :: 'a word) = push_bit 8 (mask 12)"
  by (simp_all add: mask_eq_exp_minus_1 push_bit_eq_mult)

lemmas word_bits = bit_or_iff bit_and_iff bit_drop_bit_eq bit_push_bit_iff bit_mask_iff bit_ucast_iff possible_bit_word

lemma bit_major: "bit (fst (decode_device_numbers d)) j \<longleftrightarrow> j < 32 \<and> bit d (if j < 12 then j + 8 else j + 32)"
  unfolding decode_device_numbers_def fst_conv device_masks
  by (cases "j < 12") (auto simp: word_bits add.commute not_less dest: bit_imp_le_length)

lemma bit_minor: "bit (snd (decode_device_numbers d)) j \<longleftrightarrow> j < 32 \<and> bit d (if j < 8 then j else j + 12)"
  unfolding decode_device_numbers_def snd_conv device_masks
  by (cases "j < 8") (auto simp: word_bits add.commute not_less dest: bit_imp_le_length)

lemma bit_encode_device_numbers:
  assumes "i < 64"
  shows "bit (encode_device_numbers major minor) i \<longleftrightarrow>
    (if i < 8 then bit minor i else if i < 20 then bit major (i - 8) else if i < 44 then bit minor (i - 12) else bit major (i - 32))"
  unfolding encode_device_numbers_def device_masks using assms
  by (cases "i < 8"; cases "i < 20"; cases "i < 44") (auto simp: word_bits not_less)

lemma encode_decode_device_numbers:
  "encode_device_numbers (fst (decode_device_numbers d)) (snd (decode_device_numbers d)) = d"
proof (rule bit_word_eqI)
  fix i assume "i < LENGTH(64)"
  then show "bit (encode_device_numbers (fst (decode_device_numbers d)) (snd (decode_device_numbers d))) i = bit d i"
    by (cases "i < 8"; cases "i < 20"; cases "i < 44") (simp_all add: bit_encode_device_numbers bit_major bit_minor not_less le_diff_conv2 less_diff_conv2)
qed

lemma device_block_round_trip:
  assumes "unat (fst (decode_device_numbers d)) < 2 ^ 12" "unat (snd (decode_device_numbers d)) < 2 ^ 20"
  shows "decode_device_block (encode_device_block d) = d"
proof -
  obtain major minor where mm: "decode_device_numbers d = (major, minor)" by fastforce
  have enc: "encode_device_numbers major minor = d" using encode_decode_device_numbers[of d] by (simp add: mm)
  have big: "i < 12" if "bit major i" for i using not_bit_small assms(1) that by (metis fst_conv mm not_less)
  have bin: "i < 20" if "bit minor i" for i using not_bit_small assms(2) that by (metis mm not_less snd_conv)
  show ?thesis
  proof (cases "major < 256 \<and> minor < 256")
    case True
    then have u: "unat major < 2 ^ 8" "unat minor < 2 ^ 8" by (simp_all add: word_less_nat_alt)
    have sma: "i < 8" if "bit major i" for i using not_bit_small[OF u(1)] that not_less by blast
    have smi: "i < 8" if "bit minor i" for i using not_bit_small[OF u(2)] that not_less by blast
    define w where "w = push_bit 8 major OR minor"
    have w: "drop_bit 8 w AND 0xFF = major" "w AND 0xFF = minor"
      unfolding w_def device_masks by (rule bit_word_eqI; auto simp: word_bits dest: sma smi bit_imp_le_length)+
    have "decode_device_block (encode_device_block d) = (if w \<noteq> 0 then encode_device_numbers (drop_bit 8 w AND 0xFF) (w AND 0xFF)
        else encode_device_numbers 0 0)"
      using True by (simp add: decode_device_block_def encode_device_block_def mm w_def RAW_BLOCK_PTRS_LEN_def)
    moreover have "major = 0 \<and> minor = 0" if "w = 0" using w that by simp
    ultimately show ?thesis using enc unfolding w by auto
  next
    case False
    define v where "v = minor AND 0xFF OR push_bit 8 major OR push_bit 12 (minor AND NOT 0xFF)"
    have v: "drop_bit 8 (v AND 0xFFF00) = major" "v AND 0xFF OR drop_bit 12 v AND 0xFFF00 = minor"
      unfolding v_def device_masks by (rule bit_word_eqI; auto simp: word_bits bit_not_iff dest: big bin bit_imp_le_length)+
    have "decode_device_block (encode_device_block d) = encode_device_numbers (drop_bit 8 (v AND 0xFFF00)) (v AND 0xFF OR drop_bit 12 v AND 0xFFF00)"
      using False by (auto simp: decode_device_block_def encode_device_block_def mm v_def Let_def RAW_BLOCK_PTRS_LEN_def)
    then show ?thesis using enc unfolding v by simp
  qed
qed

section \<open>Descriptors on disk\<close>

lemma mode_round_trip:
  assumes "t \<noteq> Unknown"
  shows "from_raw_mode (InodeType_bits t OR p AND 0xFFF) = Ok t"
    "FilePerm_from_bits_truncate (InodeType_bits t OR p AND 0xFFF) = p AND 0xFFF"
proof -
  have "(InodeType_bits t OR p AND 0xFFF) AND 0xF000 = InodeType_bits t"
    by (cases t) (simp_all add: bit.conj_disj_distrib2 and.assoc)
  then show "from_raw_mode (InodeType_bits t OR p AND 0xFFF) = Ok t"
    using assms by (cases t) (simp_all add: from_raw_mode_def Let_def and.assoc)
  show "FilePerm_from_bits_truncate (InodeType_bits t OR p AND 0xFFF) = p AND 0xFFF"
    by (cases t) (simp_all add: FilePerm_from_bits_truncate_def bit.conj_disj_distrib2 and.assoc)
qed

lemma join_u32: "ucast (ucast w :: u16) OR push_bit 16 (ucast (ucast (drop_bit 16 w) :: u16)) = (w :: u32)"
  by (rule bit_word_eqI) (auto simp: word_bits not_less)

lemma join_u64: "ucast (ucast w :: u32) OR push_bit 32 (ucast (ucast (drop_bit 32 w) :: u32)) = (w :: u64)"
  by (rule bit_word_eqI) (auto simp: word_bits not_less)

lemma join_u48:
  assumes "unat w < 2 ^ 48"
  shows "ucast (ucast w :: u32) OR push_bit 32 (ucast (ucast (drop_bit 32 w) :: u16)) = (w :: u64)"
proof (rule bit_word_eqI)
  fix i
  have "i < 48" if "bit w i" using not_bit_small[OF assms] that not_less by blast
  then show "bit (ucast (ucast w :: u32) OR push_bit 32 (ucast (ucast (drop_bit 32 w) :: u16)) :: u64) i = bit w i"
    by (auto simp: word_bits not_less dest: bit_imp_le_length)
qed

lemma narrow_u32:
  assumes "unat w < 2 ^ 32"
  shows "ucast (ucast w :: u32) = (w :: u64)"
proof (rule bit_word_eqI)
  fix i
  have "i < 32" if "bit w i" using not_bit_small[OF assms] that not_less by blast
  then show "bit (ucast (ucast w :: u32) :: u64) i = bit w i" by (auto simp: word_bits dest: bit_imp_le_length)
qed

definition storable :: "InodeDesc \<Rightarrow> bool" where
  "storable d \<longleftrightarrow>
     ds_link_count d \<noteq> 0 \<and> ds_type d \<noteq> Unknown \<and> ds_perm d AND 0xFFF = ds_perm d \<and>
     unat (ds_size d) < (case ds_type d of File \<Rightarrow> 2 ^ 63 | SymLink \<Rightarrow> 4096 | _ \<Rightarrow> 2 ^ 32) \<and>
     unat (ds_sector_count d) < 2 ^ 48 \<and> ds_flags d AND FileFlags_ALL = ds_flags d \<and>
     length (ds_block d) = RAW_BLOCK_PTRS_LEN \<and>
     time_ok (ds_atime d) \<and> time_ok (ds_ctime d) \<and> time_ok (ds_mtime d) \<and> time_ok (ds_crtime d) \<and>
     (case ds_dtime d of Time t \<Rightarrow> dur_nanos t = 0 \<and> unat (dur_secs t) < 2 ^ 32 | OrphanNext _ \<Rightarrow> False)"

lemma stored_size:
  assumes "storable d"
  shows "ucast (ucast (ds_size d) :: u32) OR (if ds_type d = File then push_bit 32 (ucast (if ds_type d = File then ucast (drop_bit 32 (ds_size d)) else 0 :: u32)) else 0) = ds_size d"
    "\<not> (ds_type d = SymLink \<and> ds_size d \<ge> 4096)" "\<not> ds_size d > 0x7FFFFFFFFFFFFFFF"
proof -
  have b: "unat (ds_size d) < (case ds_type d of File \<Rightarrow> 2 ^ 63 | SymLink \<Rightarrow> 4096 | _ \<Rightarrow> 2 ^ 32)"
    using assms by (simp add: storable_def)
  then have "ds_type d \<noteq> File \<Longrightarrow> unat (ds_size d) < 2 ^ 32" by (cases "ds_type d") auto
  then have "ds_type d \<noteq> File \<Longrightarrow> ucast (ucast (ds_size d) :: u32) = ds_size d"
    using narrow_u32 by blast
  then show "ucast (ucast (ds_size d) :: u32) OR (if ds_type d = File then push_bit 32 (ucast (if ds_type d = File then ucast (drop_bit 32 (ds_size d)) else 0 :: u32)) else 0) = ds_size d"
    using join_u64[of "ds_size d"] by (cases "ds_type d = File") simp_all
  show "\<not> (ds_type d = SymLink \<and> ds_size d \<ge> 4096)" "\<not> ds_size d > 0x7FFFFFFFFFFFFFFF"
    using b by (cases "ds_type d"; simp add: word_le_nat_alt word_less_nat_alt)+
qed

lemma stored_dtime:
  assumes "storable d"
  shows "Time \<lparr> dur_secs = ucast (Dtime_to_raw (ds_dtime d)), dur_nanos = 0 \<rparr> = ds_dtime d"
proof -
  obtain t where t: "ds_dtime d = Time t" "dur_nanos t = 0" "unat (dur_secs t) < 2 ^ 32"
    using assms by (cases "ds_dtime d") (auto simp: storable_def)
  have "ucast (ucast (dur_secs t) :: u32) = dur_secs t" using t(3) by (rule narrow_u32)
  moreover have "\<not> dur_secs t > 0xFFFFFFFF" using t(3) by (simp add: word_less_nat_alt)
  ultimately show ?thesis using t(1,2) by simp
qed

lemma to_raw_inode_ok: "length root = RAW_BLOCK_PTRS_LEN \<Longrightarrow> raw_inode_ok (to_raw_inode d root)"
  by (simp add: to_raw_inode_def raw_inode_ok_def split_beta Let_def)

text \<open>Everything but the timestamps and the attribute block is read back as it was; each timestamp is read
  back as decoded, and the attribute block as absent.\<close>

abbreviation stored_time :: "Duration \<Rightarrow> Duration" where
  "stored_time t \<equiv> decode_time (fst (encode_time t)) (snd (encode_time t))"

lemma desc_stored:
  assumes "storable d"
  shows "InodeDesc_try_from (to_raw_inode d (ds_block d)) =
    Ok (d\<lparr> ds_atime := stored_time (ds_atime d), ds_ctime := stored_time (ds_ctime d), ds_mtime := stored_time (ds_mtime d),
           ds_crtime := stored_time (ds_crtime d), ds_file_acl := 0 \<rparr>)"
proof -
  define r where "r = to_raw_inode d (ds_block d)"
  have rf: "ri_mode r = InodeType_bits (ds_type d) OR ds_perm d AND 0xFFF" "ri_link_count r = ds_link_count d"
    "ri_size_lo r = ucast (ds_size d)" "ri_size_high r = (if ds_type d = File then ucast (drop_bit 32 (ds_size d)) else 0)"
    "ri_dtime r = Dtime_to_raw (ds_dtime d)" "ri_flags r = ds_flags d" "ri_block r = ds_block d" "ri_generation r = ds_generation d"
    "ri_sector_count r = ucast (ds_sector_count d)" "ri_blocks_high r = ucast (drop_bit 32 (ds_sector_count d))"
    "ri_uid r = ucast (ds_uid d)" "ri_uid_high r = ucast (drop_bit 16 (ds_uid d))" "ri_gid r = ucast (ds_gid d)"
    "ri_gid_high r = ucast (drop_bit 16 (ds_gid d))" "ri_file_acl_lo r = 0" "ri_file_acl_high r = 0"
    "ri_atime r = fst (encode_time (ds_atime d))" "ri_atime_extra r = snd (encode_time (ds_atime d))"
    "ri_ctime r = fst (encode_time (ds_ctime d))" "ri_ctime_extra r = snd (encode_time (ds_ctime d))"
    "ri_mtime r = fst (encode_time (ds_mtime d))" "ri_mtime_extra r = snd (encode_time (ds_mtime d))"
    "ri_crtime r = fst (encode_time (ds_crtime d))" "ri_crtime_extra r = snd (encode_time (ds_crtime d))"
    by (simp_all add: r_def to_raw_inode_def split_beta Let_def)
  have parts: "ds_type d \<noteq> Unknown" "ds_link_count d \<noteq> 0" "ds_perm d AND 0xFFF = ds_perm d" "unat (ds_sector_count d) < 2 ^ 48"
    "ds_flags d AND FileFlags_ALL = ds_flags d"
    using assms by (simp_all add: storable_def)
  have mode: "from_raw_mode (ri_mode r) = Ok (ds_type d)" "FilePerm_from_bits_truncate (ri_mode r) = ds_perm d"
    unfolding rf mode_round_trip[OF parts(1)] by (simp_all add: parts(3))
  have "InodeDesc_try_from r = Ok (d\<lparr> ds_atime := stored_time (ds_atime d), ds_ctime := stored_time (ds_ctime d),
      ds_mtime := stored_time (ds_mtime d), ds_crtime := stored_time (ds_crtime d), ds_file_acl := 0 \<rparr>)"
    unfolding InodeDesc_try_from_def Let_def mode sum.case rf(2-24) stored_size(1)[OF assms] join_u32 join_u48[OF parts(4)] stored_dtime[OF assms] parts(5)
    using parts(2) stored_size(2,3)[OF assms] by auto
  then show ?thesis by (simp add: r_def)
qed

section \<open>Checksummed inodes\<close>

definition inode_front :: "RawInode \<Rightarrow> bytes" where
  "inode_front r = take I_CHECKSUM_LO_OFFSET (RawInode_as_bytes r)"

definition inode_gap :: "RawInode \<Rightarrow> bytes" where
  "inode_gap r = slice (I_CHECKSUM_LO_OFFSET + 2) 4 (RawInode_as_bytes r)"

definition inode_rest :: "RawInode \<Rightarrow> bytes" where
  "inode_rest r = drop (I_CHECKSUM_HI_OFFSET + 2) (RawInode_as_bytes r)"

text \<open>The bytes around the two checksum fields do not depend on them.\<close>

lemma inode_parts_stamp:
  assumes "length (ri_block r) = RAW_BLOCK_PTRS_LEN"
  shows "inode_front (r\<lparr> ri_checksum_lo := a, ri_checksum_hi := b \<rparr>) = inode_front r"
    "inode_gap (r\<lparr> ri_checksum_lo := a, ri_checksum_hi := b \<rparr>) = inode_gap r"
    "inode_rest (r\<lparr> ri_checksum_lo := a, ri_checksum_hi := b \<rparr>) = inode_rest r"
  using assms by (simp_all add: inode_front_def inode_gap_def inode_rest_def RawInode_as_bytes_def slice_def
      I_CHECKSUM_LO_OFFSET_def I_CHECKSUM_HI_OFFSET_def RAW_BLOCK_PTRS_LEN_def)

lemma inode_checksum_256:
  assumes "raw_inode_ok r"
  shows "inode_checksum r seed RAW_INODE_SIZE =
    Ok (crc32c (InodeCsumSeed_get seed) (inode_front r @ [0, 0] @ inode_gap r @ [0, 0] @ inode_rest r))"
  using length_RawInode[OF assms]
  by (simp add: inode_checksum_def Let_def index_range_def RAW_INODE_SIZE_def inode_front_def inode_gap_def inode_rest_def
      slice_def I_CHECKSUM_LO_OFFSET_def I_CHECKSUM_HI_OFFSET_def crc32c_append crc32c_Cons)

lemma raw_inode_ok_stamp [simp]: "raw_inode_ok (r\<lparr> ri_checksum_lo := a, ri_checksum_hi := b \<rparr>) = raw_inode_ok r"
  by (simp add: raw_inode_ok_def)

lemma stamp_inode_ok:
  assumes "raw_inode_ok r"
  obtains a b where "stamp_inode_checksum r seed RAW_INODE_SIZE = Ok (r\<lparr> ri_checksum_lo := a, ri_checksum_hi := b \<rparr>)"
    "verify_inode_checksum (r\<lparr> ri_checksum_lo := a, ri_checksum_hi := b \<rparr>) seed RAW_INODE_SIZE = Ok ()"
proof -
  have len: "length (ri_block r) = RAW_BLOCK_PTRS_LEN" using assms by (simp add: raw_inode_ok_def)
  define crc where "crc = crc32c (InodeCsumSeed_get seed) (inode_front r @ [0, 0] @ inode_gap r @ [0, 0] @ inode_rest r)"
  have c: "inode_checksum r seed RAW_INODE_SIZE = Ok crc" unfolding crc_def by (rule inode_checksum_256[OF assms])
  have c': "inode_checksum (r\<lparr> ri_checksum_lo := a, ri_checksum_hi := b \<rparr>) seed RAW_INODE_SIZE = Ok crc" for a b
    using inode_checksum_256[of "r\<lparr> ri_checksum_lo := a, ri_checksum_hi := b \<rparr>" seed] assms
    by (simp add: crc_def inode_parts_stamp[OF len])
  show thesis
  proof (rule that)
    show "stamp_inode_checksum r seed RAW_INODE_SIZE =
        Ok (r\<lparr> ri_checksum_lo := ucast (crc AND 0xFFFF), ri_checksum_hi := ucast (drop_bit 16 crc AND 0xFFFF) \<rparr>)"
      unfolding stamp_inode_checksum_def c by (simp add: RAW_INODE_SIZE_def)
    show "verify_inode_checksum (r\<lparr> ri_checksum_lo := ucast (crc AND 0xFFFF), ri_checksum_hi := ucast (drop_bit 16 crc AND 0xFFFF) \<rparr>)
        seed RAW_INODE_SIZE = Ok ()"
      unfolding verify_inode_checksum_def c' by simp
  qed
qed

text \<open>An inode size above the 256 bytes of \<open>RawInode\<close> makes every checksum computation panic.\<close>

lemma wide_inode_checksum_panics:
  assumes "raw_inode_ok r" "n > RAW_INODE_SIZE"
  shows "inode_checksum r seed n = Err PANIC"
  using assms length_RawInode[OF assms(1)]
  by (simp add: inode_checksum_def Let_def index_range_def RAW_INODE_SIZE_def I_CHECKSUM_HI_OFFSET_def)

section \<open>Properties\<close>

lemma try_from_stamped [simp]: "InodeDesc_try_from (r\<lparr> ri_checksum_lo := a, ri_checksum_hi := b \<rparr>) = InodeDesc_try_from r"
  by (cases "from_raw_mode (ri_mode r)") (simp_all add: InodeDesc_try_from_def Let_def cong: if_cong)

text \<open>C16: what writing an inode and reading it back preserves.  A live descriptor with in-range fields is
  stamped and serialised to a record whose checksum verifies, and everything but the timestamps and the
  extended-attribute block \<open>file_acl\<close> is read back unchanged.  \<open>file_acl\<close> is always read back as zero, since the
  encoder leaves both halves at their default, so it is preserved exactly when the inode had no attribute block.
  A timestamp is read back unchanged exactly when its seconds are below 2^34 with bit 31 clear: the encoder
  takes the epoch bits from the unsigned seconds while the decoder extends signed seconds.\<close>

theorem inode_persisted:
  assumes "storable d"
  shows "\<exists>raw. stamp_inode_checksum (to_raw_inode d (ds_block d)) seed RAW_INODE_SIZE = Ok raw \<and>
    verify_inode_checksum (RawInode_from_bytes (RawInode_as_bytes raw)) seed RAW_INODE_SIZE = Ok () \<and>
    (\<exists>d'. InodeDesc_try_from (RawInode_from_bytes (RawInode_as_bytes raw)) = Ok d' \<and>
      d'\<lparr> ds_atime := ds_atime d, ds_ctime := ds_ctime d, ds_mtime := ds_mtime d, ds_crtime := ds_crtime d,
          ds_file_acl := ds_file_acl d \<rparr> = d \<and>
      ds_file_acl d' = 0 \<and> (ds_file_acl d' = ds_file_acl d \<longleftrightarrow> ds_file_acl d = 0) \<and>
      (ds_atime d' = ds_atime d \<longleftrightarrow> storable_time (ds_atime d)) \<and> (ds_ctime d' = ds_ctime d \<longleftrightarrow> storable_time (ds_ctime d)) \<and>
      (ds_mtime d' = ds_mtime d \<longleftrightarrow> storable_time (ds_mtime d)) \<and> (ds_crtime d' = ds_crtime d \<longleftrightarrow> storable_time (ds_crtime d)))"
proof -
  define r where "r = to_raw_inode d (ds_block d)"
  have ok: "raw_inode_ok r" using assms unfolding r_def by (intro to_raw_inode_ok) (simp add: storable_def)
  obtain a b where st: "stamp_inode_checksum r seed RAW_INODE_SIZE = Ok (r\<lparr> ri_checksum_lo := a, ri_checksum_hi := b \<rparr>)"
    "verify_inode_checksum (r\<lparr> ri_checksum_lo := a, ri_checksum_hi := b \<rparr>) seed RAW_INODE_SIZE = Ok ()"
    by (rule stamp_inode_ok[OF ok])
  have rt: "RawInode_from_bytes (RawInode_as_bytes (r\<lparr> ri_checksum_lo := a, ri_checksum_hi := b \<rparr>)) = r\<lparr> ri_checksum_lo := a, ri_checksum_hi := b \<rparr>"
    using ok by (intro RawInode_round_trip) simp
  have t: "time_ok (ds_atime d)" "time_ok (ds_ctime d)" "time_ok (ds_mtime d)" "time_ok (ds_crtime d)"
    using assms by (simp_all add: storable_def)
  show ?thesis
    using st unfolding r_def[symmetric]
    by (intro exI[of _ "r\<lparr> ri_checksum_lo := a, ri_checksum_hi := b \<rparr>"])
       (auto simp: rt desc_stored[OF assms, folded r_def] time_round_trip_iff t)
qed

definition sample_desc :: "u64 \<Rightarrow> InodeDesc" where
  "sample_desc secs =
     \<lparr> ds_type = File, ds_perm = 0x1A4, ds_uid = 1000, ds_gid = 100, ds_size = 5000,
       ds_atime = \<lparr> dur_secs = secs, dur_nanos = 7 \<rparr>, ds_ctime = \<lparr> dur_secs = 1000, dur_nanos = 0 \<rparr>,
       ds_mtime = \<lparr> dur_secs = 1000, dur_nanos = 0 \<rparr>, ds_crtime = \<lparr> dur_secs = 1000, dur_nanos = 0 \<rparr>,
       ds_dtime = Time \<lparr> dur_secs = 0, dur_nanos = 0 \<rparr>, ds_link_count = 1, ds_sector_count = 16, ds_flags = 0,
       ds_file_acl = 0, ds_generation = 3, ds_block = replicate RAW_BLOCK_PTRS_LEN 0 \<rparr>"

lemma sample_desc_storable: "storable (sample_desc secs)" "storable ((sample_desc secs)\<lparr> ds_file_acl := acl \<rparr>)"
  by (simp_all add: storable_def sample_desc_def time_ok_def NANOS_PER_SEC_def)

text \<open>An access time in 2024 survives, one in 2040 does not, and neither does an attribute block.\<close>

theorem inode_persisted_witness:
  "(\<exists>raw d'. stamp_inode_checksum (to_raw_inode (sample_desc 1704067200) (ds_block (sample_desc 1704067200))) (InodeCsumSeed 5) RAW_INODE_SIZE = Ok raw \<and>
      InodeDesc_try_from (RawInode_from_bytes (RawInode_as_bytes raw)) = Ok d' \<and> ds_atime d' = ds_atime (sample_desc 1704067200)) \<and>
   (\<exists>raw d'. stamp_inode_checksum (to_raw_inode (sample_desc 2208988800) (ds_block (sample_desc 2208988800))) (InodeCsumSeed 5) RAW_INODE_SIZE = Ok raw \<and>
      InodeDesc_try_from (RawInode_from_bytes (RawInode_as_bytes raw)) = Ok d' \<and> ds_atime d' \<noteq> ds_atime (sample_desc 2208988800)) \<and>
   (\<exists>raw d'. stamp_inode_checksum (to_raw_inode ((sample_desc 1000)\<lparr> ds_file_acl := 77 \<rparr>) (ds_block (sample_desc 1000))) (InodeCsumSeed 5) RAW_INODE_SIZE = Ok raw \<and>
      InodeDesc_try_from (RawInode_from_bytes (RawInode_as_bytes raw)) = Ok d' \<and> ds_file_acl d' = 0)"
proof (intro conjI)
  have "storable_time (ds_atime (sample_desc 1704067200))" by (simp add: sample_desc_def storable_time_def)
  then show "\<exists>raw d'. stamp_inode_checksum (to_raw_inode (sample_desc 1704067200) (ds_block (sample_desc 1704067200))) (InodeCsumSeed 5) RAW_INODE_SIZE = Ok raw \<and>
      InodeDesc_try_from (RawInode_from_bytes (RawInode_as_bytes raw)) = Ok d' \<and> ds_atime d' = ds_atime (sample_desc 1704067200)"
    using inode_persisted[OF sample_desc_storable(1), of 1704067200 "InodeCsumSeed 5"] by (elim exE conjE) (intro exI conjI, assumption, assumption, simp)
  have "\<not> storable_time (ds_atime (sample_desc 2208988800))" by (simp add: sample_desc_def storable_time_def)
  then show "\<exists>raw d'. stamp_inode_checksum (to_raw_inode (sample_desc 2208988800) (ds_block (sample_desc 2208988800))) (InodeCsumSeed 5) RAW_INODE_SIZE = Ok raw \<and>
      InodeDesc_try_from (RawInode_from_bytes (RawInode_as_bytes raw)) = Ok d' \<and> ds_atime d' \<noteq> ds_atime (sample_desc 2208988800)"
    using inode_persisted[OF sample_desc_storable(1), of 2208988800 "InodeCsumSeed 5"] by (elim exE conjE) (intro exI conjI, assumption, assumption, simp)
  have block: "ds_block ((sample_desc 1000)\<lparr> ds_file_acl := 77 \<rparr>) = ds_block (sample_desc 1000)" by simp
  show "\<exists>raw d'. stamp_inode_checksum (to_raw_inode ((sample_desc 1000)\<lparr> ds_file_acl := 77 \<rparr>) (ds_block (sample_desc 1000))) (InodeCsumSeed 5) RAW_INODE_SIZE = Ok raw \<and>
      InodeDesc_try_from (RawInode_from_bytes (RawInode_as_bytes raw)) = Ok d' \<and> ds_file_acl d' = 0"
    using inode_persisted[OF sample_desc_storable(2), of 77 1000 "InodeCsumSeed 5", unfolded block] by (elim exE conjE) (intro exI conjI)
qed

end
