(* ===== verification/Ext4_Fs.thy ===== *)
theory Ext4_Fs
  imports Raw_Inode
begin

text \<open>
  The file-system instance of \<open>fs.rs\<close>: the superblock, the block groups and the orphan chain,
  with the block and inode allocators, the orphan list, the inode writeback, the metadata sync,
  the shutdown and the credit estimates that work on them.  The journal, the device and the
  running operation's handle are those of \<open>MetaIo\<close>; the cache of live inode objects is not part
  of the state.
\<close>

section \<open>The orphan chain\<close>

definition position :: "'a list \<Rightarrow> 'a \<Rightarrow> nat option" where
  "position xs x = (if x \<in> set xs then Some (length (takeWhile (\<lambda>y. y \<noteq> x) xs)) else None)"

type_synonym OrphanChain = "u32 list"

datatype OrphanSplice = Head "u32 option" | Middle u32 "u32 option"

definition chain_get :: "OrphanChain \<Rightarrow> nat \<Rightarrow> u32 option" where
  "chain_get chain i = (if i < length chain then Some (chain ! i) else None)"

definition successor_of :: "OrphanChain \<Rightarrow> u32 \<Rightarrow> u32 option option" where
  "successor_of chain ino = map_option (\<lambda>idx. chain_get chain (idx + 1)) (position chain ino)"

definition push_head :: "OrphanChain \<Rightarrow> u32 \<Rightarrow> OrphanChain" where
  "push_head chain ino = ino # chain"

definition splice_for :: "OrphanChain \<Rightarrow> u32 \<Rightarrow> OrphanSplice option" where
  "splice_for chain ino =
     map_option (\<lambda>idx. if idx = 0 then Head (chain_get chain (idx + 1))
                       else Middle (chain ! (idx - 1)) (chain_get chain (idx + 1)))
       (position chain ino)"

definition commit_remove :: "OrphanChain \<Rightarrow> u32 \<Rightarrow> OrphanChain" where
  "commit_remove chain ino =
     (case position chain ino of None \<Rightarrow> chain | Some idx \<Rightarrow> take idx chain @ drop (idx + 1) chain)"

section \<open>The instance\<close>

record Ext4 =
  super_block :: "SuperBlock Dirty"
  block_groups :: "BlockGroup list"
  fs_inodes_per_group :: u32
  fs_total_inodes :: u32
  next_generation :: u32
  fs_shutdown :: bool
  s_orphan :: OrphanChain
  fs_io :: MetaIo

abbreviation sb_of :: "Ext4 \<Rightarrow> SuperBlock" where
  "sb_of fs \<equiv> dirty_val (super_block fs)"

text \<open>The three places an operation changes: the superblock through its write guard, a captured
  superblock, one block group.\<close>

definition sb_step :: "Ext4 \<Rightarrow> (SuperBlock \<Rightarrow> 'a result \<times> SuperBlock) \<Rightarrow> 'a result \<times> Ext4" where
  "sb_step fs f = (let (r, sb) = f (sb_of fs) in (r, fs\<lparr> super_block := deref_mut (\<lambda>_. sb) (super_block fs) \<rparr>))"

definition sb_capture :: "Ext4 \<Rightarrow> u32 option \<Rightarrow> unit result \<times> Ext4" where
  "sb_capture fs orphan = (let (r, io) = SuperBlock_journal_capture (sb_of fs) orphan (fs_io fs) in (r, fs\<lparr> fs_io := io \<rparr>))"

definition at_group :: "Ext4 \<Rightarrow> nat \<Rightarrow> (BlockGroup \<Rightarrow> MetaIo \<Rightarrow> 'a result \<times> BlockGroup \<times> MetaIo) \<Rightarrow> 'a result \<times> Ext4" where
  "at_group fs idx f =
     (if idx < length (block_groups fs) then
        let (r, g, io) = f (block_groups fs ! idx) (fs_io fs) in
        (r, fs\<lparr> block_groups := (block_groups fs)[idx := g], fs_io := io \<rparr>)
      else (Err PANIC, fs))"

section \<open>Loading\<close>

definition SUPERBLOCK_READ :: "device \<Rightarrow> bytes result" where
  "SUPERBLOCK_READ d = read_val d SUPER_BLOCK_OFFSET SUPER_BLOCK_SIZE"

fun load_groups :: "device \<Rightarrow> SuperBlock \<Rightarrow> nat \<Rightarrow> nat list \<Rightarrow> BlockGroup list result" where
  "load_groups d sb base [] = Ok []"
| "load_groups d sb base (i # is) =
     and_then (BlockGroup_load d i sb base) (\<lambda>g. and_then (load_groups d sb base is) (\<lambda>gs. Ok (g # gs)))"

definition load_block_groups :: "device \<Rightarrow> SuperBlock \<Rightarrow> BlockGroup list result" where
  "load_block_groups d sb =
     load_groups d sb ((unat (sb_first_data_block sb) + 1) * sb_block_size sb) [0..<unat (sb_nr_block_groups sb)]"

text \<open>The groups reloaded before a failure keep their new content.\<close>

fun reload_groups :: "nat list \<Rightarrow> Ext4 \<Rightarrow> unit result \<times> Ext4" where
  "reload_groups [] fs = (Ok (), fs)"
| "reload_groups (i # is) fs =
     (case reload_metadata (block_groups fs ! i) (io_dev (fs_io fs)) of
        Inl e \<Rightarrow> (Inl e, fs)
      | Inr g \<Rightarrow> reload_groups is (fs\<lparr> block_groups := (block_groups fs)[i := g] \<rparr>))"

definition reload_metadata_after_replay :: "Ext4 \<Rightarrow> unit result \<times> Ext4" where
  "reload_metadata_after_replay fs =
     (case SUPERBLOCK_READ (io_dev (fs_io fs)) of
        Inl _ \<Rightarrow> (Err EIO, fs)
      | Inr raw \<Rightarrow>
          (case SuperBlock_try_from raw of
             Inl e \<Rightarrow> (Inl e, fs)
           | Inr sb \<Rightarrow> st_bind (reload_groups [0..<length (block_groups fs)] fs) (\<lambda>_ fs.
               (Ok (), fs\<lparr> super_block := Dirty_new sb \<rparr>))))"

section \<open>Credit estimates\<close>

definition SUPERBLOCK_CREDITS :: nat where "SUPERBLOCK_CREDITS = 1"
definition INODE_DESC_CREDITS :: nat where "INODE_DESC_CREDITS = 1"
definition DIR_DEPTH_CEIL :: nat where "DIR_DEPTH_CEIL = 2"
definition FSYNC_CREDITS :: nat where "FSYNC_CREDITS = 4"
definition SETATTR_CREDITS :: nat where "SETATTR_CREDITS = INODE_DESC_CREDITS + 1"

definition div_ceil_nat :: "nat \<Rightarrow> nat \<Rightarrow> nat" where
  "div_ceil_nat a b = a div b + (if a mod b \<noteq> 0 then 1 else 0)"

definition nr_gdt_blocks :: "Ext4 \<Rightarrow> nat" where
  "nr_gdt_blocks fs =
     (let descriptors_per_block = max (sb_block_size (sb_of fs) div unat (sb_desc_size (sb_of fs))) 1
      in div_ceil_nat (unat (sb_nr_block_groups (sb_of fs))) descriptors_per_block)"

definition nr_groups :: "Ext4 \<Rightarrow> nat" where
  "nr_groups fs = unat (sb_nr_block_groups (sb_of fs))"

definition map_credits :: "Ext4 \<Rightarrow> nat \<Rightarrow> nat \<Rightarrow> nat" where
  "map_credits fs pextents depth =
     (let idx = (if pextents \<le> 1 then 2 * (depth + 1) else 3 * (depth + 1));
          touched = idx + pextents;
          bitmaps = min touched (nr_groups fs);
          gdt = min touched (nr_gdt_blocks fs)
      in idx + bitmaps + gdt)"

definition single_block_map_credits :: "Ext4 \<Rightarrow> nat \<Rightarrow> nat" where
  "single_block_map_credits fs depth = map_credits fs 1 depth"

definition create_credits :: "Ext4 \<Rightarrow> nat" where
  "create_credits fs =
     (let new_inode = 1 + INODE_DESC_CREDITS + 1 + SUPERBLOCK_CREDITS;
          parent = single_block_map_credits fs DIR_DEPTH_CEIL + INODE_DESC_CREDITS
      in new_inode + parent)"

definition unlink_credits :: "Ext4 \<Rightarrow> nat" where
  "unlink_credits fs = 1 + INODE_DESC_CREDITS + INODE_DESC_CREDITS + SUPERBLOCK_CREDITS"

definition link_credits :: "Ext4 \<Rightarrow> nat" where
  "link_credits fs = single_block_map_credits fs DIR_DEPTH_CEIL + INODE_DESC_CREDITS + INODE_DESC_CREDITS"

definition rename_credits :: "Ext4 \<Rightarrow> nat" where
  "rename_credits fs =
     (let old_dir = 1 + INODE_DESC_CREDITS;
          new_dir = single_block_map_credits fs DIR_DEPTH_CEIL + INODE_DESC_CREDITS;
          moved = INODE_DESC_CREDITS;
          displaced = INODE_DESC_CREDITS + SUPERBLOCK_CREDITS
      in old_dir + new_dir + moved + displaced)"

definition write_credits :: "Ext4 \<Rightarrow> nat \<Rightarrow> nat" where
  "write_credits fs depth = single_block_map_credits fs depth + SUPERBLOCK_CREDITS + INODE_DESC_CREDITS"

definition reserialize_credits :: "Ext4 \<Rightarrow> nat \<Rightarrow> nat" where
  "reserialize_credits fs external_nodes =
     (let touched = external_nodes + 1;
          bitmaps = min touched (nr_groups fs);
          gdt = min touched (nr_gdt_blocks fs)
      in external_nodes + bitmaps + gdt + SUPERBLOCK_CREDITS)"

definition chunk_insert_credits :: "Ext4 \<Rightarrow> nat \<Rightarrow> nat" where
  "chunk_insert_credits fs external_nodes = reserialize_credits fs external_nodes + INODE_DESC_CREDITS"

definition truncate_credits :: "Ext4 \<Rightarrow> nat \<Rightarrow> nat" where
  "truncate_credits fs depth = single_block_map_credits fs depth + SUPERBLOCK_CREDITS + INODE_DESC_CREDITS"

definition extent_free_credits :: "Ext4 \<Rightarrow> nat" where
  "extent_free_credits fs = 1 + 1 + 1"

definition truncate_chunk_credits :: "Ext4 \<Rightarrow> nat \<Rightarrow> nat" where
  "truncate_chunk_credits fs external_nodes = reserialize_credits fs external_nodes + INODE_DESC_CREDITS"

definition whole_truncate_credit_bound :: "Ext4 \<Rightarrow> nat \<Rightarrow> nat \<Rightarrow> nat \<Rightarrow> nat" where
  "whole_truncate_credit_bound fs external_nodes freed_extents per_revoke_block =
     (let bitmaps = min freed_extents (nr_groups fs);
          gdt = min freed_extents (nr_gdt_blocks fs);
          revoke_blocks = div_ceil_nat external_nodes (max per_revoke_block 1)
      in reserialize_credits fs external_nodes + bitmaps + gdt + revoke_blocks + INODE_DESC_CREDITS)"

definition reclaim_credits :: "Ext4 \<Rightarrow> nat \<Rightarrow> nat" where
  "reclaim_credits fs depth =
     (let free_blks = single_block_map_credits fs depth;
          free_ino = 1 + INODE_DESC_CREDITS + 1;
          orphan = INODE_DESC_CREDITS
      in free_blks + free_ino + orphan + SUPERBLOCK_CREDITS)"

section \<open>Opening an operation\<close>

definition ensure_not_shutdown :: "Ext4 \<Rightarrow> unit result" where
  "ensure_not_shutdown fs = (if fs_shutdown fs then Err EIO else Ok ())"

text \<open>The handle joins the operation's \<open>MetaIo\<close>; \<open>None\<close> is an operation still waiting for room.\<close>

definition begin_op ::
    "nat \<Rightarrow> nat \<Rightarrow> (Journal \<Rightarrow> Journal) list \<Rightarrow> nat option \<Rightarrow> Ext4 \<Rightarrow> nat \<Rightarrow> (OpHandle result \<times> Ext4) option" where
  "begin_op now freq sched me fs n =
     (case ensure_not_shutdown fs of
        Inl e \<Rightarrow> Some (Inl e, fs)
      | Inr _ \<Rightarrow>
          (case io_journal (fs_io fs) of
             None \<Rightarrow> Some (Ok OpHandle_none, fs)
           | Some j \<Rightarrow>
               if aborted j then Some (Err EROFS, fs)
               else (case OpHandle_start now freq sched me j n of
                       None \<Rightarrow> None
                     | Some (Inl e, j') \<Rightarrow> Some (Inl e, fs\<lparr> fs_io := (fs_io fs)\<lparr> io_journal := Some j' \<rparr> \<rparr>)
                     | Some (Inr op, j') \<Rightarrow>
                         Some (Ok op, fs\<lparr> fs_io := (fs_io fs)\<lparr> io_journal := Some j', io_handle := op_handle op \<rparr> \<rparr>))))"

definition end_op :: "Ext4 \<Rightarrow> OpHandle \<Rightarrow> Ext4" where
  "end_op fs op =
     (case io_journal (fs_io fs) of
        None \<Rightarrow> fs
      | Some j \<Rightarrow> fs\<lparr> fs_io := (fs_io fs)\<lparr> io_journal := Some (OpHandle_drop j (op\<lparr> op_handle := io_handle (fs_io fs) \<rparr>)),
                                           io_handle := None \<rparr> \<rparr>)"

text \<open>\<open>commit_and_wait_running\<close> to its end, against a schedule of what the commit thread does.\<close>

definition commit_and_wait :: "(Journal \<Rightarrow> Journal) list \<Rightarrow> Journal \<Rightarrow> (unit result \<times> Journal) option" where
  "commit_and_wait sched j =
     (case (sync_durability_target j, commit_and_wait_running j) of
        (_, Some r, j1) \<Rightarrow> Some (r, j1)
      | (Inr (Some target), None, j1) \<Rightarrow> map_option (\<lambda>(_, r, j2). (r, j2)) (await (\<lambda>x. poll_log_commit x target) sched j1)
      | (_, None, j1) \<Rightarrow> None)"

section \<open>Block allocation\<close>

fun alloc_ring :: "u32 \<Rightarrow> u64 \<Rightarrow> (Ext4Bid \<times> u32) list \<Rightarrow> nat list \<Rightarrow> bool \<Rightarrow> Ext4 \<Rightarrow> (Ext4Bid \<times> Ext4Bid) result \<times> Ext4" where
  "alloc_ring cnt sb_free pins [] pinned_blocked fs =
     (if pinned_blocked then
        (Err ENOSPC, fs\<lparr> fs_io := (fs_io fs)\<lparr> io_journal := map_option request_commit_of_running (io_journal (fs_io fs)) \<rparr> \<rparr>)
      else (Err ENOSPC, fs))"
| "alloc_ring cnt sb_free pins (gi # gis) pinned_blocked fs =
     st_bind (at_group fs gi (\<lambda>g io. BlockGroup_alloc_blocks g io cnt sb_free pins)) (\<lambda>a fs.
       case a of
         Allocated s e \<Rightarrow>
           st_bind (sb_step fs (\<lambda>sb. dec_free_blocks sb (e - s))) (\<lambda>_ fs.
           st_bind (sb_capture fs (sb_last_orphan (sb_of fs))) (\<lambda>_ fs. (Ok (s, e), fs)))
       | NoFit pinned_in_group \<Rightarrow> alloc_ring cnt sb_free pins gis (pinned_blocked \<or> pinned_in_group) fs)"

definition goal_group_of :: "SuperBlock \<Rightarrow> Ext4Bid \<Rightarrow> nat" where
  "goal_group_of sb goal =
     min (if goal > sb_first_data_block sb then unat ((goal - sb_first_data_block sb) div ucast (sb_nr_blocks_per_group sb)) else 0)
       (unat (sb_nr_block_groups sb) - 1)"

definition pinned_of :: "Ext4 \<Rightarrow> (Ext4Bid \<times> u32) list" where
  "pinned_of fs = (case io_journal (fs_io fs) of Some j \<Rightarrow> pinned_frees_snapshot j | None \<Rightarrow> [])"

definition alloc_blocks :: "Ext4 \<Rightarrow> u32 \<Rightarrow> Ext4Bid \<Rightarrow> (Ext4Bid \<times> Ext4Bid) result \<times> Ext4" where
  "alloc_blocks fs cnt goal =
     (if cnt = 0 then (Err EINVAL, fs)
      else
        let sb = sb_of fs; n = unat (sb_nr_block_groups sb) in
        if sb_free_blocks_count sb = 0 then (Err ENOSPC, fs)
        else alloc_ring cnt (sb_free_blocks_count sb) (pinned_of fs)
               (map (\<lambda>off. (goal_group_of sb goal + off) mod n) [0..<n]) False fs)"

definition ALLOC_ENOSPC_RETRIES :: nat where "ALLOC_ENOSPC_RETRIES = 3"

definition should_retry_alloc :: "Ext4 \<Rightarrow> bool" where
  "should_retry_alloc fs = (case io_journal (fs_io fs) of Some j \<Rightarrow> has_pinned_frees j | None \<Rightarrow> False)"

text \<open>One schedule per retry; the loop runs at most three of them.\<close>

fun retry_loop ::
    "(Ext4 \<Rightarrow> 'a result \<times> Ext4) \<Rightarrow> (nat \<Rightarrow> (Journal \<Rightarrow> Journal) list) \<Rightarrow> nat \<Rightarrow> Ext4 \<Rightarrow> ('a result \<times> Ext4) option" where
  "retry_loop attempt scheds left fs =
     (case attempt fs of
        (Inl e, fs1) \<Rightarrow>
          if e = ENOSPC \<and> 0 < left \<and> should_retry_alloc fs1 then
            (case io_journal (fs_io fs1) of
               None \<Rightarrow> Some (Err PANIC, fs1)
             | Some j \<Rightarrow>
                 (case commit_and_wait (scheds left) j of
                    None \<Rightarrow> None
                  | Some (Inl e, j') \<Rightarrow> Some (Inl e, fs1\<lparr> fs_io := (fs_io fs1)\<lparr> io_journal := Some j' \<rparr> \<rparr>)
                  | Some (Inr _, j') \<Rightarrow> retry_loop attempt scheds (left - 1) (fs1\<lparr> fs_io := (fs_io fs1)\<lparr> io_journal := Some j' \<rparr> \<rparr>)))
          else Some (Inl e, fs1)
      | (Inr v, fs1) \<Rightarrow> Some (Ok v, fs1))"

declare retry_loop.simps [simp del]

definition retry_on_pinned_enospc ::
    "(nat \<Rightarrow> (Journal \<Rightarrow> Journal) list) \<Rightarrow> (Ext4 \<Rightarrow> 'a result \<times> Ext4) \<Rightarrow> Ext4 \<Rightarrow> ('a result \<times> Ext4) option" where
  "retry_on_pinned_enospc scheds attempt fs = retry_loop attempt scheds ALLOC_ENOSPC_RETRIES fs"

section \<open>Block frees\<close>

definition abort_on_error :: "'a result \<times> Ext4 \<Rightarrow> 'a result \<times> Ext4" where
  "abort_on_error m = (case m of
       (Inl e, fs) \<Rightarrow> (Inl e, fs\<lparr> fs_io := abort_journal_on_fs_error (fs_io fs) \<rparr>)
     | (Inr v, fs) \<Rightarrow> (Inr v, fs))"

text \<open>The closure of the loop body, after the discharge: clear the bits, pin the run, count.\<close>

definition free_run_body :: "nat \<Rightarrow> Ext4Bid \<Rightarrow> u32 \<Rightarrow> u32 \<Rightarrow> Ext4 \<Rightarrow> unit result \<times> Ext4" where
  "free_run_body gi cur start_bit n fs =
     st_bind (at_group fs gi (\<lambda>g io. BlockGroup_free_blocks g io start_bit (start_bit + n))) (\<lambda>freed fs.
     st_bind (let (r, io) = io_pin_freed_run (fs_io fs) cur n in (r, fs\<lparr> fs_io := io \<rparr>)) (\<lambda>_ fs.
     if freed > 0 then
       st_bind (sb_step fs (\<lambda>sb. inc_free_blocks sb (ucast freed))) (\<lambda>_ fs.
       sb_capture fs (sb_last_orphan (sb_of fs)))
     else (Ok (), fs)))"

text \<open>One round of the loop, returning the blocks it freed: the revoke duty is discharged under a handle
  right before the bitmap clear, and any later error aborts the journal.\<close>

definition free_one_run :: "bool \<Rightarrow> Ext4Bid \<Rightarrow> u32 \<Rightarrow> Ext4 \<Rightarrow> u32 result \<times> Ext4" where
  "free_one_run duty cur left fs =
     (let sb = sb_of fs;
          gi = unat ((cur - sb_first_data_block sb) div ucast (sb_nr_blocks_per_group sb)) in
      if gi \<ge> length (block_groups fs) then (Err PANIC, fs)
      else
        let g = block_groups fs ! gi;
            gsize = ucast (last_block g - first_block g + 1) :: u32;
            start_bit = ucast (cur - first_block g) :: u32;
            n = min left (gsize - start_bit)
        in st_bind (if duty then (let (r, io) = io_discharge (fs_io fs) cur n in (r, fs\<lparr> fs_io := io \<rparr>)) else (Ok (), fs)) (\<lambda>_ fs.
           st_bind (abort_on_error (free_run_body gi cur start_bit n fs)) (\<lambda>_ fs. (Ok n, fs))))"

partial_function (option) free_runs :: "bool \<Rightarrow> Ext4Bid \<Rightarrow> u32 \<Rightarrow> Ext4 \<Rightarrow> (unit result \<times> Ext4) option" where
  "free_runs duty cur left fs =
     (if left = 0 then Some (Ok (), fs)
      else case free_one_run duty cur left fs of
             (Inl e, fs') \<Rightarrow> Some (Inl e, fs')
           | (Inr n, fs') \<Rightarrow> free_runs duty (cur + ucast n) (left - n) fs')"

definition free_blocks :: "Ext4 \<Rightarrow> bool \<Rightarrow> Ext4Bid \<Rightarrow> u32 \<Rightarrow> (unit result \<times> Ext4) option" where
  "free_blocks fs duty start cnt = free_runs duty start cnt fs"

section \<open>Inode allocation\<close>

definition ROOT_INO :: u32 where "ROOT_INO = 2"

definition find_group :: "Ext4 \<Rightarrow> u32 \<Rightarrow> nat result" where
  "find_group fs ino =
     (if ino = 0 then Err ENOENT
      else if ino > fs_total_inodes fs then Err ENOENT
      else let gi = unat ((ino - 1) div fs_inodes_per_group fs) in
           if gi < length (block_groups fs) then Ok gi else Err ENOENT)"

fun alloc_ino_ring :: "InodeType \<Rightarrow> nat list \<Rightarrow> Ext4 \<Rightarrow> u32 result \<times> Ext4" where
  "alloc_ino_ring type [] fs = (Err ENOSPC, fs)"
| "alloc_ino_ring type (gi # gis) fs =
     st_bind (at_group fs gi (\<lambda>g io. BlockGroup_alloc_ino g io type)) (\<lambda>found fs.
       case found of
         None \<Rightarrow> alloc_ino_ring type gis fs
       | Some local_idx \<Rightarrow>
           let ino64 = word_of_nat gi * ucast (sb_nr_inodes_per_group (sb_of fs)) + ucast local_idx + 1 :: u64;
               ino = ucast ino64 :: u32 in
           if ino64 \<le> 0xFFFFFFFF \<and> ino \<ge> sb_first_ino (sb_of fs) \<and> ino \<le> sb_inodes_count (sb_of fs) then
             st_bind (sb_step fs dec_free_inodes) (\<lambda>_ fs.
             st_bind (sb_capture fs (sb_last_orphan (sb_of fs))) (\<lambda>_ fs. (Ok ino, fs)))
           else (Err EIO, snd (at_group fs gi (\<lambda>g io. BlockGroup_free_inode g io local_idx type))))"

definition alloc_ino :: "Ext4 \<Rightarrow> u32 \<Rightarrow> InodeType \<Rightarrow> u32 result \<times> Ext4" where
  "alloc_ino fs parent_ino type =
     (if type = Unknown then (Err EINVAL, fs)
      else
        let sb = sb_of fs; n = unat (sb_nr_block_groups sb) in
        if parent_ino < ROOT_INO \<or> parent_ino > sb_inodes_count sb then (Err EIO, fs)
        else if sb_free_inodes_count sb = 0 then (Err ENOSPC, fs)
        else
          let parent_group = unat ((parent_ino - 1) div sb_nr_inodes_per_group sb)
          in alloc_ino_ring type (map (\<lambda>off. (parent_group + off) mod n) [0..<n]) fs)"

definition free_inode :: "Ext4 \<Rightarrow> u32 \<Rightarrow> InodeType \<Rightarrow> unit result \<times> Ext4" where
  "free_inode fs ino type =
     (case find_group fs ino of
        Inl e \<Rightarrow> (Inl e, fs)
      | Inr gi \<Rightarrow>
          let local_idx = (ino - 1) mod fs_inodes_per_group fs in
          st_bind (at_group fs gi (\<lambda>g io. BlockGroup_free_inode g io local_idx type)) (\<lambda>was_allocated fs.
          if was_allocated then
            st_bind (sb_step fs inc_free_inodes) (\<lambda>_ fs. sb_capture fs (sb_last_orphan (sb_of fs)))
          else (Ok (), fs)))"

definition is_inode_allocated :: "Ext4 \<Rightarrow> u32 \<Rightarrow> bool" where
  "is_inode_allocated fs ino =
     (case find_group fs ino of Inl _ \<Rightarrow> False | Inr gi \<Rightarrow> BlockGroup_is_inode_allocated (block_groups fs ! gi) ino)"

section \<open>Inode slots\<close>

record InodeSlot =
  slot_bid :: Ext4Bid
  slot_off :: nat

definition inode_slot :: "Ext4 \<Rightarrow> u32 \<Rightarrow> InodeSlot result" where
  "inode_slot fs ino =
     (if ino = 0 then Err ENOENT
      else
        let gi = unat ((ino - 1) div fs_inodes_per_group fs);
            idx = (ino - 1) mod fs_inodes_per_group fs in
        if gi < length (block_groups fs) then
          let byte = gd_inode_table_bid (dirty_val (bg_desc (block_groups fs ! gi))) * word_of_nat (sb_block_size (sb_of fs)) +
                     ucast idx * word_of_nat (sb_inode_size (sb_of fs))
          in Ok \<lparr> slot_bid = byte div word_of_nat BLOCK_SIZE, slot_off = unat (byte mod word_of_nat BLOCK_SIZE) \<rparr>
        else Err ENOENT)"

definition device_offset :: "InodeSlot \<Rightarrow> nat" where
  "device_offset slot = unat (slot_bid slot) * BLOCK_SIZE + slot_off slot"

definition slot_read_raw :: "InodeSlot \<Rightarrow> device \<Rightarrow> RawInode result" where
  "slot_read_raw slot d = (case read_val d (device_offset slot) RAW_INODE_SIZE of
      Inl _ \<Rightarrow> Err EIO | Inr bs \<Rightarrow> Ok (RawInode_from_bytes bs))"

definition slot_journal_write :: "InodeSlot \<Rightarrow> MetaIo \<Rightarrow> RawInode \<Rightarrow> unit result \<times> MetaIo" where
  "slot_journal_write slot io raw = io_update io (slot_bid slot) (splice (slot_off slot) (RawInode_as_bytes raw))"

text \<open>The checksum of a volume that has them: \<open>None\<close> when the feature is off.\<close>

definition inode_csum :: "SuperBlock \<Rightarrow> (FsCsumSeed \<times> nat) option" where
  "inode_csum sb = (if has_metadata_csum sb then Some (metadata_csum_seed sb, sb_inode_size sb) else None)"

definition stamped :: "(FsCsumSeed \<times> nat) option \<Rightarrow> u32 \<Rightarrow> RawInode \<Rightarrow> RawInode result" where
  "stamped csum ino raw =
     (case csum of
        None \<Rightarrow> Ok raw
      | Some (fs_seed, inode_size) \<Rightarrow> stamp_inode_checksum raw (derive_inode fs_seed ino (ri_generation raw)) inode_size)"

definition DTIME_OFFSET :: nat where "DTIME_OFFSET = 20"

text \<open>The patch closure; its stamp panics exactly when the configured inode size exceeds \<open>RawInode\<close>,
  which does not depend on the bytes.\<close>

definition patch_dtime :: "InodeSlot \<Rightarrow> u32 \<Rightarrow> (FsCsumSeed \<times> nat) option \<Rightarrow> u32 \<Rightarrow> bytes \<Rightarrow> bytes" where
  "patch_dtime slot ino csum nxt buf =
     (let buf1 = splice (slot_off slot + DTIME_OFFSET) (le32 nxt) buf in
      case csum of
        None \<Rightarrow> buf1
      | Some _ \<Rightarrow>
          (case stamped csum ino (RawInode_from_bytes (slice (slot_off slot) RAW_INODE_SIZE buf1)) of
             Inl _ \<Rightarrow> buf1
           | Inr raw \<Rightarrow> splice (slot_off slot) (RawInode_as_bytes raw) buf1))"

definition slot_journal_patch_dtime :: "InodeSlot \<Rightarrow> MetaIo \<Rightarrow> u32 \<Rightarrow> (FsCsumSeed \<times> nat) option \<Rightarrow> u32 \<Rightarrow> unit result \<times> MetaIo" where
  "slot_journal_patch_dtime slot io ino csum nxt =
     (if io_handle io \<noteq> None \<and> (case csum of Some (_, n) \<Rightarrow> n > RAW_INODE_SIZE | None \<Rightarrow> False) then (Err PANIC, io)
      else io_update io (slot_bid slot) (patch_dtime slot ino csum nxt))"

section \<open>The orphan list\<close>

definition patch_orphan_next_on_disk :: "Ext4 \<Rightarrow> u32 \<Rightarrow> u32 option \<Rightarrow> unit result \<times> Ext4" where
  "patch_orphan_next_on_disk fs ino nxt =
     (case inode_slot fs ino of
        Inl e \<Rightarrow> (Inl e, fs)
      | Inr slot \<Rightarrow>
          let (r, io) = slot_journal_patch_dtime slot (fs_io fs) ino (inode_csum (sb_of fs)) (case nxt of Some i \<Rightarrow> i | None \<Rightarrow> 0)
          in (r, fs\<lparr> fs_io := io \<rparr>))"

text \<open>The returned option is the \<open>OrphanLink\<close> with the previous head.\<close>

definition orphan_add :: "Ext4 \<Rightarrow> u32 \<Rightarrow> u32 option result \<times> Ext4" where
  "orphan_add fs ino =
     (if io_handle (fs_io fs) = None then (Ok None, fs)
      else case successor_of (s_orphan fs) ino of
             Some nxt \<Rightarrow> (Ok nxt, fs)
           | None \<Rightarrow>
               let old_head = sb_last_orphan (sb_of fs) in
               st_bind (sb_capture fs (Some ino)) (\<lambda>_ fs.
               (Ok old_head, fs\<lparr> super_block := deref_mut (\<lambda>sb. set_last_orphan sb (Some ino)) (super_block fs),
                                 s_orphan := push_head (s_orphan fs) ino \<rparr>)))"

definition orphan_add_if_absent :: "Ext4 \<Rightarrow> u32 \<Rightarrow> unit result \<times> Ext4" where
  "orphan_add_if_absent fs ino =
     (if io_handle (fs_io fs) = None then (Ok (), fs)
      else if successor_of (s_orphan fs) ino \<noteq> None then (Ok (), fs)
      else st_bind (orphan_add fs ino) (\<lambda>_ fs. (Ok (), fs)))"

definition orphan_del :: "Ext4 \<Rightarrow> u32 \<Rightarrow> unit result \<times> Ext4" where
  "orphan_del fs ino =
     (case splice_for (s_orphan fs) ino of
        None \<Rightarrow> (Ok (), fs)
      | Some spl \<Rightarrow>
          st_bind (case spl of
              Head successor \<Rightarrow>
                st_bind (sb_capture fs successor) (\<lambda>_ fs.
                (Ok (), fs\<lparr> super_block := deref_mut (\<lambda>sb. set_last_orphan sb successor) (super_block fs) \<rparr>))
            | Middle predecessor successor \<Rightarrow> patch_orphan_next_on_disk fs predecessor successor)
          (\<lambda>_ fs. (Ok (), fs\<lparr> s_orphan := commit_remove (s_orphan fs) ino \<rparr>)))"

definition read_raw_inode :: "Ext4 \<Rightarrow> u32 \<Rightarrow> RawInode result" where
  "read_raw_inode fs ino = and_then (inode_slot fs ino) (\<lambda>slot. slot_read_raw slot (io_dev (fs_io fs)))"

record OrphanScan =
  scan_chain :: "u32 list"
  to_free :: "u32 list"
  to_retruncate :: "u32 list"
  suspect :: bool

text \<open>The walk stops at the first revisit, so its length is bounded by the number of inodes.\<close>

fun walk_chain :: "nat \<Rightarrow> Ext4 \<Rightarrow> OrphanScan \<Rightarrow> u32 option \<Rightarrow> OrphanScan option" where
  "walk_chain fuel fs scan None = Some scan"
| "walk_chain 0 fs scan (Some cur) = None"
| "walk_chain (Suc fuel) fs scan (Some cur) =
     (if \<not> (cur \<ge> sb_first_ino (sb_of fs) \<and> cur \<le> sb_inodes_count (sb_of fs)) \<or> cur \<in> set (scan_chain scan) \<or>
         \<not> is_inode_allocated fs cur
      then Some (scan\<lparr> suspect := True \<rparr>)
      else case read_raw_inode fs cur of
             Inl _ \<Rightarrow> Some (scan\<lparr> suspect := True \<rparr>)
           | Inr raw \<Rightarrow>
               let scan1 = scan\<lparr> scan_chain := scan_chain scan @ [cur] \<rparr>;
                   scan2 = (if ri_link_count raw = 0 then scan1\<lparr> to_free := to_free scan1 @ [cur] \<rparr>
                            else scan1\<lparr> to_retruncate := to_retruncate scan1 @ [cur] \<rparr>)
               in walk_chain fuel fs scan2 (if ri_dtime raw \<noteq> 0 then Some (ri_dtime raw) else None))"

definition walk_orphan_chain :: "Ext4 \<Rightarrow> OrphanScan option" where
  "walk_orphan_chain fs =
     walk_chain (unat (sb_inodes_count (sb_of fs)) + 1) fs
       \<lparr> scan_chain = [], to_free = [], to_retruncate = [], suspect = False \<rparr> (sb_last_orphan (sb_of fs))"

definition clear_orphan_head :: "nat \<Rightarrow> nat \<Rightarrow> (Journal \<Rightarrow> Journal) list \<Rightarrow> nat option \<Rightarrow> Ext4 \<Rightarrow> Ext4 option" where
  "clear_orphan_head now freq sched me fs =
     (case begin_op now freq sched me fs FSYNC_CREDITS of
        None \<Rightarrow> None
      | Some (Inl _, fs1) \<Rightarrow> Some fs1
      | Some (Inr op, fs1) \<Rightarrow>
          (case sb_capture fs1 None of
             (Inl _, fs2) \<Rightarrow> Some (end_op fs2 op)
           | (Inr _, fs2) \<Rightarrow>
               Some (end_op (fs2\<lparr> super_block := deref_mut (\<lambda>sb. set_last_orphan sb None) (super_block fs2), s_orphan := [] \<rparr>) op)))"

section \<open>Inode writeback\<close>

definition rmw_raw_inode :: "InodeDesc \<Rightarrow> u32 list \<Rightarrow> RawInode \<Rightarrow> RawInode" where
  "rmw_raw_inode desc root raw =
     (let (mtime_secs, mtime_extra) = encode_time (ds_mtime desc);
          (ctime_secs, ctime_extra) = encode_time (ds_ctime desc);
          (atime_secs, atime_extra) = encode_time (ds_atime desc)
      in raw\<lparr> ri_size_lo := ucast (ds_size desc),
              ri_size_high := (if ds_type desc = File then ucast (drop_bit 32 (ds_size desc)) else ri_size_high raw),
              ri_sector_count := ucast (ds_sector_count desc),
              ri_blocks_high := ucast (drop_bit 32 (ds_sector_count desc)),
              ri_mtime := mtime_secs, ri_mtime_extra := mtime_extra,
              ri_ctime := ctime_secs, ri_ctime_extra := ctime_extra,
              ri_mode := (ri_mode raw AND 0xF000) OR (ds_perm desc AND 0xFFF),
              ri_uid := ucast (ds_uid desc), ri_uid_high := ucast (drop_bit 16 (ds_uid desc)),
              ri_gid := ucast (ds_gid desc), ri_gid_high := ucast (drop_bit 16 (ds_gid desc)),
              ri_atime := atime_secs, ri_atime_extra := atime_extra,
              ri_block := root, ri_flags := ds_flags desc, ri_link_count := ds_link_count desc,
              ri_dtime := Dtime_to_raw (ds_dtime desc) \<rparr>)"

text \<open>Under a handle the whole inode is encoded and captured, with the chain's successor in \<open>i_dtime\<close> while
  the inode is listed; without one the device copy is read, patched and written.\<close>

definition write_back_inode_desc :: "Ext4 \<Rightarrow> u32 \<Rightarrow> InodeDesc \<Rightarrow> u32 list \<Rightarrow> unit result \<times> Ext4" where
  "write_back_inode_desc fs ino desc root =
     (case inode_slot fs ino of
        Inl e \<Rightarrow> (Inl e, fs)
      | Inr slot \<Rightarrow>
          let csum = inode_csum (sb_of fs) in
          if io_handle (fs_io fs) \<noteq> None then
            let raw = to_raw_inode desc root;
                raw1 = (case successor_of (s_orphan fs) ino of
                          Some nxt \<Rightarrow> raw\<lparr> ri_dtime := (case nxt of Some i \<Rightarrow> i | None \<Rightarrow> 0) \<rparr>
                        | None \<Rightarrow> raw)
            in case stamped csum ino raw1 of
                 Inl e \<Rightarrow> (Inl e, fs)
               | Inr raw2 \<Rightarrow> let (r, io) = slot_journal_write slot (fs_io fs) raw2 in (r, fs\<lparr> fs_io := io \<rparr>)
          else
            case read_val (io_dev (fs_io fs)) (device_offset slot) RAW_INODE_SIZE of
              Inl _ \<Rightarrow> (Err EIO, fs)
            | Inr bs \<Rightarrow>
                (case stamped csum ino (rmw_raw_inode desc root (RawInode_from_bytes bs)) of
                   Inl e \<Rightarrow> (Inl e, fs)
                 | Inr raw2 \<Rightarrow>
                     let (r, d) = write_val (io_dev (fs_io fs)) (device_offset slot) (RawInode_as_bytes raw2)
                     in (case r of Inl _ \<Rightarrow> Err EIO | Inr _ \<Rightarrow> Ok (), fs\<lparr> fs_io := (fs_io fs)\<lparr> io_dev := d \<rparr> \<rparr>)))"

definition write_new_inode_desc :: "Ext4 \<Rightarrow> u32 \<Rightarrow> InodeDesc \<Rightarrow> unit result \<times> Ext4" where
  "write_new_inode_desc fs ino desc =
     (case inode_slot fs ino of
        Inl e \<Rightarrow> (Inl e, fs)
      | Inr slot \<Rightarrow>
          (case stamped (inode_csum (sb_of fs)) ino (to_raw_inode desc (ds_block desc)) of
             Inl e \<Rightarrow> (Inl e, fs)
           | Inr raw \<Rightarrow>
               st_bind (let (r, io) = slot_journal_write slot (fs_io fs) raw in (r, fs\<lparr> fs_io := io \<rparr>)) (\<lambda>_ fs.
               if io_handle (fs_io fs) = None then
                 let (r, d) = write_val (io_dev (fs_io fs)) (device_offset slot) (RawInode_as_bytes raw)
                 in (case r of Inl _ \<Rightarrow> Err EIO | Inr _ \<Rightarrow> Ok (), fs\<lparr> fs_io := (fs_io fs)\<lparr> io_dev := d \<rparr> \<rparr>)
               else (Ok (), fs))))"

text \<open>\<open>create_inode\<close> up to the construction of the live object; the credentials and the clock are the
  running task's.\<close>

definition create_inode ::
    "u32 \<Rightarrow> u32 \<Rightarrow> Duration \<Rightarrow> Ext4 \<Rightarrow> u32 \<Rightarrow> InodeType \<Rightarrow> u16 \<Rightarrow> InodeSeed \<Rightarrow> (u32 \<times> InodeDesc) result \<times> Ext4" where
  "create_inode uid gid now fs parent_ino type perm seed =
     st_bind (alloc_ino fs parent_ino type) (\<lambda>ino fs.
       let links = (if is_directory type then 2 else 1);
           gen = next_generation fs;
           fs1 = fs\<lparr> next_generation := gen + 1 \<rparr>;
           desc = InodeDesc_new type perm uid gid links gen now seed
       in case write_new_inode_desc fs1 ino desc of
            (Inl err, fs2) \<Rightarrow> (Inl err, snd (free_inode fs2 ino type))
          | (Inr _, fs2) \<Rightarrow> (Ok (ino, desc), fs2))"

definition read_inode_desc :: "Ext4 \<Rightarrow> u32 \<Rightarrow> InodeDesc result" where
  "read_inode_desc fs ino =
     and_then (find_group fs ino) (\<lambda>gi. BlockGroup_read_inode_desc (block_groups fs ! gi) (fs_io fs) ino)"

section \<open>Syncing metadata\<close>

fun sync_groups :: "nat list \<Rightarrow> Ext4 \<Rightarrow> unit result \<times> Ext4" where
  "sync_groups [] fs = (Ok (), fs)"
| "sync_groups (i # is) fs =
     (let (r, g, d) = BlockGroup_sync_metadata (block_groups fs ! i) (io_dev (fs_io fs));
          fs1 = fs\<lparr> block_groups := (block_groups fs)[i := g], fs_io := (fs_io fs)\<lparr> io_dev := d \<rparr> \<rparr>
      in case r of Inl e \<Rightarrow> (Inl e, fs1) | Inr _ \<Rightarrow> sync_groups is fs1)"

text \<open>The superblock image of a direct sync: the counters, the incompatible features and the checksum, never
  the orphan head.\<close>

definition sync_super_block :: "SuperBlock \<Rightarrow> RawSuperBlock \<Rightarrow> RawSuperBlock" where
  "sync_super_block sb raw =
     (let raw1 = write_free_blocks_count sb raw;
          raw2 = splice s_free_inodes_count (le32 (sb_free_inodes_count sb)) raw1;
          raw3 = splice s_incompat (le32 (sb_feature_incompat sb)) raw2
      in if has_metadata_csum sb then splice S_CHECKSUM_OFFSET (le32 (superblock_checksum raw3)) raw3 else raw3)"

definition sync_metadata :: "Ext4 \<Rightarrow> unit result \<times> Ext4" where
  "sync_metadata fs =
     (case ensure_not_shutdown fs of
        Inl e \<Rightarrow> (Inl e, fs)
      | Inr _ \<Rightarrow>
          if (case io_journal (fs_io fs) of Some j \<Rightarrow> \<not> stop j | None \<Rightarrow> False) then (Ok (), fs)
          else st_bind (sync_groups [0..<length (block_groups fs)] fs) (\<lambda>_ fs.
            if is_dirty (super_block fs) then
              (case SUPERBLOCK_READ (io_dev (fs_io fs)) of
                 Inl _ \<Rightarrow> (Err EIO, fs)
               | Inr raw \<Rightarrow>
                   (case write_val (io_dev (fs_io fs)) SUPER_BLOCK_OFFSET (sync_super_block (sb_of fs) raw) of
                      (Inl _, d) \<Rightarrow> (Err EIO, fs\<lparr> fs_io := (fs_io fs)\<lparr> io_dev := d \<rparr> \<rparr>)
                    | (Inr _, d) \<Rightarrow>
                        (Ok (), fs\<lparr> fs_io := (fs_io fs)\<lparr> io_dev := d \<rparr>, super_block := clear_dirty (super_block fs) \<rparr>)))
            else (Ok (), fs)))"

text \<open>\<open>sync_all\<close> and \<open>FileSystem::sync\<close>, with the flush of the cached inodes as an argument.\<close>

definition sync_all :: "(Ext4 \<Rightarrow> unit result \<times> Ext4) \<Rightarrow> Ext4 \<Rightarrow> unit result \<times> Ext4" where
  "sync_all sync_inodes fs =
     (case ensure_not_shutdown fs of
        Inl e \<Rightarrow> (Inl e, fs)
      | Inr _ \<Rightarrow> st_bind (sync_inodes fs) (\<lambda>_ fs. sync_metadata fs))"

definition FileSystem_sync ::
    "(Ext4 \<Rightarrow> unit result \<times> Ext4) \<Rightarrow> (Journal \<Rightarrow> Journal) list \<Rightarrow> Ext4 \<Rightarrow> (unit result \<times> Ext4) option" where
  "FileSystem_sync sync_inodes sched fs =
     (if fs_shutdown fs then Some (Ok (), fs)
      else case sync_all sync_inodes fs of
             (Inl e, fs1) \<Rightarrow> Some (Inl e, fs1)
           | (Inr _, fs1) \<Rightarrow>
               (case (case io_journal (fs_io fs1) of
                        None \<Rightarrow> Some (Ok (), fs1)
                      | Some j \<Rightarrow> map_option (\<lambda>(r, j'). (r, fs1\<lparr> fs_io := (fs_io fs1)\<lparr> io_journal := Some j' \<rparr> \<rparr>)) (commit_and_wait sched j)) of
                  None \<Rightarrow> None
                | Some (Inl e, fs2) \<Rightarrow> Some (Inl e, fs2)
                | Some (Inr _, fs2) \<Rightarrow>
                    (let (r, d) = sync (io_dev (fs_io fs2)) in
                     Some (case r of Inl _ \<Rightarrow> Err EIO | Inr _ \<Rightarrow> Ok (), fs2\<lparr> fs_io := (fs_io fs2)\<lparr> io_dev := d \<rparr> \<rparr>))))"

section \<open>Shutdown and unmount\<close>

datatype GoingDown = GoingDefault | LogFlush | NoLogFlush

definition GoingDown_try_from :: "u32 \<Rightarrow> GoingDown result" where
  "GoingDown_try_from flags =
     (if flags = 0 then Ok GoingDefault else if flags = 1 then Ok LogFlush else if flags = 2 then Ok NoLogFlush else Err EINVAL)"

definition shutdown ::
    "(Ext4 \<Rightarrow> unit result \<times> Ext4) \<Rightarrow> (Journal \<Rightarrow> Journal) list \<Rightarrow> Ext4 \<Rightarrow> GoingDown \<Rightarrow> (unit result \<times> Ext4) option" where
  "shutdown sync_inodes sched fs going =
     (if fs_shutdown fs then Some (Ok (), fs)
      else case going of
        GoingDefault \<Rightarrow>
          (case FileSystem_sync sync_inodes sched fs of
             None \<Rightarrow> None
           | Some (Inl e, fs1) \<Rightarrow> Some (Inl e, fs1)
           | Some (Inr _, fs1) \<Rightarrow> Some (Ok (), fs1\<lparr> fs_shutdown := True \<rparr>))
      | LogFlush \<Rightarrow>
          let fs1 = fs\<lparr> fs_shutdown := True \<rparr> in
          (case io_journal (fs_io fs1) of
             None \<Rightarrow> Some (Ok (), fs1)
           | Some j \<Rightarrow>
               (case commit_and_wait sched j of
                  None \<Rightarrow> None
                | Some (Inl e, j1) \<Rightarrow> Some (Inl e, fs1\<lparr> fs_io := (fs_io fs1)\<lparr> io_journal := Some j1 \<rparr> \<rparr>)
                | Some (Inr _, j1) \<Rightarrow> Some (Ok (), fs1\<lparr> fs_io := (fs_io fs1)\<lparr> io_journal := Some (abort_for_shutdown j1) \<rparr> \<rparr>)))
      | NoLogFlush \<Rightarrow>
          Some (Ok (), fs\<lparr> fs_shutdown := True,
                            fs_io := (fs_io fs)\<lparr> io_journal := map_option abort_for_shutdown (io_journal (fs_io fs)) \<rparr> \<rparr>))"

text \<open>\<open>Drop for Ext4\<close>: a clean unmount flushes the journal, clears the recovery flag and syncs; a shut-down
  instance only stops the commit thread.  The journal cell is taken before the sync.\<close>

definition unmount :: "clock \<Rightarrow> Ext4 \<Rightarrow> Ext4" where
  "unmount clk fs =
     (case io_journal (fs_io fs) of
        None \<Rightarrow> fs
      | Some j \<Rightarrow>
          let j1 = stop_commit_thread j; fs1 = fs\<lparr> fs_io := (fs_io fs)\<lparr> io_journal := None \<rparr> \<rparr> in
          if fs_shutdown fs then fs1
          else case flush_on_unmount clk j1 (io_dev (fs_io fs)) of
                 (Inl _, _, d) \<Rightarrow> fs1\<lparr> fs_io := (fs_io fs1)\<lparr> io_dev := d \<rparr> \<rparr>
               | (Inr _, _, d) \<Rightarrow>
                   let fs2 = fs1\<lparr> fs_io := (fs_io fs1)\<lparr> io_dev := d \<rparr>, super_block := deref_mut clear_recover (super_block fs1) \<rparr> in
                   (case sync_metadata fs2 of
                      (Inl _, fs3) \<Rightarrow> fs3
                    | (Inr _, fs3) \<Rightarrow> fs3\<lparr> fs_io := (fs_io fs3)\<lparr> io_dev := snd (sync (io_dev (fs_io fs3))) \<rparr> \<rparr>))"

end
