(* ===== verification/Fs_Alloc.thy ===== *)
theory Fs_Alloc
  imports Group_Free Ext4_Fs
begin

text \<open>
  The allocators of \<open>fs.rs\<close> over the whole volume.  The invariant \<open>fs_ok\<close> ties the loaded groups
  to the superblock's geometry and each group's counters to its bitmaps; \<open>fs_free\<close> is the set of
  free blocks of the volume.  A granted run consists of free blocks that are neither pinned by an
  uncommitted free nor metadata of their group, a freed run returns to the free set exactly once,
  and the superblock's counter follows.
\<close>

section \<open>The invariant\<close>

abbreviation grp :: "Ext4 \<Rightarrow> nat \<Rightarrow> BlockGroup" where "grp fs i \<equiv> block_groups fs ! i"

definition group_placed :: "SuperBlock \<Rightarrow> nat \<Rightarrow> BlockGroup \<Rightarrow> bool" where
  "group_placed sb i g \<longleftrightarrow>
     unat (first_block g) = unat (sb_first_data_block sb) + i * unat (sb_nr_blocks_per_group sb) \<and>
     unat (last_block g) + 1 = min (unat (sb_blocks_count sb)) (unat (sb_first_data_block sb) + (i + 1) * unat (sb_nr_blocks_per_group sb)) \<and>
     nr_inodes_per_group g = sb_nr_inodes_per_group sb"

definition fs_ok :: "Ext4 \<Rightarrow> bool" where
  "fs_ok fs \<longleftrightarrow>
     sb_ok (sb_of fs) \<and> length (block_groups fs) = unat (sb_nr_block_groups (sb_of fs)) \<and>
     fs_inodes_per_group fs = sb_nr_inodes_per_group (sb_of fs) \<and> fs_total_inodes fs = sb_inodes_count (sb_of fs) \<and>
     (\<forall>i < length (block_groups fs). group_ok (grp fs i) \<and> zone_ok (grp fs i) \<and> group_placed (sb_of fs) i (grp fs i))"

lemma fs_okD:
  assumes "fs_ok fs" "i < length (block_groups fs)"
  shows "group_ok (grp fs i)" "zone_ok (grp fs i)" "group_placed (sb_of fs) i (grp fs i)"
  using assms by (simp_all add: fs_ok_def)

text \<open>The free blocks of the volume, and the blocks that hold the metadata of the group they lie in.\<close>

definition fs_free :: "Ext4 \<Rightarrow> nat set" where
  "fs_free fs = (\<Union>i < length (block_groups fs). free_blocks_of (grp fs i))"

definition own_zone :: "Ext4 \<Rightarrow> nat \<Rightarrow> bool" where
  "own_zone fs b \<longleftrightarrow> (\<exists>i < length (block_groups fs).
     unat (first_block (grp fs i)) \<le> b \<and> b \<le> unat (last_block (grp fs i)) \<and> in_system_zone (grp fs i) b)"

definition counted :: "Ext4 \<Rightarrow> bool" where
  "counted fs \<longleftrightarrow> unat (sb_free_blocks_count (sb_of fs)) = card (fs_free fs)"

lemma finite_fs_free [simp]: "finite (fs_free fs)"
  by (simp add: fs_free_def)

lemma group_ranges_apart:
  assumes "fs_ok fs" "i < length (block_groups fs)" "j < length (block_groups fs)" "i < j"
  shows "unat (last_block (grp fs i)) < unat (first_block (grp fs j))"
proof -
  let ?b = "unat (sb_nr_blocks_per_group (sb_of fs))"
  have "(i + 1) * ?b \<le> j * ?b" using assms(4) by (intro mult_right_mono) simp_all
  moreover have "unat (last_block (grp fs i)) + 1 \<le> unat (sb_first_data_block (sb_of fs)) + (i + 1) * ?b"
    using fs_okD(3)[OF assms(1,2)] unfolding group_placed_def by (metis min.cobounded2)
  moreover have "unat (first_block (grp fs j)) = unat (sb_first_data_block (sb_of fs)) + j * ?b"
    using fs_okD(3)[OF assms(1,3)] unfolding group_placed_def by blast
  ultimately show ?thesis by linarith
qed

lemma group_unique:
  assumes "fs_ok fs" "i < length (block_groups fs)" "j < length (block_groups fs)"
    and "unat (first_block (grp fs i)) \<le> b" "b \<le> unat (last_block (grp fs i))"
    and "unat (first_block (grp fs j)) \<le> b" "b \<le> unat (last_block (grp fs j))"
  shows "i = j"
  using group_ranges_apart[OF assms(1,2,3)] group_ranges_apart[OF assms(1,3,2)] assms(4-7) by (cases i j rule: linorder_cases) auto

lemma free_in_group:
  assumes "fs_ok fs" "i < length (block_groups fs)" "b \<in> free_blocks_of (grp fs i)"
  shows "unat (first_block (grp fs i)) \<le> b" "b \<le> unat (last_block (grp fs i))"
  using assms free_blocks_of_iff[OF fs_okD(1)[OF assms(1,2)]] by auto

lemma own_zone_group:
  assumes "fs_ok fs" "i < length (block_groups fs)" "b \<in> free_blocks_of (grp fs i)" "\<not> in_system_zone (grp fs i) b"
  shows "\<not> own_zone fs b"
  using assms group_unique[OF assms(1,2)] free_in_group[OF assms(1-3)] by (auto simp: own_zone_def)

text \<open>An operation replaces one group by a group at the same place.\<close>

lemma same_place_ok: "same_place g g' \<Longrightarrow> zone_ok g \<Longrightarrow> zone_ok g'" "same_place g g' \<Longrightarrow> group_placed sb i g \<Longrightarrow> group_placed sb i g'"
  by (simp_all add: same_place_def zone_ok_def group_placed_def)

lemma put_group:
  fixes io :: MetaIo
  assumes "fs_ok fs" "i < length (block_groups fs)" "group_ok g'" "same_place (grp fs i) g'"
  defines "fs' \<equiv> fs\<lparr> block_groups := (block_groups fs)[i := g'], fs_io := io \<rparr>"
  shows "fs_ok fs'" "fs_free fs' = (fs_free fs - free_blocks_of (grp fs i)) \<union> free_blocks_of g'"
proof -
  have g: "grp fs' j = (if j = i then g' else grp fs j)" if "j < length (block_groups fs)" for j
    using that assms(2) by (simp add: fs'_def)
  have l: "length (block_groups fs') = length (block_groups fs)" "sb_of fs' = sb_of fs"
    "fs_inodes_per_group fs' = fs_inodes_per_group fs" "fs_total_inodes fs' = fs_total_inodes fs" by (simp_all add: fs'_def)
  have "group_ok (grp fs' j) \<and> zone_ok (grp fs' j) \<and> group_placed (sb_of fs) j (grp fs' j)" if "j < length (block_groups fs)" for j
    using g[OF that] fs_okD[OF assms(1) that] assms(3) same_place_ok[OF assms(4)] by (cases "j = i") auto
  then show "fs_ok fs'" using assms(1) unfolding fs_ok_def l by blast
  have apart: "free_blocks_of (grp fs j) \<inter> free_blocks_of (grp fs i) = {}" if "j < length (block_groups fs)" "j \<noteq> i" for j
    using group_unique[OF assms(1) that(1) assms(2)] free_in_group[OF assms(1) that(1)] free_in_group[OF assms(1,2)] that(2) by blast
  have "fs_free fs' = (\<Union>j \<in> {..<length (block_groups fs)} - {i}. free_blocks_of (grp fs j)) \<union> free_blocks_of g'"
    unfolding fs_free_def l using g assms(2) by (auto split: if_splits)
  moreover have "fs_free fs - free_blocks_of (grp fs i) = (\<Union>j \<in> {..<length (block_groups fs)} - {i}. free_blocks_of (grp fs j))"
    unfolding fs_free_def using apart by auto
  ultimately show "fs_free fs' = (fs_free fs - free_blocks_of (grp fs i)) \<union> free_blocks_of g'" by simp
qed

lemma own_zone_put:
  assumes "i < length (block_groups fs)" "same_place (grp fs i) g'"
  shows "own_zone (fs\<lparr> block_groups := (block_groups fs)[i := g'], fs_io := io \<rparr>) b \<longleftrightarrow> own_zone fs b"
proof -
  define P where "P g \<longleftrightarrow> unat (first_block g) \<le> b \<and> b \<le> unat (last_block g) \<and> in_system_zone g b" for g
  have "P g' = P (grp fs i)" using assms(2) by (simp add: P_def same_place_def in_system_zone_def)
  then have "P ((block_groups fs)[i := g'] ! j) = P (grp fs j)" if "j < length (block_groups fs)" for j
    using that by (cases "j = i") simp_all
  then show ?thesis unfolding own_zone_def P_def[symmetric] by auto
qed

lemma free_sub_fs: "i < length (block_groups fs) \<Longrightarrow> free_blocks_of (grp fs i) \<subseteq> fs_free fs"
  by (auto simp: fs_free_def)

section \<open>Allocation\<close>

text \<open>Writing the superblock's counters keeps its geometry.\<close>

definition sb_counts :: "SuperBlock \<Rightarrow> SuperBlock \<Rightarrow> bool" where
  "sb_counts sb sb' \<longleftrightarrow> (\<exists>nb ni orphan. sb' = sb\<lparr> sb_free_blocks_count := nb, sb_free_inodes_count := ni, sb_last_orphan := orphan \<rparr> \<and>
     nb \<le> sb_blocks_count sb \<and> ni \<le> sb_inodes_count sb)"

lemma fs_ok_sb:
  assumes "fs_ok fs" "sb_counts (sb_of fs) (sb_of fs')" "block_groups fs' = block_groups fs"
    and "fs_inodes_per_group fs' = fs_inodes_per_group fs" "fs_total_inodes fs' = fs_total_inodes fs"
  shows "fs_ok fs'" "fs_free fs' = fs_free fs"
  using assms by (auto simp: fs_ok_def fs_free_def sb_counts_def sb_ok_def group_placed_def)

lemma dec_free_blocks_fs:
  assumes "fs_ok fs" "sb_step fs (\<lambda>sb. dec_free_blocks sb n) = (r, fs')"
  shows "fs_ok fs'" "fs_free fs' = fs_free fs" "block_groups fs' = block_groups fs" "fs_io fs' = fs_io fs"
    "r = Ok () \<Longrightarrow> unat (sb_free_blocks_count (sb_of fs)) = unat (sb_free_blocks_count (sb_of fs')) + unat n"
proof -
  obtain sb where sb: "dec_free_blocks (sb_of fs) n = (r, sb)" "fs' = fs\<lparr> super_block := deref_mut (\<lambda>_. sb) (super_block fs) \<rparr>"
    using assms(2) by (auto simp: sb_step_def split: prod.splits)
  have le: "sb_free_blocks_count (sb_of fs) \<le> sb_blocks_count (sb_of fs)" "sb_free_inodes_count (sb_of fs) \<le> sb_inodes_count (sb_of fs)"
    using assms(1) by (simp_all add: fs_ok_def sb_ok_def)
  have "sb_counts (sb_of fs) (sb_of fs')"
    using sb le unfolding sb_counts_def
    by (intro exI[of _ "sb_free_blocks_count (sb_of fs')"] exI[of _ "sb_free_inodes_count (sb_of fs)"] exI[of _ "sb_last_orphan (sb_of fs)"])
      (auto simp: dec_free_blocks_def deref_mut_def word_le_nat_alt word_less_nat_alt unat_sub_small split: if_splits)
  from fs_ok_sb[OF assms(1) this] sb(2) show "fs_ok fs'" "fs_free fs' = fs_free fs" "block_groups fs' = block_groups fs" "fs_io fs' = fs_io fs"
    by simp_all
  show "r = Ok () \<Longrightarrow> unat (sb_free_blocks_count (sb_of fs)) = unat (sb_free_blocks_count (sb_of fs')) + unat n"
    using sb by (auto simp: dec_free_blocks_def deref_mut_def word_le_nat_alt word_less_nat_alt unat_sub_small split: if_splits)
qed

lemma sb_capture_fs:
  assumes "sb_capture fs orphan = (r, fs')"
  obtains io where "fs' = fs\<lparr> fs_io := io \<rparr>" "SuperBlock_journal_capture (sb_of fs) orphan (fs_io fs) = (r, io)"
  using assms by (auto simp: sb_capture_def split: prod.splits)

lemma fs_io_only [simp]: "fs_ok (fs\<lparr> fs_io := io \<rparr>) = fs_ok fs" "fs_free (fs\<lparr> fs_io := io \<rparr>) = fs_free fs"
  by (simp_all add: fs_ok_def fs_free_def)

definition alloc_result :: "Ext4 \<Rightarrow> u32 \<Rightarrow> (Ext4Bid \<times> u32) list \<Rightarrow> (Ext4Bid \<times> Ext4Bid) result \<Rightarrow> Ext4 \<Rightarrow> nat set \<Rightarrow> bool" where
  "alloc_result fs cnt pins r fs' taken \<longleftrightarrow>
     fs_ok fs' \<and> taken \<subseteq> fs_free fs \<and> fs_free fs' = fs_free fs - taken \<and> card taken \<le> unat cnt \<and>
     (\<forall>b\<in>taken. \<not> pinned_block pins b \<and> \<not> own_zone fs b) \<and>
     (case r of
        Inr (s, e) \<Rightarrow> s < e \<and> taken = {unat s..<unat e} \<and>
          unat (sb_free_blocks_count (sb_of fs)) = unat (sb_free_blocks_count (sb_of fs')) + card taken
      | Inl _ \<Rightarrow> True)"

lemma alloc_ring_result:
  assumes "fs_ok fs" "pins_ok pins" "set gis \<subseteq> {..<length (block_groups fs)}" "alloc_ring cnt sbf pins gis pb fs = (r, fs')"
  shows "\<exists>taken. alloc_result fs cnt pins r fs' taken"
  using assms
proof (induction gis arbitrary: pb fs)
  case Nil
  then have "alloc_result fs cnt pins r fs' {}" by (auto simp: alloc_result_def split: if_splits)
  then show ?case ..
next
  case (Cons gi gis)
  have gi: "gi < length (block_groups fs)" using Cons.prems(3) by simp
  note ok = fs_okD[OF Cons.prems(1) gi]
  obtain a g' io where al: "BlockGroup_alloc_blocks (grp fs gi) (fs_io fs) cnt sbf pins = (a, g', io)" by (metis prod_cases3)
  obtain taken where out: "alloc_outcome (grp fs gi) cnt pins a g' taken" using alloc_blocks_outcome[OF ok(1,2) Cons.prems(2) al] by blast
  define fs1 where "fs1 = fs\<lparr> block_groups := (block_groups fs)[gi := g'], fs_io := io \<rparr>"
  have at: "at_group fs gi (\<lambda>g io. BlockGroup_alloc_blocks g io cnt sbf pins) = (a, fs1)"
    using gi al by (simp add: at_group_def fs1_def)
  have fs1: "fs_ok fs1" "fs_free fs1 = (fs_free fs - free_blocks_of (grp fs gi)) \<union> free_blocks_of g'"
    using put_group[OF Cons.prems(1) gi] out by (simp_all add: fs1_def alloc_outcome_def)
  have taken: "taken \<subseteq> free_blocks_of (grp fs gi)" "free_blocks_of g' = free_blocks_of (grp fs gi) - taken" "card taken \<le> unat cnt"
    "\<forall>b\<in>taken. \<not> pinned_block pins b \<and> \<not> in_system_zone (grp fs gi) b"
    using out by (simp_all add: alloc_outcome_def)
  have free1: "fs_free fs1 = fs_free fs - taken" "taken \<subseteq> fs_free fs"
    using fs1(2) taken(1,2) free_sub_fs[OF gi] by auto
  have zone: "\<forall>b\<in>taken. \<not> pinned_block pins b \<and> \<not> own_zone fs b"
    using taken(1,4) own_zone_group[OF Cons.prems(1) gi] by blast
  have part: "alloc_result fs cnt pins (Inl e) fs2 taken" if "fs_ok fs2" "fs_free fs2 = fs_free fs1" for e fs2
    using that free1 taken(3) zone by (simp add: alloc_result_def)
  show ?case
  proof (cases a)
    case (Inl err)
    then have "r = Inl err" "fs' = fs1" using Cons.prems(4) at by simp_all
    then show ?thesis using part[OF fs1(1) refl] by blast
  next
    case (Inr v)
    show ?thesis
    proof (cases v)
      case (NoFit pinned)
      then have rest: "alloc_ring cnt sbf pins gis (pb \<or> pinned) fs1 = (r, fs')" using Cons.prems(4) at Inr by simp
      have "taken = {}" using out Inr NoFit by (simp add: alloc_outcome_def)
      then have free: "fs_free fs1 = fs_free fs" using free1 by simp
      have "set gis \<subseteq> {..<length (block_groups fs1)}" using Cons.prems(3) by (simp add: fs1_def)
      then obtain taken2 where t2: "alloc_result fs1 cnt pins r fs' taken2" using Cons.IH[OF fs1(1) Cons.prems(2) _ rest] by blast
      have z: "own_zone fs1 b \<longleftrightarrow> own_zone fs b" for b
        unfolding fs1_def by (rule own_zone_put[OF gi]) (use out in \<open>simp add: alloc_outcome_def\<close>)
      have sb1: "sb_of fs1 = sb_of fs" by (simp add: fs1_def)
      show ?thesis using t2 unfolding alloc_result_def free z sb1 by blast
    next
      case (Allocated s e)
      have run: "s < e" "taken = {unat s..<unat e}" using out Inr Allocated by (simp_all add: alloc_outcome_def)
      obtain r2 fs2 where dec: "sb_step fs1 (\<lambda>sb. dec_free_blocks sb (e - s)) = (r2, fs2)" by fastforce
      note d = dec_free_blocks_fs[OF fs1(1) dec]
      show ?thesis
      proof (cases r2)
        case (Inl err)
        then have "r = Inl err" "fs' = fs2" using Cons.prems(4) at Inr Allocated dec by simp_all
        then show ?thesis using part[OF d(1,2)] by blast
      next
        case ok2: (Inr u)
        obtain r3 fs3 where cap: "sb_capture fs2 (sb_last_orphan (sb_of fs2)) = (r3, fs3)" by fastforce
        obtain io3 where fs3: "fs3 = fs2\<lparr> fs_io := io3 \<rparr>" using sb_capture_fs[OF cap] by blast
        show ?thesis
        proof (cases r3)
          case (Inl err)
          then have "r = Inl err" "fs' = fs3" using Cons.prems(4) at Inr Allocated dec ok2 cap by simp_all
          then show ?thesis using part[of fs3] d(1,2) fs3 by auto
        next
          case ok3: (Inr u3)
          then have res: "r = Ok (s, e)" "fs' = fs3" using Cons.prems(4) at Inr Allocated dec ok2 cap by simp_all
          have "unat (e - s) = card taken" using run by (simp add: unat_sub_small word_le_nat_alt word_less_nat_alt)
          then have "unat (sb_free_blocks_count (sb_of fs)) = unat (sb_free_blocks_count (sb_of fs')) + card taken"
            using d(5) ok2 res(2) fs3 by (simp add: fs1_def)
          then have "alloc_result fs cnt pins r fs' taken"
            using d(1,2) free1 taken(3) zone run res fs3 by (simp add: alloc_result_def)
          then show ?thesis ..
        qed
      qed
    qed
  qed
qed

end
