(* ===== verification/Fs_Free.thy ===== *)
theory Fs_Free
  imports Fs_Alloc
begin

text \<open>
  Freeing runs of blocks through \<open>Ext4::free_blocks\<close>: the loop over the groups ends for every run
  inside the volume, a successful free returns exactly the run to the free set, and under a handle
  the run is pinned, so that no allocation hands it out again while the pin stands.
\<close>

section \<open>What metadata access leaves alone\<close>

definition io_pins :: "MetaIo \<Rightarrow> (Ext4Bid \<times> PinnedRun) list" where
  "io_pins io = (case io_journal io of None \<Rightarrow> [] | Some j \<Rightarrow> pinned_frees (jstate j))"

lemma pinned_of_pins: "pinned_of fs = map (\<lambda>(start, run). (start, pr_count run)) (io_pins (fs_io fs))"
  by (simp add: pinned_of_def io_pins_def pinned_frees_snapshot_def split: option.split)

definition io_frame :: "MetaIo \<Rightarrow> MetaIo \<Rightarrow> bool" where
  "io_frame io io' \<longleftrightarrow> io_pins io' = io_pins io \<and> (io_handle io' = None \<longleftrightarrow> io_handle io = None) \<and>
     (io_journal io' = None \<longleftrightarrow> io_journal io = None)"

lemma io_frame_refl [simp]: "io_frame io io"
  by (simp add: io_frame_def)

lemma io_frame_trans: "io_frame a b \<Longrightarrow> io_frame b c \<Longrightarrow> io_frame a c"
  by (simp add: io_frame_def)

lemma put_active_pins [simp]: "pinned_frees (put_active st t txn) = pinned_frees st"
  by (simp add: put_active_def split: option.split)

lemma finish_access_pins: "finish_access j h bid fresh gen txn = (r, h', j') \<Longrightarrow> pinned_frees (jstate j') = pinned_frees (jstate j)"
  by (auto simp: finish_access_def set_state_def Let_def split: prod.splits if_splits)

lemma get_write_access_pins:
  "get_write_access_live j d h bid = (r, h', j') \<Longrightarrow> pinned_frees (jstate j') = pinned_frees (jstate j)"
  by (auto simp: get_write_access_live_def Let_def set_state_def dest: finish_access_pins split: option.splits prod.splits sum.splits)

lemma io_write_access_frame: "io_write_access io bid = (r, io') \<Longrightarrow> io_frame io io'"
  by (auto simp: io_write_access_def get_write_access_def io_frame_def io_pins_def dest: get_write_access_pins
      split: option.splits prod.splits)

lemma io_patch_frame: "io_patch io a f = (r, io') \<Longrightarrow> io_frame io io'"
  by (auto simp: io_patch_def WriteAccess_patch_def io_frame_def io_pins_def set_state_def split: option.splits prod.splits sum.splits)

lemma io_update_frame: "io_update io bid f = (r, io') \<Longrightarrow> io_frame io io'"
  unfolding io_update_def st_bind_def
  by (auto split: prod.splits sum.splits dest!: io_write_access_frame io_patch_frame intro: io_frame_trans)

lemma io_discharge_frame: "io_discharge io start n = (r, io') \<Longrightarrow> io_frame io io'"
  by (auto simp: io_discharge_def discharge_def io_frame_def io_pins_def set_state_def Let_def split: option.splits prod.splits sum.splits)

lemma abort_frame: "io_frame io (abort_journal_on_fs_error io)"
  by (auto simp: abort_journal_on_fs_error_def abort_for_fs_error_def abort_with_error_def abort_def io_frame_def io_pins_def Let_def
      split: option.splits prod.splits sum.splits if_splits)

lemma capture_desc_frame: "capture_desc g io = (r, io') \<Longrightarrow> io_frame io io'"
  unfolding capture_desc_def by (rule io_update_frame)

lemma sb_capture_frame: "sb_capture fs orphan = (r, fs') \<Longrightarrow> io_frame (fs_io fs) (fs_io fs')"
  by (erule sb_capture_fs) (simp add: SuperBlock_journal_capture_def io_update_frame)

lemma group_free_frame:
  assumes "BlockGroup_free_blocks g io s e = (r, g', io')"
  shows "io_frame io io'"
proof (cases "overlaps_system_zone_with g (gdesc g) (first_block g + ucast s, first_block g + ucast e)")
  case True
  then show ?thesis using assms abort_frame[of io] by (simp add: BlockGroup_free_blocks_def Let_def)
next
  case False
  obtain a io1 where acc: "io_write_access io (gd_block_bitmap_bid (gdesc g)) = (a, io1)" by fastforce
  note f1 = io_write_access_frame[OF acc]
  have p1: "io_frame io1 (snd (io_patch io1 x f))" for x f by (rule io_patch_frame[OF surjective_pairing])
  have p2: "io_frame io1 (snd (capture_desc h (snd (io_patch io1 x f))))" for h x f
    by (rule io_frame_trans[OF p1 capture_desc_frame[OF surjective_pairing]])
  show ?thesis
    using assms False acc f1
    by (cases a)
      (auto simp: BlockGroup_free_blocks_def with_io_def Let_def st_bind_def split: prod.splits sum.splits option.splits if_splits
        intro: io_frame_trans[OF f1] p1 p2)
qed

section \<open>Pins\<close>

definition pinned_by :: "(Ext4Bid \<times> PinnedRun) list \<Rightarrow> nat \<Rightarrow> bool" where
  "pinned_by pins b \<longleftrightarrow> (\<exists>(st, run) \<in> set pins. unat st \<le> b \<and> b < unat st + unat (pr_count run))"

lemma pinned_of_iff: "pinned_block (pinned_of fs) b \<longleftrightarrow> pinned_by (io_pins (fs_io fs)) b"
  by (auto simp: pinned_of_pins pinned_block_def pinned_by_def split_beta)

definition pins_fit :: "(Ext4Bid \<times> PinnedRun) list \<Rightarrow> bool" where
  "pins_fit pins \<longleftrightarrow> (\<forall>(st, run) \<in> set pins. unat st + unat (pr_count run) < 2 ^ 64)"

lemma pins_ok_iff: "pins_ok (pinned_of fs) \<longleftrightarrow> pins_fit (io_pins (fs_io fs))"
  by (auto simp: pinned_of_pins pins_ok_def pins_fit_def split_beta)

definition pins_grow :: "nat set \<Rightarrow> MetaIo \<Rightarrow> MetaIo \<Rightarrow> bool" where
  "pins_grow run io io' \<longleftrightarrow> (\<forall>b. pinned_by (io_pins io) b \<longrightarrow> pinned_by (io_pins io') b) \<and>
     (\<forall>b. pinned_by (io_pins io') b \<longrightarrow> pinned_by (io_pins io) b \<or> b \<in> run) \<and>
     (pins_fit (io_pins io) \<longrightarrow> pins_fit (io_pins io')) \<and>
     (io_handle io' = None \<longleftrightarrow> io_handle io = None) \<and> (io_journal io' = None \<longleftrightarrow> io_journal io = None)"

lemma frame_grows: "io_frame io io' \<Longrightarrow> pins_grow run io io'"
  by (simp add: io_frame_def pins_grow_def)

lemma pins_grow_trans: "pins_grow run a b \<Longrightarrow> pins_grow run b c \<Longrightarrow> pins_grow run a c"
  by (simp add: pins_grow_def) metis

lemma pins_grow_mono: "pins_grow run a b \<Longrightarrow> run \<subseteq> run' \<Longrightarrow> pins_grow run' a b"
  by (auto simp: pins_grow_def)

lemma bt_insert_there: "(k, v) \<in> set (bt_insert k v m)"
  by (induction k v m rule: bt_insert.induct) auto

lemma bt_insert_keeps: "x \<in> set m \<Longrightarrow> x \<in> set (bt_insert k v m) \<or> (fst x = k \<and> bt_get m k = Some (snd x))"
  by (induction k v m rule: bt_insert.induct) auto

lemma bt_get_mem: "bt_get m k = Some v \<Longrightarrow> (k, v) \<in> set m"
  by (induction m) (auto split: if_splits)

lemma bt_insert_sub: "set (bt_insert k v m) \<subseteq> insert (k, v) (set m)"
  by (induction k v m rule: bt_insert.induct) auto

lemma io_pin_result:
  assumes "io_pin_freed_run io start n = (r, io')" "unat start + unat n < 2 ^ 64"
  shows "pins_grow {unat start ..< unat start + unat n} io io'" "r = Ok () \<Longrightarrow> io_handle io \<noteq> None \<Longrightarrow> unat start \<le> b \<Longrightarrow> b < unat start + unat n \<Longrightarrow> pinned_by (io_pins io') b"
proof -
  have "pins_grow {unat start ..< unat start + unat n} io io' \<and> (r = Ok () \<longrightarrow> io_handle io \<noteq> None \<longrightarrow> unat start \<le> b \<longrightarrow> b < unat start + unat n \<longrightarrow> pinned_by (io_pins io') b)"
  proof (cases "\<exists>h j txn. io_handle io = Some h \<and> n \<noteq> 0 \<and> io_journal io = Some j \<and> active_for (jstate j) h = Ok txn")
    case False
    then have "io' = io" "r = Ok () \<Longrightarrow> io_handle io \<noteq> None \<Longrightarrow> n = 0"
      using assms(1) by (auto simp: io_pin_freed_run_def pin_freed_run_def split: option.splits if_splits sum.splits)
    then show ?thesis by (auto simp: frame_grows)
  next
    case True
    then obtain h j txn where t: "io_handle io = Some h" "n \<noteq> 0" "io_journal io = Some j" "active_for (jstate j) h = Ok txn" by blast
    define m where "m = pinned_frees (jstate j)"
    define run where "run = (case bt_get m start of Some run \<Rightarrow> run\<lparr> pr_count := max (pr_count run) n, pr_tid := t_tid txn \<rparr>
                              | None \<Rightarrow> \<lparr> pr_count = n, pr_tid = t_tid txn \<rparr>)"
    have io': "io_pins io = m" "io_pins io' = bt_insert start run m" "io_handle io' = io_handle io" "io_journal io' \<noteq> None"
      using assms(1) t by (auto simp: io_pin_freed_run_def pin_freed_run_def io_pins_def set_state_def Let_def m_def run_def split: option.splits)
    have big: "unat n \<le> unat (pr_count run)" "bt_get m start = Some old \<Longrightarrow> unat (pr_count old) \<le> unat (pr_count run)" for old
      by (auto simp: run_def word_le_nat_alt[symmetric] split: option.split)
    have "pinned_by (bt_insert start run m) b" if p: "pinned_by m b" for b
    proof -
      obtain st old where o: "(st, old) \<in> set m" "unat st \<le> b" "b < unat st + unat (pr_count old)"
        using p by (auto simp: pinned_by_def)
      from bt_insert_keeps[OF o(1), of start run] show ?thesis
      proof
        assume "(st, old) \<in> set (bt_insert start run m)"
        then show ?thesis using o(2,3) by (auto simp: pinned_by_def)
      next
        assume "fst (st, old) = start \<and> bt_get m start = Some (snd (st, old))"
        then have "st = start" "unat (pr_count old) \<le> unat (pr_count run)" using big(2) by auto
        then show ?thesis using o(2,3) bt_insert_there[of start run m]
          unfolding pinned_by_def by (intro bexI[of _ "(start, run)"]) auto
      qed
    qed
    moreover have "pinned_by (bt_insert start run m) b" if "unat start \<le> b" "b < unat start + unat n"
      using that big(1) bt_insert_there[of start run m] unfolding pinned_by_def by (intro bexI[of _ "(start, run)"]) auto
    moreover have "pinned_by m b \<or> b \<in> {unat start ..< unat start + unat n}" if p: "pinned_by (bt_insert start run m) b" for b
    proof (rule ccontr)
      assume no: "\<not> (pinned_by m b \<or> b \<in> {unat start ..< unat start + unat n})"
      obtain st x where x: "(st, x) \<in> set (bt_insert start run m)" "unat st \<le> b" "b < unat st + unat (pr_count x)"
        using p by (auto simp: pinned_by_def)
      then have "(st, x) \<notin> set m" using no by (auto simp: pinned_by_def)
      then have e: "st = start" "x = run" using x(1) bt_insert_sub[of start run m] by auto
      have "\<not> b < unat start + unat n" using no x(2) e(1) by auto
      then obtain old where old: "bt_get m start = Some old" "b < unat start + unat (pr_count old)"
        using x(3) e by (cases "bt_get m start") (auto simp: run_def max_def split: if_splits)
      then have "pinned_by m b" using bt_get_mem[OF old(1)] x(2) e(1) unfolding pinned_by_def by (intro bexI[of _ "(start, old)"]) auto
      then show False using no by simp
    qed
    moreover have "pins_fit (bt_insert start run m)" if "pins_fit m"
    proof -
      have "unat start + unat (pr_count run) < 2 ^ 64"
        using assms(2) that bt_get_mem[of m start] by (cases "bt_get m start") (auto simp: run_def pins_fit_def max_def)
      then show ?thesis using that bt_insert_sub[of start run m] unfolding pins_fit_def by fast
    qed
    ultimately show ?thesis using io' t unfolding pins_grow_def by auto
  qed
  then show "pins_grow {unat start ..< unat start + unat n} io io'" "r = Ok () \<Longrightarrow> io_handle io \<noteq> None \<Longrightarrow> unat start \<le> b \<Longrightarrow> b < unat start + unat n \<Longrightarrow> pinned_by (io_pins io') b"
    by blast+
qed

section \<open>One run\<close>

definition free_result :: "Ext4 \<Rightarrow> nat set \<Rightarrow> bool \<Rightarrow> Ext4 \<Rightarrow> nat set \<Rightarrow> bool" where
  "free_result fs run ok fs' freed \<longleftrightarrow>
     fs_ok fs' \<and> sb_counts (sb_of fs) (sb_of fs') \<and> freed \<subseteq> run \<and> fs_free fs' = fs_free fs \<union> freed \<and> pins_grow run (fs_io fs) (fs_io fs') \<and>
     (ok \<longrightarrow> freed = run \<and> unat (sb_free_blocks_count (sb_of fs')) = unat (sb_free_blocks_count (sb_of fs)) + card (run - fs_free fs) \<and>
       (io_handle (fs_io fs) \<noteq> None \<longrightarrow> (\<forall>b\<in>run. pinned_by (io_pins (fs_io fs')) b)))"

lemma sb_counts_trans:
  assumes "sb_counts a b" "sb_counts b c"
  shows "sb_counts a c"
proof -
  obtain nb ni orphan where "c = b\<lparr> sb_free_blocks_count := nb, sb_free_inodes_count := ni, sb_last_orphan := orphan \<rparr>"
    "nb \<le> sb_blocks_count b" "ni \<le> sb_inodes_count b" using assms(2) by (auto simp: sb_counts_def)
  then show ?thesis using assms(1) unfolding sb_counts_def by (intro exI[of _ nb] exI[of _ ni] exI[of _ orphan]) auto
qed

lemma sb_counts_refl: "fs_ok fs \<Longrightarrow> sb_counts (sb_of fs) (sb_of fs)"
  unfolding sb_counts_def by (intro exI[of _ "sb_free_blocks_count (sb_of fs)"] exI[of _ "sb_free_inodes_count (sb_of fs)"]
      exI[of _ "sb_last_orphan (sb_of fs)"]) (simp add: fs_ok_def sb_ok_def)

lemma free_result_trans:
  assumes "free_result fs run1 True fs1 run1" "free_result fs1 run2 ok fs2 freed2" "finite run1" "finite run2"
  shows "free_result fs (run1 \<union> run2) ok fs2 (run1 \<union> freed2)"
proof -
  have "(run1 \<union> run2) - fs_free fs = (run1 - fs_free fs) \<union> (run2 - (fs_free fs \<union> run1))" by auto
  moreover have "card ((run1 - fs_free fs) \<union> (run2 - (fs_free fs \<union> run1))) = card (run1 - fs_free fs) + card (run2 - (fs_free fs \<union> run1))"
    using assms(3,4) by (intro card_Un_disjoint) auto
  ultimately have c: "card ((run1 \<union> run2) - fs_free fs) = card (run1 - fs_free fs) + card (run2 - (fs_free fs \<union> run1))" by simp
  have "sb_counts (sb_of fs) (sb_of fs2)" using assms(1,2) sb_counts_trans unfolding free_result_def by blast
  moreover have "pins_grow (run1 \<union> run2) (fs_io fs) (fs_io fs2)"
    using assms(1,2) pins_grow_trans[OF pins_grow_mono pins_grow_mono] unfolding free_result_def by blast
  ultimately show ?thesis using assms(1,2) c unfolding free_result_def pins_grow_def by auto
qed

lemma inc_free_blocks_fs:
  assumes "fs_ok fs" "sb_step fs (\<lambda>sb. inc_free_blocks sb n) = (r, fs')"
  shows "sb_counts (sb_of fs) (sb_of fs')" "block_groups fs' = block_groups fs" "fs_io fs' = fs_io fs" "fs_ok fs'" "fs_free fs' = fs_free fs"
    "r = Ok () \<Longrightarrow> unat (sb_free_blocks_count (sb_of fs')) = unat (sb_free_blocks_count (sb_of fs)) + unat n"
proof -
  obtain sb where sb: "inc_free_blocks (sb_of fs) n = (r, sb)" "fs' = fs\<lparr> super_block := deref_mut (\<lambda>_. sb) (super_block fs) \<rparr>"
    using assms(2) by (auto simp: sb_step_def split: prod.splits)
  have le: "sb_free_blocks_count (sb_of fs) \<le> sb_blocks_count (sb_of fs)" "sb_free_inodes_count (sb_of fs) \<le> sb_inodes_count (sb_of fs)"
    using assms(1) by (simp_all add: fs_ok_def sb_ok_def)
  show cnt: "sb_counts (sb_of fs) (sb_of fs')"
    using sb le unfolding sb_counts_def
    by (intro exI[of _ "sb_free_blocks_count (sb_of fs')"] exI[of _ "sb_free_inodes_count (sb_of fs)"] exI[of _ "sb_last_orphan (sb_of fs)"])
      (auto simp: inc_free_blocks_def deref_mut_def Let_def not_less split: if_splits)
  from fs_ok_sb[OF assms(1) this] sb(2) show "block_groups fs' = block_groups fs" "fs_io fs' = fs_io fs" "fs_ok fs'" "fs_free fs' = fs_free fs"
    by simp_all
  show "r = Ok () \<Longrightarrow> unat (sb_free_blocks_count (sb_of fs')) = unat (sb_free_blocks_count (sb_of fs)) + unat n"
  proof -
    assume "r = Ok ()"
    then have "\<not> sb_free_blocks_count (sb_of fs) + n < n" "sb_of fs' = (sb_of fs)\<lparr> sb_free_blocks_count := sb_free_blocks_count (sb_of fs) + n \<rparr>"
      using sb by (auto simp: inc_free_blocks_def deref_mut_def Let_def split: if_splits)
    then show ?thesis using unat_bound[of "sb_free_blocks_count (sb_of fs)"]
      by (simp add: word_less_nat_alt unat_plus_if_size word_size not_less split: if_splits)
  qed
qed

lemma run_in_group:
  assumes "fs_ok fs" "i < length (block_groups fs)" "run \<subseteq> {unat (first_block (grp fs i))..unat (last_block (grp fs i))}"
  shows "run - fs_free fs = run - free_blocks_of (grp fs i)"
proof -
  have "b \<in> free_blocks_of (grp fs i)" if b: "b \<in> run" "b \<in> fs_free fs" for b
  proof -
    obtain j where j: "j < length (block_groups fs)" "b \<in> free_blocks_of (grp fs j)" using b(2) by (auto simp: fs_free_def)
    have "j = i" using group_unique[OF assms(1) j(1) assms(2)] free_in_group[OF assms(1) j] assms(3) b(1) by auto
    then show ?thesis using j(2) by simp
  qed
  then show ?thesis using free_sub_fs[OF assms(2)] by auto
qed

lemma free_run_body_result:
  assumes "fs_ok fs" "gi < length (block_groups fs)" "free_run_body gi cur st n fs = (r, fs')"
    and "0 < unat n" "unat st + unat n \<le> group_size (grp fs gi)" "unat cur = unat (first_block (grp fs gi)) + unat st"
  defines "run \<equiv> {unat cur ..< unat cur + unat n}"
  shows "\<exists>freed. free_result fs run (r = Ok ()) fs' freed"
proof -
  note ok = fs_okD[OF assms(1,2)]
  obtain a g' io where fr: "BlockGroup_free_blocks (grp fs gi) (fs_io fs) st (st + n) = (a, g', io)" by (metis prod_cases3)
  have run: "run = {unat (first_block (grp fs gi)) + unat st ..< unat (first_block (grp fs gi)) + unat st + unat n}"
    by (simp add: run_def assms(6))
  obtain freed where out: "free_outcome (grp fs gi) run a g' freed"
    using free_blocks_outcome[OF ok(1,2) fr assms(4,5)] unfolding run by blast
  define fs1 where "fs1 = fs\<lparr> block_groups := (block_groups fs)[gi := g'], fs_io := io \<rparr>"
  have at: "at_group fs gi (\<lambda>g io. BlockGroup_free_blocks g io st (st + n)) = (a, fs1)" using assms(2) fr by (simp add: at_group_def fs1_def)
  have fs1: "fs_ok fs1" "fs_free fs1 = (fs_free fs - free_blocks_of (grp fs gi)) \<union> free_blocks_of g'"
    using put_group[OF assms(1,2)] out by (simp_all add: fs1_def free_outcome_def)
  have free1: "fs_free fs1 = fs_free fs \<union> freed" "freed \<subseteq> run"
    using fs1(2) out free_sub_fs[OF assms(2)] by (auto simp: free_outcome_def)
  have rng: "run \<subseteq> {unat (first_block (grp fs gi))..unat (last_block (grp fs gi))}"
    using assms(5) ok(1) unfolding run by (auto simp: group_size_def group_ok_def)
  note cnt = run_in_group[OF assms(1,2) rng]
  have g1: "pins_grow run (fs_io fs) (fs_io fs1)" using frame_grows[OF group_free_frame[OF fr]] by (simp add: fs1_def)
  have sb1: "sb_of fs1 = sb_of fs" by (simp add: fs1_def)
  have fail: "free_result fs run False fs2 freed" if "fs_ok fs2" "fs_free fs2 = fs_free fs1" "sb_counts (sb_of fs) (sb_of fs2)" "pins_grow run (fs_io fs) (fs_io fs2)" for fs2
    using that free1 by (simp add: free_result_def)
  show ?thesis
  proof (cases a)
    case (Inl err)
    then have "r = Inl err" "fs' = fs1" using assms(3) at by (simp_all add: free_run_body_def)
    then show ?thesis using fail[OF fs1(1) refl _ g1] sb_counts_refl[OF assms(1)] sb1 by auto
  next
    case (Inr k)
    have k: "freed = run" "unat k = card (run - fs_free fs)" using out Inr cnt by (simp_all add: free_outcome_def)
    obtain r2 io2 where pin: "io_pin_freed_run (fs_io fs1) cur n = (r2, io2)" by fastforce
    have "unat cur + unat n < 2 ^ 64" using assms(5,6) ok(1) by (auto simp: group_size_def group_ok_def)
    note pr = io_pin_result[OF pin this]
    define fs2 where "fs2 = fs1\<lparr> fs_io := io2 \<rparr>"
    have g2: "pins_grow run (fs_io fs) (fs_io fs2)" using pins_grow_trans[OF g1 pr(1)[folded run_def]] by (simp add: fs2_def)
    have fs2: "fs_ok fs2" "fs_free fs2 = fs_free fs1" "sb_of fs2 = sb_of fs" using fs1(1) sb1 by (simp_all add: fs2_def)
    show ?thesis
    proof (cases r2)
      case (Inl err)
      then have "r = Inl err" "fs' = fs2" using assms(3) at Inr pin by (simp_all add: free_run_body_def fs2_def)
      then show ?thesis using fail[OF fs2(1,2) _ g2] sb_counts_refl[OF assms(1)] fs2(3) by auto
    next
      case ok2: (Inr u)
      have pinned: "pinned_by (io_pins io2) b" if "b \<in> run" "io_handle (fs_io fs) \<noteq> None" for b
        using pr(2)[of b] ok2 that g1 by (auto simp: run_def pins_grow_def fs1_def)
      show ?thesis
      proof (cases "k > 0")
        case False
        then have "r = Ok ()" "fs' = fs2" using assms(3) at Inr pin ok2 by (simp_all add: free_run_body_def fs2_def)
        moreover have "card (run - fs_free fs) = 0" using False k(2) by (simp add: word_less_nat_alt)
        ultimately have "free_result fs run True fs2 run"
          using fs2 free1 k(1) g2 pinned sb_counts_refl[OF assms(1)] unfolding free_result_def by (simp add: fs2_def)
        then show ?thesis using \<open>r = Ok ()\<close> \<open>fs' = fs2\<close> by auto
      next
        case True
        obtain r3 fs3 where inc: "sb_step fs2 (\<lambda>sb. inc_free_blocks sb (ucast k)) = (r3, fs3)" by fastforce
        note ic = inc_free_blocks_fs[OF fs2(1) inc]
        have g3: "pins_grow run (fs_io fs) (fs_io fs3)" using g2 ic(3) by simp
        have c3: "sb_counts (sb_of fs) (sb_of fs3)" using ic(1) fs2(3) by simp
        show ?thesis
        proof (cases r3)
          case (Inl err)
          then have "r = Inl err" "fs' = fs3" using assms(3) at Inr pin ok2 True inc by (simp_all add: free_run_body_def fs2_def)
          then show ?thesis using fail[of fs3] ic(4,5) fs2(2) c3 g3 by auto
        next
          case ok3: (Inr u3)
          obtain r4 fs4 where cap: "sb_capture fs3 (sb_last_orphan (sb_of fs3)) = (r4, fs4)" by fastforce
          obtain io4 where fs4: "fs4 = fs3\<lparr> fs_io := io4 \<rparr>" using sb_capture_fs[OF cap] by blast
          have res: "r = r4" "fs' = fs4" using assms(3) at Inr pin ok2 True inc ok3 cap by (simp_all add: free_run_body_def fs2_def)
          have fr4: "io_frame (fs_io fs3) (fs_io fs4)" by (rule sb_capture_frame[OF cap])
          have g4: "pins_grow run (fs_io fs) (fs_io fs4)" using pins_grow_trans[OF g3 frame_grows[OF fr4]] .
          have "unat (sb_free_blocks_count (sb_of fs4)) = unat (sb_free_blocks_count (sb_of fs)) + card (run - fs_free fs)"
            using ic(6) ok3 fs4 fs2(3) k(2) by (simp add: unat_ucast_up)
          moreover have "io_pins (fs_io fs4) = io_pins io2" using fr4 ic(3) by (simp add: io_frame_def fs2_def)
          ultimately have "free_result fs run (r = Ok ()) fs4 run"
            using fs4 ic(4,5) fs2(2) free1 k(1) g4 c3 pinned unfolding free_result_def by simp
          then show ?thesis using res(2) by auto
        qed
      qed
    qed
  qed
qed

section \<open>The loop over the groups\<close>

definition in_volume :: "Ext4 \<Rightarrow> Ext4Bid \<Rightarrow> u32 \<Rightarrow> bool" where
  "in_volume fs start cnt \<longleftrightarrow>
     unat (sb_first_data_block (sb_of fs)) \<le> unat start \<and> unat start + unat cnt \<le> unat (sb_blocks_count (sb_of fs))"

lemma group_of_block:
  assumes "fs_ok fs" "unat (sb_first_data_block (sb_of fs)) \<le> unat cur" "unat cur < unat (sb_blocks_count (sb_of fs))"
  defines "gi \<equiv> unat ((cur - sb_first_data_block (sb_of fs)) div ucast (sb_nr_blocks_per_group (sb_of fs)))"
  shows "gi < length (block_groups fs)" "unat (first_block (grp fs gi)) \<le> unat cur" "unat cur \<le> unat (last_block (grp fs gi))"
proof -
  define fdb bpg n where "fdb = unat (sb_first_data_block (sb_of fs))" and "bpg = unat (sb_nr_blocks_per_group (sb_of fs))"
    and "n = unat (sb_nr_block_groups (sb_of fs))"
  have ok: "0 < bpg" "unat (sb_blocks_count (sb_of fs)) \<le> fdb + n * bpg" "length (block_groups fs) = n"
    using assms(1) by (simp_all add: fs_ok_def sb_ok_def bpg_def fdb_def n_def)
  have gi: "gi = (unat cur - fdb) div bpg"
    using assms(2) by (simp add: gi_def fdb_def bpg_def unat_div unat_sub_small word_le_nat_alt unat_ucast_up)
  have "unat cur - fdb < n * bpg" using assms(2,3) ok(2) by (simp add: fdb_def)
  then show l: "gi < length (block_groups fs)" using ok by (simp add: gi less_mult_imp_div_less)
  have q: "gi * bpg \<le> unat cur - fdb" "unat cur - fdb < (gi + 1) * bpg"
    using ok(1) by (simp_all add: gi div_times_less_eq_dividend dividend_less_div_times add.commute)
  then show "unat (first_block (grp fs gi)) \<le> unat cur" "unat cur \<le> unat (last_block (grp fs gi))"
    using fs_okD(3)[OF assms(1) l] assms(2,3) unfolding group_placed_def fdb_def[symmetric] bpg_def[symmetric] by linarith+
qed

lemma free_result_start:
  assumes "free_result (fs\<lparr> fs_io := io \<rparr>) run ok fs' freed" "io_frame (fs_io fs) io"
  shows "free_result fs run ok fs' freed"
  using assms by (auto simp: free_result_def pins_grow_def io_frame_def)

lemma free_result_aborted:
  assumes "free_result fs run ok fs' freed"
  shows "free_result fs run ok (fs'\<lparr> fs_io := abort_journal_on_fs_error (fs_io fs') \<rparr>) freed"
  using assms abort_frame[of "fs_io fs'"] by (auto simp: free_result_def pins_grow_def io_frame_def)

lemma free_result_widen: "free_result fs run ok fs' freed \<Longrightarrow> run \<subseteq> run' \<Longrightarrow> free_result fs run' False fs' freed"
  by (auto simp: free_result_def intro: pins_grow_mono)

lemma free_result_nothing: "fs_ok fs \<Longrightarrow> io_frame (fs_io fs) io \<Longrightarrow> free_result fs run False (fs\<lparr> fs_io := io \<rparr>) {}"
  using frame_grows[of "fs_io fs" io] by (simp add: free_result_def sb_counts_refl)

text \<open>One round works on the part of the run that lies in the group of its first block.\<close>

lemma free_one_run_shape:
  assumes "fs_ok fs" "in_volume fs cur left" "left \<noteq> 0"
  obtains gi st n where "gi < length (block_groups fs)" "unat cur = unat (first_block (grp fs gi)) + unat st"
    "unat n = min (unat left) (group_size (grp fs gi) - unat st)" "0 < unat n" "unat st + unat n \<le> group_size (grp fs gi)"
    "free_one_run duty cur left fs =
       st_bind (if duty then (let (r, io) = io_discharge (fs_io fs) cur n in (r, fs\<lparr> fs_io := io \<rparr>)) else (Ok (), fs)) (\<lambda>_ fs.
       st_bind (abort_on_error (free_run_body gi cur st n fs)) (\<lambda>_ fs. (Ok n, fs)))"
proof -
  define gi where "gi = unat ((cur - sb_first_data_block (sb_of fs)) div ucast (sb_nr_blocks_per_group (sb_of fs)))"
  define g where "g = grp fs gi"
  have l: "0 < unat left" using assms(3) by (simp add: unat_gt_0)
  have gi: "gi < length (block_groups fs)" "unat (first_block g) \<le> unat cur" "unat cur \<le> unat (last_block g)"
    using group_of_block[OF assms(1), of cur] assms(2) l by (simp_all add: gi_def g_def in_volume_def)
  have gok: "unat (first_block g) \<le> unat (last_block g)" "unat (last_block g) + 1 < 2 ^ 64" "group_size g \<le> 8 * BLOCK_SIZE"
    using fs_okD(1)[OF assms(1) gi(1)] by (simp_all add: g_def group_ok_def)
  define gsize st n where "gsize = (ucast (last_block g - first_block g + 1) :: u32)" and "st = (ucast (cur - first_block g) :: u32)"
    and "n = min left (gsize - st)"
  have small: "group_size g < 2 ^ 32" using gok(3) by (simp add: BLOCK_SIZE_def)
  have "unat (last_block g - first_block g + 1) = group_size g"
    using gok by (simp add: group_size_def unat_word_ariths unat_sub_small word_le_nat_alt)
  then have gs: "unat gsize = group_size g" using small unfolding gsize_def by (subst unat_ucast_small) simp_all
  have "unat (cur - first_block g) = unat cur - unat (first_block g)" using gi(2) by (simp add: unat_sub_small word_le_nat_alt)
  moreover have "unat cur - unat (first_block g) < group_size g" using gi by (simp add: group_size_def)
  ultimately have st: "unat st = unat cur - unat (first_block g)" "unat st < group_size g"
    using small unfolding st_def by (subst unat_ucast_small; simp)+
  have "unat (gsize - st) = group_size g - unat st" using gs st(2) by (simp add: unat_sub_small word_le_nat_alt)
  then have n: "unat n = min (unat left) (group_size g - unat st)" by (auto simp: n_def min_def word_le_nat_alt)
  have "free_one_run duty cur left fs =
       st_bind (if duty then (let (r, io) = io_discharge (fs_io fs) cur n in (r, fs\<lparr> fs_io := io \<rparr>)) else (Ok (), fs)) (\<lambda>_ fs.
       st_bind (abort_on_error (free_run_body gi cur st n fs)) (\<lambda>_ fs. (Ok n, fs)))"
    using gi(1) by (cases duty) (simp_all add: free_one_run_def Let_def gi_def[symmetric] g_def[symmetric] gsize_def st_def n_def)
  then show ?thesis using that[of gi st n] gi(1,2) st n l by (simp add: g_def)
qed

lemma free_one_run_result:
  assumes "fs_ok fs" "in_volume fs cur left" "left \<noteq> 0" "free_one_run duty cur left fs = (r, fs')"
  shows "case r of
       Inl _ \<Rightarrow> \<exists>freed. free_result fs {unat cur ..< unat cur + unat left} False fs' freed
     | Inr n \<Rightarrow> 0 < unat n \<and> unat n \<le> unat left \<and>
         free_result fs {unat cur ..< unat cur + unat n} True fs' {unat cur ..< unat cur + unat n}"
proof -
  obtain gi st n where gi: "gi < length (block_groups fs)" and cur: "unat cur = unat (first_block (grp fs gi)) + unat st"
    and nn: "unat n = min (unat left) (group_size (grp fs gi) - unat st)" "0 < unat n" "unat st + unat n \<le> group_size (grp fs gi)"
    and step: "free_one_run duty cur left fs =
       st_bind (if duty then (let (r, io) = io_discharge (fs_io fs) cur n in (r, fs\<lparr> fs_io := io \<rparr>)) else (Ok (), fs)) (\<lambda>_ fs.
       st_bind (abort_on_error (free_run_body gi cur st n fs)) (\<lambda>_ fs. (Ok n, fs)))"
    by (rule free_one_run_shape[OF assms(1-3)])
  obtain r1 fs1 where dis: "(if duty then (let (r, io) = io_discharge (fs_io fs) cur n in (r, fs\<lparr> fs_io := io \<rparr>)) else (Ok (), fs)) = (r1, fs1)"
    by fastforce
  then obtain io1 where fs1: "fs1 = fs\<lparr> fs_io := io1 \<rparr>" "io_frame (fs_io fs) io1"
    by (cases duty) (auto split: prod.splits dest: io_discharge_frame intro: that[of "fs_io fs"])
  have one: "st_bind (r1, fs1) (\<lambda>_ fs. st_bind (abort_on_error (free_run_body gi cur st n fs)) (\<lambda>_ fs. (Ok n, fs))) = (r, fs')"
    using assms(4) unfolding step dis .
  show ?thesis
  proof (cases r1)
    case (Inl e)
    then have "r = Inl e" "fs' = fs1" using one by simp_all
    then show ?thesis using free_result_nothing[OF assms(1) fs1(2)] fs1(1) by auto
  next
    case (Inr u)
    obtain r2 fs2 where body: "free_run_body gi cur st n fs1 = (r2, fs2)" by fastforce
    have fs1': "fs_ok fs1" "gi < length (block_groups fs1)" and g1: "grp fs1 gi = grp fs gi" using assms(1) gi fs1(1) by simp_all
    note free_run_body_result[OF fs1' body nn(2), unfolded g1, OF nn(3) cur]
    then obtain freed where f: "free_result fs {unat cur ..< unat cur + unat n} (r2 = Ok ()) fs2 freed"
      using free_result_start fs1 by blast
    show ?thesis
    proof (cases r2)
      case e: (Inl e)
      then have "r = Inl e" "fs' = fs2\<lparr> fs_io := abort_journal_on_fs_error (fs_io fs2) \<rparr>"
        using one Inr body by (simp_all add: abort_on_error_def)
      moreover have "{unat cur ..< unat cur + unat n} \<subseteq> {unat cur ..< unat cur + unat left}" using nn(1) by auto
      ultimately show ?thesis using free_result_widen[OF free_result_aborted[OF f]] e by (simp, blast)
    next
      case (Inr v)
      then have "r = Ok n" "fs' = fs2" using one \<open>r1 = Inr u\<close> body by (simp_all add: abort_on_error_def)
      moreover have "freed = {unat cur ..< unat cur + unat n}" using f Inr by (simp add: free_result_def)
      ultimately show ?thesis using nn f Inr by simp
    qed
  qed
qed

lemma free_result_volume: "free_result fs run ok fs' freed \<Longrightarrow> sb_blocks_count (sb_of fs') = sb_blocks_count (sb_of fs) \<and>
    sb_first_data_block (sb_of fs') = sb_first_data_block (sb_of fs)"
  by (auto simp: free_result_def sb_counts_def)

lemma free_runs_result:
  assumes "fs_ok fs" "in_volume fs cur left"
  shows "\<exists>r fs' freed. free_runs duty cur left fs = Some (r, fs') \<and> free_result fs {unat cur ..< unat cur + unat left} (r = Ok ()) fs' freed"
  using assms
proof (induction "unat left" arbitrary: cur left fs rule: less_induct)
  case less
  show ?case
  proof (cases "left = 0")
    case True
    then have "free_runs duty cur left fs = Some (Ok (), fs)" by (subst free_runs.simps) simp
    moreover have "free_result fs {unat cur ..< unat cur + unat left} True fs {}"
      using True less.prems(1) by (simp add: free_result_def sb_counts_refl frame_grows)
    ultimately show ?thesis by auto
  next
    case False
    obtain r1 fs1 where one: "free_one_run duty cur left fs = (r1, fs1)" by fastforce
    note res = free_one_run_result[OF less.prems False one]
    show ?thesis
    proof (cases r1)
      case (Inl e)
      then have "free_runs duty cur left fs = Some (Inl e, fs1)" using False one by (subst free_runs.simps) simp
      then show ?thesis using res Inl by auto
    next
      case (Inr n)
      let ?A = "{unat cur ..< unat cur + unat n}"
      have n: "0 < unat n" "unat n \<le> unat left" and f: "free_result fs ?A True fs1 ?A" using res Inr by simp_all
      have left': "unat (left - n) = unat left - unat n" using n(2) by (simp add: unat_sub_small word_le_nat_alt)
      have "unat cur + unat n < 2 ^ 64"
        using less.prems(2) n(2) unat_bound[of "sb_blocks_count (sb_of fs)"] by (simp add: in_volume_def)
      then have cur': "unat (cur + ucast n) = unat cur + unat n" by (simp add: unat_word_ariths unat_ucast_up)
      have "fs_ok fs1" using f by (simp add: free_result_def)
      moreover have "in_volume fs1 (cur + ucast n) (left - n)"
        using less.prems(2) free_result_volume[OF f] n left' cur' by (simp add: in_volume_def)
      moreover have "unat (left - n) < unat left" using left' n by simp
      ultimately obtain r fs' freed where rest: "free_runs duty (cur + ucast n) (left - n) fs1 = Some (r, fs')"
        "free_result fs1 {unat (cur + ucast n) ..< unat (cur + ucast n) + unat (left - n)} (r = Ok ()) fs' freed"
        using less.hyps by blast
      have "free_runs duty cur left fs = Some (r, fs')" using False one Inr rest(1) by (subst free_runs.simps) simp
      moreover have "?A \<union> {unat (cur + ucast n) ..< unat (cur + ucast n) + unat (left - n)} = {unat cur ..< unat cur + unat left}"
        using cur' left' n by auto
      ultimately show ?thesis using free_result_trans[OF f rest(2)] by auto
    qed
  qed
qed

end
