(* ===== verification/Fs_Live.thy ===== *)
theory Fs_Live
  imports Fs_Free
begin

text \<open>
  When the allocators of \<open>fs.rs\<close> succeed.  An operation that runs without a handle, or under a
  handle with enough reserved credits on a readable device, gets every capture it asks for; then
  a free of a run outside the group metadata succeeds, and an allocation succeeds as soon as a
  block is free and no free is pinned.
\<close>

section \<open>Captures that succeed\<close>

definition io_ready :: "MetaIo \<Rightarrow> nat \<Rightarrow> bool" where
  "io_ready io n \<longleftrightarrow> (case io_handle io of
       None \<Rightarrow> True
     | Some h \<Rightarrow> (\<exists>j txn. io_journal io = Some j \<and> running (jstate j) = Some txn \<and> t_tid txn = h_tid h) \<and>
         n \<le> remaining h \<and> (\<forall>b. \<not> bad_read (io_dev io) b))"

lemma io_ready_less: "io_ready io n \<Longrightarrow> m \<le> n \<Longrightarrow> io_ready io m"
  by (auto simp: io_ready_def split: option.splits)

lemma capture_write_ready:
  assumes "\<not> bad_read d bid"
  obtains gen txn' c where "capture_write txn bid seed d = (Ok gen, txn')" "t_tid txn' = t_tid txn"
    "bt_get (metadata txn') bid = Some c" "generation c = gen"
  using assms that
  by (cases "bt_get (metadata txn) bid"; cases seed) (auto simp: capture_write_def Let_def mint_capture_generation_def read_block_def)

lemma io_write_access_ready:
  assumes "io_ready io (Suc n)"
  obtains a io' where "io_write_access io bid = (Ok a, io')" "io_ready io' n"
    "\<And>f. \<exists>io''. io_patch io' a f = (Ok (), io'') \<and> io_ready io'' n"
proof (cases "io_handle io")
  case None
  then show ?thesis using that[of None io] by (simp add: io_write_access_def io_patch_def io_ready_def)
next
  case (Some h)
  then obtain j txn where t: "io_journal io = Some j" "running (jstate j) = Some txn" "t_tid txn = h_tid h" "Suc n \<le> remaining h"
    "\<And>b. \<not> bad_read (io_dev io) b" using assms by (auto simp: io_ready_def)
  obtain gen txn1 c where c: "capture_write txn bid (capture_seed (jstate j) (locking (jstate j)) bid) (io_dev io) = (Ok gen, txn1)"
    "t_tid txn1 = t_tid txn" "bt_get (metadata txn1) bid = Some c" "generation c = gen"
    by (rule capture_write_ready[OF t(5)])
  define fresh where "fresh \<longleftrightarrow> \<not> is_captured txn bid"
  define txn2 where "txn2 = (if fresh then consume_reserved_credit txn1 else txn1)"
  define h2 where "h2 = (if fresh then spend_one_credit h else h)"
  define j2 where "j2 = set_state j ((jstate j)\<lparr> running := Some txn2 \<rparr>)"
  define a where "a = Some \<lparr> la_tid = h_tid h, la_bid = bid, la_generation = gen \<rparr>"
  define io2 where "io2 = io\<lparr> io_handle := Some h2, io_journal := Some j2 \<rparr>"
  have ht: "h_tid h2 = h_tid h" "n \<le> remaining h2" using t(4) by (auto simp: h2_def spend_one_credit_def)
  have t2: "t_tid txn2 = h_tid h" "bt_get (metadata txn2) bid = Some c" using c t(3) by (auto simp: txn2_def consume_reserved_credit_def)
  have "charge_fresh_capture (geometry j) txn1 h = (Ok (), consume_reserved_credit txn1, spend_one_credit h)"
    using t(4) by (simp add: charge_fresh_capture_def)
  then have "io_write_access io bid = (Ok a, io2)"
    using Some t c by (auto simp: io_write_access_def get_write_access_def get_write_access_live_def active_txn_mut_def finish_access_def
        put_active_def Let_def a_def io2_def j2_def h2_def txn2_def fresh_def)
  moreover have "io_ready io2 n" using ht t2 t(5) by (simp add: io_ready_def io2_def j2_def set_state_def)
  moreover have "\<exists>io''. io_patch io2 a f = (Ok (), io'') \<and> io_ready io'' n" for f
    using ht t2 t(5) c(4)
    by (simp add: io_patch_def io2_def a_def WriteAccess_patch_def active_for_def active_txn_mut_def j2_def set_state_def apply_patch_def
        put_active_def io_ready_def)
  ultimately show ?thesis by (rule that)
qed

lemma io_update_ready:
  assumes "io_ready io (Suc n)"
  obtains io' where "io_update io bid f = (Ok (), io')" "io_ready io' n"
proof -
  obtain a io1 where "io_write_access io bid = (Ok a, io1)" "\<exists>io''. io_patch io1 a f = (Ok (), io'') \<and> io_ready io'' n"
    by (rule io_write_access_ready[OF assms]) blast
  then show ?thesis using that by (auto simp: io_update_def)
qed

lemma active_ready: "io_ready io n \<Longrightarrow> io_handle io = Some h \<Longrightarrow>
    \<exists>j txn. io_journal io = Some j \<and> running (jstate j) = Some txn \<and> t_tid txn = h_tid h \<and> active_for (jstate j) h = Ok txn"
  by (auto simp: io_ready_def active_for_def active_txn_mut_def)

lemma io_discharge_ready:
  assumes "io_ready io n"
  obtains io' where "io_discharge io start cnt = (Ok (), io')" "io_ready io' n"
proof (cases "io_handle io")
  case None
  then show ?thesis using that[of io] assms by (simp add: io_discharge_def)
next
  case (Some h)
  obtain j txn where t: "io_journal io = Some j" "running (jstate j) = Some txn" "t_tid txn = h_tid h" "active_for (jstate j) h = Ok txn"
    using active_ready[OF assms Some] by blast
  have "t_tid (foldl forget_block txn bids) = t_tid txn" for bids
    by (induction bids arbitrary: txn) (simp_all add: forget_block_def)
  then have "io_ready (snd (io_discharge io start cnt)) n" "fst (io_discharge io start cnt) = Ok ()"
    using Some t assms by (simp_all add: io_discharge_def discharge_def set_state_def put_active_def Let_def io_ready_def)
  then show ?thesis using that by (metis prod.collapse)
qed

lemma io_pin_ready:
  assumes "io_ready io n"
  obtains io' where "io_pin_freed_run io start cnt = (Ok (), io')" "io_ready io' n"
proof (cases "io_handle io")
  case None
  then show ?thesis using that[of io] assms by (simp add: io_pin_freed_run_def)
next
  case (Some h)
  obtain j txn where t: "io_journal io = Some j" "running (jstate j) = Some txn" "t_tid txn = h_tid h" "active_for (jstate j) h = Ok txn"
    using active_ready[OF assms Some] by blast
  then have "io_ready (snd (io_pin_freed_run io start cnt)) n" "fst (io_pin_freed_run io start cnt) = Ok ()"
    using Some assms by (simp_all add: io_pin_freed_run_def pin_freed_run_def set_state_def Let_def io_ready_def)
  then show ?thesis using that by (metis prod.collapse)
qed

section \<open>Groups\<close>

lemma capture_desc_ready:
  assumes "io_ready io (Suc n)"
  obtains io' where "capture_desc g io = (Ok (), io')" "io_ready io' n"
  unfolding capture_desc_def by (rule io_update_ready[OF assms])

lemma group_free_ready:
  assumes "group_ok g" "zone_ok g" "io_ready io (n + 2)" "0 < unat len" "unat st + unat len \<le> group_size g"
    and "\<And>b. unat (first_block g) + unat st \<le> b \<Longrightarrow> b < unat (first_block g) + unat st + unat len \<Longrightarrow> \<not> in_system_zone g b"
  obtains k g' io' where "BlockGroup_free_blocks g io st (st + len) = (Ok k, g', io')" "io_ready io' n"
proof -
  have gs: "group_size g = bm_len (bb g)" "bm_len (bb g) \<le> 32768" "unat (last_block g) + 1 < 2 ^ 64" "block_bitmap_ok (bb g)"
    "unat (first_block g) \<le> unat (last_block g)"
    using assms(1) by (simp_all add: group_ok_def BLOCK_SIZE_def)
  have sn: "unat (st + len) = unat st + unat len" using assms(5) gs by (intro unat_add_small) simp
  have wst: "unat (first_block g + ucast st) = unat (first_block g) + unat st"
    and wen: "unat (first_block g + ucast (st + len)) = unat (first_block g) + unat st + unat len"
    using assms(5) gs by (subst unat_add_small; simp add: unat_ucast_up sn group_size_def)+
  have lt: "first_block g + ucast st < first_block g + ucast (st + len)" using assms(4) by (simp add: word_less_nat_alt wst wen)
  have zone: "\<not> overlaps_system_zone_with g (gdesc g) (first_block g + ucast st, first_block g + ucast (st + len))"
    using overlaps_system_zone_iff[OF assms(2), of "(first_block g + ucast st, first_block g + ucast (st + len))"] lt assms(6)
    by (auto simp: wst wen)
  have rs: "unat (ucast st :: u16) = unat st" "unat (ucast (st + len) :: u16) = unat st + unat len"
    using assms(5) gs sn by (simp_all add: unat_ucast_small)
  obtain b k where b: "free_bits (bb g) [unat st..<unat st + unat len] 0 = Some (b, k)" "k \<le> unat len"
    using free_bits_ok[OF gs(4), of "[unat st..<unat st + unat len]" 0] assms(5) gs(1)
      card_mono[of "{unat st..<unat st + unat len}" "{i \<in> {unat st..<unat st + unat len}. is_allocated (bb g) i}"] by fastforce
  have k: "k \<le> 32768" using b(2) assms(5) gs by simp
  have "unat (gd_free_blocks_count (gdesc g)) \<le> 32768" using assms(1) group_count_small[OF assms(1)] by (simp add: group_ok_def)
  then have noovf: "\<not> gd_free_blocks_count (gdesc g) + word_of_nat k < word_of_nat k"
    using k by (simp add: word_less_nat_alt unat_add_small unat_word_of_nat_small)
  obtain a io1 where acc: "io_write_access io (gd_block_bitmap_bid (gdesc g)) = (Ok a, io1)"
    and pa: "\<And>f. \<exists>io''. io_patch io1 a f = (Ok (), io'') \<and> io_ready io'' (Suc n)"
    by (rule io_write_access_ready[of io "Suc n"]) (use assms(3) in auto)
  have "\<exists>g' io'. BlockGroup_free_blocks g io st (st + len) = (Ok (word_of_nat k), g', io') \<and> io_ready io' n"
  proof -
    define g2 where "g2 = (let g1 = (if k > 0 then g\<lparr> block_bitmap := deref_mut (\<lambda>_. b) (block_bitmap g) \<rparr> else g) in
      g1\<lparr> bg_desc := deref_mut (\<lambda>desc. desc\<lparr> gd_free_blocks_count := gd_free_blocks_count (gdesc g) + word_of_nat k \<rparr>) (bg_desc g1) \<rparr>)"
    obtain io2 where io2: "io_patch io1 a (\<lambda>_. bm_buf (dirty_val (block_bitmap g2))) = (Ok (), io2)" "io_ready io2 (Suc n)" using pa by blast
    obtain io3 where io3: "capture_desc g2 io2 = (Ok (), io3)" "io_ready io3 n" by (rule capture_desc_ready[OF io2(2)])
    have "BlockGroup_free_blocks g io st (st + len) = (Ok (word_of_nat k), g2, io3)"
      using zone acc b(1) noovf io2(1) io3(1)
      by (simp add: BlockGroup_free_blocks_def with_io_def Let_def rs g2_def split del: if_split)
    then show ?thesis using io3(2) by blast
  qed
  then show ?thesis using that by blast
qed

text \<open>The bitmap marks every metadata block of the group that lies inside the group.\<close>

definition zone_marked :: "BlockGroup \<Rightarrow> bool" where
  "zone_marked g \<longleftrightarrow> (\<forall>b \<in> free_blocks_of g. \<not> in_system_zone g b)"

lemma requested_count_pos:
  assumes "group_ok g" "cnt \<noteq> 0" "sbf \<noteq> 0" "free_blocks_of g \<noteq> {}"
  shows "0 < requested_count g cnt sbf" "requested_count g cnt sbf \<le> card (free_blocks_of g)" "requested_count g cnt sbf \<le> unat sbf"
proof -
  define size fc sm where "size = (ucast (last_block g - first_block g + 1) :: u32)" and "fc = gd_free_blocks_count (gdesc g)"
    and "sm = (ucast (min sbf 0xFFFFFFFF) :: u32)"
  have gs: "group_size g \<le> 32768" "unat (first_block g) \<le> unat (last_block g)" "unat (last_block g) + 1 < 2 ^ 64"
    using assms(1) by (simp_all add: group_ok_def BLOCK_SIZE_def)
  have "unat (last_block g - first_block g + 1) = group_size g"
    using gs by (simp add: group_size_def unat_word_ariths unat_sub_small word_le_nat_alt)
  then have size: "unat size = group_size g" "0 < group_size g"
    using gs(1) unfolding size_def by (subst unat_ucast_small) (simp_all add: group_size_def)
  have fc: "unat fc = card (free_blocks_of g)" using assms(1) by (simp add: fc_def group_ok_def card_free_blocks_of)
  have "0 < unat sbf" using assms(3) by (simp add: unat_gt_0)
  then have sm: "0 < unat sm" "unat sm \<le> unat sbf"
    unfolding sm_def by (subst unat_ucast_small; simp add: min_def word_le_nat_alt)+
  define m where "m = min (min (min cnt size) fc) sm"
  have m: "unat m = min (min (min (unat cnt) (unat size)) (unat fc)) (unat sm)" by (auto simp: m_def min_def word_le_nat_alt)
  have "0 < card (free_blocks_of g)" using assms(4) by (simp add: card_gt_0_iff)
  then have pos: "0 < unat m" "unat m \<le> card (free_blocks_of g)" "unat m \<le> unat sbf" "unat m \<le> 32768"
    using m size fc sm gs(1) assms(2) by (auto simp: unat_gt_0)
  have "requested_count g cnt sbf = unat (ucast m :: u16)" by (simp add: requested_count_def m_def size_def fc_def sm_def)
  also have "\<dots> = unat m" using pos(4) by (subst unat_ucast_small) simp_all
  finally show "0 < requested_count g cnt sbf" "requested_count g cnt sbf \<le> card (free_blocks_of g)" "requested_count g cnt sbf \<le> unat sbf"
    using pos by simp_all
qed

text \<open>A request for one block is refused only if every free block is pinned: what the search holds
  are pinned single blocks.\<close>

lemma hold_pinned_held:
  assumes "block_bitmap_ok b" "hold_pinned fuel req pins b held = (r, held', b')" "c \<in> set held'"
  shows "c \<in> set held \<or> hits_pin pins c \<and> snd c = fst c + req"
  using assms
proof (induction fuel arbitrary: b held)
  case (Suc fuel)
  obtain f b1 where al: "alloc_consecutive b req = (f, b1)" by fastforce
  show ?case
  proof (cases f)
    case None
    then show ?thesis using Suc.prems al by simp
  next
    case (Some d)
    obtain s e where d: "d = (s, e)" by fastforce
    note g = bmap.granted[OF Suc.prems(1) al[unfolded Some d]]
    show ?thesis using Suc.IH[of b1 "held @ [d]"] Suc.prems al Some d g by (auto split: if_splits)
  qed
qed simp

lemma search_one_complete:
  assumes "block_bitmap_ok b" "i < bm_len b" "\<not> is_allocated b i" "\<not> (\<exists>p\<in>set pins. fst p \<le> i \<and> i < snd p)"
    and "search_run 1 pins b [] = (r, held, b')"
  shows "r \<noteq> None"
proof
  assume "r = None"
  obtain r1 h1 b1 where hp: "hold_pinned (bm_len b + 1) 1 pins b [] = (r1, h1, b1)" by (metis prod_cases3)
  have "search_run 1 pins b [] = (case r1 of Some c \<Rightarrow> (Some c, h1, b1) | None \<Rightarrow> search_run 0 pins b1 h1)"
    using hp by (subst search_run.simps) (simp split: option.split)
  then have r1: "r1 = None" using assms(5) \<open>r = None\<close> by (cases r1) simp_all
  have "card (free_ids b) < bm_len b + 1" using card_free_ids_le[of b] by simp
  then have no: "alloc_consecutive b1 1 = (None, b1)" using hold_pinned_enough[OF assms(1)] hp r1 by simp
  have h: "bmap.holding b b1 h1" using hold_pinned_spec[OF bmap.holding_start[OF assms(1)] hp] r1 by simp
  then have b1: "block_bitmap_ok b1" "bm_len b1 = bm_len b" "is_allocated b1 i \<longleftrightarrow> covered h1 i"
    using assms(3) by (simp_all add: bmap.holding_def)
  have "is_allocated b1 i"
  proof (rule ccontr)
    assume "\<not> is_allocated b1 i"
    then have "clear_run (bm_buf b1) i (i + 1)" "i + 1 \<le> bm_len b1" using assms(2) b1(2) by (auto simp: clear_run_def is_allocated_def less_Suc_eq)
    moreover have "bitmap_ok b1" using b1(1) by (simp add: block_bitmap_ok_def)
    ultimately show False using alloc_consecutive_None(2)[OF _ no] by auto
  qed
  then obtain c where c: "c \<in> set h1" "fst c \<le> i" "i < snd c" using b1(3) by (auto simp: covered_def)
  then have "hits_pin pins c" "snd c = fst c + 1" using hold_pinned_held[OF assms(1) hp c(1)] by auto
  then show False using c assms(4) by (auto simp: hits_pin_def)
qed

text \<open>A group can serve a request for one block, or any request when nothing in it is pinned, exactly
  when it has a free block that is not pinned.\<close>

definition usable :: "BlockGroup \<Rightarrow> (Ext4Bid \<times> u32) list \<Rightarrow> bool" where
  "usable g pins \<longleftrightarrow> (\<exists>b \<in> free_blocks_of g. \<not> pinned_block pins b)"

lemma group_bit_unpinned:
  assumes "group_ok g" "pins_ok pins" "i < bm_len (bb g)"
  shows "(\<exists>p\<in>set (pinned_bits g pins). fst p \<le> i \<and> i < snd p) \<longleftrightarrow> pinned_block pins (unat (first_block g) + i)"
  using pinned_bits_iff[OF assms(1,2), of i] assms(1,3) by (simp add: group_ok_def)

lemma group_alloc_full:
  assumes "group_ok g" "pins_ok pins" "\<not> usable g pins" "io_ready io (Suc n)"
  obtains g' io' where "BlockGroup_alloc_blocks g io cnt sbf pins = (Ok (NoFit (pinned_bits g pins \<noteq> [])), g', io')" "io_ready io' n"
proof -
  have bok: "block_bitmap_ok (bb g)" using assms(1) by (simp add: group_ok_def)
  obtain found held bm where sr: "search_run (requested_count g cnt sbf) (pinned_bits g pins) (bb g) [] = (found, held, bm)" by (metis prod_cases3)
  have found: "found = None"
  proof (rule ccontr)
    assume "found \<noteq> None"
    then obtain s e where f: "found = Some (s, e)" by auto
    note rel = search_released[OF bok sr]
    have s: "s < e" "e \<le> bm_len (bb g)" "\<not> hits_pin (pinned_bits g pins) (s, e)" using rel(5)[OF f] by auto
    have "\<not> is_allocated (bb g) s" using rel(6)[OF f, of s] s(1) by simp
    then have "unat (first_block g) + s \<in> free_blocks_of g" using s by (simp add: free_blocks_of_def free_ids_def)
    moreover have "\<not> pinned_block pins (unat (first_block g) + s)"
      using group_bit_unpinned[OF assms(1,2), of s] s by (fastforce simp: hits_pin_def)
    ultimately show False using assms(3) by (auto simp: usable_def)
  qed
  have "gd_free_blocks_count (gdesc g) = 0" if "pinned_bits g pins = []"
  proof -
    have "free_blocks_of g = {}"
      using assms(3) that pinned_bits_empty_iff[OF assms(1,2)] free_blocks_of_iff[OF assms(1)] unfolding usable_def by blast
    then show ?thesis using assms(1) card_free_blocks_of[of g] by (simp add: group_ok_def unat_eq_0)
  qed
  moreover obtain a io1 where "io_write_access io (gd_block_bitmap_bid (gdesc g)) = (Ok a, io1)" "io_ready io1 n"
    by (rule io_write_access_ready[OF assms(4)])
  ultimately show ?thesis using that sr found
    by (cases "pinned_bits g pins = []") (auto simp: BlockGroup_alloc_blocks_def with_io_def Let_def)
qed

lemma search_usable:
  assumes "group_ok g" "pins_ok pins" "usable g pins" "cnt \<noteq> 0" "sbf \<noteq> 0" "cnt = 1 \<or> pinned_bits g pins = []"
    and "search_run (requested_count g cnt sbf) (pinned_bits g pins) (bb g) [] = (found, held, bm)"
  shows "found \<noteq> None"
proof -
  have bok: "block_bitmap_ok (bb g)" using assms(1) by (simp add: group_ok_def)
  obtain i where i: "i \<in> free_ids (bb g)" "\<not> pinned_block pins (unat (first_block g) + i)"
    using assms(3) by (auto simp: usable_def free_blocks_of_def)
  then have ne: "free_blocks_of g \<noteq> {}" by (auto simp: free_blocks_of_def)
  note req = requested_count_pos[OF assms(1,4,5) ne]
  from assms(6) show ?thesis
  proof
    assume "cnt = 1"
    then have "requested_count g cnt sbf = 1" using requested_count_le[of g cnt sbf] req(1) by simp
    then show ?thesis
      using search_one_complete[OF bok _ _ _ assms(7)[unfolded \<open>requested_count g cnt sbf = 1\<close>]] i group_bit_unpinned[OF assms(1,2), of i]
      by (auto simp: free_ids_def)
  next
    assume "pinned_bits g pins = []"
    then have "search_run (requested_count g cnt sbf) [] (bb g) [] = (found, held, bm)" using assms(7) by simp
    then show ?thesis using search_run_complete[OF bok _ req(1)] i(1) by blast
  qed
qed

lemma group_alloc_ready:
  assumes "group_ok g" "zone_ok g" "zone_marked g" "pins_ok pins" "usable g pins" "cnt \<noteq> 0" "sbf \<noteq> 0"
    and "cnt = 1 \<or> pinned_bits g pins = []" "io_ready io (n + 2)"
  obtains s e g' io' where "BlockGroup_alloc_blocks g io cnt sbf pins = (Ok (Allocated s e), g', io')" "io_ready io' n" "unat (e - s) \<le> unat sbf"
proof -
  have "free_blocks_of g \<noteq> {}" using assms(5) by (auto simp: usable_def)
  note req = requested_count_pos[OF assms(1,6,7) this]
  have bok: "block_bitmap_ok (bb g)" using assms(1) by (simp add: group_ok_def)
  obtain found held bm where sr: "search_run (requested_count g cnt sbf) (pinned_bits g pins) (bb g) [] = (found, held, bm)" by (metis prod_cases3)
  obtain s e where f: "found = Some (s, e)" using search_usable[OF assms(1,4-8) sr] by auto
  note rel = search_released[OF bok sr]
  note run = rel(5)[OF f]
  have se: "s \<le> e" "e \<le> bm_len (bb g)" using run by auto
  note w = group_run_words[OF assms(1) se]
  have len: "e - s \<le> card (free_blocks_of g)" "e - s \<le> unat sbf" using run req by auto
  have free: "unat (first_block g) + i \<in> free_blocks_of g" if "s \<le> i" "i < e" for i
    using rel(6)[OF f that] that se(2) by (auto simp: free_blocks_of_def free_ids_def)
  have "first_block g + word_of_nat s < first_block g + word_of_nat e" using run by (simp add: word_less_nat_alt w)
  moreover have "\<not> in_system_zone g b" if "unat (first_block g) + s \<le> b" "b < unat (first_block g) + e" for b
    using free[of "b - unat (first_block g)"] that assms(3) by (simp add: zone_marked_def)
  ultimately have zone: "\<not> overlaps_system_zone_with g (gdesc g) (first_block g + word_of_nat s, first_block g + word_of_nat e)"
    using overlaps_system_zone_iff[OF assms(2), of "(first_block g + word_of_nat s, first_block g + word_of_nat e)"] by (auto simp: w)
  have cnt: "\<not> gd_free_blocks_count (gdesc g) < (word_of_nat (e - s) :: u32)" "\<not> sbf < ucast (word_of_nat (e - s) :: u32)"
    using assms(1) len by (simp_all add: word_less_nat_alt w(3) unat_ucast_up group_ok_def card_free_blocks_of)
  obtain a io1 where acc: "io_write_access io (gd_block_bitmap_bid (gdesc g)) = (Ok a, io1)"
    and pa: "\<And>f. \<exists>io''. io_patch io1 a f = (Ok (), io'') \<and> io_ready io'' (Suc n)"
    by (rule io_write_access_ready[of io "Suc n"]) (use assms(9) in auto)
  define g2 where "g2 = (let g1 = g\<lparr> block_bitmap := deref_mut (\<lambda>_. release_held held bm) (block_bitmap g) \<rparr> in
    g1\<lparr> bg_desc := deref_mut (\<lambda>desc.
       let desc1 = desc\<lparr> gd_free_blocks_count := gd_free_blocks_count desc - word_of_nat (e - s) \<rparr> in
       if is_block_uninit desc1 then desc1\<lparr> gd_flags := gd_flags desc1 AND NOT BG_BLOCK_UNINIT \<rparr> else desc1) (bg_desc g1) \<rparr>)"
  obtain io2 where io2: "io_patch io1 a (\<lambda>_. bm_buf (dirty_val (block_bitmap g2))) = (Ok (), io2)" "io_ready io2 (Suc n)" using pa by blast
  obtain io3 where io3: "capture_desc g2 io2 = (Ok (), io3)" "io_ready io3 n" by (rule capture_desc_ready[OF io2(2)])
  have "BlockGroup_alloc_blocks g io cnt sbf pins =
      (Ok (Allocated (first_block g + word_of_nat s) (first_block g + word_of_nat e)), g2, io3)"
    using acc sr f zone cnt io2(1) io3(1) req(1)
    by (simp add: w(4) BlockGroup_alloc_blocks_def with_io_def Let_def g2_def split del: if_split)
  moreover have "unat ((first_block g + word_of_nat e) - (first_block g + word_of_nat s)) \<le> unat sbf"
    using len(2) se(1) by (subst unat_sub_small) (simp_all add: word_le_nat_alt w)
  ultimately show ?thesis using that io3(2) by blast
qed

section \<open>The volume\<close>

lemma sb_capture_ready:
  assumes "io_ready (fs_io fs) (Suc n)"
  obtains io where "sb_capture fs orphan = (Ok (), fs\<lparr> fs_io := io \<rparr>)" "io_ready io n"
proof -
  obtain io where "SuperBlock_journal_capture (sb_of fs) orphan (fs_io fs) = (Ok (), io)" "io_ready io n"
    unfolding SuperBlock_journal_capture_def by (rule io_update_ready[OF assms])
  then show ?thesis using that by (simp add: sb_capture_def)
qed

lemma alloc_ring_ready:
  assumes "fs_ok fs" "pins_ok pins" "set gis \<subseteq> {..<length (block_groups fs)}" "\<forall>i\<in>set gis. zone_marked (grp fs i)"
    and "i \<in> set gis" "usable (grp fs i) pins" "cnt \<noteq> 0" "sb_free_blocks_count (sb_of fs) \<noteq> 0" "cnt = 1 \<or> pins = []"
    and "io_ready (fs_io fs) (length gis + 2)"
  shows "\<exists>s e fs'. alloc_ring cnt (sb_free_blocks_count (sb_of fs)) pins gis pb fs = (Ok (s, e), fs')"
  using assms
proof (induction gis arbitrary: pb fs)
  case (Cons gi gis)
  have gi: "gi < length (block_groups fs)" using Cons.prems(3) by simp
  note ok = fs_okD[OF Cons.prems(1) gi]
  let ?sbf = "sb_free_blocks_count (sb_of fs)" and ?pinned = "pinned_bits (grp fs gi) pins \<noteq> []"
  show ?case
  proof (cases "usable (grp fs gi) pins")
    case False
    have "io_ready (fs_io fs) (Suc (length gis + 2))" using Cons.prems(10) by simp
    then obtain g' io' where al: "BlockGroup_alloc_blocks (grp fs gi) (fs_io fs) cnt ?sbf pins = (Ok (NoFit ?pinned), g', io')" "io_ready io' (length gis + 2)"
      by (rule group_alloc_full[OF ok(1) Cons.prems(2) False])
    obtain taken where out: "alloc_outcome (grp fs gi) cnt pins (Ok (NoFit ?pinned)) g' taken"
      using alloc_blocks_outcome[OF ok(1,2) Cons.prems(2) al(1)] by auto
    define fs1 where "fs1 = fs\<lparr> block_groups := (block_groups fs)[gi := g'], fs_io := io' \<rparr>"
    have g': "free_blocks_of g' = free_blocks_of (grp fs gi)" "same_place (grp fs gi) g'" using out by (simp_all add: alloc_outcome_def)
    have "fs_ok fs1" using put_group(1)[OF Cons.prems(1) gi] out by (simp add: fs1_def alloc_outcome_def)
    moreover have "zone_marked (grp fs1 k)" if "k \<in> set gis" for k
      using that Cons.prems(4) g' gi by (cases "k = gi") (auto simp: fs1_def zone_marked_def same_place_def in_system_zone_def)
    moreover have ne: "i \<noteq> gi" using Cons.prems(6) False by auto
    moreover have "usable (grp fs1 i) pins" using Cons.prems(6) ne by (simp add: fs1_def)
    moreover have "i \<in> set gis" using Cons.prems(5) ne by simp
    ultimately have "\<exists>s e fs'. alloc_ring cnt (sb_free_blocks_count (sb_of fs1)) pins gis (pb \<or> ?pinned) fs1 = (Ok (s, e), fs')"
      using Cons.prems al(2) by (intro Cons.IH) (simp_all add: fs1_def)
    moreover have "at_group fs gi (\<lambda>g io. BlockGroup_alloc_blocks g io cnt ?sbf pins) = (Ok (NoFit ?pinned), fs1)"
      using gi al(1) by (simp add: at_group_def fs1_def)
    ultimately show ?thesis by (simp add: fs1_def)
  next
    case True
    have zm: "zone_marked (grp fs gi)" using Cons.prems(4) by simp
    have np: "cnt = 1 \<or> pinned_bits (grp fs gi) pins = []" using Cons.prems(9) by (auto simp: pinned_bits_def)
    have "io_ready (fs_io fs) (1 + 2)" using io_ready_less[OF Cons.prems(10)] by simp
    then obtain s e g' io' where al: "BlockGroup_alloc_blocks (grp fs gi) (fs_io fs) cnt ?sbf pins = (Ok (Allocated s e), g', io')" "io_ready io' 1"
      "unat (e - s) \<le> unat ?sbf" by (rule group_alloc_ready[OF ok(1,2) zm Cons.prems(2) True Cons.prems(7,8) np])
    define fs1 where "fs1 = fs\<lparr> block_groups := (block_groups fs)[gi := g'], fs_io := io' \<rparr>"
    have at: "at_group fs gi (\<lambda>g io. BlockGroup_alloc_blocks g io cnt ?sbf pins) = (Ok (Allocated s e), fs1)"
      using gi al(1) by (simp add: at_group_def fs1_def)
    obtain fs2 where dec: "sb_step fs1 (\<lambda>sb. dec_free_blocks sb (e - s)) = (Ok (), fs2)" "fs_io fs2 = io'"
      using al(3) by (auto simp: sb_step_def dec_free_blocks_def fs1_def word_less_nat_alt not_less)
    obtain io3 where cap: "sb_capture fs2 (sb_last_orphan (sb_of fs2)) = (Ok (), fs2\<lparr> fs_io := io3 \<rparr>)"
      by (rule sb_capture_ready[of fs2 0]) (use dec(2) al(2) in auto)
    show ?thesis using at dec(1) cap by simp
  qed
qed simp

section \<open>Frees that succeed\<close>

lemma group_in_volume:
  assumes "fs_ok fs" "i < length (block_groups fs)"
  shows "unat (last_block (grp fs i)) < unat (sb_blocks_count (sb_of fs))"
  using fs_okD(3)[OF assms] unfolding group_placed_def by linarith

lemma fs_free_in_volume: "fs_ok fs \<Longrightarrow> fs_free fs \<subseteq> {..<unat (sb_blocks_count (sb_of fs))}"
  using free_in_group(2) group_in_volume by (fastforce simp: fs_free_def)

lemma free_result_counted:
  assumes "free_result fs run True fs' run" "counted fs" "finite run"
  shows "counted fs'"
proof -
  have "card (fs_free fs \<union> run) = card (fs_free fs) + card (run - fs_free fs)"
    using assms(3) card_Un_disjoint[of "fs_free fs" "run - fs_free fs"] by simp
  then show ?thesis using assms(1,2) by (simp add: free_result_def counted_def)
qed

lemma free_run_body_ready:
  assumes "fs_ok fs" "counted fs" "gi < length (block_groups fs)" "io_ready (fs_io fs) (m + 3)"
    and "0 < unat n" "unat st + unat n \<le> group_size (grp fs gi)" "unat cur = unat (first_block (grp fs gi)) + unat st"
    and "\<And>b. unat cur \<le> b \<Longrightarrow> b < unat cur + unat n \<Longrightarrow> \<not> own_zone fs b"
  obtains fs' where "free_run_body gi cur st n fs = (Ok (), fs')" "io_ready (fs_io fs') m" "own_zone fs' = own_zone fs"
    "length (block_groups fs') = length (block_groups fs)"
proof -
  note ok = fs_okD[OF assms(1,3)]
  let ?run = "{unat cur ..< unat cur + unat n}"
  have rng: "?run \<subseteq> {unat (first_block (grp fs gi))..unat (last_block (grp fs gi))}"
    using assms(6,7) ok(1) by (auto simp: group_size_def group_ok_def)
  have zone: "\<not> in_system_zone (grp fs gi) b" if "unat (first_block (grp fs gi)) + unat st \<le> b" "b < unat (first_block (grp fs gi)) + unat st + unat n" for b
    using assms(3) assms(8)[of b] that assms(7) rng unfolding own_zone_def by auto
  have "io_ready (fs_io fs) ((m + 1) + 2)" using assms(4) by (simp add: numeral_eq_Suc)
  then obtain k g' io' where fr: "BlockGroup_free_blocks (grp fs gi) (fs_io fs) st (st + n) = (Ok k, g', io')" "io_ready io' (m + 1)"
    using group_free_ready[OF ok(1,2) _ assms(5,6) zone] by blast
  obtain freed where out: "free_outcome (grp fs gi) ?run (Ok k) g' freed"
    using free_blocks_outcome[OF ok(1,2) fr(1) assms(5,6)] unfolding assms(7)[symmetric] by blast
  define fs1 where "fs1 = fs\<lparr> block_groups := (block_groups fs)[gi := g'], fs_io := io' \<rparr>"
  have at: "at_group fs gi (\<lambda>g io. BlockGroup_free_blocks g io st (st + n)) = (Ok k, fs1)" using assms(3) fr(1) by (simp add: at_group_def fs1_def)
  have pl: "same_place (grp fs gi) g'" using out by (simp add: free_outcome_def)
  have oz: "own_zone fs1 = own_zone fs" unfolding fs1_def by (rule ext) (rule own_zone_put[OF assms(3) pl])
  have k: "unat k = card (?run - fs_free fs)"
    using out run_in_group[OF assms(1,3) rng] by (simp add: free_outcome_def)
  have "fs_free fs \<union> (?run - fs_free fs) \<subseteq> {..<unat (sb_blocks_count (sb_of fs))}"
    using fs_free_in_volume[OF assms(1)] rng group_in_volume[OF assms(1,3)] by auto
  then have "card (fs_free fs \<union> (?run - fs_free fs)) \<le> unat (sb_blocks_count (sb_of fs))"
    using card_mono[of "{..<unat (sb_blocks_count (sb_of fs))}"] by simp
  then have fit: "unat (sb_free_blocks_count (sb_of fs)) + unat k \<le> unat (sb_blocks_count (sb_of fs))"
    using assms(2) k card_Un_disjoint[of "fs_free fs" "?run - fs_free fs"] by (simp add: counted_def)
  obtain io2 where pin: "io_pin_freed_run (fs_io fs1) cur n = (Ok (), io2)" "io_ready io2 (m + 1)"
    by (rule io_pin_ready[of "fs_io fs1" "m + 1"]) (use fr(2) in \<open>simp_all add: fs1_def\<close>)
  define fs2 where "fs2 = fs1\<lparr> fs_io := io2 \<rparr>"
  have oz2: "own_zone fs2 = own_zone fs" "length (block_groups fs2) = length (block_groups fs)"
    using oz by (simp_all add: fs2_def fs1_def own_zone_def fun_eq_iff)
  show ?thesis
  proof (cases "k > 0")
    case False
    have "io_ready io2 m" using io_ready_less[OF pin(2)] by simp
    then show ?thesis using that[of fs2] at pin(1) False oz2 by (simp add: free_run_body_def fs2_def)
  next
    case True
    have sb: "sb_of fs2 = sb_of fs" by (simp add: fs2_def fs1_def)
    have "unat (sb_free_blocks_count (sb_of fs) + ucast k) = unat (sb_free_blocks_count (sb_of fs)) + unat k"
      using fit unat_bound[of "sb_blocks_count (sb_of fs)"] by (subst unat_add_small) (simp_all add: unat_ucast_up)
    then obtain fs3 where inc: "sb_step fs2 (\<lambda>sb. inc_free_blocks sb (ucast k)) = (Ok (), fs3)" "fs_io fs3 = io2" "block_groups fs3 = block_groups fs2"
      using fit sb by (auto simp: sb_step_def inc_free_blocks_def Let_def word_less_nat_alt unat_ucast_up fs2_def)
    have "io_ready (fs_io fs3) (Suc m)" using inc(2) pin(2) by simp
    then obtain io4 where cap: "sb_capture fs3 (sb_last_orphan (sb_of fs3)) = (Ok (), fs3\<lparr> fs_io := io4 \<rparr>)" "io_ready io4 m"
      by (rule sb_capture_ready)
    have "own_zone (fs3\<lparr> fs_io := io4 \<rparr>) = own_zone fs" using oz2(1) inc(3) by (simp add: own_zone_def fun_eq_iff)
    then show ?thesis using that[of "fs3\<lparr> fs_io := io4 \<rparr>"] at pin(1) True inc cap oz2(2)
      by (simp add: free_run_body_def fs2_def)
  qed
qed

lemma free_one_run_ready:
  assumes "fs_ok fs" "counted fs" "in_volume fs cur left" "left \<noteq> 0" "io_ready (fs_io fs) (m + 3)"
    and "\<And>b. unat cur \<le> b \<Longrightarrow> b < unat cur + unat left \<Longrightarrow> \<not> own_zone fs b"
  obtains n fs' gi where "free_one_run duty cur left fs = (Ok n, fs')" "io_ready (fs_io fs') m" "own_zone fs' = own_zone fs"
    "length (block_groups fs') = length (block_groups fs)"
    "gi < length (block_groups fs)" "unat (first_block (grp fs gi)) \<le> unat cur"
    "unat n = unat left \<or> unat cur + unat n = unat (last_block (grp fs gi)) + 1"
proof -
  obtain gi st n where gi: "gi < length (block_groups fs)" and cur: "unat cur = unat (first_block (grp fs gi)) + unat st"
    and nn: "unat n = min (unat left) (group_size (grp fs gi) - unat st)" "0 < unat n" "unat st + unat n \<le> group_size (grp fs gi)"
    and step: "free_one_run duty cur left fs =
       st_bind (if duty then (let (r, io) = io_discharge (fs_io fs) cur n in (r, fs\<lparr> fs_io := io \<rparr>)) else (Ok (), fs)) (\<lambda>_ fs.
       st_bind (abort_on_error (free_run_body gi cur st n fs)) (\<lambda>_ fs. (Ok n, fs)))"
    by (rule free_one_run_shape[OF assms(1,3,4)])
  obtain io1 where dis: "(if duty then (let (r, io) = io_discharge (fs_io fs) cur n in (r, fs\<lparr> fs_io := io \<rparr>)) else (Ok (), fs)) = (Ok (), fs\<lparr> fs_io := io1 \<rparr>)"
    "io_ready io1 (m + 3)"
  proof (cases duty)
    case True
    obtain io1 where "io_discharge (fs_io fs) cur n = (Ok (), io1)" "io_ready io1 (m + 3)" by (rule io_discharge_ready[OF assms(5)])
    then show ?thesis using that True by simp
  next
    case False
    then show ?thesis using that[of "fs_io fs"] assms(5) by simp
  qed
  define fs1 where "fs1 = fs\<lparr> fs_io := io1 \<rparr>"
  have f1: "fs_ok fs1" "counted fs1" "gi < length (block_groups fs1)" "io_ready (fs_io fs1) (m + 3)" "grp fs1 gi = grp fs gi" "own_zone fs1 = own_zone fs"
    using assms(1,2) gi dis(2) by (simp_all add: fs1_def counted_def own_zone_def fun_eq_iff)
  have z: "\<not> own_zone fs1 b" if "unat cur \<le> b" "b < unat cur + unat n" for b using assms(6)[of b] that nn(1) f1(6) by auto
  obtain fs' where body: "free_run_body gi cur st n fs1 = (Ok (), fs')" "io_ready (fs_io fs') m" "own_zone fs' = own_zone fs1"
    "length (block_groups fs') = length (block_groups fs1)"
    by (rule free_run_body_ready[OF f1(1-4) nn(2), unfolded f1(5), OF nn(3) cur z])
  have "free_one_run duty cur left fs = (Ok n, fs')"
    using body(1) unfolding step dis(1) by (simp add: fs1_def[symmetric] abort_on_error_def)
  moreover have "unat n = unat left \<or> unat cur + unat n = unat (last_block (grp fs gi)) + 1"
    using nn cur fs_okD(1)[OF assms(1) gi] by (auto simp: min_def group_size_def group_ok_def)
  ultimately show ?thesis using that[of n fs' gi] body(2-4) f1(6) gi cur by (simp add: fs1_def)
qed

text \<open>Each round ends the run or fills its group up to the end, so the rounds number at most the groups
  from the first one on; each spends at most three credits.\<close>

lemma free_runs_ready:
  assumes "fs_ok fs" "counted fs" "in_volume fs cur left"
    and "unat (sb_first_data_block (sb_of fs)) + g * unat (sb_nr_blocks_per_group (sb_of fs)) \<le> unat cur"
    and "io_ready (fs_io fs) (3 * (length (block_groups fs) - g) + k)"
    and "\<And>b. unat cur \<le> b \<Longrightarrow> b < unat cur + unat left \<Longrightarrow> \<not> own_zone fs b"
  shows "\<exists>fs'. free_runs duty cur left fs = Some (Ok (), fs') \<and> io_ready (fs_io fs') k \<and> own_zone fs' = own_zone fs \<and>
    length (block_groups fs') = length (block_groups fs)"
  using assms
proof (induction "unat left" arbitrary: cur left fs g rule: less_induct)
  case less
  show ?case
  proof (cases "left = 0")
    case True
    moreover have "io_ready (fs_io fs) k" by (rule io_ready_less[OF less.prems(5)]) simp
    ultimately show ?thesis by (subst free_runs.simps) simp
  next
    case False
    let ?fdb = "unat (sb_first_data_block (sb_of fs))" and ?bpg = "unat (sb_nr_blocks_per_group (sb_of fs))"
    have bpg: "0 < ?bpg" using less.prems(1) by (simp add: fs_ok_def sb_ok_def)
    have "0 < unat left" using False by (simp add: unat_gt_0)
    then have "unat cur < unat (sb_blocks_count (sb_of fs))" using less.prems(3) by (simp add: in_volume_def)
    moreover have "unat (sb_blocks_count (sb_of fs)) \<le> ?fdb + length (block_groups fs) * ?bpg" using less.prems(1) by (simp add: fs_ok_def sb_ok_def)
    ultimately have "g * ?bpg < length (block_groups fs) * ?bpg" using less.prems(4) by linarith
    then have g: "g < length (block_groups fs)" using bpg by simp
    define m where "m = 3 * (length (block_groups fs) - (g + 1)) + k"
    have "io_ready (fs_io fs) (m + 3)" using less.prems(5) g unfolding m_def by (rule_tac io_ready_less) auto
    then obtain n fs1 gi where one: "free_one_run duty cur left fs = (Ok n, fs1)" "io_ready (fs_io fs1) m" "own_zone fs1 = own_zone fs"
        "length (block_groups fs1) = length (block_groups fs)" "gi < length (block_groups fs)" "unat (first_block (grp fs gi)) \<le> unat cur"
        "unat n = unat left \<or> unat cur + unat n = unat (last_block (grp fs gi)) + 1"
      by (rule free_one_run_ready[OF less.prems(1-3) False _ less.prems(6)])
    let ?A = "{unat cur ..< unat cur + unat n}"
    have n: "0 < unat n" "unat n \<le> unat left" and f: "free_result fs ?A True fs1 ?A"
      using free_one_run_result[OF less.prems(1,3) False one(1)] by simp_all
    have left': "unat (left - n) = unat left - unat n" using n(2) by (simp add: unat_sub_small word_le_nat_alt)
    have "unat cur + unat n < 2 ^ 64"
      using less.prems(3) n(2) unat_bound[of "sb_blocks_count (sb_of fs)"] by (simp add: in_volume_def)
    then have cur': "unat (cur + ucast n) = unat cur + unat n" by (simp add: unat_word_ariths unat_ucast_up)
    have geo: "sb_blocks_count (sb_of fs1) = sb_blocks_count (sb_of fs)" "sb_first_data_block (sb_of fs1) = sb_first_data_block (sb_of fs)"
      "sb_nr_blocks_per_group (sb_of fs1) = sb_nr_blocks_per_group (sb_of fs)"
      using f by (auto simp: free_result_def sb_counts_def)
    have step: "free_runs duty cur left fs = free_runs duty (cur + ucast n) (left - n) fs1"
      using False one(1) by (subst free_runs.simps) simp
    show ?thesis
    proof (cases "unat n = unat left")
      case True
      then have "left - n = 0" using left' by (simp add: unat_eq_0[symmetric])
      moreover have "io_ready (fs_io fs1) k" using one(2) unfolding m_def by (rule io_ready_less) simp
      ultimately show ?thesis using one(3,4) unfolding step by (subst free_runs.simps) simp
    next
      case part: False
      then have fill: "unat cur + unat n = unat (last_block (grp fs gi)) + 1" using one(7) by simp
      have "unat cur + unat n < unat (sb_blocks_count (sb_of fs))" using less.prems(3) part n(2) by (simp add: in_volume_def)
      then have "unat cur + unat n = ?fdb + (gi + 1) * ?bpg"
        using fill fs_okD(3)[OF less.prems(1) one(5)] unfolding group_placed_def by linarith
      moreover have "g * ?bpg < (gi + 1) * ?bpg" using calculation less.prems(4) n(1) by linarith
      then have "g < gi + 1" by (metis mult_less_cancel2)
      then have "(g + 1) * ?bpg \<le> (gi + 1) * ?bpg" by (intro mult_right_mono) simp_all
      ultimately have "?fdb + (g + 1) * ?bpg \<le> unat (cur + ucast n)" using cur' by linarith
      moreover have "fs_ok fs1" using f by (simp add: free_result_def)
      moreover have "counted fs1" by (rule free_result_counted[OF f less.prems(2)]) simp
      moreover have "in_volume fs1 (cur + ucast n) (left - n)"
        using less.prems(3) n left' cur' geo by (simp add: in_volume_def)
      moreover have "\<not> own_zone fs1 b" if "unat (cur + ucast n) \<le> b" "b < unat (cur + ucast n) + unat (left - n)" for b
        using less.prems(6)[of b] that cur' left' n one(3) by auto
      moreover have "unat (left - n) < unat left" using left' n by simp
      ultimately show ?thesis
        using less.hyps[of "left - n" fs1 "cur + ucast n" "g + 1"] one(2,3,4) geo unfolding step m_def by simp
    qed
  qed
qed

end
