(* ===== verification/Volume_Correct.thy ===== *)
theory Volume_Correct
  imports Fs_Live Sample_Journal
begin

text \<open>
  The block allocator of the mounted file system, end to end: what \<open>Ext4::alloc_blocks\<close> and
  \<open>Ext4::free_blocks\<close> do to the set of free blocks, to the counters of every group and of the
  superblock, and how the pins of uncommitted frees keep a freed run from being handed out again.
  A small volume of one group shows that the hypotheses hold together.
\<close>

section \<open>A small volume\<close>

text \<open>Sixteen blocks: superblock, group descriptors, the two bitmaps and one inode table block,
  followed by one data block in use; the running transaction of its journal has one open handle.\<close>

definition sample_sb :: SuperBlock where
  "sample_sb =
     \<lparr> sb_inodes_count = 8, sb_blocks_count = 16, sb_free_blocks_count = 10, sb_free_inodes_count = 6, sb_first_data_block = 0,
       sb_block_size = BLOCK_SIZE, sb_nr_blocks_per_group = 16, sb_nr_block_groups = 1, sb_nr_inodes_per_group = 8,
       sb_nr_inode_table_blocks_per_group = 1, sb_inode_size = 256, sb_desc_size = 32, sb_first_ino = 11, sb_rev_level = Dynamic,
       sb_state = 1, sb_feature_compat = 0, sb_feature_incompat = 0, sb_feature_ro_compat = 0, sb_uuid = replicate 16 0,
       sb_last_orphan = None, sb_reserved_blocks_count = 0, sb_reserved_gdt_blocks = 0, sb_journal_ino = 8, sb_journal_dev = 0,
       sb_hash_seed = [0, 0, 0, 0], sb_hash_unsigned = False \<rparr>"

definition sample_bits :: "u8 \<Rightarrow> nat \<Rightarrow> nat \<Rightarrow> IdBitmap" where
  "sample_bits b avail n = \<lparr> bm_buf = b # replicate (BLOCK_SIZE - 1) 0, first_available_id = avail, bm_len = n \<rparr>"

definition sample_group :: BlockGroup where
  "sample_group =
     \<lparr> group_idx = 0,
       bg_desc = Dirty_new \<lparr> gd_block_bitmap_bid = 2, gd_inode_bitmap_bid = 3, gd_inode_table_bid = 4, gd_free_blocks_count = 10,
         gd_free_inodes_count = 6, gd_used_dirs_count = 1, gd_flags = 0, gd_itable_unused = 0 \<rparr>,
       block_bitmap = Dirty_new (sample_bits 0x3F 6 16), inode_bitmap = Dirty_new (sample_bits 0x03 2 8),
       first_block = 0, last_block = 15, nr_inode_table_blocks_per_group = 1, nr_inodes_per_group = 8, nr_blocks_per_group = 16,
       bg_inode_size = 256, bg_desc_size = 32, desc_offset = 4096, bg_csum_seed = None \<rparr>"

definition sample_volume :: Ext4 where
  "sample_volume =
     \<lparr> super_block = Dirty_new sample_sb, block_groups = [sample_group], fs_inodes_per_group = 8, fs_total_inodes = 8,
       next_generation = 0, fs_shutdown = False, s_orphan = [],
       fs_io = \<lparr> io_journal = Some (set_state (Journal_new sample_geometry)
                   ((jstate (Journal_new sample_geometry))\<lparr> running := Some ((Transaction_new 0 1000 1)\<lparr> t_updates := 1, outstanding_credits := 9 \<rparr>) \<rparr>)),
                 io_handle = Some \<lparr> h_tid = 1, credits = 9, remaining = 9 \<rparr>, io_dev = mounted sample_image \<rparr> \<rparr>"

lemma sample_bits_get: "i < 8 \<Longrightarrow> is_allocated (sample_bits b a n) i = bit b i" "8 \<le> i \<Longrightarrow> i < 8 * BLOCK_SIZE \<Longrightarrow> \<not> is_allocated (sample_bits b a n) i"
proof -
  show "i < 8 \<Longrightarrow> is_allocated (sample_bits b a n) i = bit b i" by (simp add: sample_bits_def is_allocated_def get_bit_def)
  assume "8 \<le> i" "i < 8 * BLOCK_SIZE"
  then have "0 < i div 8" "i div 8 < BLOCK_SIZE" by (simp_all add: less_mult_imp_div_less mult.commute)
  then show "\<not> is_allocated (sample_bits b a n) i" by (simp add: sample_bits_def is_allocated_def get_bit_def nth_Cons')
qed

lemma sample_blocks_bits: "i < 16 \<Longrightarrow> is_allocated (sample_bits 0x3F a n) i \<longleftrightarrow> i < 6"
proof (cases "i < 8")
  case True
  then have "i \<in> {0, 1, 2, 3, 4, 5, 6, 7}" by auto
  then show ?thesis using sample_bits_get(1)[OF True, of "0x3F" a n] by auto
qed (use sample_bits_get(2)[of i "0x3F" a n] in \<open>simp add: BLOCK_SIZE_def\<close>)

lemma sample_inodes_bits: "i < 8 \<Longrightarrow> is_allocated (sample_bits 0x03 a n) i \<longleftrightarrow> i < 2"
proof -
  assume "i < 8"
  then have "i \<in> {0, 1, 2, 3, 4, 5, 6, 7}" by auto
  then show ?thesis using sample_bits_get(1)[OF \<open>i < 8\<close>, of "0x03" a n] by auto
qed

lemma sample_free_ids: "free_ids (sample_bits 0x3F 6 16) = {6..<16}" "free_ids (sample_bits 0x03 2 8) = {2..<8}"
proof -
  have n: "bm_len (sample_bits b a n) = n" for b a n by (simp add: sample_bits_def)
  show "free_ids (sample_bits 0x3F 6 16) = {6..<16}" unfolding free_ids_def n using sample_blocks_bits by auto
  show "free_ids (sample_bits 0x03 2 8) = {2..<8}" unfolding free_ids_def n using sample_inodes_bits by auto
qed

lemma sample_bitmaps_ok: "block_bitmap_ok (sample_bits 0x3F 6 16)" "block_bitmap_ok (sample_bits 0x03 2 8)"
proof -
  have f: "bm_len (sample_bits b a n) = n" "first_available_id (sample_bits b a n) = a" "length (bm_buf (sample_bits b a n)) = BLOCK_SIZE" for b a n
    by (simp_all add: sample_bits_def BLOCK_SIZE_def)
  show "block_bitmap_ok (sample_bits 0x3F 6 16)"
    unfolding block_bitmap_ok_def bitmap_ok_def f using sample_blocks_bits[of _ 6 16] by (auto simp: BLOCK_SIZE_def)
  show "block_bitmap_ok (sample_bits 0x03 2 8)"
    unfolding block_bitmap_ok_def bitmap_ok_def f using sample_inodes_bits[of _ 2 8] by (auto simp: BLOCK_SIZE_def)
qed

lemma sample_group_ok: "group_ok sample_group" "zone_ok sample_group"
proof -
  have "bm_len (sample_bits b a n) = n" for b a n by (simp add: sample_bits_def)
  then show "group_ok sample_group"
    by (simp add: group_ok_def group_size_def sample_group_def Dirty_new_def sample_bitmaps_ok sample_free_ids BLOCK_SIZE_def)
  show "zone_ok sample_group" by (simp add: zone_ok_def sample_group_def Dirty_new_def)
qed

lemma sample_volume_simps [simp]:
  "sb_of sample_volume = sample_sb" "block_groups sample_volume = [sample_group]" "pinned_of sample_volume = []"
  by (simp_all add: sample_volume_def Dirty_new_def pinned_of_def pinned_frees_snapshot_def set_state_def Journal_new_def)

lemma sample_volume_ok: "fs_ok sample_volume"
  using sample_group_ok
  by (simp add: fs_ok_def sb_ok_def sample_sb_def group_placed_def RAW_INODE_SIZE_def BLOCK_SIZE_def)
     (simp add: sample_volume_def sample_group_def)

lemma sample_volume_free: "fs_free sample_volume = {6..<16}"
  by (simp add: fs_free_def free_blocks_of_def lessThan_Suc sample_group_def Dirty_new_def sample_free_ids)

lemma sample_volume_counted: "counted sample_volume"
  by (simp add: counted_def sample_volume_free) (simp add: sample_sb_def)

lemma sample_volume_zone: "own_zone sample_volume b \<longleftrightarrow> b \<in> {2, 3, 4}" "zone_marked sample_group"
  by (auto simp: own_zone_def in_system_zone_def zone_marked_def sample_group_def Dirty_new_def free_blocks_of_def sample_free_ids)

lemma sample_volume_ready: "n \<le> 9 \<Longrightarrow> io_ready (fs_io sample_volume) n"
  by (simp add: io_ready_def sample_volume_def set_state_def Transaction_new_def)

section \<open>Allocation and free\<close>

lemma alloc_blocks_result:
  assumes "fs_ok fs" "pins_ok (pinned_of fs)" "alloc_blocks fs cnt goal = (r, fs')"
  shows "\<exists>taken. alloc_result fs cnt (pinned_of fs) r fs' taken"
proof (cases "cnt = 0 \<or> sb_free_blocks_count (sb_of fs) = 0")
  case True
  then have "isl r" "fs' = fs" using assms(3) by (auto simp: alloc_blocks_def Let_def split: if_splits)
  then have "alloc_result fs cnt (pinned_of fs) r fs' {}" using assms(1) by (cases r) (simp_all add: alloc_result_def)
  then show ?thesis ..
next
  case False
  let ?n = "unat (sb_nr_block_groups (sb_of fs))"
  have "0 < ?n" "length (block_groups fs) = ?n" using assms(1) by (simp_all add: fs_ok_def sb_ok_def)
  then have "set (map (\<lambda>off. (goal_group_of (sb_of fs) goal + off) mod ?n) [0..<?n]) \<subseteq> {..<length (block_groups fs)}" by auto
  moreover have "alloc_ring cnt (sb_free_blocks_count (sb_of fs)) (pinned_of fs)
      (map (\<lambda>off. (goal_group_of (sb_of fs) goal + off) mod ?n) [0..<?n]) False fs = (r, fs')"
    using assms(3) False by (simp add: alloc_blocks_def Let_def)
  ultimately show ?thesis by (rule alloc_ring_result[OF assms(1,2)])
qed

lemma zone_marked_free:
  assumes "\<forall>b \<in> fs_free fs. \<not> own_zone fs b" "fs_ok fs" "i < length (block_groups fs)"
  shows "zone_marked (grp fs i)"
  using assms free_sub_fs[OF assms(3)] free_in_group[OF assms(2,3)] by (fastforce simp: zone_marked_def own_zone_def)

lemma ring_covers: "0 < n \<Longrightarrow> i < n \<Longrightarrow> i \<in> (\<lambda>off. (g + off) mod n) ` {0..<n}" for n :: nat
proof -
  assume n: "0 < n" "i < n"
  have "(g + (i + n - g mod n) mod n) mod n = (g mod n + (i + n - g mod n)) mod n" by (metis mod_add_eq mod_mod_trivial)
  also have "g mod n + (i + n - g mod n) = i + n" using n mod_less_divisor[of n g] by linarith
  also have "(i + n) mod n = i" using n(2) by simp
  finally show ?thesis using n by (intro image_eqI[of _ _ "(i + n - g mod n) mod n"]) simp_all
qed

lemma alloc_blocks_ready:
  assumes "fs_ok fs" "counted fs" "\<forall>b \<in> fs_free fs. \<not> own_zone fs b" "pins_ok (pinned_of fs)"
    and "cnt = 1 \<or> cnt \<noteq> 0 \<and> pinned_of fs = []" "b \<in> fs_free fs" "\<not> pinned_block (pinned_of fs) b"
    and "io_ready (fs_io fs) (length (block_groups fs) + 2)"
  shows "\<exists>s e fs'. alloc_blocks fs cnt goal = (Ok (s, e), fs')"
proof -
  let ?n = "unat (sb_nr_block_groups (sb_of fs))" and ?gis = "map (\<lambda>off. (goal_group_of (sb_of fs) goal + off) mod unat (sb_nr_block_groups (sb_of fs))) [0..<unat (sb_nr_block_groups (sb_of fs))]"
  have n: "0 < ?n" "length (block_groups fs) = ?n" using assms(1) by (simp_all add: fs_ok_def sb_ok_def)
  obtain i where i: "i < ?n" "b \<in> free_blocks_of (grp fs i)" using assms(6) n(2) by (auto simp: fs_free_def)
  have "0 < card (fs_free fs)" using assms(6) by (auto simp: card_gt_0_iff)
  then have sb: "sb_free_blocks_count (sb_of fs) \<noteq> 0" using assms(2) by (auto simp: counted_def)
  have cnt: "cnt \<noteq> 0" using assms(5) by auto
  have gis: "set ?gis \<subseteq> {..<length (block_groups fs)}" "i \<in> set ?gis" "length ?gis = length (block_groups fs)"
    using n ring_covers[OF n(1) i(1)] by auto
  have "\<forall>k\<in>set ?gis. zone_marked (grp fs k)" using zone_marked_free[OF assms(3,1)] gis(1) by blast
  moreover have "usable (grp fs i) (pinned_of fs)" using i(2) assms(7) by (auto simp: usable_def)
  ultimately have "\<exists>s e fs'. alloc_ring cnt (sb_free_blocks_count (sb_of fs)) (pinned_of fs) ?gis False fs = (Ok (s, e), fs')"
    using assms(5,8) gis sb cnt by (intro alloc_ring_ready[OF assms(1,4)]) auto
  then show ?thesis using sb cnt by (simp add: alloc_blocks_def Let_def)
qed

section \<open>Properties\<close>

text \<open>C11: an allocation is safe.  On a consistent volume a granted run is not empty, has at most the
  requested number of blocks, and every one of them was free, is not pinned by a free that is still
  uncommitted and is no bitmap or inode-table block of its group.  Exactly the run leaves the free set,
  the volume stays consistent, and the superblock's counter stays the number of free blocks.\<close>

theorem allocation_safe:
  assumes "fs_ok fs" "pins_ok (pinned_of fs)" "alloc_blocks fs cnt goal = (Ok (s, e), fs')"
  shows "s < e \<and> unat e - unat s \<le> unat cnt \<and> {unat s..<unat e} \<subseteq> fs_free fs \<and>
    (\<forall>b. unat s \<le> b \<and> b < unat e \<longrightarrow> \<not> pinned_block (pinned_of fs) b \<and> \<not> own_zone fs b) \<and>
    fs_free fs' = fs_free fs - {unat s..<unat e} \<and> fs_ok fs' \<and> (counted fs \<longrightarrow> counted fs')"
proof -
  obtain taken where t: "alloc_result fs cnt (pinned_of fs) (Ok (s, e)) fs' taken" using alloc_blocks_result[OF assms] by blast
  then have "taken = {unat s..<unat e}" "taken \<subseteq> fs_free fs" by (auto simp: alloc_result_def)
  moreover have "card (fs_free fs - taken) = card (fs_free fs) - card taken" using calculation by (intro card_Diff_subset) simp_all
  ultimately show ?thesis using t by (auto simp: alloc_result_def counted_def)
qed

text \<open>C14: an allocation succeeds whenever it can.  On a consistent volume whose bitmaps mark the group
  metadata, with a handle that has a credit per group and two more (or without a journal), a request is
  granted if some free block is not pinned and either one block is asked for or no free is pinned.\<close>

theorem allocation_succeeds:
  assumes "fs_ok fs" "counted fs" "\<forall>b \<in> fs_free fs. \<not> own_zone fs b" "pins_ok (pinned_of fs)"
    and "cnt = 1 \<or> cnt \<noteq> 0 \<and> pinned_of fs = []" "b \<in> fs_free fs" "\<not> pinned_block (pinned_of fs) b"
    and "io_ready (fs_io fs) (length (block_groups fs) + 2)"
  shows "\<exists>s e fs'. alloc_blocks fs cnt goal = (Ok (s, e), fs') \<and> s < e"
proof -
  obtain s e fs' where al: "alloc_blocks fs cnt goal = (Ok (s, e), fs')" using alloc_blocks_ready[OF assms] by blast
  then show ?thesis using alloc_blocks_result[OF assms(1,4) al] by (auto simp: alloc_result_def)
qed

text \<open>C13: a free returns and frees what it reports.  For every run inside a consistent volume the loop
  over the groups ends; whatever it reports, the volume stays consistent and no block outside the run
  becomes free.  If it reports success, the run is free, the superblock's counter stays the number of
  free blocks, and under a handle exactly the run has been added to the pinned blocks.\<close>

theorem free_blocks_correct:
  assumes "fs_ok fs" "in_volume fs start cnt"
  shows "\<exists>r fs'. free_blocks fs duty start cnt = Some (r, fs') \<and> fs_ok fs' \<and>
    fs_free fs \<subseteq> fs_free fs' \<and> fs_free fs' \<subseteq> fs_free fs \<union> {unat start..<unat start + unat cnt} \<and>
    (r = Ok () \<longrightarrow>
       fs_free fs' = fs_free fs \<union> {unat start..<unat start + unat cnt} \<and> (counted fs \<longrightarrow> counted fs') \<and>
       (io_handle (fs_io fs) \<noteq> None \<longrightarrow>
          (\<forall>b. pinned_block (pinned_of fs') b \<longleftrightarrow> pinned_block (pinned_of fs) b \<or> unat start \<le> b \<and> b < unat start + unat cnt)))"
proof -
  obtain r fs' freed where f: "free_runs duty start cnt fs = Some (r, fs')"
    "free_result fs {unat start ..< unat start + unat cnt} (r = Ok ()) fs' freed"
    using free_runs_result[OF assms] by blast
  let ?run = "{unat start ..< unat start + unat cnt}"
  have "counted fs'" if "r = Ok ()" "counted fs"
    using free_result_counted[of fs ?run fs'] f(2) that by (auto simp: free_result_def)
  moreover have "pinned_block (pinned_of fs') b \<longleftrightarrow> pinned_block (pinned_of fs) b \<or> unat start \<le> b \<and> b < unat start + unat cnt"
    if "r = Ok ()" "io_handle (fs_io fs) \<noteq> None" for b
    using f(2) that unfolding free_result_def pins_grow_def pinned_of_iff by auto
  ultimately show ?thesis using f unfolding free_blocks_def free_result_def by blast
qed

text \<open>C15: a free succeeds whenever it can.  On a consistent volume a run inside the volume that holds no
  group metadata is freed, without a journal or under a handle with three credits per group.\<close>

theorem free_succeeds:
  assumes "fs_ok fs" "counted fs" "in_volume fs start cnt" "\<forall>b. unat start \<le> b \<and> b < unat start + unat cnt \<longrightarrow> \<not> own_zone fs b"
    and "io_ready (fs_io fs) (3 * length (block_groups fs))"
  shows "\<exists>fs'. free_blocks fs duty start cnt = Some (Ok (), fs')"
  using free_runs_ready[OF assms(1-3), of 0 0 duty] assms(3-5) by (auto simp: free_blocks_def in_volume_def)

text \<open>C12: a freed run is not handed out again before its free commits.  After a successful free under a
  handle, an allocation on the state it leaves contains no block of the run, although the whole run is free
  and stays free.\<close>

theorem freed_run_not_reallocated:
  assumes "fs_ok fs" "pins_ok (pinned_of fs)" "in_volume fs start cnt" "io_handle (fs_io fs) \<noteq> None"
    and "free_blocks fs duty start cnt = Some (Ok (), fs1)" "alloc_blocks fs1 n goal = (Ok (s, e), fs2)"
  shows "{unat s..<unat e} \<inter> {unat start..<unat start + unat cnt} = {} \<and> {unat start..<unat start + unat cnt} \<subseteq> fs_free fs2"
proof -
  let ?run = "{unat start..<unat start + unat cnt}"
  obtain freed where f: "free_result fs ?run True fs1 freed"
    using free_runs_result[OF assms(1,3), of duty] assms(5) by (auto simp: free_blocks_def)
  then have ok: "fs_ok fs1" "pins_ok (pinned_of fs1)" "\<forall>b\<in>?run. pinned_block (pinned_of fs1) b" "?run \<subseteq> fs_free fs1"
    using assms(2,4) unfolding free_result_def pins_grow_def pins_ok_iff pinned_of_iff by auto
  obtain taken where "alloc_result fs1 n (pinned_of fs1) (Ok (s, e)) fs2 taken" using alloc_blocks_result[OF ok(1,2) assms(6)] by blast
  then have "taken = {unat s..<unat e}" "fs_free fs2 = fs_free fs1 - taken" "\<forall>b\<in>taken. \<not> pinned_block (pinned_of fs1) b"
    by (simp_all add: alloc_result_def)
  moreover have "taken \<inter> ?run = {}" using calculation(3) ok(3) by blast
  ultimately show ?thesis using ok(4) by blast
qed

section \<open>Witnesses\<close>

lemma sample_pins: "pins_ok (pinned_of sample_volume)"
  by (simp add: pins_ok_def)

theorem allocation_succeeds_witness: "\<exists>s e fs'. alloc_blocks sample_volume 3 0 = (Ok (s, e), fs') \<and> s < e"
  by (rule allocation_succeeds[where b = 6])
     (simp_all add: sample_volume_ok sample_volume_counted pins_ok_def sample_volume_free sample_volume_zone sample_volume_ready pinned_block_def)

lemma sample_alloc: "\<exists>s e fs'. alloc_blocks sample_volume 3 0 = (Ok (s, e), fs')"
  by (rule alloc_blocks_ready[where b = 6])
     (simp_all add: sample_volume_ok sample_volume_counted pins_ok_def sample_volume_free sample_volume_zone sample_volume_ready pinned_block_def)

theorem allocation_safe_witness:
  "\<exists>s e fs'. alloc_blocks sample_volume 3 0 = (Ok (s, e), fs') \<and> unat e - unat s \<le> 3 \<and> {unat s..<unat e} \<subseteq> {6..<16} \<and> counted fs'"
proof -
  obtain s e fs' where al: "alloc_blocks sample_volume 3 0 = (Ok (s, e), fs')" using sample_alloc by blast
  show ?thesis using allocation_safe[OF sample_volume_ok sample_pins al] al sample_volume_free sample_volume_counted by auto
qed

lemma sample_in_volume: "in_volume sample_volume 5 1"
  by (simp add: in_volume_def) (simp add: sample_sb_def)

theorem free_blocks_correct_witness:
  "\<exists>r fs'. free_blocks sample_volume True 5 1 = Some (r, fs') \<and> {6..<16} \<subseteq> fs_free fs' \<and> fs_free fs' \<subseteq> {6..<16} \<union> {5}"
proof -
  have "{5..<5 + 1} = {5 :: nat}" by auto
  then show ?thesis using free_blocks_correct[OF sample_volume_ok sample_in_volume, of True] unfolding sample_volume_free by auto
qed

theorem free_succeeds_witness: "\<exists>fs'. free_blocks sample_volume True 5 1 = Some (Ok (), fs')"
  by (rule free_succeeds[OF sample_volume_ok sample_volume_counted sample_in_volume])
     (simp_all add: sample_volume_zone sample_volume_ready)

text \<open>Freeing the data block and then asking for a block grants another one.\<close>

theorem freed_run_not_reallocated_witness:
  "\<exists>fs1 s e fs2. free_blocks sample_volume True 5 1 = Some (Ok (), fs1) \<and> alloc_blocks fs1 1 5 = (Ok (s, e), fs2) \<and>
     5 \<notin> {unat s..<unat e} \<and> 5 \<in> fs_free fs2"
proof -
  have "\<exists>fs1. free_runs True 5 1 sample_volume = Some (Ok (), fs1) \<and> io_ready (fs_io fs1) 3 \<and> own_zone fs1 = own_zone sample_volume \<and>
      length (block_groups fs1) = length (block_groups sample_volume)"
    by (rule free_runs_ready[where g = 0, OF sample_volume_ok sample_volume_counted sample_in_volume])
       (simp_all add: sample_volume_ready sample_volume_zone sample_sb_def)
  then obtain fs1 where fr: "free_runs True 5 1 sample_volume = Some (Ok (), fs1)" "io_ready (fs_io fs1) 3" "own_zone fs1 = own_zone sample_volume"
    "length (block_groups fs1) = 1" by auto
  obtain freed where f: "free_result sample_volume {5..<5 + 1} True fs1 freed"
    using free_runs_result[OF sample_volume_ok sample_in_volume, of True] fr(1) by auto
  then have fs1: "fs_ok fs1" "fs_free fs1 = {6..<16} \<union> {5..<5 + 1}" "pins_grow {5..<5 + 1} (fs_io sample_volume) (fs_io fs1)"
    by (simp_all add: free_result_def sample_volume_free)
  have c: "counted fs1" using free_result_counted[of sample_volume "{5..<5 + 1}" fs1] f sample_volume_counted by (auto simp: free_result_def)
  have p: "pins_ok (pinned_of fs1)" using fs1(3) sample_pins unfolding pins_ok_iff pins_grow_def by blast
  have "\<not> pinned_block (pinned_of sample_volume) 6" by (simp add: pinned_block_def)
  then have np: "\<not> pinned_block (pinned_of fs1) 6" using fs1(3) unfolding pinned_of_iff pins_grow_def by auto
  have "\<exists>s e fs2. alloc_blocks fs1 1 5 = (Ok (s, e), fs2)"
    by (rule alloc_blocks_ready[OF fs1(1) c _ p _ _ np]) (use fs1(2) fr in \<open>auto simp: sample_volume_zone numeral_3_eq_3\<close>)
  then obtain s e fs2 where al: "alloc_blocks fs1 1 5 = (Ok (s, e), fs2)" by blast
  have h: "io_handle (fs_io sample_volume) \<noteq> None" by (simp add: sample_volume_def)
  have "free_blocks sample_volume True 5 1 = Some (Ok (), fs1)" using fr(1) by (simp add: free_blocks_def)
  from freed_run_not_reallocated[OF sample_volume_ok sample_pins sample_in_volume h this al] this al show ?thesis by auto
qed

end
