(* ===== verification/Spec2Isabelle.thy ===== *)
theory Spec2Isabelle
  imports Replay_Spec Handle_Limits Extent_Map Volume_Correct
begin

text \<open>
  A verification library for the ext4 file system with a JBD2-compatible journal under
  \<open>kernel/src/fs/fs_impls/ext4\<close>.

  \<^bold>\<open>The program.\<close>  An operation of the file system opens a handle on the running transaction of the
  journal, reserving credits.  Every metadata change goes through a write access that captures the
  block into the transaction and a patch of the captured image; readers see the newest captured,
  retained or on-device image.  The commit thread locks the running transaction, waits for its
  handles to close, stages it, writes ordered data, descriptor blocks with the images, revoke blocks
  and, behind a flush, the commit block into the log ring, and publishes its id.  The checkpointer
  writes logged images to their final blocks and moves the tail of the log.  At mount, recovery
  scans the log, collects revokes and replays what is committed.  On top of the journal sit the
  superblock, the block groups with their bitmaps, the allocators across groups with pins for runs
  whose free has not committed, the chain of orphan inodes, the inode records and the extent trees.

  \<^bold>\<open>Conventions.\<close>  Structs are records with the source's field names, enums are datatypes, \<open>Result\<close> is
  \<open>errno + 'a\<close> with the constructors \<open>Ok\<close> and \<open>Err\<close>; a panic of the code is the error \<open>PANIC\<close>.  Code
  under a lock is a state transformer returning the new state, also on its error paths
  (\<open>st_bind\<close>, \<open>jd_bind\<close>).  Integers that may wrap are words of the source's width; counts and log
  positions the code keeps far below their width are natural numbers.  \<open>BTreeMap\<close> and \<open>BTreeSet\<close> are
  sorted association lists and lists.  The wall clock, the running task, the flush of the page cache
  of an inode and the interleaving of other tasks during a wait are arguments; a wait is the condition
  it polls, against a schedule of what the others do.  The drive loop of the commit thread takes a timer
  reading and what the other tasks do to the journal for each of its rounds.

  \<^bold>\<open>Shared vocabulary.\<close>
  \<^item> \<open>Ext4_Prelude\<close>: types, error numbers, results and generic facts; \<open>Bytes\<close>: byte buffers, little- and
    big-endian fields, \<open>slice\<close> and \<open>splice\<close>; \<open>Btree_Map\<close>: the ordered containers and the locale
    \<open>ordered_map\<close> with its interpretation.
  \<^item> \<open>Block_Device\<close>: the device as the code relies on it: durable blocks, a volatile cache, flushes, bad
    blocks and crashes that keep any subset of the cached writes.
  \<^item> \<open>Checksum\<close> (\<open>checksum.rs\<close>): table-driven CRC-32C, shown equal to the bit-serial one and to detect
    every alteration of four consecutive bytes.

  \<^bold>\<open>The journal\<close> (\<open>journal/\<close>).
  \<^item> \<open>Tid\<close>, \<open>Journal_Format\<close>, \<open>Journal_Superblock\<close> (\<open>format.rs\<close>): wrapping ids, block headers and tails, tag
    layouts, the tag and revoke writers and walkers with their round trips and exact capacities, and
    the validating parse of the journal superblock.
  \<^item> \<open>Journal_Geometry\<close>, \<open>Journal_State\<close>, \<open>Journal_Driver\<close> (\<open>mod.rs\<close>): ring arithmetic and log access, the
    seats of the pipeline with triggers, credits, waits and abort, the commit driver, the commit
    thread's turns, the unmount flush and operation handles.
  \<^item> \<open>Transaction\<close>, \<open>Journal_Handles\<close> (\<open>transaction.rs\<close>, \<open>mod.rs\<close>) and \<open>Revoke\<close> (\<open>revoke.rs\<close>): captures and
    forgets, admission, extension and restart, write access and patches, pins and discharges, and the
    revoke table.
  \<^item> \<open>Journal_Commit\<close> (\<open>commit.rs\<close>), \<open>Journal_Checkpoint\<close> (\<open>checkpoint.rs\<close>), \<open>Journal_Recovery\<close>
    (\<open>recovery.rs\<close>): the three paths over the log.
  \<^item> \<open>Log_Content\<close>, \<open>Log_Image\<close>, \<open>Log_Replay\<close>, \<open>Replay_Spec\<close>: what it means for the log to hold committed
    transactions, that the builders write what the walkers read, that the recovery passes compute the
    abstract newest-image semantics.
  \<^item> \<open>Recovery_Correct\<close>, \<open>Recovery_Crash\<close>, \<open>Commit_Correct\<close>, \<open>Commit_Fits\<close>, \<open>Crash_Safety\<close>,
    \<open>Checkpoint_Correct\<close>, \<open>Driver_Correct\<close>: recovery refines the log and may be interrupted; a commit
    that fits succeeds and a commit cut anywhere is atomic; a checkpoint keeps what recovery would
    restore and writes home exactly what it retires, also across a crash; the drivers end and settle the
    log.
  \<^item> \<open>Journal_Pipeline\<close>, \<open>Pipeline_Correct\<close>: every interleaving of handles, commit thread, checkpointer,
    aborts and unmount as an inductive step relation from the journal a mount produces, its invariant by
    rule induction, and what it gives the users of the journal.  A restart that is refused after it gave up
    its reservation leaves the handle held, and its stop releases it again: the seats, the ids and what
    readers see keep their invariant in every state, and the counters of open updates and credits match the
    held handles in the states where no restart was refused so far.  \<open>Handle_Limits\<close>: the edges of the
    reservation protocol where the code departs from its documentation, this one among them.
  \<^item> \<open>Sample_Journal\<close>, \<open>Sample_Commit\<close>: a small journal on which the preconditions hold.

  \<^bold>\<open>The file system.\<close>
  \<^item> \<open>Metadata_Io\<close>: captures, patches, reads, pins and discharges under an operation's optional handle.
  \<^item> \<open>Super_Block\<close> (\<open>super_block.rs\<close>, \<open>feature.rs\<close>): the validating parse and the capture, with their round
    trip.
  \<^item> \<open>Id_Bitmap\<close> (\<open>id_bitmap.rs\<close>): the bitmap allocator; the locale \<open>run_allocator\<close> is the contract its
    clients hold runs by, interpreted on the bitmap.
  \<^item> \<open>Block_Group\<close> (\<open>block_group.rs\<close>): descriptors, loading, the search for an unpinned run, allocation and
    free of blocks and inodes, descriptor captures, sync.  \<open>Group_Alloc\<close> and \<open>Group_Free\<close> give each
    operation's effect on the free sets and counters.
  \<^item> \<open>Raw_Inode\<close> (\<open>inode/mod.rs\<close>): inode records, timestamps, device numbers, checksums and what survives a
    trip through the disk: all fields but an attribute block and some timestamps.
  \<^item> \<open>Ext4_Fs\<close> (\<open>fs.rs\<close>): the mounted instance with its allocators, orphan chain, inode slots and
    write-back, credit formulas, sync, shutdown and unmount.  \<open>Fs_Alloc\<close>, \<open>Fs_Free\<close> and \<open>Fs_Live\<close> prove the
    block allocator over the volume invariant \<open>fs_ok\<close>: what a call does to the set of free blocks and to
    the pins, and when it succeeds.  \<open>Volume_Correct\<close> states the properties over a small volume.
  \<^item> \<open>Extent_Node\<close>, \<open>Extent_Map\<close> (\<open>inode/extent_manager/\<close>): on-disk nodes, and the merge, conversion,
    truncation, punch and hole planning of extent lists as operations on the map they stand for.

  \<^bold>\<open>Bounds and fuel.\<close>  The loop of recovery over committed transactions has two rounds more than the log
  has blocks, since the ids of the transactions it counts stand in different blocks of the log;
  \<open>recovery_terminates\<close> shows the verdict is always reached.  The inner scans and the
  checkpoint end by the code's own bound against \<open>s_maxlen\<close>.  The search for a run holds at most as many
  candidates as the bitmap has bits, so \<open>hold_pinned\<close> runs \<open>bm_len + 1\<close> rounds (\<open>hold_pinned_enough\<close>).
  The walk of the orphan chain stops at a repeated inode, so it has one round per inode and one more.
  The drive loop of the commit thread is a partial function, proved to return once the other tasks leave
  the journal alone.  \<open>is_power_of\<close> divides a \<open>u32\<close> at most 32 times.  The loop of \<open>free_blocks\<close> is a partial function:
  it is proved to return for every run inside the volume.

  \<^bold>\<open>Not modelled.\<close>  The block device driver, the page cache and the allocation of kernel memory, which are
  outside these sources; locks, wait queues and thread control, whose effect is the atomicity of the
  transformers and the schedules above; live inode objects (\<open>inode/mod.rs\<close> from \<open>struct Inode\<close> on), the
  caches of them in the groups, file reads and writes, directories and symbolic links, which work through
  page caches; the order of the steps of mounting in \<open>Ext4::open\<close> and the reclaim of scanned orphans,
  which need those objects; the walk and rewriting of extent trees, whose list computations are modelled,
  the loop of a punch chunk over the credit probe and the block free as parameters; the traits of the virtual file system; tests.
\<close>

section \<open>Crash safety of commits\<close>

text \<open>C1: a commit is atomic under power loss.  Take a journal whose durable log holds the
  committed transactions \<open>xs\<close>, with arbitrary cached file-system writes, arbitrary refused
  writes and flushes that stop completing at any point, and run the commit of a staged
  transaction.  Whatever the commit returns and whatever part of the cached writes a crash
  keeps, mounting recovers successfully, and the file-system blocks then hold what replaying
  \<open>xs\<close> gives, or what replaying \<open>xs\<close> followed by the whole transaction gives with all of its
  ordered data in place; the second whenever the commit reported success.\<close>

theorem commit_crash_atomic:
  assumes "commit_ready j d xs txn" "try_commit_transaction secs nsecs j d txn = (r, j1, d1)" "crash d1 c"
    and "geometry j0 = geometry j"
  shows "\<exists>ys j2 d2.
    (ys = xs \<or> (\<exists>x. holds_transaction x txn \<and> ys = xs @ [x]) \<and>
       (\<forall>b. b \<notin> set (block_map (geometry j)) \<longrightarrow> durable c b = apply_writes (ordered_writes txn) (visible d) b)) \<and>
    (\<forall>t. r = Ok (Committed t) \<longrightarrow> ys \<noteq> xs) \<and>
    recover j0 (mounted (durable c)) = Some (Ok (), j2, d2) \<and>
    (\<forall>b. b \<notin> set (block_map (geometry j)) \<longrightarrow> visible d2 b = recovered (durable c) (log_tid j txn) ys b)"
proof -
  obtain ys where ys: "recoverable (geometry j) (durable c) (log_tid j txn) ys"
    "ys = xs \<or> (\<exists>x. holds_transaction x txn \<and> ys = xs @ [x]) \<and>
       (\<forall>b. b \<notin> set (block_map (geometry j)) \<longrightarrow> durable c b = apply_writes (ordered_writes txn) (visible d) b)"
    "\<forall>t. r = Ok (Committed t) \<longrightarrow> ys \<noteq> xs"
    using commit_crash_recoverable[OF assms(1-3)] by blast
  obtain j2 d2 where "recover j0 (mounted (durable c)) = Some (Ok (), j2, d2)"
    "\<forall>b. b \<notin> set (block_map (geometry j)) \<longrightarrow> visible d2 b = recovered (durable c) (log_tid j txn) ys b"
    using recover_recoverable[OF ys(1) assms(4)] by blast
  then show ?thesis using ys(2,3) by (intro exI[of _ ys] exI[of _ j2] exI[of _ d2] conjI)
qed

text \<open>The sample journal commits its transaction; every crash of the outcome, for instance one that
  drops all cached writes, is covered.\<close>

theorem commit_crash_atomic_witness:
  "\<exists>(ys :: LoggedTxn list) j2 d2. length ys \<le> 1 \<and>
     recover (Journal_new sample_geometry) (mounted (durable (drop_cache (snd (snd sample_commit))))) = Some (Ok (), j2, d2)"
proof -
  have run: "try_commit_transaction 0 0 sample_journal (mounted sample_image) sample_txn =
      (fst sample_commit, fst (snd sample_commit), snd (snd sample_commit))" by simp
  have "geometry (Journal_new sample_geometry) = geometry sample_journal" by simp
  from commit_crash_atomic[OF sample_commit_ready run crash_drop_cache this]
  obtain ys :: "LoggedTxn list" and j2 d2 where ys: "ys = [] \<or> (\<exists>x. ys = [] @ [x])"
    "recover (Journal_new sample_geometry) (mounted (durable (drop_cache (snd (snd sample_commit))))) = Some (Ok (), j2, d2)"
    by blast
  moreover have "length ys \<le> 1" using ys by auto
  ultimately show ?thesis by blast
qed

text \<open>C2: a reported commit is durable.  When the commit returns success, every crash image
  recovers, and afterwards each block the transaction captured holds exactly the captured
  after-image, while no log image overwrites a block the transaction revoked.\<close>

theorem committed_is_durable:
  assumes "commit_ready j d xs txn" "try_commit_transaction secs nsecs j d txn = (Ok (Committed t), j1, d1)" "crash d1 c"
    and "geometry j0 = geometry j" "maxlen (geometry j) \<le> 2 ^ 31"
  shows "\<exists>j2 d2. recover j0 (mounted (durable c)) = Some (Ok (), j2, d2) \<and>
    (\<forall>(b, cap)\<in>set (metadata txn). visible d2 b = buffer cap) \<and>
    (\<forall>b\<in>set (t_revoked txn). b \<notin> set (block_map (geometry j)) \<longrightarrow> visible d2 b = durable c b)"
proof -
  let ?g = "geometry j"
  obtain x where x: "recoverable ?g (durable c) (log_tid j txn) (xs @ [x])" "holds_transaction x txn"
    using commit_crash_recoverable[OF assms(1-3)] by blast
  obtain j2 d2 where r: "recover j0 (mounted (durable c)) = Some (Ok (), j2, d2)"
    "\<forall>b. b \<notin> set (block_map ?g) \<longrightarrow> visible d2 b = recovered (durable c) (log_tid j txn) (xs @ [x]) b"
    using recover_recoverable[OF x(1) assms(4)] by blast
  have ok: "transaction_ok txn" "\<forall>(b, _)\<in>set (metadata txn). b \<notin> set (block_map ?g)"
    using assms(1) by (auto simp: commit_ready_def committable_def)
  have len: "length (xs @ [x]) \<le> 2 ^ 31" using recoverable_length[OF x(1)] assms(5) by simp
  have "visible d2 b = buffer cap" if m: "(b, cap) \<in> set (metadata txn)" for b cap
    using recovered_captured[OF len x(2) ok(1) m] ok(2) m r(2) by auto
  moreover have "visible d2 b = durable c b" if "b \<in> set (t_revoked txn)" "b \<notin> set (block_map ?g)" for b
    using recovered_last_revoked[OF len, of b] x(2) that r(2) by (auto simp: holds_transaction_def)
  ultimately show ?thesis using r(1) by blast
qed

text \<open>The sample commit succeeds, so block 7 is durable with its captured image.\<close>

theorem committed_is_durable_witness:
  "\<exists>j1 d1 j2 d2. sample_commit = (Ok (Committed 1), j1, d1) \<and>
     recover (Journal_new sample_geometry) (mounted (durable (drop_cache d1))) = Some (Ok (), j2, d2) \<and>
     visible d2 7 = replicate BLOCK_SIZE 0"
proof -
  obtain j1 d1 where run: "sample_commit = (Ok (Committed 1), j1, d1)" using sample_commit_ok by blast
  have "geometry (Journal_new sample_geometry) = geometry sample_journal" "maxlen (geometry sample_journal) \<le> 2 ^ 31"
    by simp_all
  from committed_is_durable[OF sample_commit_ready run crash_drop_cache this] show ?thesis using run by auto
qed

section \<open>Recovery\<close>

text \<open>C5: recovery terminates.  Whatever the device holds and whichever reads, writes and flushes
  fail, mounting reaches a verdict: the scan over the log ends within the fuel of one step per log
  block, because a transaction found twice would need its id twice in the ring.\<close>

theorem recovery_terminates:
  assumes "length (block_map (geometry j)) < 2 ^ 32"
  shows "\<exists>r j' d'. recover j d = Some (r, j', d')"
  using recover_total[OF assms] .

theorem recovery_terminates_witness:
  "\<exists>r j' d'. recover sample_journal (mounted (\<lambda>b. replicate BLOCK_SIZE 255)) = Some (r, j', d')"
  by (rule recovery_terminates) simp

text \<open>C3: recovery refines the meaning of the log.  From an image whose log holds the committed
  transactions \<open>xs\<close>, recovery succeeds and leaves every file-system block with its newest logged
  image, where a revoke hides the images of its own and all earlier transactions, and with its old
  content when no image is left; the superblock then reads clean.\<close>

theorem recovery_refines_log:
  assumes "recoverable g m t xs" "geometry j = g" "maxlen g \<le> 2 ^ 31" "\<forall>x\<in>set xs. distinct (map fst (lt_writes x))"
  shows "\<exists>j' d'. recover j (mounted m) = Some (Ok (), j', d') \<and> pending d' = [] \<and>
    (\<forall>b. b \<notin> set (block_map g) \<longrightarrow> visible d' b = (case newest xs b of None \<Rightarrow> m b | Some v \<Rightarrow> v)) \<and>
    (\<exists>raw. read_raw_superblock g d' = Ok raw \<and> s_start raw = 0)"
proof -
  have "length xs \<le> 2 ^ 31" using recoverable_length[OF assms(1)] assms(3) by simp
  then show ?thesis
    using recover_recoverable[OF assms(1,2)] recovered_newest[OF _ assms(4)] by fastforce
qed

text \<open>The image the sample commit leaves: its one transaction is replayed.\<close>

theorem recovery_refines_log_witness:
  "\<exists>j1 d1 x j' d'. sample_commit = (Ok (Committed 1), j1, d1) \<and> lt_writes x = [(7, replicate BLOCK_SIZE 0)] \<and>
     recover (Journal_new sample_geometry) (mounted (durable d1)) = Some (Ok (), j', d') \<and>
     visible d' 7 = (case newest [x] 7 of None \<Rightarrow> durable d1 7 | Some v \<Rightarrow> v)"
proof -
  obtain j1 d1 where run: "sample_commit = (Ok (Committed 1), j1, d1)" using sample_commit_ok by blast
  obtain x where x: "recoverable sample_geometry (durable d1) (log_tid sample_journal sample_txn) [x]" "holds_transaction x sample_txn"
    using commit_crash_recoverable[OF sample_commit_ready run crash_drop_cache] by auto
  have w: "lt_writes x = [(7, replicate BLOCK_SIZE 0)]" using x(2) by (simp add: holds_transaction_def metadata_blocks_def)
  have "\<forall>y\<in>set [x]. distinct (map fst (lt_writes y))" using w by simp
  from recovery_refines_log[OF x(1) _ _ this, of "Journal_new sample_geometry"]
  obtain j' d' where "recover (Journal_new sample_geometry) (mounted (durable d1)) = Some (Ok (), j', d')"
    "visible d' 7 = (case newest [x] 7 of None \<Rightarrow> durable d1 7 | Some v \<Rightarrow> v)" by auto
  then show ?thesis using run w by blast
qed

text \<open>C4: recovery is idempotent under power loss.  A recovery whose device stops completing flushes
  at any point and then loses power, keeping any part of the cached writes, leaves an image from which
  the next recovery succeeds, and the file-system content it leaves is exactly that of one
  uninterrupted recovery.\<close>

theorem recovery_crash_idempotent:
  assumes "recoverable (geometry j) m t xs" "recover j (attached n m) = Some (r, j1, d1)" "crash d1 c"
  shows "\<exists>j2 d2 j3 d3. recover j (mounted (durable c)) = Some (Ok (), j2, d2) \<and>
    recover j (mounted m) = Some (Ok (), j3, d3) \<and>
    (\<forall>b. b \<notin> set (block_map (geometry j)) \<longrightarrow> visible d2 b = visible d3 b)"
proof -
  obtain ys where ys: "recoverable (geometry j) (durable c) t ys"
    "\<forall>b. b \<notin> set (block_map (geometry j)) \<longrightarrow> recovered (durable c) t ys b = recovered m t xs b"
    using recovery_crash_recoverable[OF assms(1) refl assms(2,3)] by blast
  obtain j2 d2 where "recover j (mounted (durable c)) = Some (Ok (), j2, d2)"
    "\<forall>b. b \<notin> set (block_map (geometry j)) \<longrightarrow> visible d2 b = recovered (durable c) t ys b"
    using recover_recoverable[OF ys(1) refl] by blast
  moreover obtain j3 d3 where "recover j (mounted m) = Some (Ok (), j3, d3)"
    "\<forall>b. b \<notin> set (block_map (geometry j)) \<longrightarrow> visible d3 b = recovered m t xs b"
    using recover_recoverable[OF assms(1) refl] by blast
  ultimately show ?thesis using ys(2) by auto
qed

theorem recovery_crash_idempotent_witness:
  "\<exists>j1 d1 x r j2 d2 j3 d3 j4 d4. sample_commit = (Ok (Committed 1), j1, d1) \<and> lt_writes x = [(7, replicate BLOCK_SIZE 0)] \<and>
     recover (Journal_new sample_geometry) (attached (Some 0) (durable d1)) = Some (r, j2, d2) \<and>
     recover (Journal_new sample_geometry) (mounted (durable (drop_cache d2))) = Some (Ok (), j3, d3) \<and>
     recover (Journal_new sample_geometry) (mounted (durable d1)) = Some (Ok (), j4, d4) \<and> visible d3 7 = visible d4 7"
proof -
  let ?j = "Journal_new sample_geometry"
  obtain j1 d1 where run: "sample_commit = (Ok (Committed 1), j1, d1)" using sample_commit_ok by blast
  obtain x where x: "recoverable sample_geometry (durable d1) (log_tid sample_journal sample_txn) [x]" "holds_transaction x sample_txn"
    using commit_crash_recoverable[OF sample_commit_ready run crash_drop_cache] by auto
  have w: "lt_writes x = [(7, replicate BLOCK_SIZE 0)]" using x(2) by (simp add: holds_transaction_def metadata_blocks_def)
  obtain r j2 d2 where r: "recover ?j (attached (Some 0) (durable d1)) = Some (r, j2, d2)"
    using recover_total[of ?j "attached (Some 0) (durable d1)"] by auto
  have "recoverable (geometry ?j) (durable d1) (log_tid sample_journal sample_txn) [x]" using x(1) by simp
  from recovery_crash_idempotent[OF this r crash_drop_cache] obtain j3 d3 j4 d4
    where "recover ?j (mounted (durable (drop_cache d2))) = Some (Ok (), j3, d3)"
      "recover ?j (mounted (durable d1)) = Some (Ok (), j4, d4)" "visible d3 7 = visible d4 7" by auto
  then show ?thesis using run w r by blast
qed

section \<open>Committing\<close>

text \<open>C6: a commit that fits succeeds.  On a working device a staged transaction with at least one
  capture, block numbers the tag layout can express and a predicted footprint within the free log
  blocks is committed, and the log then holds it behind the transactions it held before, with exactly
  its captured images and its revokes.\<close>

theorem commit_appends_transaction:
  assumes "journal_log j d xs" "committable j xs txn" "metadata txn \<noteq> []" "fits_layout (tag_layout (geometry j)) txn"
    and "worst_case_footprint (geometry j) (nr_metadata_blocks txn) (nr_revoke_blocks txn (tag_layout (geometry j)))
           \<le> free_log_blocks (geometry j) (head (jstate j)) (tail_block (jstate j))"
    and "length (block_map (geometry j)) < 2 ^ 32 - 1"
  shows "\<exists>j' d' x. try_commit_transaction secs nsecs j d txn = (Ok (Committed (t_tid txn)), j', d') \<and>
    holds_transaction x txn \<and> journal_log j' d' (xs @ [x])"
proof -
  obtain j' d' where run: "try_commit_transaction secs nsecs j d txn = (Ok (Committed (t_tid txn)), j', d')"
    using commit_succeeds_if_room[OF assms] by blast
  then show ?thesis using commit_extends_log[OF assms(1,2) run] unfolding holds_transaction_def by blast
qed

theorem commit_appends_transaction_witness:
  "\<exists>j' d' x. sample_commit = (Ok (Committed 1), j', d') \<and> holds_transaction x sample_txn \<and> journal_log j' d' [x]"
proof -
  have "\<exists>j' d' x. sample_commit = (Ok (Committed (t_tid sample_txn)), j', d') \<and>
      holds_transaction x sample_txn \<and> journal_log j' d' ([] @ [x])"
    using sample_commit_room
    by (intro commit_appends_transaction[OF sample_log sample_committable])
       (simp_all add: fits_layout_def blocknr_fits_def free_log_blocks_def)
  then show ?thesis by simp
qed

text \<open>C27: the credit limit is sound.  A transaction with a capture, at most one revoke block and no
  more captures than \<open>max_credits\<close> is built into no more log blocks than the ring has, so an empty log
  always has room for it.\<close>

theorem max_credits_always_fit:
  assumes "geometry_ok (geometry j)" "2 \<le> ring_size (geometry j)" "metadata txn \<noteq> []" "fits_layout (tag_layout (geometry j)) txn"
    and "nr_metadata_blocks txn \<le> max_credits (geometry j)" "nr_revoke_blocks txn (tag_layout (geometry j)) \<le> 1"
  shows "\<exists>revs chain. build_revoke_blocks txn (tag_layout (geometry j)) (csum_seed (geometry j)) = Ok revs \<and>
    build_descriptor_chain txn (tag_layout (geometry j)) (csum_seed (geometry j)) = Ok chain \<and>
    commit_footprint revs chain \<le> free_log_blocks (geometry j) (head (jstate j)) None"
proof -
  have "nr_metadata_blocks txn + div_ceil (nr_metadata_blocks txn) (tags_per_descriptor (tag_layout (geometry j))) + 2
      \<le> free_log_blocks (geometry j) (head (jstate j)) None"
    using max_credits_footprint[OF assms(1,5,2)] by (simp add: free_log_blocks_def ring_size_def)
  then show ?thesis using build_total[OF assms(1,3,4)] assms(6) by force
qed

theorem max_credits_always_fit_witness:
  "\<exists>revs chain. build_revoke_blocks sample_txn (tag_layout sample_geometry) None = Ok revs \<and>
    build_descriptor_chain sample_txn (tag_layout sample_geometry) None = Ok chain \<and> commit_footprint revs chain \<le> 7"
proof -
  have "nr_metadata_blocks sample_txn \<le> max_credits sample_geometry"
    by (simp add: nr_metadata_blocks_def max_credits_def sample_geometry_def tag_layout_def tags_per_descriptor_def
        tag_area_end_def first_tag_offset_def format_consts BLOCK_SIZE_def maxlen_def first_def)
  moreover have "nr_revoke_blocks sample_txn (tag_layout sample_geometry) \<le> 1"
    by (simp add: nr_revoke_blocks_def div_ceil_def sample_geometry_def tag_layout_def revoke_entries_per_block_def
        tag_area_end_def revoke_entry_width_def format_consts BLOCK_SIZE_def)
  ultimately show ?thesis
    using max_credits_always_fit[of sample_journal sample_txn] sample_geometry_ok
    by (simp add: ring_size_def fits_layout_def blocknr_fits_def free_log_blocks_def)
qed

end
